(* ===== verification/Prelude.thy ===== *)
theory Prelude
  imports Main "HOL-Library.Word"
begin

text \<open>
  Shared vocabulary of the LambOS development: the machine integers of the i386 target,
  the faults a C++ expression of the kernel can run into, the error monad the component
  models are written in, bounds-checked array access, the counted loop, and the generic
  lemmas on lists and words the component theories rely on.

  A C++ read or write outside an array, a null dereference and a division by zero are
  undefined behaviour, as are a shift by the width of its operand and a \<open>va_arg\<close> of another
  type; the models return them as values of \<open>fault\<close>, so that a theorem that an operation
  returns \<open>Inr\<close> says that no undefined behaviour happens on the way.
  \<open>KernelPanic\<close> is a call of \<open>Kernel::panic\<close>, which halts the machine.
\<close>

unbundle bit_operations_syntax

named_theorems res_simps \<open>evaluation of the error monad\<close>
named_theorems inv_defs \<open>definitions of the component invariants\<close>

section \<open>Machine integers\<close>

type_synonym u8 = "8 word"
type_synonym u16 = "16 word"
type_synonym u32 = "32 word"
type_synonym u64 = "64 word"

text \<open>On i386 \<open>std::size_t\<close> and \<open>std::uintptr_t\<close> are 32 bits wide.\<close>

type_synonym size_t = "32 word"
type_synonym uintptr = "32 word"

section \<open>Faults and the error monad\<close>

datatype fault =
    OutOfBounds
  | NullPointer
  | DivideByZero
  | PageFault
  | Hang
  | DoubleFree
  | UseAfterFree
  | SignedOverflow
  | InvalidShift
  | BadVarArg
  | KernelPanic string

type_synonym 'a res = "fault + 'a"

definition rbind :: "'a res \<Rightarrow> ('a \<Rightarrow> 'b res) \<Rightarrow> 'b res" where
  "rbind m f = (case m of Inl e \<Rightarrow> Inl e | Inr x \<Rightarrow> f x)"

lemma rbind_simps [simp, res_simps]:
  "rbind (Inl e) f = Inl e"
  "rbind (Inr x) f = f x"
  by (simp_all add: rbind_def)

lemma rbind_Inr_iff: "rbind r g = Inr b \<longleftrightarrow> (\<exists>a. g a = Inr b \<and> r = Inr a)"
  by (cases r) auto

lemma rbind_Inl_iff: "rbind m f = Inl e \<longleftrightarrow> m = Inl e \<or> (\<exists>x. m = Inr x \<and> f x = Inl e)"
  by (cases m) auto

lemma rbind_InrE [elim!]:
  assumes "rbind m f = Inr y"
  obtains x where "m = Inr x" "f x = Inr y"
  using assms by (auto simp: rbind_Inr_iff)

lemma rbind_cong [fundef_cong]:
  "m = m' \<Longrightarrow> (\<And>x. m' = Inr x \<Longrightarrow> f x = f' x) \<Longrightarrow> rbind m f = rbind m' f'"
  by (cases m') auto

lemma rbind_assoc [simp]: "rbind (rbind m f) g = rbind m (\<lambda>x. rbind (f x) g)"
  by (cases m) auto

section \<open>Arrays\<close>

definition aread :: "'a list \<Rightarrow> nat \<Rightarrow> 'a res" where
  "aread xs i = (if i < length xs then Inr (xs ! i) else Inl OutOfBounds)"

definition awrite :: "'a list \<Rightarrow> nat \<Rightarrow> 'a \<Rightarrow> 'a list res" where
  "awrite xs i v = (if i < length xs then Inr (xs[i := v]) else Inl OutOfBounds)"

lemma aread_in [simp, res_simps]: "i < length xs \<Longrightarrow> aread xs i = Inr (xs ! i)"
  by (simp add: aread_def)

lemma aread_out [simp, res_simps]: "\<not> i < length xs \<Longrightarrow> aread xs i = Inl OutOfBounds"
  by (simp add: aread_def)

lemma awrite_in [simp, res_simps]: "i < length xs \<Longrightarrow> awrite xs i v = Inr (xs[i := v])"
  by (simp add: awrite_def)

lemma awrite_out [simp, res_simps]: "\<not> i < length xs \<Longrightarrow> awrite xs i v = Inl OutOfBounds"
  by (simp add: awrite_def)

lemma aread_Inr_iff: "aread xs i = Inr x \<longleftrightarrow> i < length xs \<and> x = xs ! i"
  by (auto simp: aread_def)

lemma awrite_Inr_iff: "awrite xs i v = Inr ys \<longleftrightarrow> i < length xs \<and> ys = xs[i := v]"
  by (auto simp: awrite_def)

text \<open>An array with a range overwritten.\<close>

definition patch :: "nat \<Rightarrow> 'a list \<Rightarrow> 'a list \<Rightarrow> 'a list" where
  "patch off xs b = take off b @ xs @ drop (off + length xs) b"

lemma length_patch [simp]: "off + length xs \<le> length b \<Longrightarrow> length (patch off xs b) = length b"
  by (simp add: patch_def)

lemma patch_nil [simp]: "patch off [] b = b"
  by (simp add: patch_def)

lemma patch_append:
  "off + length xs + length ys \<le> length b \<Longrightarrow> patch (off + length xs) ys (patch off xs b) = patch off (xs @ ys) b"
  by (cases xs) (auto simp: patch_def min_def ac_simps)

lemma patch_Cons: "i < length b \<Longrightarrow> patch (Suc i) xs (b[i := x]) = patch i (x # xs) b"
  by (simp add: patch_def take_Suc_conv_app_nth drop_update_cancel)

lemma take_patch: "off + length xs \<le> length b \<Longrightarrow> take (off + length xs) (patch off xs b) = take off b @ xs"
  by (simp add: patch_def)

lemma slice_patch_same: "off + length xs \<le> length b \<Longrightarrow> length xs = n \<Longrightarrow> take n (drop off (patch off xs b)) = xs"
  by (simp add: patch_def)

lemma nth_patch_other: "off + length xs \<le> length b \<Longrightarrow> i < length b \<Longrightarrow> i < off \<or> off + length xs \<le> i \<Longrightarrow> patch off xs b ! i = b ! i"
  by (auto simp: patch_def nth_append)

lemma slice_patch_other:
  "off + length xs \<le> length b \<Longrightarrow> k + n \<le> length b \<Longrightarrow> k + n \<le> off \<or> off + length xs \<le> k \<Longrightarrow>
   take n (drop k (patch off xs b)) = take n (drop k b)"
  by (rule nth_equalityI) (auto simp: nth_patch_other)

section \<open>Counted loops\<close>

text \<open>
  \<open>rfor body i k s\<close> is the loop \<open>for (j = i; j < i + k; ++j) s = body(j, s)\<close>; a fault in
  the body ends it.
\<close>

fun rfor :: "(nat \<Rightarrow> 's \<Rightarrow> 's res) \<Rightarrow> nat \<Rightarrow> nat \<Rightarrow> 's \<Rightarrow> 's res" where
  "rfor body i 0 s = Inr s"
| "rfor body i (Suc k) s = rbind (body i s) (rfor body (Suc i) k)"

lemma rfor_invariant:
  assumes "P i s"
    and "\<And>j t. i \<le> j \<Longrightarrow> j < i + k \<Longrightarrow> P j t \<Longrightarrow> \<exists>t'. body j t = Inr t' \<and> P (Suc j) t'"
  shows "\<exists>t. rfor body i k s = Inr t \<and> P (i + k) t"
  using assms
proof (induction k arbitrary: i s)
  case 0
  then show ?case by simp
next
  case (Suc k)
  from Suc.prems(1) obtain t where t: "body i s = Inr t" "P (Suc i) t"
    using Suc.prems(2)[of i s] by auto
  have "\<exists>u. rfor body (Suc i) k t = Inr u \<and> P (Suc i + k) u"
    by (rule Suc.IH[OF t(2)]) (use Suc.prems(2) in auto)
  with t(1) show ?case by auto
qed

lemma rfor_Inr_invariant:
  assumes "rfor body i k s = Inr t" and "P i s"
    and "\<And>j u u'. i \<le> j \<Longrightarrow> j < i + k \<Longrightarrow> P j u \<Longrightarrow> body j u = Inr u' \<Longrightarrow> P (Suc j) u'"
  shows "P (i + k) t"
  using assms
proof (induction k arbitrary: i s)
  case 0
  then show ?case by simp
next
  case (Suc k)
  from Suc.prems(1) obtain u where u: "body i s = Inr u" "rfor body (Suc i) k u = Inr t"
    by auto
  have "P (Suc i) u" using Suc.prems(2,3) u(1) by auto
  then have "P (Suc i + k) t"
    by (rule Suc.IH[OF u(2)]) (use Suc.prems(3) in auto)
  then show ?case by simp
qed

section \<open>Words\<close>

lemma unat_of_nat_small [simp]: "n < 2 ^ 32 \<Longrightarrow> unat (of_nat n :: u32) = n"
  by (simp add: unat_of_nat take_bit_nat_eq_self)

lemma unat_of_nat16: "n < 65536 \<Longrightarrow> unat (of_nat n :: u16) = n"
  by (simp add: unat_of_nat take_bit_nat_eq_self)

lemma unat_lt32 [simp]: "unat (x :: u32) < 4294967296"
  using unsigned_less[of x] by simp

lemma word32_eq_iff_unat: "(x :: u32) = y \<longleftrightarrow> unat x = unat y"
  by (rule word_unat_eq_iff)

lemma unat_plus_small:
  "unat (x :: u32) + unat y < 4294967296 \<Longrightarrow> unat (x + y) = unat x + unat y"
  by (simp add: unat_word_ariths)

lemma unat_div32 [simp]: "unat ((x :: u32) div y) = unat x div unat y"
  by (simp add: unat_div_distrib)

lemma unat_mod32 [simp]: "unat ((x :: u32) mod y) = unat x mod unat y"
  by (simp add: unat_mod_distrib)

lemma unat_inc:
  assumes "x < (y :: u32)"
  shows "unat (x + 1) = unat x + 1"
proof -
  have "unat x < unat y" using assms by (simp add: word_less_nat_alt)
  moreover have "unat y < 4294967296" by simp
  ultimately have "unat x + 1 < 4294967296" by linarith
  then show ?thesis by (subst unat_plus_small) simp_all
qed

lemma inc_le32: "x < (y :: u32) \<Longrightarrow> x + 1 \<le> y"
  using unat_inc[of x y] by (simp add: word_le_nat_alt word_less_nat_alt)

lemma unat_sub_wrap: "x < (y :: u32) \<Longrightarrow> unat (x - y) = 2 ^ 32 - (unat y - unat x)"
  by (simp add: unat_sub_if' word_less_nat_alt)

lemma bit_255: "bit (0xFF :: int) n \<longleftrightarrow> n < 8"
proof -
  have "(0xFF :: int) = mask 8" by (simp add: mask_eq_exp_minus_1)
  then show ?thesis by (simp only: bit_mask_iff possible_bit_int) simp
qed

lemma word_less_pos: "x < (y :: u32) \<Longrightarrow> 0 < y"
  by (simp add: word_less_nat_alt)

end
