(* ===== verification/Bit_Set.thy ===== *)
theory Bit_Set
  imports Prelude
begin

text \<open>
  \<open>sys::BitSet\<close> (\<open>libsys/include/util/BitSet.hpp\<close>): a fixed array of 32-bit store units.
  The model keeps the units as a list of words, with every access bounds-checked, and
  relates it to the set of bit numbers that are set. The locale \<open>bit_store\<close> is the
  interface the page frame allocator relies on.
\<close>

section \<open>The model\<close>

type_synonym bitset = "u32 list"

text \<open>Bits per store unit: \<open>8 * sizeof(unsigned int)\<close>.\<close>

definition kBPU :: nat where
  "kBPU = 32"

text \<open>\<open>sys::div_ceil\<close> on unsigned operands.\<close>

definition div_ceil :: "nat \<Rightarrow> nat \<Rightarrow> nat" where
  "div_ceil dividend divisor =
     (let quot = dividend div divisor; rm = dividend mod divisor in quot + (if rm > 0 then 1 else 0))"

definition BitSet_new :: "nat \<Rightarrow> bool \<Rightarrow> bitset" where
  "BitSet_new sizeBits initial =
     replicate (div_ceil sizeBits kBPU) (if initial then 0xFFFFFFFF else 0)"

definition bitmask :: "size_t \<Rightarrow> u32" where
  "bitmask idx = push_bit (unat idx mod kBPU) 1"

definition unitForBit :: "bitset \<Rightarrow> size_t \<Rightarrow> u32 res" where
  "unitForBit bs idx = aread bs (unat idx div kBPU)"

definition BitSet_test :: "bitset \<Rightarrow> size_t \<Rightarrow> bool res" where
  "BitSet_test bs idx = rbind (unitForBit bs idx) (\<lambda>u. Inr (u AND bitmask idx \<noteq> 0))"

definition BitSet_set :: "bitset \<Rightarrow> size_t \<Rightarrow> (bool \<times> bitset) res" where
  "BitSet_set bs idx =
     rbind (BitSet_test bs idx) (\<lambda>prev.
     rbind (unitForBit bs idx) (\<lambda>u.
     rbind (awrite bs (unat idx div kBPU) (u OR bitmask idx)) (\<lambda>bs'. Inr (prev, bs'))))"

definition BitSet_unset :: "bitset \<Rightarrow> size_t \<Rightarrow> (bool \<times> bitset) res" where
  "BitSet_unset bs idx =
     rbind (BitSet_test bs idx) (\<lambda>prev.
     rbind (unitForBit bs idx) (\<lambda>u.
     rbind (awrite bs (unat idx div kBPU) (u AND NOT (bitmask idx))) (\<lambda>bs'. Inr (prev, bs'))))"

text \<open>\<open>bits[i] = b\<close> goes through \<open>ProxyBit::operator=\<close>, which drops the previous value.\<close>

definition ProxyBit_assign :: "bitset \<Rightarrow> size_t \<Rightarrow> bool \<Rightarrow> bitset res" where
  "ProxyBit_assign bs idx b =
     rbind (if b then BitSet_set bs idx else BitSet_unset bs idx) (\<lambda>(prev, bs'). Inr bs')"

definition BitSet_size :: "bitset \<Rightarrow> nat" where
  "BitSet_size bs = 4 * length bs"

section \<open>Abstraction to a set of bit numbers\<close>

definition bit_capacity :: "bitset \<Rightarrow> nat" where
  "bit_capacity bs = 32 * length bs"

definition bits_of :: "bitset \<Rightarrow> nat set" where
  "bits_of bs = {i. i < bit_capacity bs \<and> bit (bs ! (i div 32)) (i mod 32)}"

lemma unit_index_lt: "i < bit_capacity bs \<longleftrightarrow> i div 32 < length bs"
  by (auto simp: bit_capacity_def)

lemma and_exp_eq_0: "(w :: u32) AND 2 ^ n = 0 \<longleftrightarrow> \<not> bit w n"
  using bit_iff_and_push_bit_not_eq_0[of w n] by simp

lemma BitSet_test_eq:
  "BitSet_test bs b =
     (if unat b < bit_capacity bs then Inr (unat b \<in> bits_of bs) else Inl OutOfBounds)"
  by (simp add: BitSet_test_def unitForBit_def kBPU_def bitmask_def aread_def
      and_exp_eq_0 unit_index_lt bits_of_def)

lemma bit_capacity_update [simp]: "bit_capacity (bs[i := w]) = bit_capacity bs"
  by (simp add: bit_capacity_def)

lemma bits_of_update:
  assumes "k < length bs"
    and "\<And>n. n < 32 \<Longrightarrow> bit w n \<longleftrightarrow> (if n = m then v else bit (bs ! k) n)" and "m < 32"
  shows "bits_of (bs[k := w]) =
    (if v then insert (32 * k + m) (bits_of bs) else bits_of bs - {32 * k + m})"
proof -
  have "i \<in> bits_of (bs[k := w]) \<longleftrightarrow> (if i = 32 * k + m then v else i \<in> bits_of bs)" for i
  proof (cases "i div 32 = k")
    case True
    then have "i = 32 * k + i mod 32" by (metis mult_div_mod_eq)
    then have "i = 32 * k + m \<longleftrightarrow> i mod 32 = m" by arith
    with True assms show ?thesis
      by (auto simp: bits_of_def unit_index_lt nth_list_update)
  next
    case False
    moreover have "i = 32 * k + m \<Longrightarrow> i div 32 = k" using assms(3) by simp
    ultimately show ?thesis by (auto simp: bits_of_def nth_list_update)
  qed
  then show ?thesis by (intro set_eqI) simp
qed

lemma BitSet_set_eq:
  "BitSet_set bs b = (if unat b < bit_capacity bs
     then Inr (unat b \<in> bits_of bs,
       bs[unat b div 32 := bs ! (unat b div 32) OR bitmask b]) else Inl OutOfBounds)"
  by (simp add: BitSet_set_def BitSet_test_eq unitForBit_def kBPU_def unit_index_lt)

lemma BitSet_unset_eq:
  "BitSet_unset bs b = (if unat b < bit_capacity bs
     then Inr (unat b \<in> bits_of bs,
       bs[unat b div 32 := bs ! (unat b div 32) AND NOT (bitmask b)]) else Inl OutOfBounds)"
  by (simp add: BitSet_unset_def BitSet_test_eq unitForBit_def kBPU_def unit_index_lt)

lemma bits_of_set:
  assumes "unat b < bit_capacity bs"
  shows "bits_of (bs[unat b div 32 := bs ! (unat b div 32) OR bitmask b])
    = insert (unat b) (bits_of bs)"
  using bits_of_update[of "unat b div 32" bs "bs ! (unat b div 32) OR bitmask b"
      "unat b mod 32" True] assms
  by (auto simp: unit_index_lt bitmask_def kBPU_def bit_simps)

lemma bits_of_unset:
  assumes "unat b < bit_capacity bs"
  shows "bits_of (bs[unat b div 32 := bs ! (unat b div 32) AND NOT (bitmask b)])
    = bits_of bs - {unat b}"
  using bits_of_update[of "unat b div 32" bs "bs ! (unat b div 32) AND NOT (bitmask b)"
      "unat b mod 32" False] assms
  by (auto simp: unit_index_lt bitmask_def kBPU_def bit_simps)

lemma ProxyBit_assign_ok:
  assumes "unat b < bit_capacity bs"
  shows "\<exists>bs'. ProxyBit_assign bs b v = Inr bs' \<and> bit_capacity bs' = bit_capacity bs \<and>
    bits_of bs' = (if v then insert (unat b) (bits_of bs) else bits_of bs - {unat b})"
  using assms
  by (auto simp: ProxyBit_assign_def BitSet_set_eq BitSet_unset_eq bits_of_set bits_of_unset)

lemma ProxyBit_assign_out:
  "\<not> unat b < bit_capacity bs \<Longrightarrow> ProxyBit_assign bs b v = Inl OutOfBounds"
  by (simp add: ProxyBit_assign_def BitSet_set_eq BitSet_unset_eq)

lemma bit_capacity_new: "bit_capacity (BitSet_new n v) = 32 * div_ceil n 32"
  by (simp add: BitSet_new_def bit_capacity_def kBPU_def)

lemma div_ceil_bounds: "0 < d \<Longrightarrow> n \<le> d * div_ceil n d \<and> d * div_ceil n d < n + d"
proof -
  assume d: "0 < d"
  define q r where "q = d * (n div d)" and "r = n mod d"
  then have n: "n = q + r" and "r < d" using d by simp_all
  moreover have "d * div_ceil n d = q + (if r > 0 then d else 0)"
    by (simp add: div_ceil_def Let_def q_def r_def add_mult_distrib2)
  ultimately show ?thesis by auto
qed

lemma bits_of_new: "bits_of (BitSet_new n v) = (if v then {..<bit_capacity (BitSet_new n v)} else {})"
proof -
  have "bit (0xFFFFFFFF :: u32) k" if "k < 32" for k
  proof -
    have "(0xFFFFFFFF :: u32) = mask 32" by (simp add: mask_eq_exp_minus_1)
    then show ?thesis using that by (simp only: bit_mask_iff) simp
  qed
  then show ?thesis
    by (auto simp: bits_of_def unit_index_lt BitSet_new_def kBPU_def)
qed

section \<open>The interface of a bit store\<close>

text \<open>
  What a client of a bit set relies on: reads and writes succeed exactly below the
  capacity, a write changes the membership of one bit and nothing else. The loop lemma is
  the one the frame allocator uses to mark and to clear runs of frames.
\<close>

locale bit_store =
  fixes tst :: "'b \<Rightarrow> size_t \<Rightarrow> bool res"
    and assign :: "'b \<Rightarrow> size_t \<Rightarrow> bool \<Rightarrow> 'b res"
    and cap :: "'b \<Rightarrow> nat"
    and members :: "'b \<Rightarrow> nat set"
  assumes tst_in: "unat i < cap b \<Longrightarrow> tst b i = Inr (unat i \<in> members b)"
    and tst_out: "\<not> unat i < cap b \<Longrightarrow> tst b i = Inl OutOfBounds"
    and assign_in: "unat i < cap b \<Longrightarrow> \<exists>b'. assign b i v = Inr b' \<and> cap b' = cap b \<and>
      members b' = (if v then insert (unat i) (members b) else members b - {unat i})"
    and assign_out: "\<not> unat i < cap b \<Longrightarrow> assign b i v = Inl OutOfBounds"
    and members_bounded: "members b \<subseteq> {..<cap b}"
begin

lemma assign_range:
  assumes "unat x + m + k \<le> cap b" and "cap b \<le> 2 ^ 32"
  shows "\<exists>b'. rfor (\<lambda>j b. assign b (x + of_nat j) v) m k b = Inr b' \<and> cap b' = cap b \<and>
    members b' = (if v then members b \<union> {unat x + m..<unat x + m + k}
      else members b - {unat x + m..<unat x + m + k})"
proof -
  let ?P = "\<lambda>j t. cap t = cap b \<and>
    members t = (if v then members b \<union> {unat x + m..<unat x + j}
      else members b - {unat x + m..<unat x + j})"
  have "\<exists>t. rfor (\<lambda>j b. assign b (x + of_nat j) v) m k b = Inr t \<and> ?P (m + k) t"
  proof (rule rfor_invariant[where P = ?P])
    show "?P m b" by simp
    fix j t assume j: "m \<le> j" "j < m + k" "?P j t"
    have eq: "unat (x + of_nat j :: size_t) = unat x + j"
      using j assms by (subst unat_plus_small) auto
    then have lt: "unat (x + of_nat j :: size_t) < cap t"
      using j assms by simp
    from assign_in[OF lt, of v] obtain t' where
      "assign t (x + of_nat j) v = Inr t'" "cap t' = cap t"
      "members t' = (if v then insert (unat x + j) (members t) else members t - {unat x + j})"
      by (auto simp: eq)
    moreover have "{unat x + m..<unat x + Suc j} = insert (unat x + j) {unat x + m..<unat x + j}"
      using j(1) by auto
    ultimately show "\<exists>t'. assign t (x + of_nat j) v = Inr t' \<and> ?P (Suc j) t'"
      using j(3) by auto
  qed
  then show ?thesis unfolding add.assoc .
qed

lemma assign_range_out:
  assumes "unat x + m \<le> cap b" "cap b < unat x + m + k" and "cap b < 2 ^ 32"
  shows "rfor (\<lambda>j b. assign b (x + of_nat j) v) m k b = Inl OutOfBounds"
  using assms
proof (induction k arbitrary: m b)
  case 0
  then show ?case by simp
next
  case (Suc k)
  have eq: "unat (x + of_nat m :: size_t) = unat x + m"
    using Suc.prems by (subst unat_plus_small) auto
  show ?case
  proof (cases "unat x + m < cap b")
    case True
    then obtain b' where b': "assign b (x + of_nat m) v = Inr b'" "cap b' = cap b"
      using assign_in[of "x + of_nat m" b v] by (auto simp: eq)
    have "rfor (\<lambda>j b. assign b (x + of_nat j) v) (Suc m) k b' = Inl OutOfBounds"
      by (rule Suc.IH) (use True b' Suc.prems in auto)
    with b'(1) show ?thesis by simp
  next
    case False
    then show ?thesis by (simp add: assign_out eq)
  qed
qed

lemma tst_Inr_iff: "tst b i = Inr v \<longleftrightarrow> unat i < cap b \<and> (v \<longleftrightarrow> unat i \<in> members b)"
  by (cases "unat i < cap b") (auto simp: tst_in tst_out)

end

interpretation bs: bit_store BitSet_test ProxyBit_assign bit_capacity bits_of
proof unfold_locales
  show "bits_of b \<subseteq> {..<bit_capacity b}" for b by (auto simp: bits_of_def)
qed (simp_all add: BitSet_test_eq ProxyBit_assign_ok ProxyBit_assign_out)

section \<open>Properties\<close>

text \<open>
  Reading a bit back after \<open>ProxyBit::operator=\<close>: the written bit has the written
  value and every other bit keeps its value, whatever store unit it shares.
\<close>

theorem BitSet_assign_test:
  assumes "unat i < bit_capacity b" and "unat j < bit_capacity b"
  shows "\<exists>b'. ProxyBit_assign b i v = Inr b' \<and>
    BitSet_test b' j = (if j = i then Inr v else BitSet_test b j)"
proof -
  from bs.assign_in[OF assms(1), of v] obtain b' where b':
    "ProxyBit_assign b i v = Inr b'" "bit_capacity b' = bit_capacity b"
    "bits_of b' = (if v then insert (unat i) (bits_of b) else bits_of b - {unat i})"
    by auto
  then have "BitSet_test b' j = (if j = i then Inr v else BitSet_test b j)"
    using assms by (auto simp: bs.tst_in word32_eq_iff_unat)
  with b'(1) show ?thesis by blast
qed

theorem BitSet_assign_test_witness:
  "\<exists>b'. ProxyBit_assign [0, 8] 35 False = Inr b' \<and>
    BitSet_test b' 35 = (if (35::size_t) = 35 then Inr False else BitSet_test [0, 8] 35)"
  by (rule BitSet_assign_test) (simp_all add: bit_capacity_def)

end
