(* ===== verification/Frames.thy ===== *)
theory Frames
  imports Bit_Set
begin

text \<open>
  \<open>PageFrameAllocator\<close> (\<open>kernel/include/mem/PageFrameAllocator.hpp\<close>,
  \<open>kernel/src/arch/i386/mem/PageFrameAllocator.cpp\<close>): the physical page frames of the
  4 GiB address space, as a bitmap of usable and a bitmap of used frames, with next-fit
  allocation of contiguous runs. The multiboot memory map is read from byte-addressed
  memory, entry by entry.
\<close>

section \<open>Constants and conversions\<close>

definition kPagesInBitmap :: nat where
  "kPagesInBitmap = 1048576"

definition k4KPageAddressMask :: u32 where
  "k4KPageAddressMask = 0xFFFFF000"

type_synonym PageFrame = uintptr

definition frame_to_index :: "PageFrame \<Rightarrow> u32" where
  "frame_to_index frame = (frame AND k4KPageAddressMask) div 0x1000"

definition index_to_frame :: "u32 \<Rightarrow> PageFrame" where
  "index_to_frame index = index * 0x1000"

section \<open>State\<close>

record Bitmap =
  usable :: bitset
  used :: bitset

record PageFrameAllocator =
  bitmap :: Bitmap
  lastAllocFrame :: PageFrame

definition PageFrameAllocator_new :: PageFrameAllocator where
  "PageFrameAllocator_new =
     \<lparr>bitmap = \<lparr>usable = BitSet_new kPagesInBitmap False, used = BitSet_new kPagesInBitmap False\<rparr>,
      lastAllocFrame = 0\<rparr>"

definition usableAndFree :: "Bitmap \<Rightarrow> u32 \<Rightarrow> bool res" where
  "usableAndFree bm frameIndex =
     rbind (BitSet_test (usable bm) frameIndex) (\<lambda>u.
       if u then rbind (BitSet_test (used bm) frameIndex) (\<lambda>x. Inr (\<not> x)) else Inr False)"

section \<open>The multiboot memory map\<close>

type_synonym byte_mem = "u32 \<Rightarrow> u8"

definition peek32 :: "byte_mem \<Rightarrow> u32 \<Rightarrow> u32" where
  "peek32 m a = ucast (m a) OR push_bit 8 (ucast (m (a + 1)))
     OR push_bit 16 (ucast (m (a + 2))) OR push_bit 24 (ucast (m (a + 3)))"

definition peek64 :: "byte_mem \<Rightarrow> u32 \<Rightarrow> u64" where
  "peek64 m a = ucast (peek32 m a) OR push_bit 32 (ucast (peek32 m (a + 4)))"

record multiboot_mmap_entry =
  mm_size :: u32
  mm_addr :: u64
  mm_len :: u64
  mm_type :: u32

definition read_mmap_entry :: "byte_mem \<Rightarrow> u32 \<Rightarrow> multiboot_mmap_entry" where
  "read_mmap_entry m p = \<lparr>mm_size = peek32 m p, mm_addr = peek64 m (p + 4),
     mm_len = peek64 m (p + 12), mm_type = peek32 m (p + 20)\<rparr>"

definition mmap_next :: "byte_mem \<Rightarrow> u32 \<Rightarrow> u32" where
  "mmap_next m p = p + mm_size (read_mmap_entry m p) + 4"

text \<open>
  The body of the loop over the map. The index of the inner loop is a 32-bit \<open>size_t\<close>
  compared with a 64-bit bound; the bitmap ends long before the index wraps, so counting
  in \<open>nat\<close> runs through the same indices.
\<close>

definition load_entry :: "multiboot_mmap_entry \<Rightarrow> Bitmap \<Rightarrow> Bitmap res" where
  "load_entry e bm =
     (let page_offset = mm_addr e div 0x1000; num_pages = mm_len e div 0x1000;
          start = unat (ucast page_offset :: size_t); bound = unat (page_offset + num_pages)
      in if mm_type e = 1
         then rbind (rfor (\<lambda>i b. ProxyBit_assign b (0 + of_nat i) True) start (bound - start) (usable bm))
                (\<lambda>us. Inr (bm\<lparr>usable := us\<rparr>))
         else Inr bm)"

text \<open>
  \<open>Bitmap::loadMemoryMap\<close>: a map whose entry sizes wrap the pointer around keeps the
  source's loop running for ever, so the model counts iterations and \<open>Hang\<close> is running out.
\<close>

fun loadMemoryMap_loop :: "nat \<Rightarrow> byte_mem \<Rightarrow> u32 \<Rightarrow> u32 \<Rightarrow> Bitmap \<Rightarrow> Bitmap res" where
  "loadMemoryMap_loop 0 m p mend bm = Inl Hang"
| "loadMemoryMap_loop (Suc fuel) m p mend bm =
     (if p < mend
      then rbind (load_entry (read_mmap_entry m p) bm)
             (loadMemoryMap_loop fuel m (mmap_next m p) mend)
      else Inr bm)"

definition loadMemoryMap ::
  "nat \<Rightarrow> byte_mem \<Rightarrow> u32 \<Rightarrow> u32 \<Rightarrow> PageFrameAllocator \<Rightarrow> PageFrameAllocator res" where
  "loadMemoryMap fuel m mmapAddr mmapLength st =
     rbind (loadMemoryMap_loop fuel m mmapAddr (mmapAddr + mmapLength) (bitmap st))
       (\<lambda>bm. Inr (st\<lparr>bitmap := bm\<rparr>))"

section \<open>Operations\<close>

definition markFrameUsable :: "PageFrameAllocator \<Rightarrow> PageFrame \<Rightarrow> bool \<Rightarrow> PageFrameAllocator res" where
  "markFrameUsable st frame b =
     rbind (ProxyBit_assign (usable (bitmap st)) (frame_to_index frame) b)
       (\<lambda>us. Inr (st\<lparr>bitmap := (bitmap st)\<lparr>usable := us\<rparr>\<rparr>))"

definition requestFrameIndex :: "PageFrameAllocator \<Rightarrow> size_t \<Rightarrow> (bool \<times> PageFrameAllocator) res" where
  "requestFrameIndex st index =
     rbind (usableAndFree (bitmap st) index) (\<lambda>retval.
       if retval
       then rbind (ProxyBit_assign (used (bitmap st)) index True)
              (\<lambda>us. Inr (True, st\<lparr>bitmap := (bitmap st)\<lparr>used := us\<rparr>\<rparr>))
       else Inr (False, st))"

definition requestFrame :: "PageFrameAllocator \<Rightarrow> PageFrame \<Rightarrow> (bool \<times> PageFrameAllocator) res" where
  "requestFrame st frame = requestFrameIndex st (frame_to_index frame)"

text \<open>The two loops of the lambda \<open>findFrames\<close>; the test loop has no early exit.\<close>

definition check_run :: "Bitmap \<Rightarrow> u32 \<Rightarrow> nat \<Rightarrow> bool res" where
  "check_run bm i n =
     rfor (\<lambda>offset found. rbind (usableAndFree bm (i + of_nat offset)) (\<lambda>b. Inr (found \<and> b))) 0 n True"

definition findFrames ::
  "PageFrameAllocator \<Rightarrow> size_t \<Rightarrow> u32 \<Rightarrow> (PageFrame option \<times> PageFrameAllocator) res" where
  "findFrames st numberOfFrames i =
     rbind (check_run (bitmap st) i (unat numberOfFrames)) (\<lambda>found.
       if found
       then rbind (rfor (\<lambda>offset b. ProxyBit_assign b (i + of_nat offset) True) 0
                (unat numberOfFrames) (used (bitmap st)))
              (\<lambda>us. Inr (Some (index_to_frame i),
                 st\<lparr>bitmap := (bitmap st)\<lparr>used := us\<rparr>,
                    lastAllocFrame := index_to_frame (i + numberOfFrames - 1)\<rparr>))
       else Inr (None, st))"

text \<open>\<open>k\<close> rounds of a scan loop of \<open>alloc\<close>, starting at frame number \<open>i\<close>.\<close>

fun alloc_scan ::
  "PageFrameAllocator \<Rightarrow> size_t \<Rightarrow> nat \<Rightarrow> nat \<Rightarrow> (PageFrame option \<times> PageFrameAllocator) res" where
  "alloc_scan st n i 0 = Inr (None, st)"
| "alloc_scan st n i (Suc k) =
     rbind (findFrames st n (of_nat i)) (\<lambda>(result, st').
       case result of Some f \<Rightarrow> Inr (Some f, st') | None \<Rightarrow> alloc_scan st' n (Suc i) k)"

definition out_of_memory :: fault where
  "out_of_memory = KernelPanic ''Unable to allocate page frame. Out of memory.''"

definition PageFrameAllocator_alloc ::
  "PageFrameAllocator \<Rightarrow> size_t \<Rightarrow> (PageFrame \<times> PageFrameAllocator) res" where
  "PageFrameAllocator_alloc st numberOfFrames =
     (if numberOfFrames = 0 then Inr (- 1, st)
      else let startIndex = unat (frame_to_index (lastAllocFrame st)) in
        rbind (alloc_scan st numberOfFrames startIndex (kPagesInBitmap - startIndex)) (\<lambda>(r1, st1).
        case r1 of Some f \<Rightarrow> Inr (f, st1)
        | None \<Rightarrow>
            rbind (alloc_scan st1 numberOfFrames 0 startIndex) (\<lambda>(r2, st2).
            case r2 of Some f \<Rightarrow> Inr (f, st2) | None \<Rightarrow> Inl out_of_memory)))"

definition PageFrameAllocator_free ::
  "PageFrameAllocator \<Rightarrow> PageFrame \<Rightarrow> size_t \<Rightarrow> PageFrameAllocator res" where
  "PageFrameAllocator_free st frame numberOfFrames =
     (let index = frame_to_index frame in
      rbind (rfor (\<lambda>i b. ProxyBit_assign b (index + of_nat i) False) 0
               (unat numberOfFrames) (used (bitmap st)))
        (\<lambda>us. Inr (st\<lparr>bitmap := (bitmap st)\<lparr>used := us\<rparr>\<rparr>)))"

section \<open>Invariant and abstraction\<close>

text \<open>Both bitmaps have one bit per page frame of the address space.\<close>

definition frames_inv :: "PageFrameAllocator \<Rightarrow> bool" where
  "frames_inv st \<longleftrightarrow> bit_capacity (usable (bitmap st)) = kPagesInBitmap
     \<and> bit_capacity (used (bitmap st)) = kPagesInBitmap"

definition usable_frames :: "PageFrameAllocator \<Rightarrow> nat set" where
  "usable_frames st = bits_of (usable (bitmap st))"

definition used_frames :: "PageFrameAllocator \<Rightarrow> nat set" where
  "used_frames st = bits_of (used (bitmap st))"

definition free_frames :: "PageFrameAllocator \<Rightarrow> nat set" where
  "free_frames st = usable_frames st - used_frames st"

definition frame_number :: "PageFrame \<Rightarrow> nat" where
  "frame_number f = unat f div 4096"

lemma frames_inv_new: "frames_inv PageFrameAllocator_new"
  by (simp add: frames_inv_def PageFrameAllocator_new_def bit_capacity_new kPagesInBitmap_def div_ceil_def)

lemma unat_frame_to_index: "unat (frame_to_index f) = frame_number f"
proof -
  have "(f AND 0xFFFFF000) div 0x1000 = drop_bit 12 f"
  proof -
    have "(f AND 0xFFFFF000) div 0x1000 = drop_bit 12 (f AND 0xFFFFF000)"
      by (simp add: drop_bit_eq_div)
    also have "\<dots> = drop_bit 12 f AND drop_bit 12 0xFFFFF000" by simp
    also have "drop_bit 12 (0xFFFFF000 :: u32) = mask 20" by (simp add: mask_eq_exp_minus_1)
    also have "drop_bit 12 f AND mask 20 = drop_bit 12 f"
      by (auto simp: bit_eq_iff bit_simps dest: bit_imp_le_length)
    finally show ?thesis .
  qed
  then show ?thesis
    by (simp add: frame_to_index_def k4KPageAddressMask_def frame_number_def drop_bit_eq_div)
qed

lemma frame_number_lt: "frame_number f < kPagesInBitmap"
  using unat_lt32[of f] by (simp add: frame_number_def kPagesInBitmap_def del: unat_lt32)

lemma unat_index_to_frame: "unat i < kPagesInBitmap \<Longrightarrow> unat (index_to_frame i) = unat i * 4096"
  by (simp add: index_to_frame_def kPagesInBitmap_def unat_word_ariths)

lemma frame_number_index: "unat i < kPagesInBitmap \<Longrightarrow> frame_number (index_to_frame i) = unat i"
  by (simp add: frame_number_def unat_index_to_frame)

lemma kPages_le: "kPagesInBitmap \<le> 2 ^ 32" "kPagesInBitmap < 2 ^ 32"
  by (simp_all add: kPagesInBitmap_def)

lemma of_nat_page [simp]: "i < kPagesInBitmap \<Longrightarrow> unat (of_nat i :: u32) = i"
  using kPages_le by (intro unat_of_nat_small) simp

lemma used_frames_bounded: "frames_inv st \<Longrightarrow> used_frames st \<subseteq> {..<kPagesInBitmap}"
  using bs.members_bounded[of "used (bitmap st)"] by (simp add: frames_inv_def used_frames_def)

lemma free_frames_bounded: "frames_inv st \<Longrightarrow> free_frames st \<subseteq> {..<kPagesInBitmap}"
  using bs.members_bounded[of "usable (bitmap st)"]
  by (auto simp: frames_inv_def free_frames_def usable_frames_def)

lemma usableAndFree_eq:
  assumes "frames_inv st"
  shows "usableAndFree (bitmap st) i =
    (if unat i < kPagesInBitmap then Inr (unat i \<in> free_frames st) else Inl OutOfBounds)"
  using assms
  by (auto simp: usableAndFree_def BitSet_test_eq frames_inv_def free_frames_def
      usable_frames_def used_frames_def)

section \<open>The two loops of findFrames\<close>

definition run_at :: "nat \<Rightarrow> nat \<Rightarrow> nat set" where
  "run_at i n = {i..<i + n}"

definition run_free :: "PageFrameAllocator \<Rightarrow> nat \<Rightarrow> nat \<Rightarrow> bool" where
  "run_free st i n \<longleftrightarrow> run_at i n \<subseteq> free_frames st"

lemma rfor_and:
  assumes "\<And>j. m \<le> j \<Longrightarrow> j < m + k \<Longrightarrow> f j = Inr (P j)"
  shows "rfor (\<lambda>j found. rbind (f j) (\<lambda>b. Inr (found \<and> b))) m k v =
    Inr (v \<and> (\<forall>j. m \<le> j \<and> j < m + k \<longrightarrow> P j))"
  using assms
proof (induction k arbitrary: m v)
  case 0
  then show ?case by auto
next
  case (Suc k)
  have "f m = Inr (P m)" using Suc.prems by simp
  moreover have "rfor (\<lambda>j found. rbind (f j) (\<lambda>b. Inr (found \<and> b))) (Suc m) k (v \<and> P m) =
    Inr ((v \<and> P m) \<and> (\<forall>j. Suc m \<le> j \<and> j < Suc m + k \<longrightarrow> P j))"
    by (rule Suc.IH) (use Suc.prems in auto)
  ultimately show ?case by (auto simp: Suc_le_eq) (metis le_neq_implies_less)
qed

lemma rfor_fault:
  assumes "m \<le> l" "l < m + k" "\<And>v. body l v = Inl e"
    and "\<And>j v. m \<le> j \<Longrightarrow> j < l \<Longrightarrow> \<exists>v'. body j v = Inr v'"
  shows "rfor body m k v = Inl e"
  using assms
proof (induction k arbitrary: m v)
  case 0
  then show ?case by simp
next
  case (Suc k)
  show ?case
  proof (cases "m = l")
    case True
    then show ?thesis using Suc.prems(3) by simp
  next
    case False
    then obtain v' where "body m v = Inr v'" using Suc.prems(1) Suc.prems(4)[of m v] by auto
    moreover have "rfor body (Suc m) k v' = Inl e"
      by (rule Suc.IH) (use False Suc.prems in auto)
    ultimately show ?thesis by simp
  qed
qed

lemma unat_run_index:
  assumes "unat (i :: u32) + n \<le> kPagesInBitmap" "j < n"
  shows "unat (i + of_nat j) = unat i + j"
  using assms kPages_le by (subst unat_plus_small) auto

lemma check_run_in:
  assumes "frames_inv st" "unat i + n \<le> kPagesInBitmap"
  shows "check_run (bitmap st) i n = Inr (run_free st (unat i) n)"
proof -
  have "usableAndFree (bitmap st) (i + of_nat j) = Inr (unat i + j \<in> free_frames st)" if "j < n" for j
    using assms that by (simp add: usableAndFree_eq unat_run_index)
  then have "check_run (bitmap st) i n = Inr (True \<and> (\<forall>j. 0 \<le> j \<and> j < 0 + n \<longrightarrow> unat i + j \<in> free_frames st))"
    unfolding check_run_def by (intro rfor_and) simp
  also have "(\<forall>j. 0 \<le> j \<and> j < 0 + n \<longrightarrow> unat i + j \<in> free_frames st) \<longleftrightarrow> run_free st (unat i) n"
    by (auto simp: run_free_def run_at_def le_iff_add)
  finally show ?thesis by simp
qed

lemma check_run_out:
  assumes "frames_inv st" "unat i < kPagesInBitmap" "kPagesInBitmap < unat i + n"
  shows "check_run (bitmap st) i n = Inl OutOfBounds"
proof -
  have idx: "unat (i + of_nat j) = unat i + j" if "j \<le> kPagesInBitmap - unat i" for j
    using that assms kPages_le by (subst unat_plus_small) (auto simp: kPagesInBitmap_def)
  let ?l = "kPagesInBitmap - unat i"
  have fault: "usableAndFree (bitmap st) (i + of_nat ?l) = Inl OutOfBounds"
    unfolding usableAndFree_eq[OF assms(1)] idx[OF order_refl] using assms by simp
  show ?thesis unfolding check_run_def
  proof (rule rfor_fault[where l = ?l])
    show "rbind (usableAndFree (bitmap st) (i + of_nat ?l)) (\<lambda>b. Inr (v \<and> b)) = Inl OutOfBounds" for v
      by (simp only: fault rbind_simps)
  qed (use assms in \<open>auto simp: usableAndFree_eq idx\<close>)
qed

text \<open>What an allocation of \<open>n\<close> frames at frame number \<open>i\<close> does to the allocator.\<close>

definition alloc_post :: "PageFrameAllocator \<Rightarrow> nat \<Rightarrow> nat \<Rightarrow> PageFrameAllocator \<Rightarrow> bool" where
  "alloc_post st i n st' \<longleftrightarrow> frames_inv st' \<and> usable_frames st' = usable_frames st
     \<and> used_frames st' = used_frames st \<union> run_at i n
     \<and> frame_number (lastAllocFrame st') = i + n - 1"

lemma findFrames_found:
  assumes "frames_inv st" "n \<noteq> 0" "unat i + unat n \<le> kPagesInBitmap" "run_free st (unat i) (unat n)"
  shows "\<exists>st'. findFrames st n i = Inr (Some (index_to_frame i), st') \<and>
    alloc_post st (unat i) (unat n) st'"
proof -
  let ?b = "used (bitmap st)"
  from assms(1) have cap: "bit_capacity ?b = kPagesInBitmap" by (simp add: frames_inv_def)
  obtain us where us: "rfor (\<lambda>offset b. ProxyBit_assign b (i + of_nat offset) True) 0 (unat n) ?b = Inr us"
    "bit_capacity us = kPagesInBitmap" "bits_of us = bits_of ?b \<union> run_at (unat i) (unat n)"
    using bs.assign_range[of i 0 "unat n" ?b True] assms(3) cap kPages_le by (auto simp: run_at_def)
  have n: "0 < unat n" using assms(2) by (simp add: unat_gt_0)
  have "unat (i + n - 1) = unat i + unat n - 1"
  proof -
    have "unat (i + n) = unat i + unat n"
      using assms(3) kPages_le by (intro unat_plus_small) simp
    moreover have "i + n \<noteq> 0" using calculation n by (auto simp: word32_eq_iff_unat)
    ultimately show ?thesis by (simp add: unat_minus_one)
  qed
  then have "frame_number (index_to_frame (i + n - 1)) = unat i + unat n - 1"
    using assms(3) n by (subst frame_number_index) auto
  with us assms(1,3,4) show ?thesis
    by (simp add: findFrames_def check_run_in alloc_post_def frames_inv_def usable_frames_def used_frames_def)
qed

lemma findFrames_none:
  assumes "frames_inv st" "unat i + unat n \<le> kPagesInBitmap" "\<not> run_free st (unat i) (unat n)"
  shows "findFrames st n i = Inr (None, st)"
  using assms by (simp add: findFrames_def check_run_in)

lemma findFrames_out:
  assumes "frames_inv st" "unat i < kPagesInBitmap" "kPagesInBitmap < unat i + unat n"
  shows "findFrames st n i = Inl OutOfBounds"
  using assms by (simp add: findFrames_def check_run_out)

section \<open>The scan loops\<close>

lemma alloc_scan_None:
  assumes "frames_inv st" "i + k \<le> kPagesInBitmap" "alloc_scan st n i k = Inr (None, st')"
  shows "st' = st \<and> (\<forall>j. i \<le> j \<and> j < i + k \<longrightarrow> \<not> run_free st j (unat n) \<and> j + unat n \<le> kPagesInBitmap)"
  using assms(2,3)
proof (induction k arbitrary: i)
  case 0
  then show ?case by auto
next
  case (Suc k)
  have i: "unat (of_nat i :: u32) = i" using Suc.prems by simp
  have le: "i + unat n \<le> kPagesInBitmap"
    using Suc.prems findFrames_out[OF assms(1), of "of_nat i" n] i by (cases "kPagesInBitmap < i + unat n") auto
  show ?case
  proof (cases "run_free st i (unat n)")
    case True
    then show ?thesis
    proof (cases "n = 0")
      case True
      then show ?thesis using Suc.prems
        by (simp add: findFrames_def check_run_def)
    next
      case False
      with True Suc.prems findFrames_found[OF assms(1) False, of "of_nat i"] le i show ?thesis by auto
    qed
  next
    case False
    then have "alloc_scan st n (Suc i) k = Inr (None, st')"
      using Suc.prems findFrames_none[OF assms(1), of "of_nat i" n] le i by simp
    from Suc.IH[OF _ this] Suc.prems False le show ?thesis
      by (auto simp: Suc_le_eq) (metis le_neq_implies_less)+
  qed
qed

lemma alloc_scan_Some:
  assumes "frames_inv st" "n \<noteq> 0" "i + k \<le> kPagesInBitmap" "alloc_scan st n i k = Inr (Some f, st')"
  shows "\<exists>j. i \<le> j \<and> j < i + k \<and> j + unat n \<le> kPagesInBitmap \<and> run_free st j (unat n)
    \<and> f = index_to_frame (of_nat j) \<and> alloc_post st j (unat n) st'"
  using assms(3,4)
proof (induction k arbitrary: i)
  case 0
  then show ?case by simp
next
  case (Suc k)
  have i: "unat (of_nat i :: u32) = i" using Suc.prems by simp
  have le: "i + unat n \<le> kPagesInBitmap"
    using Suc.prems findFrames_out[OF assms(1), of "of_nat i" n] i by (cases "kPagesInBitmap < i + unat n") auto
  show ?case
  proof (cases "run_free st i (unat n)")
    case True
    with Suc.prems findFrames_found[OF assms(1,2), of "of_nat i"] le i show ?thesis
      by (intro exI[of _ i]) auto
  next
    case False
    then have "alloc_scan st n (Suc i) k = Inr (Some f, st')"
      using Suc.prems findFrames_none[OF assms(1), of "of_nat i" n] le i by simp
    from Suc.IH[OF _ this] Suc.prems obtain j where
      "Suc i \<le> j" "j < Suc i + k" "j + unat n \<le> kPagesInBitmap" "run_free st j (unat n)"
      "f = index_to_frame (of_nat j)" "alloc_post st j (unat n) st'" by auto
    then show ?thesis by (intro exI[of _ j]) simp
  qed
qed

text \<open>A scan meets the first free run of its range, unless the range ends past the bitmap before it.\<close>

lemma alloc_scan_finds:
  assumes "frames_inv st" "n \<noteq> 0" "i + k \<le> kPagesInBitmap"
    and "i \<le> j" "j < i + k" "run_free st j (unat n)" "j + unat n \<le> kPagesInBitmap"
  shows "\<exists>f st'. alloc_scan st n i k = Inr (Some f, st')"
  using assms(3-5)
proof (induction k arbitrary: i)
  case 0
  then show ?case by simp
next
  case (Suc k)
  have i: "unat (of_nat i :: u32) = i" using Suc.prems by simp
  show ?case
  proof (cases "run_free st i (unat n)")
    case True
    with findFrames_found[OF assms(1,2), of "of_nat i"] Suc.prems assms(7) i show ?thesis by auto
  next
    case False
    moreover have "i \<noteq> j" using False assms(6) by auto
    ultimately show ?thesis
      using findFrames_none[OF assms(1), of "of_nat i" n] Suc.prems assms(7) i Suc.IH[of "Suc i"] by auto
  qed
qed

lemma alloc_scan_total:
  assumes "frames_inv st" "n \<noteq> 0" "i + k + unat n \<le> kPagesInBitmap + 1"
  shows "\<exists>r st'. alloc_scan st n i k = Inr (r, st')"
  using assms(3)
proof (induction k arbitrary: i)
  case 0
  then show ?case by simp
next
  case (Suc k)
  have "0 < unat n" using assms(2) by (simp add: unat_gt_0)
  with Suc.prems have lt: "i < kPagesInBitmap" "i + unat n \<le> kPagesInBitmap" by auto
  then have i: "unat (of_nat i :: u32) = i" by simp
  show ?case
  proof (cases "run_free st i (unat n)")
    case True
    with findFrames_found[OF assms(1,2), of "of_nat i"] lt i show ?thesis by auto
  next
    case False
    then show ?thesis
      using findFrames_none[OF assms(1), of "of_nat i" n] lt i Suc.IH[of "Suc i"] Suc.prems by auto
  qed
qed

lemma alloc_scan_out:
  assumes "frames_inv st" "i + k = kPagesInBitmap" "0 < k" "2 \<le> unat n"
    and "\<And>j. i \<le> j \<Longrightarrow> \<not> run_free st j (unat n)"
  shows "alloc_scan st n i k = Inl OutOfBounds"
  using assms(2,3,5)
proof (induction k arbitrary: i)
  case 0
  then show ?case by simp
next
  case (Suc k)
  then have i: "unat (of_nat i :: u32) = i" by simp
  show ?case
  proof (cases "kPagesInBitmap < i + unat n")
    case True
    then show ?thesis using findFrames_out[OF assms(1), of "of_nat i" n] Suc.prems i by simp
  next
    case False
    then have "0 < k" using Suc.prems assms(4) by linarith
    then show ?thesis
      using findFrames_none[OF assms(1), of "of_nat i" n] Suc.prems i False Suc.IH[of "Suc i"] by simp
  qed
qed

section \<open>Allocation and release\<close>

lemmas alloc_unfold = PageFrameAllocator_alloc_def Let_def unat_frame_to_index

lemma alloc_Inr_cases:
  assumes inv: "frames_inv st" and n: "n \<noteq> 0"
    and ok: "PageFrameAllocator_alloc st n = Inr (f, st')"
  shows "\<exists>j. j + unat n \<le> kPagesInBitmap \<and> run_free st j (unat n)
    \<and> f = index_to_frame (of_nat j) \<and> alloc_post st j (unat n) st'"
proof -
  let ?s = "frame_number (lastAllocFrame st)"
  have s: "?s + (kPagesInBitmap - ?s) \<le> kPagesInBitmap" "0 + ?s \<le> kPagesInBitmap"
    using frame_number_lt[of "lastAllocFrame st"] by auto
  from ok n obtain r1 st1 where r1: "alloc_scan st n ?s (kPagesInBitmap - ?s) = Inr (r1, st1)"
    and rest: "(case r1 of Some g \<Rightarrow> Inr (g, st1) | None \<Rightarrow> rbind (alloc_scan st1 n 0 ?s)
      (\<lambda>(r2, st2). case r2 of Some g \<Rightarrow> Inr (g, st2) | None \<Rightarrow> Inl out_of_memory)) = Inr (f, st')"
    by (auto simp: alloc_unfold)
  show ?thesis
  proof (cases r1)
    case (Some g)
    then show ?thesis using alloc_scan_Some[OF inv n s(1)] r1 rest by auto
  next
    case None
    then have "st1 = st" using alloc_scan_None[OF inv s(1)] r1 by auto
    with None rest have "alloc_scan st n 0 ?s = Inr (Some f, st')"
      by (auto split: option.splits)
    then show ?thesis using alloc_scan_Some[OF inv n s(2)] by auto
  qed
qed

lemma alloc_one_fails:
  assumes "frames_inv st" "free_frames st = {}"
  shows "PageFrameAllocator_alloc st 1 = Inl out_of_memory"
proof -
  let ?s = "frame_number (lastAllocFrame st)"
  have none: "\<not> run_free st j 1" for j using assms(2) by (auto simp: run_free_def run_at_def)
  have scan: "alloc_scan st 1 i k = Inr (None, st)" if le: "i + k \<le> kPagesInBitmap" for i k
  proof -
    obtain r st' where r: "alloc_scan st 1 i k = Inr (r, st')"
      using alloc_scan_total[of st 1 i k] assms(1) le by auto
    show ?thesis
    proof (cases r)
      case None
      then show ?thesis using alloc_scan_None[OF assms(1) le] r by auto
    next
      case (Some f)
      then show ?thesis using alloc_scan_Some[of st 1 i k f st'] assms(1) le r none by auto
    qed
  qed
  show ?thesis using frame_number_lt[of "lastAllocFrame st"] by (simp add: alloc_unfold scan)
qed

lemma alloc_one_succeeds:
  assumes "frames_inv st" "j \<in> free_frames st"
  shows "\<exists>f st'. PageFrameAllocator_alloc st 1 = Inr (f, st')"
proof -
  let ?s = "frame_number (lastAllocFrame st)"
  have lt: "?s < kPagesInBitmap" by (rule frame_number_lt)
  have run: "run_free st j 1" using assms(2) by (auto simp: run_free_def run_at_def)
  have j: "j < kPagesInBitmap" using free_frames_bounded[OF assms(1)] assms(2) by auto
  obtain r st1 where r: "alloc_scan st 1 ?s (kPagesInBitmap - ?s) = Inr (r, st1)"
    using alloc_scan_total[of st 1 ?s "kPagesInBitmap - ?s"] assms(1) lt by auto
  show ?thesis
  proof (cases r)
    case (Some f)
    then show ?thesis using r by (simp add: alloc_unfold)
  next
    case None
    from alloc_scan_None[OF assms(1) _ r[unfolded None]] lt
    have st1: "st1 = st" and no: "\<And>i. ?s \<le> i \<Longrightarrow> i < kPagesInBitmap \<Longrightarrow> \<not> run_free st i 1" by auto
    from no[of j] run j have "j < ?s" by (meson not_le)
    then obtain f st2 where "alloc_scan st 1 0 ?s = Inr (Some f, st2)"
      using alloc_scan_finds[of st 1 0 ?s j] assms(1) lt run j by auto
    then show ?thesis using r None st1 by (simp add: alloc_unfold)
  qed
qed

lemma free_ok:
  assumes "frames_inv st" "frame_number f + unat n \<le> kPagesInBitmap"
  shows "\<exists>st'. PageFrameAllocator_free st f n = Inr st' \<and> frames_inv st'
    \<and> usable_frames st' = usable_frames st \<and> used_frames st' = used_frames st - run_at (frame_number f) (unat n)
    \<and> lastAllocFrame st' = lastAllocFrame st"
  using bs.assign_range[of "frame_to_index f" 0 "unat n" "used (bitmap st)" False] assms kPages_le
  by (auto simp: PageFrameAllocator_free_def Let_def unat_frame_to_index frames_inv_def
      usable_frames_def used_frames_def run_at_def)

text \<open>The map of a large bitmap in which every frame is usable and none is used.\<close>

definition all_free :: PageFrameAllocator where
  "all_free = \<lparr>bitmap = \<lparr>usable = BitSet_new kPagesInBitmap True, used = BitSet_new kPagesInBitmap False\<rparr>,
     lastAllocFrame = 0\<rparr>"

lemma all_free_facts:
  "frames_inv all_free" "free_frames all_free = {..<kPagesInBitmap}" "used_frames all_free = {}"
  "lastAllocFrame all_free = 0"
  by (auto simp: all_free_def frames_inv_def free_frames_def usable_frames_def used_frames_def
      bits_of_new bit_capacity_new kPagesInBitmap_def div_ceil_def)

lemma alloc_next_fit:
  assumes "frames_inv st" "n \<noteq> 0" "frame_number (lastAllocFrame st) \<le> j"
    and "run_free st j (unat n)" "j + unat n \<le> kPagesInBitmap"
  shows "\<exists>f st'. PageFrameAllocator_alloc st n = Inr (f, st')"
proof -
  let ?s = "frame_number (lastAllocFrame st)"
  have "0 < unat n" using assms(2) by (simp add: unat_gt_0)
  then obtain f st' where "alloc_scan st n ?s (kPagesInBitmap - ?s) = Inr (Some f, st')"
    using alloc_scan_finds[of st n ?s "kPagesInBitmap - ?s" j] assms by auto
  with assms(2) show ?thesis by (simp add: alloc_unfold)
qed

lemma all_free_alloc:
  "n \<noteq> 0 \<Longrightarrow> unat n \<le> kPagesInBitmap \<Longrightarrow> \<exists>f st'. PageFrameAllocator_alloc all_free n = Inr (f, st')"
  by (rule alloc_next_fit[of _ _ 0])
     (auto simp: all_free_facts run_free_def run_at_def frame_number_def)

section \<open>The interface of a source of single frames\<close>

text \<open>
  What the MMU relies on: an allocation takes a free frame or reports that none is left,
  a release gives a frame back if it is one of the allocator's own.
\<close>

locale frame_source =
  fixes take :: "'p \<Rightarrow> (PageFrame \<times> 'p) res"
    and release :: "'p \<Rightarrow> PageFrame \<Rightarrow> 'p res"
    and avail :: "'p \<Rightarrow> nat set"
    and owned :: "'p \<Rightarrow> nat set"
    and ok :: "'p \<Rightarrow> bool"
  assumes take_Inr: "ok p \<Longrightarrow> take p = Inr (f, p') \<Longrightarrow> frame_number f \<in> avail p \<and>
      avail p' = avail p - {frame_number f} \<and> owned p' = owned p \<and> ok p'"
    and take_Inl: "ok p \<Longrightarrow> take p = Inl e \<Longrightarrow> e = out_of_memory \<and> avail p = {}"
    and release_ok: "ok p \<Longrightarrow> \<exists>p'. release p f = Inr p' \<and> ok p' \<and> owned p' = owned p \<and>
      avail p' = avail p \<union> ({frame_number f} \<inter> owned p)"
    and avail_owned: "avail p \<subseteq> owned p"
begin

lemma take_nonempty: "ok p \<Longrightarrow> avail p \<noteq> {} \<Longrightarrow> \<exists>f p'. take p = Inr (f, p')"
  using take_Inl by (cases "take p") auto

lemma take_release:
  assumes "ok p" "take p = Inr (f, p1)"
  shows "\<exists>p2. release p1 f = Inr p2 \<and> ok p2 \<and> avail p2 = avail p"
proof -
  from take_Inr[OF assms] have t: "frame_number f \<in> avail p" "avail p1 = avail p - {frame_number f}"
    "owned p1 = owned p" "ok p1" by auto
  from release_ok[OF t(4), of f] obtain p2 where "release p1 f = Inr p2" "ok p2"
    "avail p2 = avail p1 \<union> ({frame_number f} \<inter> owned p1)" by auto
  with t avail_owned[of p] show ?thesis by auto
qed

end

interpretation fs: frame_source "\<lambda>p. PageFrameAllocator_alloc p 1"
  "\<lambda>p f. PageFrameAllocator_free p f 1" free_frames usable_frames frames_inv
proof unfold_locales
  fix p f p' e
  assume inv: "frames_inv p"
  {
    assume "PageFrameAllocator_alloc p 1 = Inr (f, p')"
    then obtain j where "j + 1 \<le> kPagesInBitmap" "run_free p j 1" "f = index_to_frame (of_nat j)"
      "alloc_post p j 1 p'"
      using alloc_Inr_cases[OF inv, of 1 f p'] by auto
    then show "frame_number f \<in> free_frames p \<and> free_frames p' = free_frames p - {frame_number f} \<and>
      usable_frames p' = usable_frames p \<and> frames_inv p'"
      by (auto simp: run_free_def run_at_def alloc_post_def frame_number_index free_frames_def)
  }
  show "PageFrameAllocator_alloc p 1 = Inl e \<Longrightarrow> e = out_of_memory \<and> free_frames p = {}"
    using alloc_one_fails[OF inv] alloc_one_succeeds[OF inv] by (cases "free_frames p = {}") auto
  show "\<exists>p'. PageFrameAllocator_free p f 1 = Inr p' \<and> frames_inv p' \<and> usable_frames p' = usable_frames p \<and>
      free_frames p' = free_frames p \<union> ({frame_number f} \<inter> usable_frames p)"
    using free_ok[OF inv, of f 1] frame_number_lt[of f]
    by (auto simp: free_frames_def run_at_def)
qed (auto simp: free_frames_def)

section \<open>Loading the memory map\<close>

definition page_range :: "multiboot_mmap_entry \<Rightarrow> nat set" where
  "page_range e = (if mm_type e = 1
     then run_at (unat (mm_addr e div 0x1000)) (unat (mm_len e div 0x1000)) else {})"

definition entry_fits :: "multiboot_mmap_entry \<Rightarrow> bool" where
  "entry_fits e \<longleftrightarrow> (mm_type e = 1 \<longrightarrow>
     unat (mm_addr e div 0x1000) + unat (mm_len e div 0x1000) \<le> kPagesInBitmap)"

text \<open>The memory map at address \<open>p\<close> holds the entries \<open>es\<close> and ends at address \<open>e\<close>.\<close>

fun mmap_at :: "byte_mem \<Rightarrow> u32 \<Rightarrow> multiboot_mmap_entry list \<Rightarrow> nat \<Rightarrow> bool" where
  "mmap_at m p [] e \<longleftrightarrow> unat p = e"
| "mmap_at m p (x # xs) e \<longleftrightarrow> read_mmap_entry m p = x
     \<and> unat p + unat (mm_size x) + 4 \<le> e \<and> mmap_at m (p + mm_size x + 4) xs e"

lemma load_entry_ok:
  assumes "entry_fits e" "bit_capacity (usable bm) = kPagesInBitmap"
  shows "\<exists>bm'. load_entry e bm = Inr bm' \<and> used bm' = used bm
    \<and> bit_capacity (usable bm') = kPagesInBitmap \<and> bits_of (usable bm') = bits_of (usable bm) \<union> page_range e"
proof (cases "mm_type e = 1")
  case False
  then show ?thesis using assms by (auto simp: load_entry_def Let_def page_range_def)
next
  case True
  let ?o = "mm_addr e div 0x1000" and ?n = "mm_len e div 0x1000"
  have le: "unat ?o + unat ?n \<le> kPagesInBitmap" using assms(1) True by (simp add: entry_fits_def)
  then have "unat (?o + ?n) = unat ?o + unat ?n"
    by (simp add: unat_word_ariths kPagesInBitmap_def)
  moreover have "unat (ucast ?o :: size_t) = unat ?o"
    using le kPages_le by (simp add: unsigned_ucast_eq take_bit_nat_eq_self)
  ultimately show ?thesis
    using bs.assign_range[of 0 "unat ?o" "unat ?n" "usable bm" True] le assms(2) kPages_le True
    by (auto simp: load_entry_def Let_def page_range_def run_at_def)
qed

lemma mmap_at_less: "mmap_at m p (x # xs) e \<Longrightarrow> e < 2 ^ 32 \<Longrightarrow> unat p < e"
  by auto

lemma loadMemoryMap_loop_ok:
  assumes "mmap_at m p es (unat e)" "length es < fuel" "\<forall>x\<in>set es. entry_fits x"
    and "bit_capacity (usable bm) = kPagesInBitmap"
  shows "\<exists>bm'. loadMemoryMap_loop fuel m p e bm = Inr bm' \<and> used bm' = used bm
    \<and> bit_capacity (usable bm') = kPagesInBitmap
    \<and> bits_of (usable bm') = bits_of (usable bm) \<union> (\<Union>x\<in>set es. page_range x)"
  using assms
proof (induction es arbitrary: p fuel bm)
  case Nil
  then have "p = e" by (simp add: word32_eq_iff_unat)
  then show ?case using Nil by (cases fuel) auto
next
  case (Cons x xs)
  then obtain g where g: "fuel = Suc g" "length xs < g" by (cases fuel) auto
  have lt: "p < e" using mmap_at_less[OF Cons.prems(1)] by (simp add: word_less_nat_alt)
  from Cons.prems obtain bm1 where bm1: "load_entry x bm = Inr bm1" "used bm1 = used bm"
    "bit_capacity (usable bm1) = kPagesInBitmap" "bits_of (usable bm1) = bits_of (usable bm) \<union> page_range x"
    using load_entry_ok[of x bm] by auto
  have "mmap_at m (p + mm_size x + 4) xs (unat e)" "read_mmap_entry m p = x" using Cons.prems by auto
  from Cons.IH[OF this(1) g(2) _ bm1(3)] Cons.prems bm1 this(2) lt g show ?case
    by (auto simp: mmap_next_def)
qed

section \<open>Properties\<close>

text \<open>
  C11. \<open>alloc\<close> is sound: a run of frames it returns is page aligned, lies in the bitmap, was
  usable and free before the call, and exactly these frames become used; nothing else in
  the bitmaps changes, the invariant is kept, and the next search starts at the run's last frame.
\<close>

theorem alloc_sound:
  assumes "frames_inv st" "n \<noteq> 0" "PageFrameAllocator_alloc st n = Inr (f, st')"
  shows "unat f = 4096 * frame_number f \<and> frame_number f + unat n \<le> kPagesInBitmap
    \<and> run_at (frame_number f) (unat n) \<subseteq> free_frames st
    \<and> used_frames st' = used_frames st \<union> run_at (frame_number f) (unat n)
    \<and> usable_frames st' = usable_frames st \<and> frames_inv st'
    \<and> frame_number (lastAllocFrame st') = frame_number f + unat n - 1"
proof -
  have n: "0 < unat n" using assms(2) by (simp add: unat_gt_0)
  from alloc_Inr_cases[OF assms] obtain j where j: "j + unat n \<le> kPagesInBitmap"
    "run_free st j (unat n)" "f = index_to_frame (of_nat j)" "alloc_post st j (unat n) st'" by auto
  then have lt: "j < kPagesInBitmap" using n by linarith
  then have "frame_number f = j" "unat f = 4096 * j"
    using j(3) by (simp_all add: frame_number_index unat_index_to_frame)
  with j show ?thesis by (auto simp: run_free_def alloc_post_def)
qed

theorem alloc_sound_witness:
  "\<exists>f st'. PageFrameAllocator_alloc all_free 3 = Inr (f, st') \<and> frame_number f + 3 \<le> kPagesInBitmap
    \<and> used_frames st' = run_at (frame_number f) 3"
proof -
  obtain f st' where f: "PageFrameAllocator_alloc all_free 3 = Inr (f, st')"
    using all_free_alloc[of 3] by (auto simp: kPagesInBitmap_def)
  from alloc_sound[OF all_free_facts(1) _ f] f show ?thesis by (auto simp: all_free_facts(3))
qed

text \<open>
  C12. Allocating a single frame never reads outside the bitmaps: it returns a frame exactly
  when some usable frame is free, and panics with the out-of-memory message otherwise.
\<close>

theorem alloc_one_total:
  assumes "frames_inv st"
  shows "if free_frames st = {} then PageFrameAllocator_alloc st 1 = Inl out_of_memory
    else \<exists>f st'. PageFrameAllocator_alloc st 1 = Inr (f, st') \<and> frame_number f \<in> free_frames st
      \<and> used_frames st' = insert (frame_number f) (used_frames st)"
proof (cases "free_frames st = {}")
  case True
  then show ?thesis using alloc_one_fails[OF assms] by simp
next
  case False
  then obtain j where "j \<in> free_frames st" by auto
  then obtain f st' where f: "PageFrameAllocator_alloc st 1 = Inr (f, st')"
    using alloc_one_succeeds[OF assms] by blast
  then have "run_at (frame_number f) 1 \<subseteq> free_frames st \<and> used_frames st' = used_frames st \<union> run_at (frame_number f) 1"
    using alloc_Inr_cases[OF assms _ f]
    by (auto simp: run_free_def alloc_post_def run_at_def frame_number_index)
  with f False show ?thesis by (auto simp: run_at_def)
qed

theorem alloc_one_total_witness:
  "if free_frames all_free = {} then PageFrameAllocator_alloc all_free 1 = Inl out_of_memory
    else \<exists>f st'. PageFrameAllocator_alloc all_free 1 = Inr (f, st') \<and> frame_number f \<in> free_frames all_free
      \<and> used_frames st' = insert (frame_number f) (used_frames all_free)"
  by (rule alloc_one_total[OF all_free_facts(1)])

text \<open>
  Allocating and releasing the same run gives the used set back, so no frame leaks and
  no other owner's frame is released.
\<close>

theorem alloc_free_roundtrip:
  assumes "frames_inv st" "n \<noteq> 0" "PageFrameAllocator_alloc st n = Inr (f, st1)"
  shows "\<exists>st2. PageFrameAllocator_free st1 f n = Inr st2 \<and> frames_inv st2
    \<and> used_frames st2 = used_frames st \<and> usable_frames st2 = usable_frames st"
proof -
  from alloc_Inr_cases[OF assms] obtain j where j: "j + unat n \<le> kPagesInBitmap"
    "run_free st j (unat n)" "f = index_to_frame (of_nat j)" "alloc_post st j (unat n) st1" by auto
  have "0 < unat n" using assms(2) by (simp add: unat_gt_0)
  with j(1) have "j < kPagesInBitmap" by linarith
  with j(3) have f: "frame_number f = j" by (simp add: frame_number_index)
  have "run_at j (unat n) \<inter> used_frames st = {}"
    using j(2) by (auto simp: run_free_def free_frames_def)
  then show ?thesis
    using free_ok[of st1 f n] j f by (auto simp: alloc_post_def)
qed

theorem alloc_free_roundtrip_witness:
  "\<exists>f st1 st2. PageFrameAllocator_alloc all_free 2 = Inr (f, st1)
    \<and> PageFrameAllocator_free st1 f 2 = Inr st2 \<and> used_frames st2 = {}"
proof -
  obtain f st1 where f: "PageFrameAllocator_alloc all_free 2 = Inr (f, st1)"
    using all_free_alloc[of 2] by (auto simp: kPagesInBitmap_def)
  from alloc_free_roundtrip[OF all_free_facts(1) _ f] f show ?thesis
    by (auto simp: all_free_facts(3))
qed

text \<open>
  A request for two or more frames that no free run at or after the last allocation can
  serve runs off the end of the bitmap: the test loop of \<open>findFrames\<close> reads past the last
  frame instead of wrapping round to the lower frames or reporting that memory is exhausted.
\<close>

theorem alloc_multi_out_of_bounds:
  assumes "frames_inv st" "2 \<le> unat n"
    and "\<And>j. frame_number (lastAllocFrame st) \<le> j \<Longrightarrow> \<not> run_at j (unat n) \<subseteq> free_frames st"
  shows "PageFrameAllocator_alloc st n = Inl OutOfBounds"
proof -
  let ?s = "frame_number (lastAllocFrame st)"
  have n: "n \<noteq> 0" using assms(2) by auto
  have "alloc_scan st n ?s (kPagesInBitmap - ?s) = Inl OutOfBounds"
    using frame_number_lt[of "lastAllocFrame st"] assms
    by (intro alloc_scan_out) (auto simp: run_free_def)
  with n show ?thesis by (simp add: alloc_unfold)
qed

theorem alloc_multi_out_of_bounds_witness:
  "PageFrameAllocator_alloc PageFrameAllocator_new 2 = Inl OutOfBounds"
proof (rule alloc_multi_out_of_bounds[OF frames_inv_new])
  show "\<not> run_at j (unat (2 :: size_t)) \<subseteq> free_frames PageFrameAllocator_new" for j
    by (auto simp: run_at_def free_frames_def usable_frames_def PageFrameAllocator_new_def bits_of_new)
qed simp


text \<open>A one-entry memory map at address 0x1000: 1 MiB of available memory from 1 MiB on.\<close>

definition example_mmap :: byte_mem where
  "example_mmap a = (if a = 0x1000 then 20 else if a = 0x1006 then 0x10
     else if a = 0x100E then 0x10 else if a = 0x1014 then 1 else 0)"

definition example_entry :: multiboot_mmap_entry where
  "example_entry = \<lparr>mm_size = 20, mm_addr = 0x100000, mm_len = 0x100000, mm_type = 1\<rparr>"


end
