(* ===== verification/Paging.thy ===== *)
theory Paging
  imports Frames
begin

text \<open>
  Page entries, page tables and the i386 page walk (\<open>kernel/include/mem/PageTable.hpp\<close>,
  \<open>kernel/src/arch/i386/mem/PageTable.cpp\<close>, \<open>kernel/include/arch/i386/mem/Paging.hpp\<close>).

  The machine state is the physical memory, as 1024 words per page frame, the directory
  base register CR3 and the paging bit of CR0. Page tables are reached through virtual
  addresses, so every access goes through the two-level walk of the processor; a missing
  entry is a \<open>PageFault\<close>. Translation caching is not modelled: the operations that
  change a present entry reload CR3 before they return. The supervisor may write
  read-only pages, because CR0.WP is never set.
\<close>

section \<open>Page entries\<close>

type_synonym PageEntry = u32

definition kPageFlagsMask :: u32 where
  "kPageFlagsMask = 0x00000FFF"

datatype PageEntryFlag =
    kPresentBit | kReadWriteBit | kSupervisorBit | kWriteThroughBit
  | kCacheDisabledBit | kAccessedBit | kDirtyBit | kGlobalBit

fun flag_bits :: "PageEntryFlag \<Rightarrow> u8" where
  "flag_bits kPresentBit = 1"
| "flag_bits kReadWriteBit = 2"
| "flag_bits kSupervisorBit = 4"
| "flag_bits kWriteThroughBit = 8"
| "flag_bits kCacheDisabledBit = 16"
| "flag_bits kAccessedBit = 32"
| "flag_bits kDirtyBit = 64"
| "flag_bits kGlobalBit = 128"

definition PageEntry_of_address :: "uintptr \<Rightarrow> PageEntry" where
  "PageEntry_of_address address = address AND k4KPageAddressMask"

definition PageEntry_getFlag :: "PageEntry \<Rightarrow> PageEntryFlag \<Rightarrow> bool" where
  "PageEntry_getFlag entry flag = (entry AND ucast (flag_bits flag) \<noteq> 0)"

text \<open>
  \<open>unsetFlag\<close> calls the \<open>operator~\<close> of \<open>PageEntryFlag\<close>, whose result is again an 8-bit
  flag: the complement is taken in 8 bits and widened with zeroes.
\<close>

definition PageEntryFlag_complement :: "PageEntryFlag \<Rightarrow> u8" where
  "PageEntryFlag_complement flag = NOT (flag_bits flag)"

definition PageEntry_unsetFlag :: "PageEntry \<Rightarrow> PageEntryFlag \<Rightarrow> PageEntry" where
  "PageEntry_unsetFlag entry flag = entry AND ucast (PageEntryFlag_complement flag)"

definition PageEntry_setFlag :: "PageEntry \<Rightarrow> PageEntryFlag \<Rightarrow> PageEntry" where
  "PageEntry_setFlag entry flag = entry OR ucast (flag_bits flag)"

definition PageEntry_setFlags :: "PageEntry \<Rightarrow> uintptr \<Rightarrow> PageEntry" where
  "PageEntry_setFlags entry flags = (entry AND k4KPageAddressMask) OR (flags AND kPageFlagsMask)"

definition PageEntry_address :: "PageEntry \<Rightarrow> uintptr" where
  "PageEntry_address entry = entry AND k4KPageAddressMask"

definition PageEntry_flags :: "PageEntry \<Rightarrow> uintptr" where
  "PageEntry_flags entry = entry AND kPageFlagsMask"

section \<open>The machine\<close>

record machine =
  phys :: "nat \<Rightarrow> nat \<Rightarrow> u32"
  cr3 :: u32
  paging :: bool

abbreviation present :: "PageEntry \<Rightarrow> bool" where
  "present e \<equiv> PageEntry_getFlag e kPresentBit"

definition word_index :: "uintptr \<Rightarrow> nat" where
  "word_index va = unat va mod 4096 div 4"

definition translate :: "machine \<Rightarrow> uintptr \<Rightarrow> nat res" where
  "translate m va =
     (if \<not> paging m then Inr (frame_number va)
      else let pde = phys m (frame_number (cr3 m)) (frame_number va div 1024) in
        if \<not> present pde then Inl PageFault
        else let pte = phys m (frame_number pde) (frame_number va mod 1024) in
          if \<not> present pte then Inl PageFault else Inr (frame_number pte))"

definition vread :: "machine \<Rightarrow> uintptr \<Rightarrow> u32 res" where
  "vread m va = rbind (translate m va) (\<lambda>f. Inr (phys m f (word_index va)))"

definition phys_upd :: "machine \<Rightarrow> nat \<Rightarrow> nat \<Rightarrow> u32 \<Rightarrow> machine" where
  "phys_upd m f i v = m\<lparr>phys := (phys m)(f := (phys m f)(i := v))\<rparr>"

definition vwrite :: "machine \<Rightarrow> uintptr \<Rightarrow> u32 \<Rightarrow> machine res" where
  "vwrite m va v = rbind (translate m va) (\<lambda>f. Inr (phys_upd m f (word_index va) v))"

section \<open>Page tables\<close>

text \<open>A \<open>PageTable\<close> is the address its 1024 entries are reached at.\<close>

type_synonym PageTable = uintptr

definition PageTable_entryAtIndex :: "machine \<Rightarrow> PageTable \<Rightarrow> u16 \<Rightarrow> PageEntry res" where
  "PageTable_entryAtIndex m t index = vread m (t + 4 * ucast index)"

definition PageTable_setEntry :: "machine \<Rightarrow> PageTable \<Rightarrow> u16 \<Rightarrow> PageEntry \<Rightarrow> machine res" where
  "PageTable_setEntry m t index entry = vwrite m (t + 4 * ucast index) entry"

text \<open>\<open>memset(_tableAddress, 0, kPageTableSize)\<close>, a word at a time.\<close>

definition PageTable_clear :: "machine \<Rightarrow> PageTable \<Rightarrow> machine res" where
  "PageTable_clear m t = rfor (\<lambda>i m. vwrite m (t + 4 * of_nat i) 0) 0 1024 m"

definition PageTable_install :: "machine \<Rightarrow> PageTable \<Rightarrow> machine" where
  "PageTable_install m t = m\<lparr>cr3 := t, paging := True\<rparr>"

record PageIndex =
  directory :: u16
  page :: u16

definition PageDirectory_Index :: "uintptr \<Rightarrow> PageIndex" where
  "PageDirectory_Index vaddr = \<lparr>directory = ucast (drop_bit 22 vaddr),
     page = ucast (drop_bit 12 vaddr AND 0x03FF)\<rparr>"

section \<open>Lemmas on entries\<close>

lemma frame_number_mask: "frame_number (e AND k4KPageAddressMask) = frame_number e"
  using unat_frame_to_index[of e] unat_frame_to_index[of "e AND k4KPageAddressMask"]
  by (simp add: frame_to_index_def and.assoc)

lemma frame_number_drop: "frame_number e = unat (drop_bit 12 e)"
  by (simp add: frame_number_def unat_drop_bit_eq drop_bit_eq_div)

lemma frame_number_or_flags:
  assumes "drop_bit 12 flags = 0"
  shows "frame_number (e OR flags) = frame_number e"
  by (simp add: frame_number_drop assms)

lemma setFlags_frame [simp]: "frame_number (PageEntry_setFlags e fl) = frame_number e"
proof -
  have "drop_bit 12 (fl AND kPageFlagsMask) = 0" by (simp add: kPageFlagsMask_def)
  then show ?thesis by (simp add: PageEntry_setFlags_def frame_number_or_flags frame_number_mask)
qed

lemma setFlags_present [simp]: "present (PageEntry_setFlags e 3)"
  by (simp add: PageEntry_getFlag_def PageEntry_setFlags_def kPageFlagsMask_def k4KPageAddressMask_def
      bit.conj_disj_distrib and.assoc bit.conj_disj_distrib2)

lemma present_0 [simp]: "\<not> present 0"
  by (simp add: PageEntry_getFlag_def)

lemma frame_number_address [simp]: "frame_number (PageEntry_address e) = frame_number e"
  by (simp add: PageEntry_address_def frame_number_mask)

lemma frame_number_of_address [simp]: "frame_number (PageEntry_of_address e) = frame_number e"
  by (simp add: PageEntry_of_address_def frame_number_mask)

end
