(* ===== verification/Mmu.thy ===== *)
theory Mmu
  imports Paging
begin

text \<open>
  \<open>MMU\<close> (\<open>kernel/include/arch/i386/mem/MMU.hpp\<close>, \<open>kernel/src/arch/i386/mem/MMU.cpp\<close>):
  construction from the multiboot map, the identity-mapped boot directory with its
  self-map in the last directory entry, allocation of virtual pages (first fit, and at a
  given address) and their release. Page tables are reached through the self-map window
  at \<open>0xFFC00000\<close>. The linker symbols \<open>kernel_end\<close> and \<open>readonly_end\<close> are arguments.
\<close>

section \<open>State and constants\<close>

record MMU =
  pfa :: PageFrameAllocator
  hw :: machine

type_synonym AddressSpace = PageTable

definition kVGAPage :: u32 where
  "kVGAPage = 0xB8000 div 0x1000"

definition kPDESelfMapIndex :: u16 where
  "kPDESelfMapIndex = 1023"

definition kPageDirectoryAddress :: uintptr where
  "kPageDirectoryAddress = 0xFFC00000"

definition PageTableForDirectoryIndex :: "u32 \<Rightarrow> PageTable" where
  "PageTableForDirectoryIndex index = kPageDirectoryAddress + index * 0x1000"

text \<open>\<open>_pageFrameAllocator.alloc(1)\<close>, as a step on the whole state.\<close>

definition alloc_frame :: "MMU \<Rightarrow> (PageFrame \<times> MMU) res" where
  "alloc_frame st = rbind (PageFrameAllocator_alloc (pfa st) 1) (\<lambda>(f, p). Inr (f, st\<lparr>pfa := p\<rparr>))"

definition set_entry :: "MMU \<Rightarrow> PageTable \<Rightarrow> u16 \<Rightarrow> PageEntry \<Rightarrow> MMU res" where
  "set_entry st t i e = rbind (PageTable_setEntry (hw st) t i e) (\<lambda>m. Inr (st\<lparr>hw := m\<rparr>))"

definition clear_table :: "MMU \<Rightarrow> PageTable \<Rightarrow> MMU res" where
  "clear_table st t = rbind (PageTable_clear (hw st) t) (\<lambda>m. Inr (st\<lparr>hw := m\<rparr>))"

section \<open>Construction\<close>

definition reserve_panic :: fault where
  "reserve_panic = KernelPanic ''Page allocation error: unable to reserve kernel memory frames.''"

text \<open>
  Frames below 1 MiB are marked unusable; the frames from there up to the end of the
  kernel image are requested. With an image that ends in the last page of memory the
  loop variable would wrap round to frame 0, whose request fails.
\<close>

definition MMU_new :: "nat \<Rightarrow> byte_mem \<Rightarrow> u32 \<Rightarrow> u32 \<Rightarrow> u32 \<Rightarrow> PageFrameAllocator res" where
  "MMU_new fuel mem mmap_addr mmap_length kernel_end =
     rbind (loadMemoryMap fuel mem mmap_addr mmap_length PageFrameAllocator_new) (\<lambda>p0.
     rbind (rfor (\<lambda>k p. markFrameUsable p (of_nat k * 0x1000) False) 0 256 p0) (\<lambda>p1.
     rbind (rfor (\<lambda>k p. rbind (requestFrame p (of_nat k * 0x1000)) (\<lambda>(ok, p').
              if ok then Inr p' else Inl reserve_panic))
            256 (frame_number kernel_end + 1 - 256) p1) (\<lambda>p2.
     if 0xFFFFF000 \<le> kernel_end then Inl reserve_panic else Inr p2)))"

definition MMU_create :: "MMU \<Rightarrow> (AddressSpace \<times> MMU) res" where
  "MMU_create st = alloc_frame st"

section \<open>Installing the boot directory\<close>

definition addToDirectory :: "MMU \<Rightarrow> AddressSpace \<Rightarrow> u16 \<Rightarrow> PageTable \<Rightarrow> MMU res" where
  "addToDirectory st as i t =
     (let entry = PageEntry_setFlag (PageEntry_setFlag (PageEntry_of_address t) kPresentBit) kReadWriteBit
      in set_entry st as i entry)"

definition createNextTable :: "MMU \<Rightarrow> u32 \<Rightarrow> (PageTable \<times> u32 \<times> MMU) res" where
  "createNextTable st lastUsedFrame =
     rbind (alloc_frame st) (\<lambda>(newTable, st1).
     rbind (clear_table st1 newTable) (\<lambda>st2.
     Inr (newTable, max lastUsedFrame (newTable div 0x1000), st2)))"

definition identity_entry :: "u32 \<Rightarrow> u32 \<Rightarrow> PageEntry" where
  "identity_entry readOnlyEnd frame =
     (let entry = PageEntry_setFlag (PageEntry_of_address (frame * 0x1000)) kPresentBit
      in if frame > readOnlyEnd \<or> frame = kVGAPage then PageEntry_setFlag entry kReadWriteBit else entry)"

text \<open>The state of the loop over the frames of \<open>install\<close>.\<close>

record install_state =
  i_mmu :: MMU
  i_table :: PageTable
  i_dirIndex :: u16
  i_lastUsed :: u32

definition install_step :: "u32 \<Rightarrow> AddressSpace \<Rightarrow> u32 \<Rightarrow> install_state \<Rightarrow> install_state res" where
  "install_step readOnlyEnd as frame s =
     rbind (if frame mod 0x400 = 0
            then rbind (if i_table s \<noteq> 0
                        then rbind (addToDirectory (i_mmu s) as (i_dirIndex s) (i_table s))
                               (\<lambda>st. Inr (s\<lparr>i_mmu := st, i_dirIndex := i_dirIndex s + 1\<rparr>))
                        else Inr s) (\<lambda>s1.
                 rbind (createNextTable (i_mmu s1) (i_lastUsed s1)) (\<lambda>(t, l, st).
                 Inr (s1\<lparr>i_mmu := st, i_table := t, i_lastUsed := l\<rparr>)))
            else Inr s) (\<lambda>s2.
     rbind (set_entry (i_mmu s2) (i_table s2) (ucast (frame mod 0x400)) (identity_entry readOnlyEnd frame))
       (\<lambda>st. Inr (s2\<lparr>i_mmu := st\<rparr>)))"

text \<open>
  The loop bound grows while page tables are allocated, but it is a frame number, so
  \<open>kPagesInBitmap\<close> rounds are the most there can be.
\<close>

fun install_loop :: "nat \<Rightarrow> u32 \<Rightarrow> AddressSpace \<Rightarrow> u32 \<Rightarrow> install_state \<Rightarrow> install_state res" where
  "install_loop 0 readOnlyEnd as frame s = Inl Hang"
| "install_loop (Suc fuel) readOnlyEnd as frame s =
     (if frame \<le> i_lastUsed s
      then rbind (install_step readOnlyEnd as frame s) (install_loop fuel readOnlyEnd as (frame + 1))
      else Inr s)"

definition MMU_install :: "u32 \<Rightarrow> MMU \<Rightarrow> AddressSpace \<Rightarrow> MMU res" where
  "MMU_install readonly_end st as =
     (let readOnlyEnd = readonly_end div 0x1000 in
      rbind (clear_table st as) (\<lambda>st0.
      rbind (install_loop (kPagesInBitmap + 1) readOnlyEnd as 0
               \<lparr>i_mmu = st0, i_table = 0, i_dirIndex = 0, i_lastUsed = readOnlyEnd\<rparr>) (\<lambda>s.
      rbind (if i_table s \<noteq> 0 then addToDirectory (i_mmu s) as (i_dirIndex s) (i_table s)
             else Inr (i_mmu s)) (\<lambda>st1.
      rbind (addToDirectory st1 as kPDESelfMapIndex as) (\<lambda>st2.
      Inr (st2\<lparr>hw := PageTable_install (hw st2) as\<rparr>))))))"

section \<open>Tables on demand\<close>

definition getOrCreateTable :: "MMU \<Rightarrow> AddressSpace \<Rightarrow> u16 \<Rightarrow> (PageTable \<times> MMU) res" where
  "getOrCreateTable st as directoryIndex =
     (if directoryIndex > 1023
      then Inl (KernelPanic ''MMU::getOrCreateTable: invalid directoryIndex'')
      else
        rbind (PageTable_entryAtIndex (hw st) as directoryIndex) (\<lambda>pde.
        let table = PageTableForDirectoryIndex (ucast directoryIndex) in
        if \<not> PageEntry_getFlag pde kPresentBit
        then rbind (alloc_frame st) (\<lambda>(f, st1).
             rbind (set_entry st1 as directoryIndex
                      (PageEntry_setFlags (PageEntry_of_address f)
                         (ucast (flag_bits kPresentBit) OR ucast (flag_bits kReadWriteBit)))) (\<lambda>st2.
             rbind (clear_table st2 table) (\<lambda>st3.
             Inr (table, st3))))
        else Inr (table, st)))"

definition tableForAddress :: "MMU \<Rightarrow> AddressSpace \<Rightarrow> uintptr \<Rightarrow> (PageTable \<times> MMU) res" where
  "tableForAddress st as virtualAddress = getOrCreateTable st as (ucast (drop_bit 22 virtualAddress))"

definition pageForAddress :: "MMU \<Rightarrow> AddressSpace \<Rightarrow> uintptr \<Rightarrow> (PageEntry \<times> MMU) res" where
  "pageForAddress st as virtualAddress =
     rbind (tableForAddress st as virtualAddress) (\<lambda>(table, st1).
     rbind (PageTable_entryAtIndex (hw st1) table (ucast (drop_bit 12 virtualAddress AND 0x03FF))) (\<lambda>e.
     Inr (e, st1)))"

section \<open>Mapping pages\<close>

text \<open>The loop of \<open>allocatePages\<close>: \<open>k\<close> pages left to map.\<close>

fun allocatePages_loop :: "nat \<Rightarrow> MMU \<Rightarrow> u32 \<Rightarrow> u16 \<Rightarrow> MMU res" where
  "allocatePages_loop 0 st currpde currpte = Inr st"
| "allocatePages_loop (Suc k) st currpde currpte =
     (let table = PageTableForDirectoryIndex currpde in
      rbind (alloc_frame st) (\<lambda>(f, st1).
      let entry = PageEntry_setFlags (PageEntry_of_address f)
                    (ucast (flag_bits kPresentBit) OR ucast (flag_bits kReadWriteBit)) in
      rbind (set_entry st1 table currpte entry) (\<lambda>st2.
      if currpte + 1 > 1023 then allocatePages_loop k st2 (currpde + 1) 0
      else allocatePages_loop k st2 currpde (currpte + 1))))"

definition allocatePages :: "MMU \<Rightarrow> AddressSpace \<Rightarrow> uintptr \<Rightarrow> size_t \<Rightarrow> MMU res" where
  "allocatePages st as address numberOfPages =
     allocatePages_loop (unat numberOfPages) st (drop_bit 22 address) (ucast (drop_bit 12 address AND 0x03FF))"

section \<open>First-fit allocation of virtual pages\<close>

record page_scan =
  contiguousFoundPages :: size_t
  retpde :: uintptr
  retpte :: uintptr
  retval :: uintptr

text \<open>The inner loop of \<open>palloc\<close>: \<open>k\<close> entries left in the table.\<close>

fun palloc_table :: "machine \<Rightarrow> PageTable \<Rightarrow> size_t \<Rightarrow> u16 \<Rightarrow> nat \<Rightarrow> nat \<Rightarrow> page_scan \<Rightarrow> page_scan res" where
  "palloc_table m table n pde pte 0 s = Inr s"
| "palloc_table m table n pde pte (Suc k) s =
     rbind (PageTable_entryAtIndex m table (of_nat pte)) (\<lambda>entry.
       if \<not> PageEntry_getFlag entry kPresentBit
       then let s1 = (if contiguousFoundPages s = 0
                      then s\<lparr>retpde := ucast pde, retpte := of_nat pte\<rparr> else s);
                s2 = s1\<lparr>contiguousFoundPages := contiguousFoundPages s1 + 1\<rparr>
            in if contiguousFoundPages s2 = n
               then Inr (s2\<lparr>retval := push_bit 22 (retpde s2) OR push_bit 12 (retpte s2)\<rparr>)
               else palloc_table m table n pde (Suc pte) k s2
       else if contiguousFoundPages s \<noteq> 0
       then palloc_table m table n pde (Suc pte) k (s\<lparr>retval := 0, contiguousFoundPages := 0\<rparr>)
       else palloc_table m table n pde (Suc pte) k s)"

text \<open>The outer loop: \<open>k\<close> directory entries left.\<close>

fun palloc_scan :: "MMU \<Rightarrow> AddressSpace \<Rightarrow> size_t \<Rightarrow> nat \<Rightarrow> nat \<Rightarrow> page_scan \<Rightarrow> (page_scan \<times> MMU) res" where
  "palloc_scan st as n pde 0 s = Inr (s, st)"
| "palloc_scan st as n pde (Suc k) s =
     (if contiguousFoundPages s = n then Inr (s, st)
      else rbind (getOrCreateTable st as (of_nat pde)) (\<lambda>(table, st1).
           rbind (palloc_table (hw st1) table n (of_nat pde) 0 1024 s) (\<lambda>s1.
           palloc_scan st1 as n (Suc pde) k s1)))"

definition MMU_palloc :: "MMU \<Rightarrow> AddressSpace \<Rightarrow> size_t \<Rightarrow> (uintptr \<times> MMU) res" where
  "MMU_palloc st as numberOfPages =
     rbind (palloc_scan st as numberOfPages 0 1024
              \<lparr>contiguousFoundPages = 0, retpde = 0, retpte = 0, retval = 0\<rparr>) (\<lambda>(s, st1).
     if retval s \<noteq> 0
     then rbind (allocatePages st1 as (retval s) numberOfPages) (\<lambda>st2. Inr (retval s, st2))
     else Inr (0, st1))"

section \<open>Allocation at a given address\<close>

fun palloc_probe :: "MMU \<Rightarrow> AddressSpace \<Rightarrow> uintptr \<Rightarrow> nat \<Rightarrow> (bool \<times> MMU) res" where
  "palloc_probe st as address 0 = Inr (True, st)"
| "palloc_probe st as address (Suc k) =
     rbind (pageForAddress st as address) (\<lambda>(e, st1).
       if PageEntry_getFlag e kPresentBit then Inr (False, st1)
       else palloc_probe st1 as (address + 0x1000) k)"

definition MMU_palloc_at :: "MMU \<Rightarrow> AddressSpace \<Rightarrow> uintptr \<Rightarrow> size_t \<Rightarrow> (uintptr \<times> MMU) res" where
  "MMU_palloc_at st as virtualAddress numberOfPages =
     (if virtualAddress AND 0xFFF \<noteq> 0 then Inr (0, st)
      else rbind (palloc_probe st as virtualAddress (unat numberOfPages)) (\<lambda>(ok, st1).
        let va = (if ok then virtualAddress else 0) in
        if va \<noteq> 0 then rbind (allocatePages st1 as va numberOfPages) (\<lambda>st2. Inr (va, st2))
        else Inr (va, st1)))"

section \<open>Release and cloning\<close>

fun pfree_loop :: "nat \<Rightarrow> MMU \<Rightarrow> uintptr \<Rightarrow> MMU res" where
  "pfree_loop 0 st virtualAddress = Inr st"
| "pfree_loop (Suc k) st virtualAddress =
     (let pdeIndex = drop_bit 22 virtualAddress;
          pteIndex = ucast (drop_bit 12 virtualAddress AND 0x03FF);
          table = PageTableForDirectoryIndex pdeIndex in
      rbind (PageTable_entryAtIndex (hw st) table pteIndex) (\<lambda>pte.
      rbind (PageFrameAllocator_free (pfa st) (PageEntry_address pte) 1) (\<lambda>p.
      rbind (set_entry (st\<lparr>pfa := p\<rparr>) table pteIndex (PageEntry_of_address 0)) (\<lambda>st1.
      pfree_loop k st1 (virtualAddress + 0x1000)))))"

definition MMU_pfree :: "MMU \<Rightarrow> AddressSpace \<Rightarrow> uintptr \<Rightarrow> size_t \<Rightarrow> (int \<times> MMU) res" where
  "MMU_pfree st as startOfMemoryRange numberOfPages =
     (if numberOfPages = 0 then Inr (- 1, st)
      else rbind (pfree_loop (unat numberOfPages) st startOfMemoryRange) (\<lambda>st1. Inr (0, st1)))"

definition MMU_cloneDirectory :: "MMU \<Rightarrow> AddressSpace \<Rightarrow> (PageTable \<times> MMU) res" where
  "MMU_cloneDirectory st src =
     rbind (MMU_palloc st src 1) (\<lambda>(page, st1).
     rbind (clear_table st1 page) (\<lambda>st2. Inr (page, st2)))"

end
