(* ===== verification/Mmu_Correct.thy ===== *)
theory Mmu_Correct
  imports Mmu
begin

text \<open>
  Correctness of the MMU model: the invariant that ties the page directory, the page
  tables and the frame allocator together, what the self-map window gives access to, and
  the effect of every operation on the map from virtual pages to page entries.
\<close>

section \<open>Abstraction: the map of virtual pages\<close>

definition dir_frame :: "MMU \<Rightarrow> nat" where
  "dir_frame st = frame_number (cr3 (hw st))"

definition pde_of :: "MMU \<Rightarrow> nat \<Rightarrow> PageEntry" where
  "pde_of st i = phys (hw st) (dir_frame st) i"

definition pte_of :: "MMU \<Rightarrow> nat \<Rightarrow> PageEntry" where
  "pte_of st v = phys (hw st) (frame_number (pde_of st (v div 1024))) (v mod 1024)"

text \<open>Virtual pages below the self-map window.\<close>

definition kUserPages :: nat where
  "kUserPages = 1047552"

definition page_map :: "MMU \<Rightarrow> nat \<Rightarrow> PageEntry option" where
  "page_map st v = (if present (pde_of st (v div 1024)) \<and> present (pte_of st v)
     then Some (pte_of st v) else None)"

definition mmu_free :: "MMU \<Rightarrow> nat set" where
  "mmu_free st = free_frames (pfa st)"

definition self_mapped :: "MMU \<Rightarrow> bool" where
  "self_mapped st \<longleftrightarrow> paging (hw st) \<and> present (pde_of st 1023) \<and> frame_number (pde_of st 1023) = dir_frame st"

text \<open>Page tables have frames of their own, distinct from the directory's and from free ones.\<close>

definition tables_inv :: "MMU \<Rightarrow> bool" where
  "tables_inv st \<longleftrightarrow> dir_frame st \<notin> mmu_free st
     \<and> (\<forall>i<1023. present (pde_of st i) \<longrightarrow>
          frame_number (pde_of st i) \<noteq> dir_frame st \<and> frame_number (pde_of st i) \<notin> mmu_free st)
     \<and> (\<forall>i<1023. \<forall>j<1023. present (pde_of st i) \<longrightarrow> present (pde_of st j) \<longrightarrow>
          frame_number (pde_of st i) = frame_number (pde_of st j) \<longrightarrow> i = j)"

text \<open>The address space is the identity-mapped directory page, and no mapped page's frame is free.\<close>

definition space_inv :: "MMU \<Rightarrow> AddressSpace \<Rightarrow> bool" where
  "space_inv st as \<longleftrightarrow> unat as mod 4096 = 0 \<and> frame_number as < kUserPages
     \<and> (\<exists>e. page_map st (frame_number as) = Some e \<and> frame_number e = dir_frame st)"

definition mapped_inv :: "MMU \<Rightarrow> bool" where
  "mapped_inv st \<longleftrightarrow> (\<forall>v<kUserPages. \<forall>e. page_map st v = Some e \<longrightarrow> frame_number e \<notin> mmu_free st)"

definition mmu_inv :: "MMU \<Rightarrow> AddressSpace \<Rightarrow> bool" where
  "mmu_inv st as \<longleftrightarrow> frames_inv (pfa st) \<and> self_mapped st \<and> tables_inv st \<and> space_inv st as \<and> mapped_inv st"

lemmas mmu_inv_defs = mmu_inv_def self_mapped_def tables_inv_def space_inv_def mapped_inv_def

section \<open>Addresses\<close>

lemma ucast_small16: "i < 65536 \<Longrightarrow> ucast (of_nat i :: u16) = (of_nat i :: u32)"
  by (simp add: word32_eq_iff_unat unsigned_ucast_eq unat_of_nat take_bit_nat_eq_self)

lemma unat_entry_addr:
  assumes "unat t mod 4096 = 0" "i < 1024"
  shows "unat (t + 4 * of_nat i :: u32) = unat t + 4 * i"
proof -
  have "4096 dvd unat t" using assms(1) by auto
  then obtain k where k: "unat t = 4096 * k" ..
  moreover have "unat t < 4294967296" by simp
  ultimately have "k < 1048576" by linarith
  moreover have "unat (4 * of_nat i :: u32) = 4 * i"
    using assms(2) by (simp add: unat_word_ariths)
  ultimately show ?thesis using assms(2) k by (subst unat_plus_small) auto
qed

lemma entry_addr:
  assumes "unat t mod 4096 = 0" "i < 1024"
  shows "frame_number (t + 4 * of_nat i) = frame_number t" "word_index (t + 4 * of_nat i) = i"
proof -
  from assms(1) obtain k where k: "unat t = 4096 * k" by auto
  show "frame_number (t + 4 * of_nat i) = frame_number t"
    using assms by (simp add: frame_number_def unat_entry_addr k)
  show "word_index (t + 4 * of_nat i) = i"
    using assms by (simp add: word_index_def unat_entry_addr k)
qed

lemma table_addr:
  assumes "d < 1024"
  shows "unat (PageTableForDirectoryIndex (of_nat d)) mod 4096 = 0"
    "frame_number (PageTableForDirectoryIndex (of_nat d)) = 1047552 + d"
proof -
  have *: "unat (PageTableForDirectoryIndex (of_nat d)) = 4096 * (1047552 + d)"
    using assms by (simp add: PageTableForDirectoryIndex_def kPageDirectoryAddress_def unat_word_ariths)
  show "unat (PageTableForDirectoryIndex (of_nat d)) mod 4096 = 0" by (simp only: *) simp
  show "frame_number (PageTableForDirectoryIndex (of_nat d)) = 1047552 + d"
    by (simp only: * frame_number_def) simp
qed

lemma window_index:
  assumes "d < (1024 :: nat)"
  shows "(1047552 + d) div 1024 = 1023" "(1047552 + d) mod 1024 = d"
proof -
  have e: "1047552 + d = d + 1023 * 1024" by simp
  show "(1047552 + d) div 1024 = 1023" unfolding e using assms by (subst div_mult_self1) simp_all
  show "(1047552 + d) mod 1024 = d" unfolding e using assms by (subst mod_mult_self1) simp
qed

lemma translate_space:
  assumes "self_mapped st" "space_inv st as" "i < 1024"
  shows "translate (hw st) (as + 4 * of_nat i) = Inr (dir_frame st)"
    "word_index (as + 4 * of_nat i) = i"
  using assms
  by (auto simp: translate_def entry_addr space_inv_def self_mapped_def page_map_def
      pde_of_def pte_of_def dir_frame_def split: if_splits)

lemma translate_table:
  assumes "self_mapped st" "d < 1024" "present (pde_of st d)" "i < 1024"
  shows "translate (hw st) (PageTableForDirectoryIndex (of_nat d) + 4 * of_nat i) = Inr (frame_number (pde_of st d))"
    "word_index (PageTableForDirectoryIndex (of_nat d) + 4 * of_nat i) = i"
  using assms
  by (auto simp: translate_def entry_addr table_addr self_mapped_def pde_of_def dir_frame_def window_index)

lemma entry_in_space:
  assumes "self_mapped st" "space_inv st as" "i < 1024"
  shows "PageTable_entryAtIndex (hw st) as (of_nat i) = Inr (pde_of st i)"
  using assms by (simp add: PageTable_entryAtIndex_def vread_def ucast_small16 translate_space pde_of_def)

lemma entry_in_table:
  assumes "self_mapped st" "d < 1024" "present (pde_of st d)" "i < 1024"
  shows "PageTable_entryAtIndex (hw st) (PageTableForDirectoryIndex (of_nat d)) (of_nat i)
    = Inr (pte_of st (1024 * d + i))"
  using assms
  by (simp add: PageTable_entryAtIndex_def vread_def ucast_small16 translate_table pte_of_def)

section \<open>Writes\<close>

definition write_phys :: "MMU \<Rightarrow> nat \<Rightarrow> nat \<Rightarrow> u32 \<Rightarrow> MMU" where
  "write_phys st f i v = st\<lparr>hw := phys_upd (hw st) f i v\<rparr>"

lemma set_entry_space:
  assumes "self_mapped st" "space_inv st as" "i < 1024"
  shows "set_entry st as (of_nat i) e = Inr (write_phys st (dir_frame st) i e)"
  using assms by (simp add: set_entry_def PageTable_setEntry_def vwrite_def ucast_small16
      translate_space write_phys_def)

lemma set_entry_table:
  assumes "self_mapped st" "d < 1024" "present (pde_of st d)" "i < 1024"
  shows "set_entry st (PageTableForDirectoryIndex (of_nat d)) (of_nat i) e
    = Inr (write_phys st (frame_number (pde_of st d)) i e)"
  using assms by (simp add: set_entry_def PageTable_setEntry_def vwrite_def ucast_small16
      translate_table write_phys_def)

lemma write_phys_simps [simp]:
  "pfa (write_phys st f i v) = pfa st"
  "dir_frame (write_phys st f i v) = dir_frame st"
  "mmu_free (write_phys st f i v) = mmu_free st"
  "paging (hw (write_phys st f i v)) = paging (hw st)"
  "phys (hw (write_phys st f i v)) g j = (if g = f \<and> j = i then v else phys (hw st) g j)"
  by (simp_all add: write_phys_def phys_upd_def dir_frame_def mmu_free_def)

lemma pde_of_write [simp]:
  "pde_of (write_phys st f i v) j = (if f = dir_frame st \<and> j = i then v else pde_of st j)"
  by (auto simp: pde_of_def)

text \<open>Clearing a page through an address whose translation it does not change.\<close>

definition clear_frame :: "MMU \<Rightarrow> nat \<Rightarrow> nat \<Rightarrow> MMU" where
  "clear_frame st f n = st\<lparr>hw := (hw st)\<lparr>phys := (phys (hw st))(f := (\<lambda>i. if i < n then 0 else phys (hw st) f i))\<rparr>\<rparr>"

lemma clear_frame_simps [simp]:
  "pfa (clear_frame st f n) = pfa st"
  "dir_frame (clear_frame st f n) = dir_frame st"
  "mmu_free (clear_frame st f n) = mmu_free st"
  "paging (hw (clear_frame st f n)) = paging (hw st)"
  "phys (hw (clear_frame st f n)) g j = (if g = f \<and> j < n then 0 else phys (hw st) g j)"
  by (auto simp: clear_frame_def dir_frame_def mmu_free_def)

lemma pde_of_clear [simp]:
  "f \<noteq> dir_frame st \<Longrightarrow> pde_of (clear_frame st f n) j = pde_of st j"
  by (auto simp: pde_of_def)

lemma clear_table_ok:
  assumes "self_mapped st" "d < 1023" "present (pde_of st d)" "frame_number (pde_of st d) \<noteq> dir_frame st"
  shows "clear_table st (PageTableForDirectoryIndex (of_nat d))
    = Inr (clear_frame st (frame_number (pde_of st d)) 1024)"
proof -
  let ?f = "frame_number (pde_of st d)" and ?t = "PageTableForDirectoryIndex (of_nat d)"
  have "\<exists>m. rfor (\<lambda>i m. vwrite m (?t + 4 * of_nat i) 0) 0 1024 (hw st) = Inr m
    \<and> m = hw (clear_frame st ?f (0 + 1024))"
  proof (rule rfor_invariant[where P = "\<lambda>j m. m = hw (clear_frame st ?f j)"])
    show "hw st = hw (clear_frame st ?f 0)" by (simp add: clear_frame_def)
    fix j m assume j: "0 \<le> j" "j < 0 + (1024 :: nat)" and m: "m = hw (clear_frame st ?f j)"
    let ?s = "clear_frame st ?f j"
    have "self_mapped ?s" "present (pde_of ?s d)" "frame_number (pde_of ?s d) = ?f"
      using assms by (auto simp: self_mapped_def)
    then have "vwrite m (?t + 4 * of_nat j) 0 = Inr (phys_upd m ?f j 0)"
      using translate_table[of ?s d j] assms(2) j m by (simp add: vwrite_def)
    moreover have "phys_upd m ?f j 0 = hw (clear_frame st ?f (Suc j))"
      unfolding m by (auto simp: phys_upd_def clear_frame_def fun_eq_iff less_Suc_eq)
    ultimately show "\<exists>m'. vwrite m (?t + 4 * of_nat j) 0 = Inr m' \<and> m' = hw (clear_frame st ?f (Suc j))"
      by simp
  qed
  then show ?thesis by (auto simp: clear_table_def PageTable_clear_def clear_frame_def)
qed

section \<open>Allocating a frame\<close>

lemma alloc_frame_Inr:
  assumes "frames_inv (pfa st)" "alloc_frame st = Inr (f, st1)"
  shows "frame_number f \<in> mmu_free st" "mmu_free st1 = mmu_free st - {frame_number f}"
    "frames_inv (pfa st1)" "hw st1 = hw st" "usable_frames (pfa st1) = usable_frames (pfa st)"
  using assms fs.take_Inr[of "pfa st"] by (auto simp: alloc_frame_def mmu_free_def)

lemma alloc_frame_Inl:
  assumes "frames_inv (pfa st)" "alloc_frame st = Inl e"
  shows "e = out_of_memory \<and> mmu_free st = {}"
  using assms fs.take_Inl[of "pfa st"] by (auto simp: alloc_frame_def mmu_free_def rbind_Inl_iff)

lemma hw_cong:
  assumes "hw st' = hw st"
  shows "dir_frame st' = dir_frame st" "pde_of st' = pde_of st" "pte_of st' = pte_of st" "page_map st' = page_map st"
    "self_mapped st' = self_mapped st" "space_inv st' as = space_inv st as"
proof -
  show d: "dir_frame st' = dir_frame st" by (simp add: dir_frame_def assms)
  show p: "pde_of st' = pde_of st" by (simp add: fun_eq_iff pde_of_def d assms)
  show q: "pte_of st' = pte_of st" by (simp add: fun_eq_iff pte_of_def p assms)
  show r: "page_map st' = page_map st" by (simp add: fun_eq_iff page_map_def p q)
  show "self_mapped st' = self_mapped st" by (simp add: self_mapped_def p d assms)
  show "space_inv st' as = space_inv st as" by (simp add: space_inv_def r d)
qed

text \<open>Taking frames away from the allocator keeps the rest of the invariant.\<close>

lemma mmu_inv_fewer_free:
  assumes "mmu_inv st as" "hw st' = hw st" "frames_inv (pfa st')" "mmu_free st' \<subseteq> mmu_free st"
  shows "mmu_inv st' as"
  using assms hw_cong[OF assms(2)] unfolding mmu_inv_def tables_inv_def mapped_inv_def
  by (auto simp: subset_iff)

section \<open>Mapping one page\<close>

definition rw_entry :: "PageFrame \<Rightarrow> PageEntry" where
  "rw_entry f = PageEntry_setFlags (PageEntry_of_address f) 3"

lemma rw_flags: "(ucast (flag_bits kPresentBit) OR ucast (flag_bits kReadWriteBit) :: u32) = 3"
  by simp

lemma rw_entry_simps [simp]: "frame_number (rw_entry f) = frame_number f" "present (rw_entry f)"
  by (simp_all add: rw_entry_def)

lemma page_index: "v < kUserPages \<Longrightarrow> v div 1024 < 1023"
  by (simp add: kUserPages_def)

lemma div_mod_eqI: "u div 1024 = v div (1024 :: nat) \<Longrightarrow> u mod 1024 = v mod 1024 \<Longrightarrow> u = v"
  by (metis div_mult_mod_eq)

lemma pte_of_write:
  assumes "tables_inv st" "d < 1023" "present (pde_of st d)" "u < kUserPages" "i < 1024"
    and "present (pde_of st (u div 1024))"
  shows "pte_of (write_phys st (frame_number (pde_of st d)) i e) u =
    (if u = 1024 * d + i then e else pte_of st u)"
proof -
  let ?f = "frame_number (pde_of st d)"
  have f: "?f \<noteq> dir_frame st" using assms by (auto simp: tables_inv_def)
  have u: "u div 1024 < 1023" using assms(4) by (rule page_index)
  have "frame_number (pde_of st (u div 1024)) = ?f \<longleftrightarrow> u div 1024 = d"
    using assms u by (auto simp: tables_inv_def)
  moreover have "u div 1024 = d \<and> u mod 1024 = i \<longleftrightarrow> u = 1024 * d + i"
    using assms(5) div_mod_eqI[of u "1024 * d + i"] by auto
  ultimately show ?thesis using f by (auto simp: pte_of_def)
qed

lemma page_map_write:
  assumes "tables_inv st" "v < kUserPages" "present (pde_of st (v div 1024))" "u < kUserPages"
  shows "page_map (write_phys st (frame_number (pde_of st (v div 1024))) (v mod 1024) e) u =
    (if u = v then (if present e then Some e else None) else page_map st u)"
proof -
  let ?d = "v div 1024"
  have d: "?d < 1023" using assms(2) by (rule page_index)
  have f: "frame_number (pde_of st ?d) \<noteq> dir_frame st" using assms d by (auto simp: tables_inv_def)
  have v: "1024 * ?d + v mod 1024 = v" by simp
  show ?thesis
  proof (cases "present (pde_of st (u div 1024))")
    case True
    then show ?thesis
      using pte_of_write[OF assms(1) d assms(3,4) _ True, of "v mod 1024" e] f assms(3)
      by (auto simp: page_map_def v)
  next
    case False
    then have "u \<noteq> v" using assms(3) by auto
    with False f show ?thesis by (simp add: page_map_def)
  qed
qed

text \<open>Writing an entry for a page whose frame is not free, into a page that does not map the directory.\<close>

lemma mmu_inv_write:
  assumes inv: "mmu_inv st as" and v: "v < kUserPages" "present (pde_of st (v div 1024))"
    and e: "present e \<Longrightarrow> frame_number e \<notin> mmu_free st" and as: "v \<noteq> frame_number as"
  shows "mmu_inv (write_phys st (frame_number (pde_of st (v div 1024))) (v mod 1024) e) as"
proof -
  let ?st = "write_phys st (frame_number (pde_of st (v div 1024))) (v mod 1024) e"
  from inv have t: "tables_inv st" and s: "space_inv st as" and m: "mapped_inv st" by (auto simp: mmu_inv_def)
  have d: "v div 1024 < 1023" using v(1) by (rule page_index)
  have f: "frame_number (pde_of st (v div 1024)) \<noteq> dir_frame st" using t v d by (auto simp: tables_inv_def)
  have pd: "pde_of ?st = pde_of st" using f by (simp add: fun_eq_iff)
  have pm: "u < kUserPages \<Longrightarrow> page_map ?st u =
      (if u = v then (if present e then Some e else None) else page_map st u)" for u
    by (rule page_map_write[OF t v])
  have "tables_inv ?st" using t unfolding tables_inv_def pd by simp
  moreover have "self_mapped ?st" using inv unfolding mmu_inv_def self_mapped_def pd by simp
  moreover have "space_inv ?st as" using s pm[of "frame_number as"] as unfolding space_inv_def by simp
  moreover have "mapped_inv ?st" using m pm e unfolding mapped_inv_def by auto
  moreover have "frames_inv (pfa ?st)" using inv by (simp add: mmu_inv_def)
  ultimately show ?thesis by (simp add: mmu_inv_def)
qed

section \<open>Mapping a run of pages\<close>

definition run_unmapped :: "MMU \<Rightarrow> nat \<Rightarrow> nat \<Rightarrow> bool" where
  "run_unmapped st v k \<longleftrightarrow> v + k \<le> kUserPages \<and> (\<forall>u. v \<le> u \<and> u < v + k \<longrightarrow> page_map st u = None)"

definition run_tables :: "MMU \<Rightarrow> nat \<Rightarrow> nat \<Rightarrow> bool" where
  "run_tables st v k \<longleftrightarrow> (\<forall>u. v \<le> u \<and> u < v + k \<longrightarrow> present (pde_of st (u div 1024)))"

text \<open>
  The effect of mapping the pages \<open>v\<close>, \<open>v + 1\<close>, \<dots> to the frames \<open>fs\<close>: each gets a present,
  writable entry for its own frame, taken from the free ones, and no other page changes.
\<close>

definition maps_run :: "MMU \<Rightarrow> nat \<Rightarrow> PageFrame list \<Rightarrow> MMU \<Rightarrow> bool" where
  "maps_run st v fs st' \<longleftrightarrow> distinct (map frame_number fs) \<and> set (map frame_number fs) \<subseteq> mmu_free st
     \<and> mmu_free st' \<subseteq> mmu_free st - set (map frame_number fs)
     \<and> usable_frames (pfa st') = usable_frames (pfa st)
     \<and> (\<forall>u<kUserPages. page_map st' u =
          (if v \<le> u \<and> u < v + length fs then Some (rw_entry (fs ! (u - v))) else page_map st u))"

lemma maps_run_Cons:
  assumes "frame_number f \<in> mmu_free st" "usable_frames (pfa st1) = usable_frames (pfa st)" "mmu_free st1 = mmu_free st - {frame_number f}"
    and "\<And>u. u < kUserPages \<Longrightarrow> page_map st1 u = (if u = v then Some (rw_entry f) else page_map st u)"
    and "maps_run st1 (Suc v) fs st'" and "v < kUserPages"
  shows "maps_run st v (f # fs) st'"
proof -
  have "page_map st' u = (if v \<le> u \<and> u < v + length (f # fs) then Some (rw_entry ((f # fs) ! (u - v)))
      else page_map st u)" if u: "u < kUserPages" for u
  proof (cases "u = v")
    case True
    then show ?thesis using assms u by (simp add: maps_run_def)
  next
    case False
    have "page_map st' u = (if Suc v \<le> u \<and> u < Suc v + length fs then Some (rw_entry (fs ! (u - Suc v)))
      else page_map st u)"
      using assms(4,5) u False by (simp add: maps_run_def)
    moreover have "Suc v \<le> u \<Longrightarrow> (f # fs) ! (u - v) = fs ! (u - Suc v)"
      by (simp add: nth_Cons' Suc_diff_le)
    ultimately show ?thesis using False by (auto simp: Suc_le_eq)
  qed
  moreover from assms(5) have r: "distinct (map frame_number fs)" "set (map frame_number fs) \<subseteq> mmu_free st1"
    "mmu_free st' \<subseteq> mmu_free st1 - set (map frame_number fs)" "usable_frames (pfa st') = usable_frames (pfa st1)"
    unfolding maps_run_def by blast+
  have "distinct (map frame_number (f # fs))" "set (map frame_number (f # fs)) \<subseteq> mmu_free st"
    "mmu_free st' \<subseteq> mmu_free st - set (map frame_number (f # fs))"
    using r(1-3) assms(1) unfolding assms(3) by auto
  moreover have "usable_frames (pfa st') = usable_frames (pfa st)" using r(4) assms(2) by simp
  ultimately show ?thesis unfolding maps_run_def by blast
qed

lemma next_page_index:
  assumes "v < kUserPages" "p = of_nat (v div 1024)" "q = (of_nat (v mod 1024) :: u16)"
  shows "(if q + 1 > 1023 then (p + 1, 0) else (p, q + 1)) =
    (of_nat (Suc v div 1024) :: u32, of_nat (Suc v mod 1024))"
proof -
  have q: "unat q = v mod 1024" using assms(3) by (simp add: unat_of_nat take_bit_nat_eq_self)
  have q1: "unat (q + 1) = v mod 1024 + 1" using q by (simp add: unat_word_ariths)
  show ?thesis
  proof (cases "v mod 1024 = 1023")
    case True
    then have "Suc v div 1024 = Suc (v div 1024)" "Suc v mod 1024 = 0"
      by (simp_all add: div_Suc mod_Suc)
    then show ?thesis using True q1 assms by (simp add: word_less_nat_alt)
  next
    case False
    then have "v mod 1024 < 1023" using mod_less_divisor[of 1024 v] by linarith
    moreover have "Suc v div 1024 = v div 1024" "Suc v mod 1024 = Suc (v mod 1024)"
      using False by (simp_all add: div_Suc mod_Suc)
    ultimately show ?thesis using q1 assms by (simp add: word_less_nat_alt)
  qed
qed

lemma allocatePages_loop_step:
  assumes "v < kUserPages" "p = of_nat (v div 1024)" "q = of_nat (v mod 1024)"
  shows "allocatePages_loop (Suc k) st p q =
    rbind (alloc_frame st) (\<lambda>(f, st1).
    rbind (set_entry st1 (PageTableForDirectoryIndex p) q (rw_entry f)) (\<lambda>st2.
    allocatePages_loop k st2 (of_nat (Suc v div 1024)) (of_nat (Suc v mod 1024))))"
proof -
  have "(if q + 1 > 1023 then allocatePages_loop k st2 (p + 1) 0 else allocatePages_loop k st2 p (q + 1))
    = allocatePages_loop k st2 (of_nat (Suc v div 1024)) (of_nat (Suc v mod 1024))" for st2
    using next_page_index[OF assms] by (auto split: if_splits)
  then show ?thesis by (simp only: allocatePages_loop.simps rw_flags rw_entry_def Let_def)
qed

text \<open>Mapping one page of the run, as the loop body does it.\<close>

lemma map_one_page:
  assumes inv: "mmu_inv st as" and v: "v < kUserPages" "present (pde_of st (v div 1024))" "page_map st v = None"
    and f: "alloc_frame st = Inr (f, st1)"
  shows "\<exists>st2. set_entry st1 (PageTableForDirectoryIndex (of_nat (v div 1024))) (of_nat (v mod 1024)) (rw_entry f) = Inr st2
    \<and> mmu_inv st2 as \<and> mmu_free st2 = mmu_free st - {frame_number f} \<and> pde_of st2 = pde_of st
    \<and> usable_frames (pfa st2) = usable_frames (pfa st) \<and> dir_frame st2 = dir_frame st
    \<and> (\<forall>u<kUserPages. page_map st2 u = (if u = v then Some (rw_entry f) else page_map st u))"
proof -
  from inv have "frames_inv (pfa st)" by (simp add: mmu_inv_def)
  note a = alloc_frame_Inr[OF this f]
  note c = hw_cong[OF a(4)]
  have inv1: "mmu_inv st1 as" by (rule mmu_inv_fewer_free[OF inv a(4,3)]) (simp add: a(2))
  have d: "v div 1024 < 1023" using v(1) by (rule page_index)
  let ?st2 = "write_phys st1 (frame_number (pde_of st1 (v div 1024))) (v mod 1024) (rw_entry f)"
  have "set_entry st1 (PageTableForDirectoryIndex (of_nat (v div 1024))) (of_nat (v mod 1024)) (rw_entry f) = Inr ?st2"
    using inv1 v d by (intro set_entry_table) (auto simp: mmu_inv_def c)
  moreover have "v \<noteq> frame_number as" using inv v(3) by (auto simp: mmu_inv_def space_inv_def)
  then have "mmu_inv ?st2 as" using inv1 v a(2) by (intro mmu_inv_write) (auto simp: c)
  moreover have "frame_number (pde_of st1 (v div 1024)) \<noteq> dir_frame st1"
    using inv1 v d by (auto simp: mmu_inv_def tables_inv_def c)
  then have "pde_of ?st2 = pde_of st" by (simp add: fun_eq_iff c)
  moreover have "u < kUserPages \<Longrightarrow> page_map ?st2 u = (if u = v then Some (rw_entry f) else page_map st u)" for u
    using page_map_write[of st1 v u "rw_entry f"] inv1 v by (simp add: mmu_inv_def c)
  moreover have "dir_frame ?st2 = dir_frame st" by (simp add: c)
  ultimately show ?thesis using a(2,5) by auto
qed

lemma allocatePages_loop_Inr:
  assumes "mmu_inv st as" "run_unmapped st v k" "run_tables st v k"
    and "allocatePages_loop k st (of_nat (v div 1024)) (of_nat (v mod 1024)) = Inr st'"
  shows "mmu_inv st' as \<and> pde_of st' = pde_of st \<and> dir_frame st' = dir_frame st
    \<and> (\<exists>fs. length fs = k \<and> maps_run st v fs st')"
  using assms
proof (induction k arbitrary: st v)
  case 0
  then show ?case by (auto simp: maps_run_def)
next
  case (Suc k)
  then have v: "v < kUserPages" "present (pde_of st (v div 1024))" "page_map st v = None"
    by (auto simp: run_unmapped_def run_tables_def)
  from Suc.prems(4) obtain f st1 where f: "alloc_frame st = Inr (f, st1)"
    and rest: "rbind (set_entry st1 (PageTableForDirectoryIndex (of_nat (v div 1024))) (of_nat (v mod 1024)) (rw_entry f))
      (\<lambda>st2. allocatePages_loop k st2 (of_nat (Suc v div 1024)) (of_nat (Suc v mod 1024))) = Inr st'"
    unfolding allocatePages_loop_step[OF v(1) refl refl] by auto
  from map_one_page[OF Suc.prems(1) v f] obtain st2 where
    st2: "set_entry st1 (PageTableForDirectoryIndex (of_nat (v div 1024))) (of_nat (v mod 1024)) (rw_entry f) = Inr st2"
      "mmu_inv st2 as" "mmu_free st2 = mmu_free st - {frame_number f}" "pde_of st2 = pde_of st"
      "\<And>u. u < kUserPages \<Longrightarrow> page_map st2 u = (if u = v then Some (rw_entry f) else page_map st u)"
      "usable_frames (pfa st2) = usable_frames (pfa st)" "dir_frame st2 = dir_frame st"
    by auto
  have "run_unmapped st2 (Suc v) k" "run_tables st2 (Suc v) k"
    using Suc.prems(2,3) st2(4,5) by (auto simp: run_unmapped_def run_tables_def)
  from Suc.IH[OF st2(2) this] rest st2(1) obtain fs where
    "mmu_inv st' as" "length fs = k" "maps_run st2 (Suc v) fs st'"
    "pde_of st' = pde_of st2" "dir_frame st' = dir_frame st2" by auto
  moreover have "frame_number f \<in> mmu_free st"
    using alloc_frame_Inr[OF _ f] Suc.prems(1) by (simp add: mmu_inv_def)
  ultimately show ?case
    using maps_run_Cons[of f st st2 v fs st'] st2(3-7) v(1) by (metis length_Cons)
qed

lemma allocatePages_loop_Inl:
  assumes "mmu_inv st as" "run_unmapped st v k" "run_tables st v k"
    and "allocatePages_loop k st (of_nat (v div 1024)) (of_nat (v mod 1024)) = Inl e"
  shows "e = out_of_memory"
  using assms
proof (induction k arbitrary: st v)
  case 0
  then show ?case by simp
next
  case (Suc k)
  then have v: "v < kUserPages" "present (pde_of st (v div 1024))" "page_map st v = None"
    by (auto simp: run_unmapped_def run_tables_def)
  show ?case
  proof (cases "alloc_frame st")
    case (Inl e')
    then show ?thesis using Suc.prems alloc_frame_Inl[OF _ Inl]
      unfolding allocatePages_loop_step[OF v(1) refl refl] by (simp add: mmu_inv_def)
  next
    case (Inr x)
    then obtain f st1 where f: "alloc_frame st = Inr (f, st1)" by (cases x) auto
    from map_one_page[OF Suc.prems(1) v f] obtain st2 where
      st2: "set_entry st1 (PageTableForDirectoryIndex (of_nat (v div 1024))) (of_nat (v mod 1024)) (rw_entry f) = Inr st2"
        "mmu_inv st2 as" "pde_of st2 = pde_of st"
        "\<And>u. u < kUserPages \<Longrightarrow> page_map st2 u = (if u = v then Some (rw_entry f) else page_map st u)"
      by auto
    have "run_unmapped st2 (Suc v) k" "run_tables st2 (Suc v) k"
      using Suc.prems(2,3) st2(3,4) by (auto simp: run_unmapped_def run_tables_def)
    from Suc.IH[OF st2(2) this] Suc.prems(4) f st2(1) show ?thesis
      unfolding allocatePages_loop_step[OF v(1) refl refl] by simp
  qed
qed

section \<open>Tables on demand\<close>

text \<open>What a call that may create page tables keeps: everything a user of the address space sees.\<close>

definition extends_tables :: "MMU \<Rightarrow> MMU \<Rightarrow> bool" where
  "extends_tables st st' \<longleftrightarrow> mmu_free st' \<subseteq> mmu_free st
     \<and> usable_frames (pfa st') = usable_frames (pfa st) \<and> dir_frame st' = dir_frame st
     \<and> (\<forall>i. present (pde_of st i) \<longrightarrow> pde_of st' i = pde_of st i)
     \<and> (\<forall>v<kUserPages. page_map st' v = page_map st v)"

lemma extends_tables_refl [simp]: "extends_tables st st"
  by (simp add: extends_tables_def)

lemma extends_tables_trans: "extends_tables a b \<Longrightarrow> extends_tables b c \<Longrightarrow> extends_tables a c"
  by (auto simp: extends_tables_def)

definition with_table :: "MMU \<Rightarrow> nat \<Rightarrow> PageFrame \<Rightarrow> MMU" where
  "with_table st d f = clear_frame (write_phys st (dir_frame st) d (rw_entry f)) (frame_number f) 1024"

lemma with_table_facts:
  assumes "frame_number f \<noteq> dir_frame st"
  shows "pfa (with_table st d f) = pfa st" "dir_frame (with_table st d f) = dir_frame st"
    "mmu_free (with_table st d f) = mmu_free st" "paging (hw (with_table st d f)) = paging (hw st)"
    "pde_of (with_table st d f) i = (if i = d then rw_entry f else pde_of st i)"
  using assms by (simp_all add: with_table_def)

lemma with_table_page_map:
  assumes "tables_inv st" "d < 1023" "\<not> present (pde_of st d)" "frame_number f \<noteq> dir_frame st"
    and "\<And>i. i < 1023 \<Longrightarrow> present (pde_of st i) \<Longrightarrow> frame_number (pde_of st i) \<noteq> frame_number f"
    and "v < kUserPages"
  shows "page_map (with_table st d f) v = page_map st v"
proof (cases "v div 1024 = d")
  case True
  then have "pte_of (with_table st d f) v = 0"
    using assms(4) by (simp add: pte_of_def with_table_facts) (simp add: with_table_def)
  then show ?thesis using True assms(3) by (simp add: page_map_def)
next
  case False
  have i: "v div 1024 < 1023" using assms(6) by (rule page_index)
  have "pte_of (with_table st d f) v = pte_of st v" if "present (pde_of st (v div 1024))"
  proof -
    have "frame_number (pde_of st (v div 1024)) \<noteq> frame_number f" "frame_number (pde_of st (v div 1024)) \<noteq> dir_frame st"
      using assms i that by (auto simp: tables_inv_def)
    then show ?thesis using False assms(4) by (simp add: pte_of_def with_table_facts) (simp add: with_table_def)
  qed
  then show ?thesis using False assms(4) by (auto simp: page_map_def with_table_facts)
qed

lemma with_table_inv:
  assumes inv: "mmu_inv st as" and d: "d < 1023" "\<not> present (pde_of st d)"
    and f: "frame_number f \<noteq> dir_frame st" "frame_number f \<notin> mmu_free st"
    and own: "\<And>i. i < 1023 \<Longrightarrow> present (pde_of st i) \<Longrightarrow> frame_number (pde_of st i) \<noteq> frame_number f"
  shows "mmu_inv (with_table st d f) as"
proof -
  let ?st = "with_table st d f"
  from inv have t: "tables_inv st" by (simp add: mmu_inv_def)
  note facts = with_table_facts[OF f(1)]
  have pm: "v < kUserPages \<Longrightarrow> page_map ?st v = page_map st v" for v
    by (rule with_table_page_map[OF t d f(1) own])
  have "tables_inv ?st" using t d f unfolding tables_inv_def facts by (auto split: if_splits dest: own)
  moreover have "self_mapped ?st" using inv d unfolding mmu_inv_def self_mapped_def facts by simp
  moreover have "space_inv ?st as" using inv pm unfolding mmu_inv_def space_inv_def facts by auto
  moreover have "mapped_inv ?st" using inv pm unfolding mmu_inv_def mapped_inv_def facts by auto
  moreover have "frames_inv (pfa ?st)" using inv by (simp add: mmu_inv_def facts)
  ultimately show ?thesis by (simp add: mmu_inv_def)
qed

lemma getOrCreateTable_eq:
  assumes inv: "mmu_inv st as" and d: "d < 1024"
  shows "getOrCreateTable st as (of_nat d) =
    (if present (pde_of st d) then Inr (PageTableForDirectoryIndex (of_nat d), st)
     else rbind (alloc_frame st) (\<lambda>(f, st1). Inr (PageTableForDirectoryIndex (of_nat d), with_table st1 d f)))"
proof -
  from inv have s: "self_mapped st" "space_inv st as" "frames_inv (pfa st)" by (auto simp: mmu_inv_def)
  have ix: "\<not> of_nat d > (1023 :: u16)" using d by (simp add: word_less_nat_alt unat_of_nat16)
  have uc: "ucast (of_nat d :: u16) = (of_nat d :: u32)" using d by (intro ucast_small16) simp
  have create: "rbind (set_entry st1 as (of_nat d) (rw_entry f)) (\<lambda>st2.
      rbind (clear_table st2 (PageTableForDirectoryIndex (of_nat d))) (\<lambda>st3. Inr (PageTableForDirectoryIndex (of_nat d), st3)))
    = Inr (PageTableForDirectoryIndex (of_nat d), with_table st1 d f)"
    if np: "\<not> present (pde_of st d)" and al: "alloc_frame st = Inr (f, st1)" for f st1
  proof -
    note a = alloc_frame_Inr[OF s(3) al]
    note c = hw_cong[OF a(4)]
    have fd: "frame_number f \<noteq> dir_frame st" using a(1) inv by (auto simp: mmu_inv_def tables_inv_def)
    have d': "d < 1023" using np s(1) d by (cases "d = 1023") (auto simp: self_mapped_def)
    let ?st2 = "write_phys st1 (dir_frame st1) d (rw_entry f)"
    have "set_entry st1 as (of_nat d) (rw_entry f) = Inr ?st2"
      using s d by (intro set_entry_space) (simp_all add: c)
    moreover have "clear_table ?st2 (PageTableForDirectoryIndex (of_nat d))
      = Inr (clear_frame ?st2 (frame_number (pde_of ?st2 d)) 1024)"
      using s d' fd a(4) by (intro clear_table_ok) (auto simp: self_mapped_def c)
    ultimately show ?thesis by (simp add: with_table_def)
  qed
  show ?thesis
  proof (cases "present (pde_of st d)")
    case True
    then show ?thesis using s d ix by (simp add: getOrCreateTable_def entry_in_space uc)
  next
    case False
    then show ?thesis using s d ix create[OF False]
      by (cases "alloc_frame st")
         (auto simp: getOrCreateTable_def entry_in_space uc rw_entry_def[symmetric] split: prod.splits)
  qed
qed

lemma getOrCreateTable_Inr:
  assumes inv: "mmu_inv st as" and d: "d < 1024"
    and ok: "getOrCreateTable st as (of_nat d) = Inr (t, st')"
  shows "t = PageTableForDirectoryIndex (of_nat d)" "mmu_inv st' as" "extends_tables st st'" "present (pde_of st' d)"
proof -
  have "t = PageTableForDirectoryIndex (of_nat d) \<and> mmu_inv st' as \<and> extends_tables st st' \<and> present (pde_of st' d)"
  proof (cases "present (pde_of st d)")
    case True
    then show ?thesis using ok inv d by (auto simp: getOrCreateTable_eq)
  next
    case False
    with ok inv d obtain f st1 where al: "alloc_frame st = Inr (f, st1)"
      and r: "t = PageTableForDirectoryIndex (of_nat d)" "st' = with_table st1 d f"
      by (auto simp: getOrCreateTable_eq)
    have fr: "frames_inv (pfa st)" "tables_inv st" "self_mapped st" using inv by (auto simp: mmu_inv_def)
    note a = alloc_frame_Inr[OF fr(1) al]
    note c = hw_cong[OF a(4)]
    have d': "d < 1023" using False fr(3) d by (cases "d = 1023") (auto simp: self_mapped_def)
    have fd: "frame_number f \<noteq> dir_frame st1" using a(1) fr(2) by (auto simp: tables_inv_def c)
    have own: "\<And>i. i < 1023 \<Longrightarrow> present (pde_of st1 i) \<Longrightarrow> frame_number (pde_of st1 i) \<noteq> frame_number f"
      using a(1) fr(2) by (auto simp: tables_inv_def c)
    have inv1: "mmu_inv st1 as" by (rule mmu_inv_fewer_free[OF inv a(4,3)]) (simp add: a(2))
    then have t1: "tables_inv st1" by (simp add: mmu_inv_def)
    have np: "\<not> present (pde_of st1 d)" using False by (simp add: c)
    have "mmu_inv st' as" unfolding r using with_table_inv[OF inv1 d' np fd _ own] a(2) by auto
    moreover have "extends_tables st st'"
      unfolding extends_tables_def r using False a(2,5) with_table_page_map[OF t1 d' np fd own]
      by (auto simp: with_table_facts[OF fd] c)
    ultimately show ?thesis using r fd by (simp add: with_table_facts)
  qed
  then show "t = PageTableForDirectoryIndex (of_nat d)" "mmu_inv st' as" "extends_tables st st'" "present (pde_of st' d)"
    by auto
qed

lemma getOrCreateTable_Inl:
  assumes "mmu_inv st as" "d < 1024" "getOrCreateTable st as (of_nat d) = Inl e"
  shows "e = out_of_memory \<and> mmu_free st = {}"
  using assms alloc_frame_Inl[of st]
  by (auto simp: getOrCreateTable_eq mmu_inv_def rbind_Inl_iff split: if_splits)

section \<open>The scan for a run of unmapped pages\<close>

definition page_addr :: "nat \<Rightarrow> uintptr" where
  "page_addr v = of_nat (v * 4096)"

lemma page_addr_push: "page_addr v = push_bit 12 (of_nat v)"
  by (simp add: page_addr_def push_bit_eq_mult)

lemma unat_page_addr: "v < 1048576 \<Longrightarrow> unat (page_addr v) = v * 4096"
  by (simp add: page_addr_def unat_word_ariths)

lemma frame_number_page_addr: "v < 1048576 \<Longrightarrow> frame_number (page_addr v) = v"
  by (simp add: unat_page_addr frame_number_def)

lemma page_addr_split:
  "push_bit 22 (of_nat (v div 1024)) OR push_bit 12 (of_nat (v mod 1024)) = page_addr v"
proof (rule bit_word_eqI)
  fix n assume n: "n < LENGTH(32)"
  have d: "bit (v div 1024) k = bit v (k + 10)" for k
    using bit_drop_bit_eq[of 10 v] by (simp add: drop_bit_eq_div add.commute)
  have m: "bit (v mod 1024) k \<longleftrightarrow> k < 10 \<and> bit v k" for k
    using bit_take_bit_iff[of 10 v k] by (simp add: take_bit_eq_mod)
  have "22 \<le> n \<Longrightarrow> n - 22 + 10 = n - 12" by simp
  then show "bit (push_bit 22 (of_nat (v div 1024)) OR push_bit 12 (of_nat (v mod 1024)) :: u32) n = bit (page_addr v) n"
    using n by (cases "22 \<le> n") (auto simp: page_addr_push bit_simps d m)
qed

lemma page_addr_indices:
  assumes "v < 1048576"
  shows "drop_bit 22 (page_addr v) = of_nat (v div 1024)"
    "ucast (drop_bit 12 (page_addr v) AND 0x03FF) = (of_nat (v mod 1024) :: u16)"
proof -
  have u: "unat (page_addr v) = v * 4096" using assms by (rule unat_page_addr)
  show "drop_bit 22 (page_addr v) = of_nat (v div 1024)"
  proof -
    have "unat (drop_bit 22 (page_addr v)) = v * 4096 div 4194304"
      by (simp add: unat_drop_bit_eq drop_bit_eq_div u)
    also have "\<dots> = v div 1024"
      using div_mult_mult2[of 4096 v 1024] by simp
    finally show ?thesis using assms by (simp add: word32_eq_iff_unat)
  qed
  have "drop_bit 12 (page_addr v) AND 0x03FF = drop_bit 12 (page_addr v) mod 1024"
    using take_bit_eq_mask[of 10 "drop_bit 12 (page_addr v)"] by (simp add: mask_eq_exp_minus_1 take_bit_eq_mod)
  moreover have "unat (drop_bit 12 (page_addr v)) = v"
    by (simp add: unat_drop_bit_eq drop_bit_eq_div u)
  ultimately have "unat (drop_bit 12 (page_addr v) AND 0x03FF) = v mod 1024" by simp
  then show "ucast (drop_bit 12 (page_addr v) AND 0x03FF) = (of_nat (v mod 1024) :: u16)"
    by (metis of_nat_unat)
qed

text \<open>
  The scan state after the pages below \<open>v\<close> have been looked at, for a predicate \<open>fr\<close> that
  says which pages are available: either a run of fewer than \<open>n\<close> available pages ends at
  \<open>v\<close>, or the scan is done and has its result.
\<close>

definition scan_ok :: "(nat \<Rightarrow> bool) \<Rightarrow> size_t \<Rightarrow> nat \<Rightarrow> page_scan \<Rightarrow> bool" where
  "scan_ok fr n v s \<longleftrightarrow> retval s = 0 \<and> contiguousFoundPages s < n
     \<and> (contiguousFoundPages s \<noteq> 0 \<longrightarrow> (\<exists>r. retpde s = of_nat (r div 1024) \<and> retpte s = of_nat (r mod 1024)
          \<and> r + unat (contiguousFoundPages s) = v \<and> (\<forall>u. r \<le> u \<and> u < v \<longrightarrow> fr u)))"

definition scan_done :: "(nat \<Rightarrow> bool) \<Rightarrow> size_t \<Rightarrow> nat \<Rightarrow> page_scan \<Rightarrow> bool" where
  "scan_done fr n v s \<longleftrightarrow> contiguousFoundPages s = n
     \<and> (\<exists>r. retval s = page_addr r \<and> r + unat n \<le> v \<and> (\<forall>u. r \<le> u \<and> u < r + unat n \<longrightarrow> fr u))"

lemma scan_ok_cong: "scan_ok fr n v s \<Longrightarrow> (\<And>u. u < v \<Longrightarrow> fr u = fr' u) \<Longrightarrow> scan_ok fr' n v s"
  unfolding scan_ok_def by blast

definition scan_next :: "nat \<Rightarrow> page_scan \<Rightarrow> page_scan" where
  "scan_next v s = (if contiguousFoundPages s = 0
     then s\<lparr>retpde := of_nat (v div 1024), retpte := of_nat (v mod 1024), contiguousFoundPages := 1\<rparr>
     else s\<lparr>contiguousFoundPages := contiguousFoundPages s + 1\<rparr>)"

lemma scan_next_run:
  assumes "scan_ok fr n v s" "fr v"
  obtains r where "retpde (scan_next v s) = of_nat (r div 1024)" "retpte (scan_next v s) = of_nat (r mod 1024)"
    "r + unat (contiguousFoundPages (scan_next v s)) = Suc v" "\<And>u. r \<le> u \<Longrightarrow> u < Suc v \<Longrightarrow> fr u"
    "contiguousFoundPages (scan_next v s) \<le> n" "contiguousFoundPages (scan_next v s) \<noteq> 0" "retval (scan_next v s) = 0"
proof -
  let ?c = "contiguousFoundPages s"
  have lt: "?c < n" and rv: "retval s = 0" using assms(1) by (auto simp: scan_ok_def)
  have c1: "unat (?c + 1) = unat ?c + 1" using lt by (rule unat_inc)
  have le: "?c + 1 \<le> n" using lt by (rule inc_le32)
  show ?thesis
  proof (cases "?c = 0")
    case True
    show ?thesis
      by (rule that[of v]) (use True assms(2) rv le in \<open>auto simp: scan_next_def less_Suc_eq\<close>)
  next
    case False
    then obtain r where r: "retpde s = of_nat (r div 1024)" "retpte s = of_nat (r mod 1024)"
      "r + unat ?c = v" "\<And>u. r \<le> u \<Longrightarrow> u < v \<Longrightarrow> fr u"
      using assms(1) by (auto simp: scan_ok_def)
    have "?c + 1 \<noteq> 0" using c1 by (auto simp: word32_eq_iff_unat)
    then show ?thesis
      by (intro that[of r]) (use False r c1 le rv assms(2) in \<open>auto simp: scan_next_def less_Suc_eq\<close>)
  qed
qed

lemma palloc_table_ok:
  assumes "\<And>i. i < 1024 \<Longrightarrow> PageTable_entryAtIndex m t (of_nat i) = Inr (e i)"
    and "\<And>i. i < 1024 \<Longrightarrow> fr (1024 * d + i) \<longleftrightarrow> \<not> present (e i)"
    and "d < 1024" "p + k = 1024" "scan_ok fr n (1024 * d + p) s"
  shows "\<exists>s'. palloc_table m t n (of_nat d) p k s = Inr s'
    \<and> (scan_done fr n (1024 * Suc d) s' \<or> scan_ok fr n (1024 * Suc d) s')"
  using assms(4,5)
proof (induction k arbitrary: p s)
  case 0
  then show ?case by (simp add: add.commute)
next
  case (Suc k)
  let ?v = "1024 * d + p"
  have p: "p < 1024" using Suc.prems(1) by simp
  have v: "?v div 1024 = d" "?v mod 1024 = p" using p by simp_all
  have IH: "scan_ok fr n (Suc ?v) s2 \<Longrightarrow> \<exists>s'. palloc_table m t n (of_nat d) (Suc p) k s2 = Inr s'
      \<and> (scan_done fr n (1024 * Suc d) s' \<or> scan_ok fr n (1024 * Suc d) s')" for s2
    using Suc.IH[of "Suc p" s2] Suc.prems(1) by simp
  have uc: "(ucast (of_nat d :: u16) :: u32) = of_nat d" using assms(3) by (intro ucast_small16) simp
  show ?case
  proof (cases "present (e p)")
    case True
    have z: "scan_ok fr n (Suc ?v) (s\<lparr>retval := 0, contiguousFoundPages := 0\<rparr>)"
      using Suc.prems(2) word_less_pos[of "contiguousFoundPages s" n] by (simp add: scan_ok_def)
    show ?thesis
    proof (cases "contiguousFoundPages s = 0")
      case c: True
      have "scan_ok fr n (Suc ?v) s" using Suc.prems(2) c by (simp add: scan_ok_def)
      from IH[OF this] True c assms(1)[OF p] show ?thesis by simp
    next
      case False
      with IH[OF z] True assms(1)[OF p] show ?thesis by simp
    qed
  next
    case False
    then have fv: "fr ?v" using assms(2)[OF p] by simp
    obtain r where
      r: "retpde (scan_next ?v s) = of_nat (r div 1024)" "retpte (scan_next ?v s) = of_nat (r mod 1024)"
      "r + unat (contiguousFoundPages (scan_next ?v s)) = Suc ?v" "\<And>u. r \<le> u \<Longrightarrow> u < Suc ?v \<Longrightarrow> fr u"
      "contiguousFoundPages (scan_next ?v s) \<le> n" "contiguousFoundPages (scan_next ?v s) \<noteq> 0"
      "retval (scan_next ?v s) = 0"
      by (rule scan_next_run[OF Suc.prems(2) fv]) blast
    let ?s = "scan_next ?v s"
    have step: "palloc_table m t n (of_nat d) p (Suc k) s = (if contiguousFoundPages ?s = n
      then Inr (?s\<lparr>retval := push_bit 22 (retpde ?s) OR push_bit 12 (retpte ?s)\<rparr>)
      else palloc_table m t n (of_nat d) (Suc p) k ?s)"
      using False assms(1)[OF p] v uc by (auto simp: scan_next_def Let_def)
    show ?thesis
    proof (cases "contiguousFoundPages ?s = n")
      case True
      have "retval (?s\<lparr>retval := push_bit 22 (retpde ?s) OR push_bit 12 (retpte ?s)\<rparr>) = page_addr r"
        using r(1,2) by (simp add: page_addr_split)
      moreover have "r + unat n = Suc ?v" using r(3) True by simp
      ultimately have "scan_done fr n (1024 * Suc d) (?s\<lparr>retval := push_bit 22 (retpde ?s) OR push_bit 12 (retpte ?s)\<rparr>)"
        unfolding scan_done_def using True r(4) p by (intro conjI exI[of _ r]) auto
      with True step show ?thesis by simp
    next
      case False
      then have "contiguousFoundPages ?s < n" using r(5) by (simp add: order_less_le)
      then have "scan_ok fr n (Suc ?v) ?s"
        unfolding scan_ok_def using r by auto
      from IH[OF this] step False show ?thesis by simp
    qed
  qed
qed

definition available :: "MMU \<Rightarrow> nat \<Rightarrow> bool" where
  "available st u \<longleftrightarrow> u < kUserPages \<and> page_map st u = None"

lemma available_extends: "extends_tables st st' \<Longrightarrow> available st' = available st"
  by (auto simp: fun_eq_iff available_def extends_tables_def)

lemma table_entries:
  assumes "mmu_inv st as" "d < 1024" "\<And>i. i \<le> d \<Longrightarrow> present (pde_of st i)" "i < 1024"
  shows "available st (1024 * d + i) \<longleftrightarrow> \<not> present (pte_of st (1024 * d + i))"
proof (cases "d = 1023")
  case True
  from assms(1) have self: "frame_number (pde_of st 1023) = dir_frame st" by (simp add: mmu_inv_def self_mapped_def)
  have "pte_of st (1024 * d + i) = pde_of st i"
    using True assms(4) self window_index[OF assms(4)] by (simp add: pte_of_def pde_of_def)
  moreover have "present (pde_of st i)" using assms(3)[of i] assms(4) True by simp
  ultimately show ?thesis using True by (simp add: available_def kUserPages_def)
next
  case False
  then have "1024 * d + i < kUserPages" using assms(2,4) by (simp add: kUserPages_def)
  moreover have "(1024 * d + i) div 1024 = d" using assms(4) by simp
  ultimately show ?thesis using assms(3)[of d] by (simp add: available_def page_map_def)
qed

text \<open>One round of the outer loop.\<close>

lemma palloc_round:
  assumes "mmu_inv st as" "d < 1024" "\<And>i. i < d \<Longrightarrow> present (pde_of st i)"
    and "scan_ok (available st) n (1024 * d) s" and ok: "getOrCreateTable st as (of_nat d) = Inr (t, st1)"
  shows "mmu_inv st1 as" "extends_tables st st1" "\<And>i. i < Suc d \<Longrightarrow> present (pde_of st1 i)"
    "\<exists>s1. palloc_table (hw st1) t n (of_nat d) 0 1024 s = Inr s1
      \<and> (scan_done (available st1) n (1024 * Suc d) s1 \<or> scan_ok (available st1) n (1024 * Suc d) s1)"
proof -
  note g = getOrCreateTable_Inr[OF assms(1,2) ok]
  show inv1: "mmu_inv st1 as" and ext: "extends_tables st st1" by fact+
  show pr: "\<And>i. i < Suc d \<Longrightarrow> present (pde_of st1 i)"
    using g(3,4) assms(3) by (auto simp: extends_tables_def less_Suc_eq)
  have entries: "PageTable_entryAtIndex (hw st1) t (of_nat i) = Inr (pte_of st1 (1024 * d + i))" if "i < 1024" for i
    unfolding g(1) using inv1 assms(2) g(4) that by (intro entry_in_table) (auto simp: mmu_inv_def)
  have avail: "available st1 (1024 * d + i) \<longleftrightarrow> \<not> present (pte_of st1 (1024 * d + i))" if "i < 1024" for i
    using inv1 assms(2) pr that by (intro table_entries) auto
  show "\<exists>s1. palloc_table (hw st1) t n (of_nat d) 0 1024 s = Inr s1
      \<and> (scan_done (available st1) n (1024 * Suc d) s1 \<or> scan_ok (available st1) n (1024 * Suc d) s1)"
    by (rule palloc_table_ok[OF entries avail])
       (use assms available_extends[OF ext] in \<open>auto\<close>)
qed

lemma palloc_scan_Inr:
  assumes "mmu_inv st as" "d + k = 1024" "\<And>i. i < d \<Longrightarrow> present (pde_of st i)"
    and "scan_ok (available st) n (1024 * d) s" and "palloc_scan st as n d k s = Inr (s', st')"
  shows "mmu_inv st' as \<and> extends_tables st st' \<and> (retval s' = 0 \<or>
    (\<exists>r. retval s' = page_addr r \<and> run_unmapped st' r (unat n) \<and> run_tables st' r (unat n)))"
  using assms
proof (induction k arbitrary: st d s)
  case 0
  then show ?case by (auto simp: scan_ok_def)
next
  case (Suc k)
  then have d: "d < 1024" by simp
  have ne: "contiguousFoundPages s \<noteq> n" using Suc.prems(4) by (auto simp: scan_ok_def)
  from Suc.prems(5) ne obtain t st1 s1 where g: "getOrCreateTable st as (of_nat d) = Inr (t, st1)"
    and pt: "palloc_table (hw st1) t n (of_nat d) 0 1024 s = Inr s1"
    and rest: "palloc_scan st1 as n (Suc d) k s1 = Inr (s', st')" by auto
  note r = palloc_round[OF Suc.prems(1) d Suc.prems(3,4) g]
  from r(4) pt have "scan_done (available st1) n (1024 * Suc d) s1 \<or> scan_ok (available st1) n (1024 * Suc d) s1"
    by simp
  then show ?case
  proof
    assume ok: "scan_ok (available st1) n (1024 * Suc d) s1"
    from Suc.IH[OF r(1) _ r(3) ok rest] Suc.prems(2) r(2) extends_tables_trans show ?thesis by auto
  next
    assume dn: "scan_done (available st1) n (1024 * Suc d) s1"
    then have "s' = s1" "st' = st1" using rest by (cases k; auto simp: scan_done_def)+
    moreover from dn obtain q where q: "retval s1 = page_addr q" "q + unat n \<le> 1024 * Suc d"
      "\<And>u. q \<le> u \<Longrightarrow> u < q + unat n \<Longrightarrow> available st1 u" by (auto simp: scan_done_def)
    have "run_tables st1 q (unat n)" unfolding run_tables_def using q(2) r(3)
      by (auto simp: less_mult_imp_div_less)
    moreover have "unat n \<noteq> 0" using Suc.prems(4) by (auto simp: scan_ok_def word_less_nat_alt)
    then have "available st1 (q + unat n - 1)" by (intro q(3)) linarith+
    then have "q + unat n \<le> kUserPages" unfolding available_def by linarith
    then have "run_unmapped st1 q (unat n)" using q(3) by (auto simp: run_unmapped_def available_def)
    ultimately show ?thesis using r q(1) by auto
  qed
qed

lemma palloc_scan_Inl:
  assumes "mmu_inv st as" "d + k = 1024" "\<And>i. i < d \<Longrightarrow> present (pde_of st i)"
    and "scan_ok (available st) n (1024 * d) s" and "palloc_scan st as n d k s = Inl e"
  shows "e = out_of_memory"
  using assms
proof (induction k arbitrary: st d s)
  case 0
  then show ?case by simp
next
  case (Suc k)
  then have d: "d < 1024" by simp
  have ne: "contiguousFoundPages s \<noteq> n" using Suc.prems(4) by (auto simp: scan_ok_def)
  show ?case
  proof (cases "getOrCreateTable st as (of_nat d)")
    case (Inl e')
    then show ?thesis using getOrCreateTable_Inl[OF Suc.prems(1) d Inl] Suc.prems(5) ne by simp
  next
    case (Inr x)
    then obtain t st1 where g: "getOrCreateTable st as (of_nat d) = Inr (t, st1)" by (cases x) auto
    note r = palloc_round[OF Suc.prems(1) d Suc.prems(3,4) g]
    from r(4) obtain s1 where s1: "palloc_table (hw st1) t n (of_nat d) 0 1024 s = Inr s1"
      "scan_done (available st1) n (1024 * Suc d) s1 \<or> scan_ok (available st1) n (1024 * Suc d) s1" by auto
    then have rest: "palloc_scan st1 as n (Suc d) k s1 = Inl e" using Suc.prems(5) ne g by simp
    from s1(2) show ?thesis
    proof
      assume "scan_ok (available st1) n (1024 * Suc d) s1"
      from Suc.IH[OF r(1) _ r(3) this rest] Suc.prems(2) show ?thesis by auto
    next
      assume "scan_done (available st1) n (1024 * Suc d) s1"
      then show ?thesis using rest by (cases k) (auto simp: scan_done_def)
    qed
  qed
qed

lemma allocatePages_at:
  assumes "r < 1048576"
  shows "allocatePages st as (page_addr r) n = allocatePages_loop (unat n) st (of_nat (r div 1024)) (of_nat (r mod 1024))"
  by (simp add: allocatePages_def page_addr_indices[OF assms])

lemma scan_start: "n \<noteq> 0 \<Longrightarrow> scan_ok fr n 0 \<lparr>contiguousFoundPages = 0, retpde = 0, retpte = 0, retval = 0\<rparr>"
  by (simp add: scan_ok_def word_gt_0)

end
