(* ===== verification/Mmu_Props.thy ===== *)
theory Mmu_Props
  imports Mmu_Correct
begin

text \<open>
  The properties of the MMU: allocation of virtual pages maps unmapped pages to fresh
  frames and changes nothing else, release undoes it, the invariant is kept, and the only
  fault is running out of physical memory.
\<close>

section \<open>First-fit allocation\<close>

lemma maps_run_after_extension:
  assumes "extends_tables st st1" "maps_run st1 v fs st'"
  shows "maps_run st v fs st'"
proof -
  from assms(1) have e: "mmu_free st1 \<subseteq> mmu_free st" "usable_frames (pfa st1) = usable_frames (pfa st)"
    "\<And>u. u < kUserPages \<Longrightarrow> page_map st1 u = page_map st u"
    by (auto simp: extends_tables_def)
  from assms(2) show ?thesis unfolding maps_run_def e(2) using e(1,3) by auto
qed

lemma run_unmapped_extension:
  "extends_tables st st1 \<Longrightarrow> run_unmapped st1 v k \<longleftrightarrow> run_unmapped st v k"
  by (auto simp: run_unmapped_def extends_tables_def)

lemma page_addr_run: "run_unmapped st r k \<Longrightarrow> 0 < k \<Longrightarrow> r < 1048576"
  by (auto simp: run_unmapped_def kUserPages_def)

lemma palloc_scan_zero:
  "palloc_scan st as 0 0 1024 \<lparr>contiguousFoundPages = 0, retpde = 0, retpte = 0, retval = 0\<rparr>
    = Inr (\<lparr>contiguousFoundPages = 0, retpde = 0, retpte = 0, retval = 0\<rparr>, st)"
  by (simp add: numeral_eq_Suc)

text \<open>
  What a successful allocation did: it created page tables (\<open>sm\<close>), then mapped a run of
  pages that were unmapped to fresh frames.
\<close>

lemma palloc_Inr:
  assumes inv: "mmu_inv st as" and ok: "MMU_palloc st as n = Inr (a, st')"
  shows "mmu_inv st' as \<and> (a = 0 \<and> extends_tables st st' \<or>
    a \<noteq> 0 \<and> run_unmapped st (frame_number a) (unat n) \<and> a = page_addr (frame_number a)
       \<and> (\<exists>sm fs. mmu_inv sm as \<and> extends_tables st sm \<and> length fs = unat n \<and> maps_run sm (frame_number a) fs st'
            \<and> pde_of st' = pde_of sm \<and> dir_frame st' = dir_frame sm))"
proof (cases "n = 0")
  case True
  then have "a = 0" "st' = st" using ok palloc_scan_zero[of st as] by (auto simp: MMU_palloc_def)
  with inv show ?thesis by simp
next
  case False
  let ?s0 = "\<lparr>contiguousFoundPages = 0, retpde = 0, retpte = 0, retval = 0\<rparr>"
  from ok obtain s st1 where sc: "palloc_scan st as n 0 1024 ?s0 = Inr (s, st1)"
    and rest: "(if retval s \<noteq> 0 then rbind (allocatePages st1 as (retval s) n) (\<lambda>st2. Inr (retval s, st2))
      else Inr (0, st1)) = Inr (a, st')"
    by (auto simp: MMU_palloc_def)
  have start: "scan_ok (available st) n (1024 * 0) ?s0" using scan_start[OF False] by simp
  from palloc_scan_Inr[OF inv _ _ start sc] have p: "mmu_inv st1 as" "extends_tables st st1"
    "retval s = 0 \<or> (\<exists>r. retval s = page_addr r \<and> run_unmapped st1 r (unat n) \<and> run_tables st1 r (unat n))"
    by auto
  show ?thesis
  proof (cases "retval s = 0")
    case True
    then show ?thesis using rest p by simp
  next
    case nz: False
    with p(3) obtain r where r: "retval s = page_addr r" "run_unmapped st1 r (unat n)" "run_tables st1 r (unat n)"
      by auto
    have lt: "r < 1048576" using False by (intro page_addr_run[OF r(2)]) (simp add: unat_gt_0)
    from rest nz have al: "allocatePages st1 as (page_addr r) n = Inr st'" and a: "a = page_addr r"
      using r(1) by auto
    from allocatePages_loop_Inr[OF p(1) r(2,3)] al lt obtain fs where
      f: "mmu_inv st' as" "length fs = unat n" "maps_run st1 r fs st'" "pde_of st' = pde_of st1" "dir_frame st' = dir_frame st1"
      by (auto simp: allocatePages_at)
    have "frame_number a = r" using a lt by (simp add: frame_number_page_addr)
    moreover have "run_unmapped st r (unat n)" using r(2) run_unmapped_extension[OF p(2)] by simp
    moreover have "a \<noteq> 0" using a nz r(1) by simp
    ultimately show ?thesis using a f p(1,2) by blast
  qed
qed

lemma palloc_Inl:
  assumes inv: "mmu_inv st as" and err: "MMU_palloc st as n = Inl e"
  shows "e = out_of_memory"
proof -
  let ?s0 = "\<lparr>contiguousFoundPages = 0, retpde = 0, retpte = 0, retval = 0\<rparr>"
  show ?thesis
  proof (cases "n = 0")
    case True
    then show ?thesis using err palloc_scan_zero[of st as] by (simp add: MMU_palloc_def)
  next
    case False
    have start: "scan_ok (available st) n (1024 * 0) ?s0" using scan_start[OF False] by simp
    show ?thesis
    proof (cases "palloc_scan st as n 0 1024 ?s0")
      case (Inl e')
      then show ?thesis using palloc_scan_Inl[OF inv _ _ start Inl] err by (simp add: MMU_palloc_def)
    next
      case (Inr x)
      obtain s st1 where x: "x = (s, st1)" by (cases x)
      from palloc_scan_Inr[OF inv _ _ start Inr[unfolded x]] have p: "mmu_inv st1 as"
        "retval s = 0 \<or> (\<exists>r. retval s = page_addr r \<and> run_unmapped st1 r (unat n) \<and> run_tables st1 r (unat n))"
        by auto
      from err Inr x have nz: "retval s \<noteq> 0" and al: "allocatePages st1 as (retval s) n = Inl e"
        by (auto simp: MMU_palloc_def rbind_Inl_iff split: if_splits)
      from p(2) nz obtain r where r: "retval s = page_addr r" "run_unmapped st1 r (unat n)" "run_tables st1 r (unat n)"
        by auto
      have "r < 1048576" using False by (intro page_addr_run[OF r(2)]) (simp add: unat_gt_0)
      with al r show ?thesis using allocatePages_loop_Inl[OF p(1) r(2,3)] by (simp add: allocatePages_at)
    qed
  qed
qed

section \<open>Release\<close>

text \<open>
  The frame of page \<open>v\<close> belongs to that page alone: no page table, not the directory, no
  other page uses it.
\<close>

definition exclusive :: "MMU \<Rightarrow> nat \<Rightarrow> bool" where
  "exclusive st v \<longleftrightarrow> v < kUserPages \<and> (\<exists>e. page_map st v = Some e
     \<and> frame_number e \<noteq> dir_frame st
     \<and> (\<forall>i<1023. present (pde_of st i) \<longrightarrow> frame_number (pde_of st i) \<noteq> frame_number e)
     \<and> (\<forall>u<kUserPages. \<forall>e'. u \<noteq> v \<longrightarrow> page_map st u = Some e' \<longrightarrow> frame_number e' \<noteq> frame_number e))"

lemma free_one_page:
  assumes inv: "mmu_inv st as" and ex: "exclusive st v" and e: "page_map st v = Some e"
  shows "\<exists>p st1. PageTable_entryAtIndex (hw st) (PageTableForDirectoryIndex (of_nat (v div 1024))) (of_nat (v mod 1024)) = Inr e
    \<and> PageFrameAllocator_free (pfa st) (PageEntry_address e) 1 = Inr p
    \<and> set_entry (st\<lparr>pfa := p\<rparr>) (PageTableForDirectoryIndex (of_nat (v div 1024))) (of_nat (v mod 1024)) 0 = Inr st1
    \<and> mmu_inv st1 as \<and> pde_of st1 = pde_of st \<and> dir_frame st1 = dir_frame st
    \<and> usable_frames (pfa st1) = usable_frames (pfa st)
    \<and> mmu_free st1 = mmu_free st \<union> ({frame_number e} \<inter> usable_frames (pfa st))
    \<and> (\<forall>u<kUserPages. page_map st1 u = (if u = v then None else page_map st u))"
proof -
  have v: "v < kUserPages" using ex by (simp add: exclusive_def)
  then have d: "v div 1024 < 1023" by (rule page_index)
  have pd: "present (pde_of st (v div 1024))" "pte_of st v = e"
    using e by (auto simp: page_map_def split: if_splits)
  have en: "PageTable_entryAtIndex (hw st) (PageTableForDirectoryIndex (of_nat (v div 1024))) (of_nat (v mod 1024)) = Inr e"
    using inv d pd entry_in_table[of st "v div 1024" "v mod 1024"] by (simp add: mmu_inv_def)
  have "frames_inv (pfa st)" using inv by (simp add: mmu_inv_def)
  from fs.release_ok[OF this, of "PageEntry_address e"] obtain p where
    p: "PageFrameAllocator_free (pfa st) (PageEntry_address e) 1 = Inr p" "frames_inv p"
      "usable_frames p = usable_frames (pfa st)"
      "free_frames p = free_frames (pfa st) \<union> ({frame_number e} \<inter> usable_frames (pfa st))"
    by auto
  let ?st = "st\<lparr>pfa := p\<rparr>"
  let ?st1 = "write_phys ?st (frame_number (pde_of ?st (v div 1024))) (v mod 1024) 0"
  have c: "hw ?st = hw st" by simp
  note cg = hw_cong[OF c]
  have se: "set_entry ?st (PageTableForDirectoryIndex (of_nat (v div 1024))) (of_nat (v mod 1024)) 0 = Inr ?st1"
    using inv d pd by (intro set_entry_table) (auto simp: mmu_inv_def cg)
  have fr: "mmu_free ?st = mmu_free st \<union> ({frame_number e} \<inter> usable_frames (pfa st))"
    using p(4) by (simp add: mmu_free_def)
  have ex': "frame_number e \<noteq> dir_frame st"
    "\<And>i. i < 1023 \<Longrightarrow> present (pde_of st i) \<Longrightarrow> frame_number (pde_of st i) \<noteq> frame_number e"
    "\<And>u e'. u < kUserPages \<Longrightarrow> u \<noteq> v \<Longrightarrow> page_map st u = Some e' \<Longrightarrow> frame_number e' \<noteq> frame_number e"
    using ex e unfolding exclusive_def by auto
  have nas: "v \<noteq> frame_number as" using inv ex'(1) e by (auto simp: mmu_inv_def space_inv_def)
  have t: "tables_inv ?st" using inv ex'(1,2) unfolding mmu_inv_def tables_inv_def cg fr by auto
  have f: "frame_number (pde_of ?st (v div 1024)) \<noteq> dir_frame ?st"
    using t pd d by (auto simp: tables_inv_def cg)
  have pde: "pde_of ?st1 = pde_of st" using f by (simp add: fun_eq_iff cg)
  have pm: "u < kUserPages \<Longrightarrow> page_map ?st1 u = (if u = v then None else page_map st u)" for u
    using page_map_write[OF t v _, of u 0] pd by (simp add: cg)
  have dir: "dir_frame ?st1 = dir_frame st" "mmu_free ?st1 = mmu_free ?st" by (simp_all add: cg)
  have "tables_inv ?st1" using t f unfolding tables_inv_def by (simp add: cg)
  moreover have "self_mapped ?st1" using inv unfolding mmu_inv_def self_mapped_def pde dir by simp
  moreover have "space_inv ?st1 as" using inv pm nas unfolding mmu_inv_def space_inv_def dir by auto
  moreover have "mapped_inv ?st1"
    using inv pm ex'(3) unfolding mmu_inv_def mapped_inv_def dir fr by (auto split: if_splits)
  moreover have "frames_inv (pfa ?st1)" using p(2) by simp
  ultimately have "mmu_inv ?st1 as" by (simp add: mmu_inv_def)
  then show ?thesis using en p se pm pde dir fr by auto
qed

lemma exclusive_step:
  assumes "exclusive st u" "u \<noteq> v" "pde_of st1 = pde_of st" "dir_frame st1 = dir_frame st"
    and "\<And>u. u < kUserPages \<Longrightarrow> page_map st1 u = (if u = v then None else page_map st u)"
  shows "exclusive st1 u"
  using assms unfolding exclusive_def by auto

lemma page_addr_Suc: "page_addr v + 0x1000 = page_addr (Suc v)"
  by (simp add: page_addr_def algebra_simps)

text \<open>The frames of the mapped pages of a run.\<close>

definition run_frames :: "MMU \<Rightarrow> nat \<Rightarrow> nat \<Rightarrow> nat set" where
  "run_frames st v k = (\<Union>u\<in>{v..<v + k}. frame_number ` set_option (page_map st u))"

lemma run_frames_Suc:
  assumes "page_map st v = Some e" "\<And>u. Suc v \<le> u \<Longrightarrow> u < Suc v + k \<Longrightarrow> page_map st1 u = page_map st u"
  shows "run_frames st v (Suc k) = insert (frame_number e) (run_frames st1 (Suc v) k)"
proof -
  have "{v..<v + Suc k} = insert v {Suc v..<Suc v + k}" by auto
  then show ?thesis using assms by (simp add: run_frames_def)
qed

lemma pfree_loop_ok:
  assumes "mmu_inv st as" "v + k \<le> kUserPages" "\<And>u. v \<le> u \<Longrightarrow> u < v + k \<Longrightarrow> exclusive st u"
  shows "\<exists>st'. pfree_loop k st (page_addr v) = Inr st' \<and> mmu_inv st' as
    \<and> pde_of st' = pde_of st \<and> dir_frame st' = dir_frame st \<and> usable_frames (pfa st') = usable_frames (pfa st)
    \<and> mmu_free st' = mmu_free st \<union> (run_frames st v k \<inter> usable_frames (pfa st))
    \<and> (\<forall>u<kUserPages. page_map st' u = (if v \<le> u \<and> u < v + k then None else page_map st u))"
  using assms
proof (induction k arbitrary: st v)
  case 0
  then show ?case by (auto simp: run_frames_def)
next
  case (Suc k)
  have v: "v < kUserPages" "v < 1048576" using Suc.prems(2) by (auto simp: kUserPages_def)
  have ex: "exclusive st v" using Suc.prems(3)[of v] by simp
  then obtain e where e: "page_map st v = Some e" by (auto simp: exclusive_def)
  from free_one_page[OF Suc.prems(1) ex e] obtain p st1 where
    s: "PageTable_entryAtIndex (hw st) (PageTableForDirectoryIndex (of_nat (v div 1024))) (of_nat (v mod 1024)) = Inr e"
      "PageFrameAllocator_free (pfa st) (PageEntry_address e) 1 = Inr p"
      "set_entry (st\<lparr>pfa := p\<rparr>) (PageTableForDirectoryIndex (of_nat (v div 1024))) (of_nat (v mod 1024)) 0 = Inr st1"
      "mmu_inv st1 as" "pde_of st1 = pde_of st" "dir_frame st1 = dir_frame st"
      "usable_frames (pfa st1) = usable_frames (pfa st)"
      "mmu_free st1 = mmu_free st \<union> ({frame_number e} \<inter> usable_frames (pfa st))"
      "\<And>u. u < kUserPages \<Longrightarrow> page_map st1 u = (if u = v then None else page_map st u)"
    by auto
  have "PageEntry_of_address 0 = 0" by (simp add: PageEntry_of_address_def)
  then have step: "pfree_loop (Suc k) st (page_addr v) = pfree_loop k st1 (page_addr (Suc v))"
    using s(1-3) by (simp add: page_addr_indices[OF v(2)] page_addr_Suc)
  have ex1: "\<And>u. Suc v \<le> u \<Longrightarrow> u < Suc v + k \<Longrightarrow> exclusive st1 u"
    by (rule exclusive_step[OF _ _ s(5,6,9)]) (use Suc.prems(3) in auto)
  have le1: "Suc v + k \<le> kUserPages" using Suc.prems(2) by simp
  from Suc.IH[OF s(4) le1 ex1] obtain st' where
    r: "pfree_loop k st1 (page_addr (Suc v)) = Inr st'" "mmu_inv st' as"
      "usable_frames (pfa st') = usable_frames (pfa st1)"
      "mmu_free st' = mmu_free st1 \<union> (run_frames st1 (Suc v) k \<inter> usable_frames (pfa st1))"
      "\<And>u. u < kUserPages \<Longrightarrow> page_map st' u = (if Suc v \<le> u \<and> u < Suc v + k then None else page_map st1 u)"
      "pde_of st' = pde_of st1" "dir_frame st' = dir_frame st1"
    by blast
  have pages: "run_frames st v (Suc k) = insert (frame_number e) (run_frames st1 (Suc v) k)"
    using s(9) Suc.prems(2) by (intro run_frames_Suc[OF e]) auto
  have "mmu_free st' = mmu_free st \<union> (run_frames st v (Suc k) \<inter> usable_frames (pfa st))"
    unfolding pages r(4) s(7,8) by auto
  moreover have "page_map st' u = (if v \<le> u \<and> u < v + Suc k then None else page_map st u)" if "u < kUserPages" for u
    using r(5)[OF that] s(9)[OF that] by (auto simp: Suc_le_eq)
  ultimately show ?case using step r(1-3,6,7) s(5-7) by auto
qed

lemma maps_run_nth:
  assumes "maps_run sm v fs st'" "v \<le> u" "u < v + length fs" "u < kUserPages"
  shows "page_map st' u = Some (rw_entry (fs ! (u - v)))" "frame_number (fs ! (u - v)) \<in> mmu_free sm"
proof -
  show "page_map st' u = Some (rw_entry (fs ! (u - v)))" using assms by (simp add: maps_run_def)
  have "frame_number (fs ! (u - v)) \<in> set (map frame_number fs)" using assms(2,3) by auto
  then show "frame_number (fs ! (u - v)) \<in> mmu_free sm" using assms(1) unfolding maps_run_def by blast
qed

text \<open>The pages of a fresh run own their frames.\<close>

lemma maps_run_exclusive:
  assumes inv: "mmu_inv sm as" and m: "maps_run sm v fs st'"
    and same: "pde_of st' = pde_of sm" "dir_frame st' = dir_frame sm"
    and u: "v \<le> u" "u < v + length fs" "v + length fs \<le> kUserPages"
  shows "exclusive st' u"
proof -
  have uk: "u < kUserPages" using u by simp
  note n = maps_run_nth[OF m u(1,2) uk]
  let ?f = "frame_number (fs ! (u - v))"
  have "?f \<noteq> dir_frame sm" "\<And>i. i < 1023 \<Longrightarrow> present (pde_of sm i) \<Longrightarrow> frame_number (pde_of sm i) \<noteq> ?f"
    using inv n(2) by (auto simp: mmu_inv_def tables_inv_def)
  moreover have "frame_number e' \<noteq> ?f" if w: "w < kUserPages" "w \<noteq> u" "page_map st' w = Some e'" for w e'
  proof (cases "v \<le> w \<and> w < v + length fs")
    case True
    then have "e' = rw_entry (fs ! (w - v))" using maps_run_nth(1)[OF m _ _ w(1)] w(3) by simp
    moreover have "frame_number (fs ! (w - v)) \<noteq> frame_number (fs ! (u - v))"
    proof -
      have "distinct (map frame_number fs)" using m unfolding maps_run_def by blast
      moreover have "w - v < length fs" "u - v < length fs" "w - v \<noteq> u - v" using True u w(2) by auto
      ultimately show ?thesis by (auto simp: distinct_conv_nth)
    qed
    ultimately show ?thesis by simp
  next
    case False
    then have "page_map sm w = Some e'" using m w(1,3) by (auto simp: maps_run_def)
    then show ?thesis using inv n(2) w(1) by (auto simp: mmu_inv_def mapped_inv_def)
  qed
  ultimately show ?thesis unfolding exclusive_def same using uk n(1) by auto
qed

lemma run_frames_of_maps:
  assumes "maps_run sm v fs st'" "v + length fs \<le> kUserPages"
  shows "run_frames st' v (length fs) = set (map frame_number fs)"
proof -
  have "run_frames st' v (length fs) = (\<Union>u\<in>{v..<v + length fs}. {frame_number (fs ! (u - v))})"
    unfolding run_frames_def using maps_run_nth(1)[OF assms(1)] assms(2) by (intro SUP_cong) auto
  also have "{v..<v + length fs} = (+) v ` {0..<length fs}" by (simp add: add.commute)
  also have "(\<Union>u\<in>(+) v ` {0..<length fs}. {frame_number (fs ! (u - v))}) = frame_number ` ((!) fs ` {0..<length fs})"
    by (simp only: image_image UN_extend_simps UN_singleton) auto
  also have "(!) fs ` {0..<length fs} = set fs" using nth_image[of "length fs" fs] by simp
  finally show ?thesis by simp
qed

section \<open>Allocation at a given address\<close>

lemma pageForAddress_Inr:
  assumes inv: "mmu_inv st as" and v: "v < kUserPages" and ok: "pageForAddress st as (page_addr v) = Inr (e, st1)"
  shows "mmu_inv st1 as" "extends_tables st st1" "present (pde_of st1 (v div 1024))"
    "present e \<longleftrightarrow> page_map st v \<noteq> None"
proof -
  have v': "v < 1048576" "v div 1024 < 1023" using v page_index by (auto simp: kUserPages_def)
  have uc: "(ucast (of_nat (v div 1024) :: u32) :: u16) = of_nat (v div 1024)"
    using v'(2) by (simp add: word_unat_eq_iff unsigned_ucast_eq unat_of_nat take_bit_nat_eq_self)
  from ok obtain t where g: "getOrCreateTable st as (of_nat (v div 1024)) = Inr (t, st1)"
    and e: "PageTable_entryAtIndex (hw st1) t (of_nat (v mod 1024)) = Inr e"
    unfolding pageForAddress_def tableForAddress_def page_addr_indices[OF v'(1)] uc by auto
  have "v div 1024 < 1024" using v'(2) by simp
  note r = getOrCreateTable_Inr[OF inv this g]
  show "mmu_inv st1 as" "extends_tables st st1" "present (pde_of st1 (v div 1024))" by fact+
  have "e = pte_of st1 v"
    using e entry_in_table[of st1 "v div 1024" "v mod 1024"] r v'(2) by (simp add: mmu_inv_def)
  then have "present e \<longleftrightarrow> page_map st1 v \<noteq> None" using r(4) by (simp add: page_map_def)
  then show "present e \<longleftrightarrow> page_map st v \<noteq> None" using r(3) v by (simp add: extends_tables_def)
qed

lemma palloc_probe_Inr:
  assumes "mmu_inv st as" "v + k \<le> kUserPages" "palloc_probe st as (page_addr v) k = Inr (ok, st')"
  shows "mmu_inv st' as \<and> extends_tables st st' \<and> (ok \<longleftrightarrow> run_unmapped st v k)
    \<and> (ok \<longrightarrow> run_tables st' v k)"
  using assms
proof (induction k arbitrary: st v)
  case 0
  then show ?case by (auto simp: run_unmapped_def run_tables_def)
next
  case (Suc k)
  have v: "v < kUserPages" using Suc.prems(2) by simp
  from Suc.prems(3) obtain e st1 where p: "pageForAddress st as (page_addr v) = Inr (e, st1)"
    and rest: "(if present e then Inr (False, st1) else palloc_probe st1 as (page_addr (Suc v)) k) = Inr (ok, st')"
    unfolding palloc_probe.simps page_addr_Suc by auto
  note r = pageForAddress_Inr[OF Suc.prems(1) v p]
  show ?case
  proof (cases "present e")
    case True
    then have "\<not> run_unmapped st v (Suc k)" using r(4) by (auto simp: run_unmapped_def)
    then show ?thesis using True rest r by auto
  next
    case False
    then have "palloc_probe st1 as (page_addr (Suc v)) k = Inr (ok, st')" using rest by simp
    from Suc.IH[OF r(1) _ this] Suc.prems(2) have h: "mmu_inv st' as" "extends_tables st1 st'"
      "ok \<longleftrightarrow> run_unmapped st1 (Suc v) k" "ok \<longrightarrow> run_tables st' (Suc v) k" by auto
    have rg: "v \<le> u \<and> u < v + Suc k \<longleftrightarrow> u = v \<or> Suc v \<le> u \<and> u < Suc v + k" for u by auto
    have "run_unmapped st v (Suc k) \<longleftrightarrow> run_unmapped st (Suc v) k"
      using False r(4) Suc.prems(2) unfolding run_unmapped_def rg by auto
    moreover have "run_unmapped st1 (Suc v) k \<longleftrightarrow> run_unmapped st (Suc v) k"
      by (rule run_unmapped_extension[OF r(2)])
    moreover have "present (pde_of st' (v div 1024))" using h(2) r(3) by (simp add: extends_tables_def)
    then have "run_tables st' (Suc v) k \<Longrightarrow> run_tables st' v (Suc k)" unfolding run_tables_def rg by auto
    ultimately show ?thesis using h extends_tables_trans[OF r(2) h(2)] by blast
  qed
qed

lemma page_addr_aligned: "page_addr v AND 0xFFF = 0"
proof -
  have "page_addr v AND 0xFFF = take_bit 12 (page_addr v)"
    using take_bit_eq_mask[of 12 "page_addr v"] by (simp add: mask_eq_exp_minus_1)
  also have "\<dots> = 0" by (simp add: page_addr_push take_bit_push_bit)
  finally show ?thesis .
qed

section \<open>A small booted machine\<close>

text \<open>
  One page table, which maps page 0 and the directory page 512 to themselves, and the
  self-map; all frames from 1024 on are free.
\<close>

definition ex_pfa :: PageFrameAllocator where
  "ex_pfa = \<lparr>bitmap = \<lparr>usable = BitSet_new kPagesInBitmap True,
      used = replicate 32 0xFFFFFFFF @ replicate 32736 0\<rparr>, lastAllocFrame = 0x3FF000\<rparr>"

definition ex_phys :: "nat \<Rightarrow> nat \<Rightarrow> u32" where
  "ex_phys f i = (if f = 512 \<and> i = 0 then 0x201003 else if f = 512 \<and> i = 1023 then 0x200003
     else if f = 513 \<and> i = 0 then 3 else if f = 513 \<and> i = 512 then 0x200003 else 0)"

definition ex_mmu :: MMU where
  "ex_mmu = \<lparr>pfa = ex_pfa, hw = \<lparr>phys = ex_phys, cr3 = 0x200000, paging = True\<rparr>\<rparr>"

lemma ex_pfa_facts: "frames_inv ex_pfa" "used_frames ex_pfa = {..<1024}" "free_frames ex_pfa = {1024..<1048576}"
proof -
  have "bit_capacity (replicate 32 (0xFFFFFFFF :: u32) @ replicate 32736 0) = kPagesInBitmap"
    by (simp add: bit_capacity_def kPagesInBitmap_def)
  then show "frames_inv ex_pfa"
    by (simp add: frames_inv_def ex_pfa_def bit_capacity_new kPagesInBitmap_def div_ceil_def)
  have ones: "bit (0xFFFFFFFF :: u32) k" if "k < 32" for k
  proof -
    have "(0xFFFFFFFF :: u32) = mask 32" by (simp add: mask_eq_exp_minus_1)
    then show ?thesis using that by (simp only: bit_mask_iff) simp
  qed
  show u: "used_frames ex_pfa = {..<1024}"
  proof (intro set_eqI)
    fix i :: nat
    have "i < 1024 \<longleftrightarrow> i div 32 < 32" by auto
    then show "i \<in> used_frames ex_pfa \<longleftrightarrow> i \<in> {..<1024}"
      using ones[of "i mod 32"]
      by (cases "i div 32 < 32") (auto simp: used_frames_def ex_pfa_def bits_of_def unit_index_lt nth_append)
  qed
  have "usable_frames ex_pfa = {..<1048576}"
    by (simp add: usable_frames_def ex_pfa_def bits_of_new bit_capacity_new kPagesInBitmap_def div_ceil_def)
  then show "free_frames ex_pfa = {1024..<1048576}" using u by (auto simp: free_frames_def)
qed

lemma ex_entries: "frame_number 0x201003 = 513" "frame_number 0x200003 = 512" "frame_number 3 = 0" "frame_number 0x200000 = 512"
  "frame_number 0 = 0" "present 0x201003" "present 0x200003" "present 3"
  by (simp_all add: frame_number_def PageEntry_getFlag_def)

lemma ex_dir: "dir_frame ex_mmu = 512" "mmu_free ex_mmu = {1024..<1048576}" "hw ex_mmu = \<lparr>phys = ex_phys, cr3 = 0x200000, paging = True\<rparr>"
  by (simp_all add: dir_frame_def ex_mmu_def ex_entries mmu_free_def ex_pfa_facts)

lemma ex_pde: "pde_of ex_mmu i = (if i = 0 then 0x201003 else if i = 1023 then 0x200003 else 0)"
  by (auto simp: pde_of_def ex_dir ex_phys_def)

lemma ex_page_map: "v < kUserPages \<Longrightarrow> page_map ex_mmu v = (if v = 0 then Some 3 else if v = 512 then Some 0x200003 else None)"
proof -
  assume v: "v < kUserPages"
  then have "v div 1024 \<noteq> 1023" using page_index[of v] by simp
  moreover have "v div 1024 = 0 \<longleftrightarrow> v < 1024" by auto
  ultimately show ?thesis
    by (auto simp: page_map_def ex_pde pte_of_def ex_entries ex_dir ex_phys_def)
qed

lemma ex_inv: "mmu_inv ex_mmu 0x200000"
proof -
  have "frames_inv (pfa ex_mmu)" by (simp add: ex_mmu_def ex_pfa_facts)
  moreover have "self_mapped ex_mmu" by (simp add: self_mapped_def ex_pde ex_dir ex_entries)
  moreover have "tables_inv ex_mmu" by (auto simp: tables_inv_def ex_pde ex_dir ex_entries)
  moreover have "space_inv ex_mmu 0x200000"
    by (simp add: space_inv_def ex_entries ex_page_map ex_dir kUserPages_def)
  moreover have "mapped_inv ex_mmu" by (auto simp: mapped_inv_def ex_page_map ex_dir ex_entries)
  ultimately show ?thesis by (simp add: mmu_inv_def)
qed

section \<open>Properties\<close>

text \<open>
  C1. A successful \<open>palloc\<close> keeps the MMU invariant. A null result leaves every user page's
  mapping as it was; otherwise the returned address starts a run of pages that were all
  unmapped, each is now mapped, present and writable, to a frame of its own that was free,
  and no other page's mapping changes.
\<close>

theorem palloc_maps_fresh_pages:
  assumes "mmu_inv st as" "MMU_palloc st as n = Inr (a, st')"
  shows "mmu_inv st' as \<and> (if a = 0 then \<forall>v<kUserPages. page_map st' v = page_map st v
    else a = page_addr (frame_number a) \<and> run_unmapped st (frame_number a) (unat n)
      \<and> (\<exists>fs. length fs = unat n \<and> maps_run st (frame_number a) fs st'))"
  using palloc_Inr[OF assms] maps_run_after_extension by (auto simp: extends_tables_def)

text \<open>
  The only way \<open>palloc\<close> can fail is the allocator's out-of-memory panic: it never takes
  a page fault in the self-map window and never leaves the bitmaps.
\<close>

theorem palloc_only_out_of_memory:
  assumes "mmu_inv st as" "MMU_palloc st as n = Inl e"
  shows "e = out_of_memory"
  using palloc_Inl[OF assms] .

text \<open>
  C2. Releasing what \<open>palloc\<close> returned succeeds, restores the mapping of every user page,
  gives all the frames back, and keeps the invariant.
\<close>

theorem palloc_pfree_roundtrip:
  assumes inv: "mmu_inv st as" and ok: "MMU_palloc st as n = Inr (a, st1)" and a: "a \<noteq> 0"
  shows "\<exists>st2 fs. MMU_pfree st1 as a n = Inr (0, st2) \<and> mmu_inv st2 as
    \<and> (\<forall>v<kUserPages. page_map st2 v = page_map st v)
    \<and> maps_run st (frame_number a) fs st1 \<and> mmu_free st2 = mmu_free st1 \<union> set (map frame_number fs)"
proof -
  let ?v = "frame_number a"
  from palloc_Inr[OF inv ok] a obtain sm fs where p: "mmu_inv st1 as" "run_unmapped st ?v (unat n)"
    "a = page_addr ?v" "mmu_inv sm as" "extends_tables st sm" "length fs = unat n" "maps_run sm ?v fs st1"
    "pde_of st1 = pde_of sm" "dir_frame st1 = dir_frame sm" by auto
  have le: "?v + unat n \<le> kUserPages" using p(2) by (simp add: run_unmapped_def)
  have n: "n \<noteq> 0" using a ok palloc_scan_zero[of st as] by (auto simp: MMU_palloc_def)
  have ex: "exclusive st1 u" if "?v \<le> u" "u < ?v + unat n" for u
    using maps_run_exclusive[OF p(4,7,8,9)] p(6) that le by auto
  from pfree_loop_ok[OF p(1) le ex] obtain st2 where f: "pfree_loop (unat n) st1 (page_addr ?v) = Inr st2"
    "mmu_inv st2 as" "mmu_free st2 = mmu_free st1 \<union> (run_frames st1 ?v (unat n) \<inter> usable_frames (pfa st1))"
    "\<And>u. u < kUserPages \<Longrightarrow> page_map st2 u = (if ?v \<le> u \<and> u < ?v + unat n then None else page_map st1 u)"
    by blast
  have "run_frames st1 ?v (unat n) = set (map frame_number fs)"
    using run_frames_of_maps[OF p(7)] p(6) le by simp
  moreover have "set (map frame_number fs) \<subseteq> usable_frames (pfa st1)"
    using p(7) unfolding maps_run_def mmu_free_def free_frames_def by auto
  ultimately have "mmu_free st2 = mmu_free st1 \<union> set (map frame_number fs)" using f(3) by auto
  moreover have "page_map st2 u = page_map st u" if "u < kUserPages" for u
  proof -
    have "page_map st1 u = (if ?v \<le> u \<and> u < ?v + unat n then page_map st1 u else page_map st u)"
      using p(5,6,7) that by (auto simp: maps_run_def extends_tables_def)
    then show ?thesis using f(4)[OF that] p(2) that by (auto simp: run_unmapped_def)
  qed
  moreover have "MMU_pfree st1 as a n = Inr (0, st2)" using n f(1) p(3) by (simp add: MMU_pfree_def)
  ultimately show ?thesis using f(2) maps_run_after_extension[OF p(5,7)] by blast
qed

lemma palloc_at_Inr:
  assumes inv: "mmu_inv st as" and v: "0 < v" "v + unat n \<le> kUserPages"
    and ok: "MMU_palloc_at st as (page_addr v) n = Inr (a, st')"
  shows "mmu_inv st' as \<and> (if run_unmapped st v (unat n)
    then a = page_addr v \<and> (\<exists>fs. length fs = unat n \<and> maps_run st v fs st')
    else a = 0 \<and> (\<forall>u<kUserPages. page_map st' u = page_map st u))"
proof -
  from ok obtain b st1 where p: "palloc_probe st as (page_addr v) (unat n) = Inr (b, st1)"
    and rest: "(let va = (if b then page_addr v else 0) in
      if va \<noteq> 0 then rbind (allocatePages st1 as va n) (\<lambda>st2. Inr (va, st2)) else Inr (va, st1)) = Inr (a, st')"
    by (auto simp: MMU_palloc_at_def page_addr_aligned)
  from palloc_probe_Inr[OF inv v(2) p] have r: "mmu_inv st1 as" "extends_tables st st1"
    "b \<longleftrightarrow> run_unmapped st v (unat n)" "b \<Longrightarrow> run_tables st1 v (unat n)" by auto
  show ?thesis
  proof (cases b)
    case False
    then show ?thesis using rest r by (auto simp: extends_tables_def)
  next
    case True
    have lt: "v < 1048576" using v by (simp add: kUserPages_def)
    have "unat (page_addr v) \<noteq> 0" using v(1) unat_page_addr[OF lt] by simp
    then have nz: "page_addr v \<noteq> 0" by auto
    then have al: "allocatePages st1 as (page_addr v) n = Inr st'" and a: "a = page_addr v"
      using rest True by (auto simp: Let_def)
    have "run_unmapped st1 v (unat n)" using r(2,3) True run_unmapped_extension by blast
    from allocatePages_loop_Inr[OF r(1) this r(4)[OF True]] al lt show ?thesis
      using maps_run_after_extension[OF r(2)] a True r(3) by (auto simp: allocatePages_at)
  qed
qed


section \<open>Witnesses\<close>

text \<open>A one-page scan when page 0 is taken and page 1 is not.\<close>

lemma scan_page_one:
  assumes g: "getOrCreateTable st as 0 = Inr (table, st)"
    and e: "PageTable_entryAtIndex (hw st) table 0 = Inr 3" "PageTable_entryAtIndex (hw st) table 1 = Inr 0"
  shows "palloc_scan st as 1 0 1024 \<lparr>contiguousFoundPages = 0, retpde = 0, retpte = 0, retval = 0\<rparr>
    = Inr (\<lparr>contiguousFoundPages = 1, retpde = 0, retpte = 1, retval = 0x1000\<rparr>, st)"
proof -
  have "palloc_table (hw st) table 1 0 0 (Suc (Suc k)) \<lparr>contiguousFoundPages = 0, retpde = 0, retpte = 0, retval = 0\<rparr>
    = Inr \<lparr>contiguousFoundPages = 1, retpde = 0, retpte = 1, retval = 0x1000\<rparr>" for k
    using e by (simp add: ex_entries)
  from this[of 1022] have t: "palloc_table (hw st) table 1 0 0 1024 \<lparr>contiguousFoundPages = 0, retpde = 0, retpte = 0, retval = 0\<rparr>
    = Inr \<lparr>contiguousFoundPages = 1, retpde = 0, retpte = 1, retval = 0x1000\<rparr>" by simp
  have "palloc_scan st as 1 0 (Suc (Suc k)) \<lparr>contiguousFoundPages = 0, retpde = 0, retpte = 0, retval = 0\<rparr>
    = Inr (\<lparr>contiguousFoundPages = 1, retpde = 0, retpte = 1, retval = 0x1000\<rparr>, st)" for k
    using g t by simp
  from this[of 1022] show ?thesis by simp
qed

lemma ex_scan:
  "palloc_scan ex_mmu 0x200000 1 0 1024 \<lparr>contiguousFoundPages = 0, retpde = 0, retpte = 0, retval = 0\<rparr>
    = Inr (\<lparr>contiguousFoundPages = 1, retpde = 0, retpte = 1, retval = 0x1000\<rparr>, ex_mmu)"
proof -
  have g: "getOrCreateTable ex_mmu 0x200000 (of_nat 0) = Inr (PageTableForDirectoryIndex 0, ex_mmu)"
    using getOrCreateTable_eq[OF ex_inv, of 0] by (simp add: ex_pde ex_entries)
  have e: "PageTable_entryAtIndex (hw ex_mmu) (PageTableForDirectoryIndex 0) (of_nat i) = Inr (ex_phys 513 i)"
    if "i < 1024" for i
    using entry_in_table[of ex_mmu 0 i] ex_inv that
    by (simp add: mmu_inv_def ex_pde ex_entries pte_of_def ex_dir)
  show ?thesis by (rule scan_page_one) (use g e[of 0] e[of 1] in \<open>simp_all add: ex_phys_def\<close>)
qed

lemma ex_take: "\<exists>f st1. alloc_frame ex_mmu = Inr (f, st1)"
  using fs.take_nonempty[OF ex_pfa_facts(1)] by (auto simp: alloc_frame_def ex_mmu_def ex_pfa_facts(3))

lemma ex_palloc: "\<exists>st'. MMU_palloc ex_mmu 0x200000 1 = Inr (0x1000, st')"
proof -
  obtain f st1 where f: "alloc_frame ex_mmu = Inr (f, st1)" using ex_take by auto
  have "page_addr 1 = 0x1000" by (simp add: page_addr_def)
  moreover obtain st2 where
    "set_entry st1 (PageTableForDirectoryIndex (of_nat (1 div 1024))) (of_nat (1 mod 1024)) (rw_entry f) = Inr st2"
    using map_one_page[OF ex_inv _ _ _ f, of 1] by (auto simp: kUserPages_def ex_pde ex_entries ex_page_map)
  ultimately have "allocatePages ex_mmu 0x200000 0x1000 1 = Inr st2"
    using allocatePages_at[where r = 1 and st = ex_mmu and n = 1] f
      allocatePages_loop_step[where v = 1 and k = 0 and st = ex_mmu, OF _ refl refl]
    by (simp add: kUserPages_def)
  then show ?thesis by (simp add: MMU_palloc_def ex_scan)
qed

theorem palloc_maps_fresh_pages_witness:
  "\<exists>st'. MMU_palloc ex_mmu 0x200000 1 = Inr (0x1000, st') \<and> mmu_inv st' 0x200000
    \<and> (\<exists>fs. length fs = 1 \<and> maps_run ex_mmu 1 fs st')"
proof -
  obtain st' where p: "MMU_palloc ex_mmu 0x200000 1 = Inr (0x1000, st')" using ex_palloc by auto
  have "frame_number 0x1000 = 1" by (simp add: frame_number_def)
  then show ?thesis using p palloc_maps_fresh_pages[OF ex_inv p] by auto
qed

theorem palloc_pfree_roundtrip_witness:
  "\<exists>st1 st2. MMU_palloc ex_mmu 0x200000 1 = Inr (0x1000, st1) \<and> MMU_pfree st1 0x200000 0x1000 1 = Inr (0, st2)
    \<and> page_map st2 1 = None"
proof -
  obtain st1 where p: "MMU_palloc ex_mmu 0x200000 1 = Inr (0x1000, st1)" using ex_palloc by auto
  have "page_map ex_mmu 1 = None" by (simp add: ex_page_map kUserPages_def)
  then show ?thesis using p palloc_pfree_roundtrip[OF ex_inv p] by (auto simp: kUserPages_def)
qed

text \<open>A machine whose memory is used up cannot create the table a request needs.\<close>

definition ex_full :: MMU where
  "ex_full = ex_mmu\<lparr>pfa := PageFrameAllocator_new\<rparr>"

lemma ex_full_facts: "mmu_inv ex_full 0x200000" "mmu_free ex_full = {}"
proof -
  show e: "mmu_free ex_full = {}"
    by (simp add: mmu_free_def ex_full_def free_frames_def usable_frames_def PageFrameAllocator_new_def bits_of_new)
  show "mmu_inv ex_full 0x200000"
    by (rule mmu_inv_fewer_free[OF ex_inv]) (simp_all add: e, simp_all add: ex_full_def frames_inv_new)
qed

lemma ex_full_scan:
  "palloc_scan ex_full 0x200000 1 0 1024 \<lparr>contiguousFoundPages = 0, retpde = 0, retpte = 0, retval = 0\<rparr>
    = Inr (\<lparr>contiguousFoundPages = 1, retpde = 0, retpte = 1, retval = 0x1000\<rparr>, ex_full)"
proof -
  have hw: "hw ex_full = hw ex_mmu" by (simp add: ex_full_def)
  note c = hw_cong[OF hw]
  have g: "getOrCreateTable ex_full 0x200000 (of_nat 0) = Inr (PageTableForDirectoryIndex 0, ex_full)"
    using getOrCreateTable_eq[OF ex_full_facts(1), of 0] by (simp add: ex_pde ex_entries c)
  have e: "PageTable_entryAtIndex (hw ex_full) (PageTableForDirectoryIndex 0) (of_nat i) = Inr (ex_phys 513 i)"
    if "i < 1024" for i
    using entry_in_table[of ex_mmu 0 i] ex_inv that
    by (simp add: mmu_inv_def ex_pde ex_entries pte_of_def ex_dir hw)
  show ?thesis by (rule scan_page_one) (use g e[of 0] e[of 1] in \<open>simp_all add: ex_phys_def\<close>)
qed

theorem palloc_only_out_of_memory_witness:
  "\<exists>e. MMU_palloc ex_full 0x200000 1 = Inl e \<and> e = out_of_memory"
proof -
  have "alloc_frame ex_full = Inl out_of_memory"
    using alloc_one_fails[OF frames_inv_new] ex_full_facts(2)
    by (simp add: alloc_frame_def ex_full_def mmu_free_def)
  then have "allocatePages ex_full 0x200000 0x1000 1 = Inl out_of_memory"
    by (simp add: allocatePages_def)
  then have "MMU_palloc ex_full 0x200000 1 = Inl out_of_memory" by (simp add: MMU_palloc_def ex_full_scan)
  then show ?thesis using palloc_only_out_of_memory[OF ex_full_facts(1)] by blast
qed


end
