(* ===== verification/Ring_Buffer.thy ===== *)
theory Ring_Buffer
  imports Prelude
begin

text \<open>
  The bounded queue of \<open>libsys/include/util/RingBuffer.hpp\<close>, on which the keyboard driver
  buffers its scan codes. The element array is a list of the allocated length, the indices
  are 32-bit words, and a division by a zero capacity is a fault. \<open>T{}\<close> and the contents of
  a fresh array are parameters of the operations that use them.

  The locale \<open>bounded_queue\<close> states what a client of such a queue relies on; it is
  interpreted on the ring buffer at the end of the theory.
\<close>

section \<open>Operations\<close>

record 'a RingBuffer =
  rb_capacity :: size_t
  rb_front :: u32
  rb_back :: u32
  rb_size :: size_t
  rb_buffer :: "'a list"

definition RingBuffer_new :: "size_t \<Rightarrow> 'a \<Rightarrow> 'a RingBuffer" where
  "RingBuffer_new capacity fill =
     \<lparr>rb_capacity = capacity, rb_front = 0, rb_back = 0, rb_size = 0, rb_buffer = replicate (unat capacity) fill\<rparr>"

definition RingBuffer_next :: "'a RingBuffer \<Rightarrow> size_t \<Rightarrow> size_t res" where
  "RingBuffer_next r current =
     (if rb_capacity r = 0 then Inl DivideByZero else Inr ((current + 1) mod rb_capacity r))"

definition RingBuffer_enqueue :: "'a RingBuffer \<Rightarrow> 'a \<Rightarrow> 'a RingBuffer res" where
  "RingBuffer_enqueue r item =
     rbind (awrite (rb_buffer r) (unat (rb_back r)) item) (\<lambda>buf.
     rbind (RingBuffer_next r (rb_back r)) (\<lambda>b.
     let r1 = r\<lparr>rb_buffer := buf, rb_back := b\<rparr> in
     if rb_front r1 = rb_back r1
     then rbind (RingBuffer_next r1 (rb_front r1)) (\<lambda>f. Inr (r1\<lparr>rb_front := f\<rparr>))
     else Inr (r1\<lparr>rb_size := rb_size r1 + 1\<rparr>)))"

definition RingBuffer_size :: "'a RingBuffer \<Rightarrow> size_t" where
  "RingBuffer_size r = rb_size r"

definition RingBuffer_isEmpty :: "'a RingBuffer \<Rightarrow> bool" where
  "RingBuffer_isEmpty r \<longleftrightarrow> RingBuffer_size r = 0"

definition RingBuffer_pop :: "'a \<Rightarrow> 'a RingBuffer \<Rightarrow> ('a \<times> 'a RingBuffer) res" where
  "RingBuffer_pop dflt r =
     (if RingBuffer_isEmpty r then Inr (dflt, r)
      else let retIndex = rb_front r in
           rbind (RingBuffer_next r (rb_front r)) (\<lambda>f.
           let r1 = r\<lparr>rb_front := f, rb_size := rb_size r - 1\<rparr> in
           rbind (aread (rb_buffer r1) (unat retIndex)) (\<lambda>x. Inr (x, r1))))"

definition RingBuffer_peek :: "'a RingBuffer \<Rightarrow> 'a res" where
  "RingBuffer_peek r = (if RingBuffer_isEmpty r then Inl NullPointer else aread (rb_buffer r) (unat (rb_front r)))"

definition RingBuffer_clear :: "'a RingBuffer \<Rightarrow> 'a RingBuffer" where
  "RingBuffer_clear r = r\<lparr>rb_front := rb_back r\<rparr>"

section \<open>Invariant and contents\<close>

definition ring_inv :: "'a RingBuffer \<Rightarrow> bool" where
  "ring_inv r \<longleftrightarrow> rb_capacity r \<noteq> 0 \<and> length (rb_buffer r) = unat (rb_capacity r)
     \<and> rb_front r < rb_capacity r \<and> rb_size r < rb_capacity r
     \<and> unat (rb_back r) = (unat (rb_front r) + unat (rb_size r)) mod unat (rb_capacity r)"

definition ring_list :: "'a RingBuffer \<Rightarrow> 'a list" where
  "ring_list r = map (\<lambda>i. rb_buffer r ! ((unat (rb_front r) + i) mod unat (rb_capacity r))) [0..<unat (rb_size r)]"

text \<open>The last \<open>k\<close> elements of a list.\<close>

definition last_n :: "nat \<Rightarrow> 'a list \<Rightarrow> 'a list" where
  "last_n k xs = drop (length xs - k) xs"

lemma last_n_short [simp]: "length xs \<le> k \<Longrightarrow> last_n k xs = xs"
  by (simp add: last_n_def)

lemma length_last_n [simp]: "length (last_n k xs) = min k (length xs)"
  by (simp add: last_n_def)

lemma last_n_snoc_last_n: "last_n k (last_n k xs @ ys) = last_n k (xs @ ys)"
proof (cases "length xs \<le> k")
  case False
  then have "last_n k xs @ ys = drop (length xs - k) (xs @ ys)" by (simp add: last_n_def)
  then show ?thesis using False by (simp add: last_n_def add.commute)
qed simp

section \<open>The interface\<close>

fun enqueue_all :: "('q \<Rightarrow> 'a \<Rightarrow> 'q res) \<Rightarrow> 'q \<Rightarrow> 'a list \<Rightarrow> 'q res" where
  "enqueue_all enq q [] = Inr q"
| "enqueue_all enq q (x # xs) = rbind (enq q x) (\<lambda>q1. enqueue_all enq q1 xs)"

fun pop_n :: "('q \<Rightarrow> ('a \<times> 'q) res) \<Rightarrow> nat \<Rightarrow> 'q \<Rightarrow> ('a list \<times> 'q) res" where
  "pop_n deq 0 q = Inr ([], q)"
| "pop_n deq (Suc n) q = rbind (deq q) (\<lambda>(x, q1). rbind (pop_n deq n q1) (\<lambda>(xs, q2). Inr (x # xs, q2)))"

text \<open>
  A bounded queue holds at most \<open>room\<close> elements; adding to a full one drops the oldest.
\<close>

locale bounded_queue =
  fixes qinv :: "'q \<Rightarrow> bool" and contents :: "'q \<Rightarrow> 'a list" and room :: "'q \<Rightarrow> nat"
    and enq :: "'q \<Rightarrow> 'a \<Rightarrow> 'q res" and deq :: "'q \<Rightarrow> ('a \<times> 'q) res"
  assumes enq_ok: "qinv q \<Longrightarrow>
      \<exists>q'. enq q x = Inr q' \<and> qinv q' \<and> room q' = room q \<and> contents q' = last_n (room q) (contents q @ [x])"
    and deq_ok: "qinv q \<Longrightarrow> contents q \<noteq> [] \<Longrightarrow>
      \<exists>q'. deq q = Inr (hd (contents q), q') \<and> qinv q' \<and> room q' = room q \<and> contents q' = tl (contents q)"
    and fits: "qinv q \<Longrightarrow> length (contents q) \<le> room q"
begin

lemma enqueue_all_ok:
  "qinv q \<Longrightarrow> \<exists>q'. enqueue_all enq q xs = Inr q' \<and> qinv q' \<and> room q' = room q
     \<and> contents q' = last_n (room q) (contents q @ xs)"
proof (induction xs arbitrary: q)
  case Nil
  then show ?case using fits[OF Nil] by simp
next
  case (Cons x xs)
  from enq_ok[OF Cons.prems] obtain q1 where q1: "enq q x = Inr q1" "qinv q1" "room q1 = room q"
    "contents q1 = last_n (room q) (contents q @ [x])" by blast
  then show ?case using Cons.IH[OF q1(2)] by (auto simp: last_n_snoc_last_n)
qed

lemma pop_n_ok:
  "qinv q \<Longrightarrow> n \<le> length (contents q) \<Longrightarrow>
   \<exists>q'. pop_n deq n q = Inr (take n (contents q), q') \<and> qinv q' \<and> room q' = room q \<and> contents q' = drop n (contents q)"
proof (induction n arbitrary: q)
  case (Suc n)
  then have ne: "contents q \<noteq> []" by auto
  from deq_ok[OF Suc.prems(1) ne] obtain q1 where q1: "deq q = Inr (hd (contents q), q1)" "qinv q1"
    "room q1 = room q" "contents q1 = tl (contents q)" by blast
  from Suc.IH[OF q1(2)] Suc.prems(2) q1 ne show ?case
    by (cases "contents q") auto
qed simp

lemma fifo:
  assumes "qinv q" "contents q = []"
  shows "\<exists>q1 q2. enqueue_all enq q xs = Inr q1 \<and> length (contents q1) = min (room q) (length xs)
    \<and> pop_n deq (length (contents q1)) q1 = Inr (last_n (room q) xs, q2) \<and> qinv q2 \<and> contents q2 = []"
proof -
  from enqueue_all_ok[OF assms(1), of xs] assms(2) obtain q1 where q1: "enqueue_all enq q xs = Inr q1" "qinv q1"
    "contents q1 = last_n (room q) xs" by auto
  then show ?thesis using pop_n_ok[OF q1(2), of "length (contents q1)"] by auto
qed

end

section \<open>The ring buffer is a bounded queue\<close>

lemma length_ring_list [simp]: "length (ring_list r) = unat (rb_size r)"
  by (simp add: ring_list_def)

lemma ring_list_nth:
  "i < unat (rb_size r) \<Longrightarrow> ring_list r ! i = rb_buffer r ! ((unat (rb_front r) + i) mod unat (rb_capacity r))"
  by (simp add: ring_list_def)

lemma ring_empty_iff: "RingBuffer_isEmpty r \<longleftrightarrow> ring_list r = []"
  by (simp add: RingBuffer_isEmpty_def RingBuffer_size_def ring_list_def unat_eq_zero)

lemma ring_inv_new: "capacity \<noteq> 0 \<Longrightarrow> ring_inv (RingBuffer_new capacity fill)"
  by (simp add: ring_inv_def RingBuffer_new_def word_gt_0)

lemma ring_list_new [simp]: "ring_list (RingBuffer_new capacity fill) = []"
  by (simp add: ring_list_def RingBuffer_new_def)

lemma RingBuffer_next_ok:
  assumes "x < rb_capacity r"
  shows "RingBuffer_next r x = Inr ((x + 1) mod rb_capacity r)"
    "unat ((x + 1) mod rb_capacity r) = Suc (unat x) mod unat (rb_capacity r)"
proof -
  have "unat (x + 1) = Suc (unat x)" using unat_inc[OF assms] by simp
  then show "unat ((x + 1) mod rb_capacity r) = Suc (unat x) mod unat (rb_capacity r)" by simp
  show "RingBuffer_next r x = Inr ((x + 1) mod rb_capacity r)"
    using word_less_pos[OF assms] by (auto simp: RingBuffer_next_def)
qed

text \<open>Positions of a ring of \<open>c\<close> slots: the first \<open>c\<close> from any start are distinct.\<close>

lemma mod_pos_inj: "i < c \<Longrightarrow> j < c \<Longrightarrow> (f + i) mod c = (f + j) mod (c :: nat) \<Longrightarrow> i = j"
proof (induction i j rule: linorder_wlog)
  case (le i j)
  then have "c dvd (f + j) - (f + i)" by (metis add_le_cancel_left mod_eq_dvd_iff_nat)
  then show ?case using le by (auto dest: dvd_imp_le)
qed simp

definition slots :: "'a list \<Rightarrow> nat \<Rightarrow> nat \<Rightarrow> nat \<Rightarrow> 'a list" where
  "slots buf c f n = map (\<lambda>i. buf ! ((f + i) mod c)) [0..<n]"

lemma ring_list_slots: "ring_list r = slots (rb_buffer r) (unat (rb_capacity r)) (unat (rb_front r)) (unat (rb_size r))"
  by (simp add: ring_list_def slots_def)

lemma slots_snoc:
  assumes "n < c" "length buf = c"
  shows "slots (buf[(f + n) mod c := x]) c f (Suc n) = slots buf c f n @ [x]"
proof -
  have "(f + n) mod c \<noteq> (f + i) mod c" if "i < n" for i
    using mod_pos_inj[of i c n f] assms that by auto
  then show ?thesis using assms by (simp add: slots_def)
qed

lemma slots_Cons: "f < c \<Longrightarrow> slots buf c f (Suc n) = buf ! f # slots buf c (Suc f mod c) n"
proof -
  assume "f < c"
  have e: "[0..<Suc n] = 0 # map Suc [0..<n]" by (simp add: map_Suc_upt upt_conv_Cons)
  show ?thesis unfolding slots_def e using \<open>f < c\<close> by (simp add: comp_def mod_simps)
qed

lemma wrap_full_iff:
  assumes "f < c" "n < (c :: nat)"
  shows "f = Suc ((f + n) mod c) mod c \<longleftrightarrow> Suc n = c"
proof -
  have "Suc ((f + n) mod c) mod c = (f + Suc n) mod c" by (simp add: mod_simps)
  moreover have "(f + Suc n) mod c = f mod c \<longleftrightarrow> Suc n = c"
  proof (cases "Suc n = c")
    case False
    then show ?thesis using mod_pos_inj[of "Suc n" c 0 f] assms by auto
  qed simp
  ultimately show ?thesis using assms by auto
qed

lemma RingBuffer_enqueue_ok:
  assumes inv: "ring_inv r"
  shows "\<exists>r'. RingBuffer_enqueue r x = Inr r' \<and> ring_inv r' \<and> rb_capacity r' = rb_capacity r
    \<and> ring_list r' = last_n (unat (rb_capacity r) - 1) (ring_list r @ [x])"
proof -
  define c f n where cfn: "c = unat (rb_capacity r)" "f = unat (rb_front r)" "n = unat (rb_size r)"
  define buf where "buf = (rb_buffer r)[(f + n) mod c := x]"
  have lt: "f < c" "n < c" "length (rb_buffer r) = c" and b: "unat (rb_back r) = (f + n) mod c"
    using inv by (auto simp: ring_inv_def cfn word_less_nat_alt)
  then have bc: "rb_back r < rb_capacity r" by (simp add: word_less_nat_alt cfn)
  have fc: "rb_front r < rb_capacity r" using inv by (simp add: ring_inv_def)
  define b' where "b' = (rb_back r + 1) mod rb_capacity r"
  have b': "unat b' = Suc ((f + n) mod c) mod c" using RingBuffer_next_ok(2)[OF bc] b by (simp add: b'_def cfn)
  have w: "awrite (rb_buffer r) (unat (rb_back r)) x = Inr buf" using lt b by (simp add: buf_def)
  have full: "rb_front r = b' \<longleftrightarrow> Suc n = c"
    using wrap_full_iff[OF lt(1,2)] b' by (simp add: word32_eq_iff_unat cfn(2))
  have snoc: "slots buf c f (Suc n) = ring_list r @ [x]"
    using slots_snoc[OF lt(2,3)] by (simp add: buf_def ring_list_slots cfn)
  show ?thesis
  proof (cases "Suc n = c")
    case True
    define r' where "r' = r\<lparr>rb_buffer := buf, rb_back := b', rb_front := (rb_front r + 1) mod rb_capacity r\<rparr>"
    have f': "unat (rb_front r') = Suc f mod c" using RingBuffer_next_ok(2)[OF fc] by (simp add: r'_def cfn)
    have e: "RingBuffer_enqueue r x = Inr r'"
      using w RingBuffer_next_ok(1)[OF bc] RingBuffer_next_ok(1)[OF fc] full True word_less_pos[OF fc]
      by (simp add: RingBuffer_enqueue_def b'_def r'_def Let_def RingBuffer_next_def)
    have "ring_list r' = tl (slots buf c f (Suc n))"
      using slots_Cons[OF lt(1), of buf n] f' by (simp add: ring_list_slots r'_def cfn)
    then have l: "ring_list r' = tl (ring_list r @ [x])" using snoc by simp
    have "last_n (c - 1) (ring_list r @ [x]) = tl (ring_list r @ [x])"
    proof -
      have "length (ring_list r @ [x]) - (c - 1) = Suc 0" using True cfn by simp
      then show ?thesis by (simp only: last_n_def drop_Suc drop_0)
    qed
    moreover have "ring_inv r'"
      using inv b' f' lt by (simp add: ring_inv_def r'_def buf_def cfn word_less_nat_alt mod_simps)
    ultimately show ?thesis using e l by (simp add: r'_def cfn)
  next
    case False
    define r' where "r' = r\<lparr>rb_buffer := buf, rb_back := b', rb_size := rb_size r + 1\<rparr>"
    have s: "unat (rb_size r + 1) = Suc n"
      using unat_inc[of "rb_size r" "rb_capacity r"] lt by (simp add: cfn word_less_nat_alt)
    have e: "RingBuffer_enqueue r x = Inr r'"
      using w RingBuffer_next_ok(1)[OF bc] full False by (simp add: RingBuffer_enqueue_def b'_def r'_def Let_def)
    have "ring_list r' = ring_list r @ [x]" using snoc s by (simp add: ring_list_slots r'_def cfn)
    moreover have "ring_inv r'"
      using inv b' lt False s by (simp add: ring_inv_def r'_def buf_def cfn word_less_nat_alt mod_simps)
    ultimately show ?thesis using e False lt by (simp add: r'_def cfn)
  qed
qed

lemma RingBuffer_pop_ok:
  assumes inv: "ring_inv r" and ne: "ring_list r \<noteq> []"
  shows "\<exists>r'. RingBuffer_pop dflt r = Inr (hd (ring_list r), r') \<and> ring_inv r' \<and> rb_capacity r' = rb_capacity r
    \<and> ring_list r' = tl (ring_list r)"
proof -
  define c f n where cfn: "c = unat (rb_capacity r)" "f = unat (rb_front r)" "n = unat (rb_size r) - 1"
  define r' where "r' = r\<lparr>rb_front := (rb_front r + 1) mod rb_capacity r, rb_size := rb_size r - 1\<rparr>"
  have lt: "f < c" "length (rb_buffer r) = c" and fc: "rb_front r < rb_capacity r"
    using inv by (auto simp: ring_inv_def cfn word_less_nat_alt)
  have nz: "rb_size r \<noteq> 0" using ne by (simp flip: ring_empty_iff add: RingBuffer_isEmpty_def RingBuffer_size_def)
  then have n: "unat (rb_size r) = Suc n" by (simp add: cfn unat_gt_0)
  then have n': "unat (rb_size r - 1) = n" using nz by (simp add: unat_minus_one)
  have f': "unat (rb_front r') = Suc f mod c" using RingBuffer_next_ok(2)[OF fc] by (simp add: r'_def cfn)
  have l: "ring_list r = rb_buffer r ! f # slots (rb_buffer r) c (Suc f mod c) n"
    unfolding ring_list_slots n using slots_Cons[OF lt(1), of "rb_buffer r" n] by (simp only: cfn(1,2))
  have "ring_list r' = slots (rb_buffer r) c (Suc f mod c) n"
    using f' n' by (simp add: ring_list_slots r'_def cfn)
  moreover have "RingBuffer_pop dflt r = Inr (rb_buffer r ! f, r')"
    using ne RingBuffer_next_ok(1)[OF fc] lt by (simp add: RingBuffer_pop_def ring_empty_iff r'_def Let_def cfn)
  moreover have "ring_inv r'"
    using inv f' n n' by (simp add: ring_inv_def r'_def cfn(1,2) word_less_nat_alt mod_simps)
  ultimately show ?thesis using l by (simp add: r'_def)
qed

interpretation rq: bounded_queue ring_inv ring_list "\<lambda>r. unat (rb_capacity r) - 1" RingBuffer_enqueue "RingBuffer_pop dflt"
  for dflt :: 'a
proof unfold_locales
  show "length (ring_list q) \<le> unat (rb_capacity q) - 1" if "ring_inv q" for q :: "'a RingBuffer"
    using that by (auto simp: ring_inv_def word_less_nat_alt)
qed (use RingBuffer_enqueue_ok RingBuffer_pop_ok in metis)+

lemma RingBuffer_peek_ok: "ring_inv r \<Longrightarrow> ring_list r \<noteq> [] \<Longrightarrow> RingBuffer_peek r = Inr (hd (ring_list r))"
  using RingBuffer_pop_ok[of r] by (auto simp: RingBuffer_peek_def RingBuffer_pop_def ring_empty_iff Let_def)

section \<open>Properties\<close>

text \<open>
  C33. A ring buffer of capacity \<open>c > 0\<close> is a first-in-first-out queue of the last \<open>c - 1\<close>
  elements: enqueueing a list into a fresh buffer never faults, and popping as many elements
  as the buffer then holds yields the last \<open>c - 1\<close> of them in order and leaves it empty.
\<close>

theorem RingBuffer_fifo:
  assumes "capacity \<noteq> 0"
  shows "\<exists>r1 r2. enqueue_all RingBuffer_enqueue (RingBuffer_new capacity fill) xs = Inr r1
    \<and> unat (RingBuffer_size r1) = min (unat capacity - 1) (length xs)
    \<and> pop_n (RingBuffer_pop dflt) (unat (RingBuffer_size r1)) r1 = Inr (last_n (unat capacity - 1) xs, r2)
    \<and> RingBuffer_isEmpty r2"
proof -
  have "rb_capacity (RingBuffer_new capacity fill) = capacity" by (simp add: RingBuffer_new_def)
  then show ?thesis using rq.fifo[OF ring_inv_new[OF assms] ring_list_new, of fill xs dflt]
    by (auto simp: RingBuffer_size_def ring_empty_iff)
qed

theorem RingBuffer_fifo_witness:
  "\<exists>r1 r2. enqueue_all RingBuffer_enqueue (RingBuffer_new 4 (0 :: nat)) [1, 2, 3, 4, 5] = Inr r1
    \<and> pop_n (RingBuffer_pop 0) 3 r1 = Inr ([3, 4, 5], r2)"
proof -
  have "last_n (unat (4 :: size_t) - 1) [1, 2, 3, 4, 5] = [3, 4, 5 :: nat]"
    "min (unat (4 :: size_t) - 1) (length [1, 2, 3, 4, 5 :: nat]) = 3" by (simp_all add: last_n_def)
  moreover have "(4 :: size_t) \<noteq> 0" by simp
  ultimately show ?thesis using RingBuffer_fifo[of 4 0 "[1, 2, 3, 4, 5]" "0 :: nat"] by metis
qed

text \<open>
  \<open>clear\<close> does not empty a buffer: the size it reports is unchanged, so a buffer with
  elements in it still reports itself not empty, and its indices no longer agree with its size.
\<close>

theorem RingBuffer_clear_keeps_size:
  assumes "ring_inv r" "ring_list r \<noteq> []"
  shows "RingBuffer_size (RingBuffer_clear r) = RingBuffer_size r \<and> \<not> RingBuffer_isEmpty (RingBuffer_clear r)
    \<and> \<not> ring_inv (RingBuffer_clear r)"
proof -
  have nz: "rb_size r \<noteq> 0" using assms(2) by (simp flip: ring_empty_iff add: RingBuffer_isEmpty_def RingBuffer_size_def)
  have "\<not> ring_inv (RingBuffer_clear r)"
  proof
    assume "ring_inv (RingBuffer_clear r)"
    then have "unat (rb_back r) = (unat (rb_back r) + unat (rb_size r)) mod unat (rb_capacity r)"
      "rb_back r < rb_capacity r" "rb_size r < rb_capacity r"
      by (auto simp: ring_inv_def RingBuffer_clear_def)
    then have "unat (rb_size r) = 0"
      using mod_pos_inj[of "unat (rb_size r)" "unat (rb_capacity r)" 0 "unat (rb_back r)"]
      by (simp add: word_less_nat_alt)
    then show False using nz by (simp add: unat_eq_zero)
  qed
  then show ?thesis using nz by (simp add: RingBuffer_size_def RingBuffer_isEmpty_def RingBuffer_clear_def)
qed

theorem RingBuffer_clear_keeps_size_witness:
  "\<exists>r. RingBuffer_enqueue (RingBuffer_new 4 (0 :: nat)) 7 = Inr r \<and> \<not> RingBuffer_isEmpty (RingBuffer_clear r)"
proof -
  have "ring_inv (RingBuffer_new 4 (0 :: nat))" by (rule ring_inv_new) simp
  from RingBuffer_enqueue_ok[OF this, of 7] obtain r where r: "RingBuffer_enqueue (RingBuffer_new 4 0) (7 :: nat) = Inr r"
    "ring_inv r" "ring_list r = last_n (unat (rb_capacity (RingBuffer_new 4 (0 :: nat))) - 1) [7]" by auto
  moreover have "rb_capacity (RingBuffer_new 4 (0 :: nat)) = 4" by (simp add: RingBuffer_new_def)
  ultimately have "ring_list r \<noteq> []" by (simp add: last_n_def)
  then show ?thesis using r RingBuffer_clear_keeps_size[OF r(2)] by auto
qed

end
