(* ===== verification/Keyboard.thy ===== *)
theory Keyboard
  imports Ring_Buffer
begin

text \<open>
  The PS/2 keyboard driver: \<open>kernel/include/sys/keys.h\<close>, \<open>kernel/src/device/input/PS2Keyboard.cpp\<close>,
  \<open>kernel/src/device/input/KeyboardInputStream.cpp\<close>,
  \<open>kernel/include/arch/i386/device/input/PS2KeyboardISR.hpp\<close>.

  Scan codes arrive by interrupt. The driver halts while its ring buffer is empty; the model
  passes the list of scan codes that interrupts deliver while the processor is halted, one
  per wake-up, and a read that waits with none left is \<open>Hang\<close>. Key codes are the numbers the
  enumeration gives them. What the input stream echoes to the kernel's console is the last
  component of the result of its read.
\<close>

section \<open>Key codes and events\<close>

type_synonym KeyCode = nat

abbreviation kKeyNull :: KeyCode where "kKeyNull \<equiv> 0"

abbreviation kKeyEscape :: KeyCode where "kKeyEscape \<equiv> 1"

abbreviation kKeyF1 :: KeyCode where "kKeyF1 \<equiv> 2"

abbreviation kKeyF2 :: KeyCode where "kKeyF2 \<equiv> 3"

abbreviation kKeyF3 :: KeyCode where "kKeyF3 \<equiv> 4"

abbreviation kKeyF4 :: KeyCode where "kKeyF4 \<equiv> 5"

abbreviation kKeyF5 :: KeyCode where "kKeyF5 \<equiv> 6"

abbreviation kKeyF6 :: KeyCode where "kKeyF6 \<equiv> 7"

abbreviation kKeyF7 :: KeyCode where "kKeyF7 \<equiv> 8"

abbreviation kKeyF8 :: KeyCode where "kKeyF8 \<equiv> 9"

abbreviation kKeyF9 :: KeyCode where "kKeyF9 \<equiv> 10"

abbreviation kKeyF10 :: KeyCode where "kKeyF10 \<equiv> 11"

abbreviation kKeyF11 :: KeyCode where "kKeyF11 \<equiv> 12"

abbreviation kKeyF12 :: KeyCode where "kKeyF12 \<equiv> 13"

abbreviation kKeyBacktick :: KeyCode where "kKeyBacktick \<equiv> 14"

abbreviation kKey1 :: KeyCode where "kKey1 \<equiv> 15"

abbreviation kKey2 :: KeyCode where "kKey2 \<equiv> 16"

abbreviation kKey3 :: KeyCode where "kKey3 \<equiv> 17"

abbreviation kKey4 :: KeyCode where "kKey4 \<equiv> 18"

abbreviation kKey5 :: KeyCode where "kKey5 \<equiv> 19"

abbreviation kKey6 :: KeyCode where "kKey6 \<equiv> 20"

abbreviation kKey7 :: KeyCode where "kKey7 \<equiv> 21"

abbreviation kKey8 :: KeyCode where "kKey8 \<equiv> 22"

abbreviation kKey9 :: KeyCode where "kKey9 \<equiv> 23"

abbreviation kKey0 :: KeyCode where "kKey0 \<equiv> 24"

abbreviation kKeyDash :: KeyCode where "kKeyDash \<equiv> 25"

abbreviation kKeyEquals :: KeyCode where "kKeyEquals \<equiv> 26"

abbreviation kKeyBackspace :: KeyCode where "kKeyBackspace \<equiv> 27"

abbreviation kKeyTab :: KeyCode where "kKeyTab \<equiv> 28"

abbreviation kKeyQ :: KeyCode where "kKeyQ \<equiv> 29"

abbreviation kKeyW :: KeyCode where "kKeyW \<equiv> 30"

abbreviation kKeyE :: KeyCode where "kKeyE \<equiv> 31"

abbreviation kKeyR :: KeyCode where "kKeyR \<equiv> 32"

abbreviation kKeyT :: KeyCode where "kKeyT \<equiv> 33"

abbreviation kKeyY :: KeyCode where "kKeyY \<equiv> 34"

abbreviation kKeyU :: KeyCode where "kKeyU \<equiv> 35"

abbreviation kKeyI :: KeyCode where "kKeyI \<equiv> 36"

abbreviation kKeyO :: KeyCode where "kKeyO \<equiv> 37"

abbreviation kKeyP :: KeyCode where "kKeyP \<equiv> 38"

abbreviation kKeyLeftBracket :: KeyCode where "kKeyLeftBracket \<equiv> 39"

abbreviation kKeyRightBracket :: KeyCode where "kKeyRightBracket \<equiv> 40"

abbreviation kKeyBackslash :: KeyCode where "kKeyBackslash \<equiv> 41"

abbreviation kKeyCapsLock :: KeyCode where "kKeyCapsLock \<equiv> 42"

abbreviation kKeyA :: KeyCode where "kKeyA \<equiv> 43"

abbreviation kKeyS :: KeyCode where "kKeyS \<equiv> 44"

abbreviation kKeyD :: KeyCode where "kKeyD \<equiv> 45"

abbreviation kKeyF :: KeyCode where "kKeyF \<equiv> 46"

abbreviation kKeyG :: KeyCode where "kKeyG \<equiv> 47"

abbreviation kKeyH :: KeyCode where "kKeyH \<equiv> 48"

abbreviation kKeyJ :: KeyCode where "kKeyJ \<equiv> 49"

abbreviation kKeyK :: KeyCode where "kKeyK \<equiv> 50"

abbreviation kKeyL :: KeyCode where "kKeyL \<equiv> 51"

abbreviation kKeySemicolon :: KeyCode where "kKeySemicolon \<equiv> 52"

abbreviation kKeyApostrophe :: KeyCode where "kKeyApostrophe \<equiv> 53"

abbreviation kKeyEnter :: KeyCode where "kKeyEnter \<equiv> 54"

abbreviation kKeyLeftShift :: KeyCode where "kKeyLeftShift \<equiv> 55"

abbreviation kKeyZ :: KeyCode where "kKeyZ \<equiv> 56"

abbreviation kKeyX :: KeyCode where "kKeyX \<equiv> 57"

abbreviation kKeyC :: KeyCode where "kKeyC \<equiv> 58"

abbreviation kKeyV :: KeyCode where "kKeyV \<equiv> 59"

abbreviation kKeyB :: KeyCode where "kKeyB \<equiv> 60"

abbreviation kKeyN :: KeyCode where "kKeyN \<equiv> 61"

abbreviation kKeyM :: KeyCode where "kKeyM \<equiv> 62"

abbreviation kKeyComma :: KeyCode where "kKeyComma \<equiv> 63"

abbreviation kKeyPeriod :: KeyCode where "kKeyPeriod \<equiv> 64"

abbreviation kKeySlash :: KeyCode where "kKeySlash \<equiv> 65"

abbreviation kKeyRightShift :: KeyCode where "kKeyRightShift \<equiv> 66"

abbreviation kKeyLeftControl :: KeyCode where "kKeyLeftControl \<equiv> 67"

abbreviation kKeyLeftSuper :: KeyCode where "kKeyLeftSuper \<equiv> 68"

abbreviation kKeyLeftAlt :: KeyCode where "kKeyLeftAlt \<equiv> 69"

abbreviation kKeySpace :: KeyCode where "kKeySpace \<equiv> 70"

abbreviation kKeyRightAlt :: KeyCode where "kKeyRightAlt \<equiv> 71"

abbreviation kKeyRightSuper :: KeyCode where "kKeyRightSuper \<equiv> 72"

abbreviation kKeyMenu :: KeyCode where "kKeyMenu \<equiv> 73"

abbreviation kKeyRightControl :: KeyCode where "kKeyRightControl \<equiv> 74"

abbreviation kKeyPrintScreen :: KeyCode where "kKeyPrintScreen \<equiv> 75"

abbreviation kKeyScrollLock :: KeyCode where "kKeyScrollLock \<equiv> 76"

abbreviation kKeyPauseBreak :: KeyCode where "kKeyPauseBreak \<equiv> 77"

abbreviation kKeyInsert :: KeyCode where "kKeyInsert \<equiv> 78"

abbreviation kKeyHome :: KeyCode where "kKeyHome \<equiv> 79"

abbreviation kKeyPageUp :: KeyCode where "kKeyPageUp \<equiv> 80"

abbreviation kKeyNumLock :: KeyCode where "kKeyNumLock \<equiv> 81"

abbreviation kKeyPadSlash :: KeyCode where "kKeyPadSlash \<equiv> 82"

abbreviation kKeyPadAsterisk :: KeyCode where "kKeyPadAsterisk \<equiv> 83"

abbreviation kKeyPadMinus :: KeyCode where "kKeyPadMinus \<equiv> 84"

abbreviation kKeyDelete :: KeyCode where "kKeyDelete \<equiv> 85"

abbreviation kKeyEnd :: KeyCode where "kKeyEnd \<equiv> 86"

abbreviation kKeyPageDown :: KeyCode where "kKeyPageDown \<equiv> 87"

abbreviation kKeyPad7 :: KeyCode where "kKeyPad7 \<equiv> 88"

abbreviation kKeyPad8 :: KeyCode where "kKeyPad8 \<equiv> 89"

abbreviation kKeyPad9 :: KeyCode where "kKeyPad9 \<equiv> 90"

abbreviation kKeyPadPlus :: KeyCode where "kKeyPadPlus \<equiv> 91"

abbreviation kKeyPad4 :: KeyCode where "kKeyPad4 \<equiv> 92"

abbreviation kKeyPad5 :: KeyCode where "kKeyPad5 \<equiv> 93"

abbreviation kKeyPad6 :: KeyCode where "kKeyPad6 \<equiv> 94"

abbreviation kKeyUp :: KeyCode where "kKeyUp \<equiv> 95"

abbreviation kKeyPad1 :: KeyCode where "kKeyPad1 \<equiv> 96"

abbreviation kKeyPad2 :: KeyCode where "kKeyPad2 \<equiv> 97"

abbreviation kKeyPad3 :: KeyCode where "kKeyPad3 \<equiv> 98"

abbreviation kKeyPadEnter :: KeyCode where "kKeyPadEnter \<equiv> 99"

abbreviation kKeyLeft :: KeyCode where "kKeyLeft \<equiv> 100"

abbreviation kKeyDown :: KeyCode where "kKeyDown \<equiv> 101"

abbreviation kKeyRight :: KeyCode where "kKeyRight \<equiv> 102"

abbreviation kKeyPad0 :: KeyCode where "kKeyPad0 \<equiv> 103"

abbreviation kKeyPadPeriod :: KeyCode where "kKeyPadPeriod \<equiv> 104"

definition kKeyCount :: nat where
  "kKeyCount = 105"

datatype KeyEventType = kKeyEventPressed | kKeyEventReleased

record KeyEvent =
  ke_type :: KeyEventType
  keyCode :: KeyCode

definition scancodes :: nat where
  "scancodes = 89"

definition kScanSet1 :: "KeyCode list" where
  "kScanSet1 = [
     kKeyNull, kKeyEscape, kKey1, kKey2, kKey3, kKey4, kKey5, kKey6, kKey7, kKey8, kKey9,
     kKey0, kKeyDash, kKeyEquals, kKeyBackspace, kKeyTab, kKeyQ, kKeyW, kKeyE, kKeyR, kKeyT,
     kKeyY, kKeyU, kKeyI, kKeyO, kKeyP, kKeyLeftBracket, kKeyRightBracket, kKeyEnter,
     kKeyLeftControl, kKeyA, kKeyS, kKeyD, kKeyF, kKeyG, kKeyH, kKeyJ, kKeyK, kKeyL,
     kKeySemicolon, kKeyApostrophe, kKeyBacktick, kKeyLeftShift, kKeyBackslash, kKeyZ, kKeyX,
     kKeyC, kKeyV, kKeyB, kKeyN, kKeyM, kKeyComma, kKeyPeriod, kKeySlash, kKeyRightShift,
     kKeyPadAsterisk, kKeyLeftAlt, kKeySpace, kKeyCapsLock, kKeyF1, kKeyF2, kKeyF3, kKeyF4,
     kKeyF5, kKeyF6, kKeyF7, kKeyF8, kKeyF9, kKeyF10, kKeyNumLock, kKeyScrollLock, kKeyPad7,
     kKeyPad8, kKeyPad9, kKeyPadMinus, kKeyPad4, kKeyPad5, kKeyPad6, kKeyPadPlus, kKeyPad1,
     kKeyPad2, kKeyPad3, kKeyPad0, kKeyPadPeriod, kKeyNull, kKeyNull, kKeyNull, kKeyF11, kKeyF12]"

section \<open>The driver\<close>

text \<open>The ring holds values of type \<open>int\<close>, read back as \<open>uint32_t\<close>.\<close>

record PS2Keyboard =
  kb_buffer :: "u32 RingBuffer"
  kb_keysPressed :: "bool list"

definition PS2Keyboard_new :: PS2Keyboard where
  "PS2Keyboard_new = \<lparr>kb_buffer = RingBuffer_new 128 0, kb_keysPressed = replicate 256 False\<rparr>"

definition PS2Keyboard_keyIsPressed :: "PS2Keyboard \<Rightarrow> KeyCode \<Rightarrow> bool res" where
  "PS2Keyboard_keyIsPressed kb key = aread (kb_keysPressed kb) key"

definition PS2Keyboard_pushScanCode :: "PS2Keyboard \<Rightarrow> u8 \<Rightarrow> PS2Keyboard res" where
  "PS2Keyboard_pushScanCode kb scancode =
     rbind (RingBuffer_enqueue (kb_buffer kb) (ucast scancode)) (\<lambda>b. Inr (kb\<lparr>kb_buffer := b\<rparr>))"

text \<open>\<open>while (_buffer.isEmpty()) { halt(); }\<close>\<close>

fun PS2Keyboard_wait :: "PS2Keyboard \<Rightarrow> u8 list \<Rightarrow> (PS2Keyboard \<times> u8 list) res" where
  "PS2Keyboard_wait kb [] = (if RingBuffer_isEmpty (kb_buffer kb) then Inl Hang else Inr (kb, []))"
| "PS2Keyboard_wait kb (irq # irqs) =
     (if RingBuffer_isEmpty (kb_buffer kb)
      then rbind (PS2Keyboard_pushScanCode kb irq) (\<lambda>kb1. PS2Keyboard_wait kb1 irqs)
      else Inr (kb, irq # irqs))"

definition decode_scancode :: "u32 \<Rightarrow> KeyEvent" where
  "decode_scancode sc =
     (let ty = (if sc AND 128 = 128 then kKeyEventReleased else kKeyEventPressed);
          sc1 = sc AND 0x7F
      in \<lparr>ke_type = ty, keyCode = (if unat sc1 < scancodes then kScanSet1 ! unat sc1 else kKeyNull)\<rparr>)"

definition PS2Keyboard_read :: "PS2Keyboard \<Rightarrow> u8 list \<Rightarrow> (KeyEvent \<times> PS2Keyboard \<times> u8 list) res" where
  "PS2Keyboard_read kb irqs =
     rbind (PS2Keyboard_wait kb irqs) (\<lambda>(kb1, irqs1).
     rbind (RingBuffer_pop 0 (kb_buffer kb1)) (\<lambda>(scancode, b).
     let retval = decode_scancode scancode in
     rbind (awrite (kb_keysPressed kb1) (keyCode retval) (ke_type retval = kKeyEventPressed)) (\<lambda>ks.
     Inr (retval, kb1\<lparr>kb_buffer := b, kb_keysPressed := ks\<rparr>, irqs1))))"

text \<open>
  The interrupt handler: \<open>statuses\<close> are the values successive reads of the status port return,
  \<open>data\<close> the value the data port returns.
\<close>

fun isr_wait :: "u8 list \<Rightarrow> unit res" where
  "isr_wait [] = Inl Hang"
| "isr_wait (s # ss) = (if s AND 2 \<noteq> 0 then isr_wait ss else Inr ())"

definition PS2KeyboardISR_invoke :: "PS2Keyboard \<Rightarrow> u8 list \<Rightarrow> u8 \<Rightarrow> PS2Keyboard res" where
  "PS2KeyboardISR_invoke kb statuses data = rbind (isr_wait statuses) (\<lambda>_. PS2Keyboard_pushScanCode kb data)"

section \<open>The input stream\<close>

abbreviation NUL :: char where "NUL \<equiv> CHR 0x00"

text \<open>Both tables list 105 characters; the rest of the 128 elements are zero.\<close>

definition kKeyToChar :: "char list" where
  "kKeyToChar =
     [NUL, NUL, NUL, NUL, NUL, NUL, NUL, NUL, NUL, NUL, NUL, NUL, NUL, NUL] @ [CHR 0x60] @ ''1234567890-='' @ [CHR 0x08, CHR 0x09] @
     ''qwertyuiop[]'' @ [CHR 0x5C] @ [NUL] @ ''asdfghjkl;'' @ [CHR 0x27, CHR 0x0A] @ [NUL] @
     ''zxcvbnm,./'' @ [NUL, NUL, NUL, NUL] @ [CHR 0x20] @ [NUL, NUL, NUL, NUL, NUL, NUL, NUL, NUL, NUL, NUL, NUL] @ ''/*-'' @
     [NUL, NUL, NUL] @ ''789+456'' @ [NUL] @ ''123'' @ [NUL, NUL, NUL, NUL] @ ''0.'' @
     replicate 23 NUL"

definition kKeyToCharShift :: "char list" where
  "kKeyToCharShift =
     [NUL, NUL, NUL, NUL, NUL, NUL, NUL, NUL, NUL, NUL, NUL, NUL, NUL, NUL] @ ''~!@#$%^&*()_+'' @ [CHR 0x08, CHR 0x09] @ ''QWERTYUIOP{}|'' @ [NUL] @
     ''ASDFGHJKL:'' @ [CHR 0x22, CHR 0x0A] @ [NUL] @ ''ZXCVBNM<>?'' @ [NUL, NUL, NUL, NUL] @
     [CHR 0x20] @ [NUL, NUL, NUL, NUL, NUL, NUL, NUL, NUL, NUL, NUL, NUL] @ ''/*-'' @ [NUL, NUL, NUL] @ ''789+456'' @ [NUL] @
     ''123'' @ [NUL, NUL, NUL, NUL] @ ''0.'' @ replicate 23 NUL"

definition charWithModKeys :: "PS2Keyboard \<Rightarrow> KeyCode \<Rightarrow> char res" where
  "charWithModKeys kb code =
     rbind (PS2Keyboard_keyIsPressed kb kKeyLeftShift) (\<lambda>l.
     rbind (if l then Inr True else PS2Keyboard_keyIsPressed kb kKeyRightShift) (\<lambda>isShiftPressed.
     if isShiftPressed then aread kKeyToCharShift code else aread kKeyToChar code))"

lemma enqueue_size: "RingBuffer_enqueue r x = Inr r' \<Longrightarrow> unat (rb_size r') \<le> Suc (unat (rb_size r))"
  by (auto simp: RingBuffer_enqueue_def Let_def unat_word_ariths split: if_splits)

lemma pop_size: "RingBuffer_pop d r = Inr (x, r') \<Longrightarrow> \<not> RingBuffer_isEmpty r \<Longrightarrow> unat (rb_size r') < unat (rb_size r)"
  by (auto simp: RingBuffer_pop_def RingBuffer_isEmpty_def RingBuffer_size_def Let_def unat_minus_one unat_gt_0)

definition waiting :: "PS2Keyboard \<Rightarrow> u8 list \<Rightarrow> nat" where
  "waiting kb irqs = unat (rb_size (kb_buffer kb)) + 2 * length irqs"

lemma wait_waiting:
  "PS2Keyboard_wait kb irqs = Inr (kb', irqs') \<Longrightarrow> \<not> RingBuffer_isEmpty (kb_buffer kb') \<and> waiting kb' irqs' \<le> waiting kb irqs"
proof (induction kb irqs rule: PS2Keyboard_wait.induct)
  case (2 kb irq irqs)
  show ?case
  proof (cases "RingBuffer_isEmpty (kb_buffer kb)")
    case True
    with "2.prems" obtain b where b: "RingBuffer_enqueue (kb_buffer kb) (ucast irq) = Inr b"
      "PS2Keyboard_wait (kb\<lparr>kb_buffer := b\<rparr>) irqs = Inr (kb', irqs')"
      by (auto simp: PS2Keyboard_pushScanCode_def)
    then have "\<not> RingBuffer_isEmpty (kb_buffer kb') \<and> waiting kb' irqs' \<le> waiting (kb\<lparr>kb_buffer := b\<rparr>) irqs"
      using "2.IH"[OF True] by (simp add: PS2Keyboard_pushScanCode_def)
    then show ?thesis using enqueue_size[OF b(1)] by (simp add: waiting_def)
  qed (use "2.prems" in auto)
qed (auto split: if_splits)

lemma read_waiting:
  "PS2Keyboard_read kb irqs = Inr (e, kb', irqs') \<Longrightarrow> waiting kb' irqs' < waiting kb irqs"
proof -
  assume "PS2Keyboard_read kb irqs = Inr (e, kb', irqs')"
  then obtain kb1 sc b where w: "PS2Keyboard_wait kb irqs = Inr (kb1, irqs')"
    "RingBuffer_pop 0 (kb_buffer kb1) = Inr (sc, b)" "kb_buffer kb' = b"
    by (auto simp: PS2Keyboard_read_def Let_def split: prod.splits)
  then show ?thesis using wait_waiting[OF w(1)] pop_size[OF w(2)] by (simp add: waiting_def)
qed

text \<open>Reads events until a key with a character is pressed, echoes its character and returns it.\<close>

function KeyboardInputStream_read ::
  "PS2Keyboard \<Rightarrow> u8 list \<Rightarrow> string \<Rightarrow> (u8 \<times> PS2Keyboard \<times> u8 list \<times> string) res" where
  "KeyboardInputStream_read kb irqs out =
     rbind (PS2Keyboard_read kb irqs) (\<lambda>x. case x of (event, kb1, irqs1) \<Rightarrow>
     rbind (if ke_type event \<noteq> kKeyEventPressed then Inr True
            else rbind (aread kKeyToChar (keyCode event)) (\<lambda>c. Inr (c = NUL))) (\<lambda>again.
     if again then KeyboardInputStream_read kb1 irqs1 out
     else rbind (charWithModKeys kb1 (keyCode event)) (\<lambda>c. Inr (of_char c, kb1, irqs1, out @ [c]))))"
  by pat_completeness auto
termination
  by (relation "measure (\<lambda>(kb, irqs, out). waiting kb irqs)") (auto dest: read_waiting)

declare KeyboardInputStream_read.simps [simp del]

section \<open>Invariant and the keys still to be read\<close>

definition kb_inv :: "PS2Keyboard \<Rightarrow> bool" where
  "kb_inv kb \<longleftrightarrow> ring_inv (kb_buffer kb) \<and> rb_capacity (kb_buffer kb) = 128 \<and> length (kb_keysPressed kb) = 256"

definition pending :: "PS2Keyboard \<Rightarrow> u8 list \<Rightarrow> u32 list" where
  "pending kb irqs = ring_list (kb_buffer kb) @ map ucast irqs"

lemma kb_inv_new: "kb_inv PS2Keyboard_new"
  by (simp add: kb_inv_def PS2Keyboard_new_def ring_inv_new, simp add: RingBuffer_new_def)

lemma length_tables [simp]: "length kKeyToChar = 128" "length kKeyToCharShift = 128" "length kScanSet1 = scancodes"
  by (simp_all add: kKeyToChar_def kKeyToCharShift_def kScanSet1_def scancodes_def)

lemma kScanSet1_range: "i < scancodes \<Longrightarrow> kScanSet1 ! i < kKeyCount"
proof -
  have "list_all (\<lambda>k. k < kKeyCount) kScanSet1" by (simp add: kScanSet1_def kKeyCount_def)
  then show "i < scancodes \<Longrightarrow> ?thesis" by (simp add: list_all_length)
qed

lemma decode_range: "keyCode (decode_scancode sc) < kKeyCount"
  using kScanSet1_range by (simp add: decode_scancode_def Let_def kKeyCount_def)

lemma push_ok:
  assumes "kb_inv kb" "RingBuffer_isEmpty (kb_buffer kb)"
  shows "\<exists>kb'. PS2Keyboard_pushScanCode kb sc = Inr kb' \<and> kb_inv kb' \<and> ring_list (kb_buffer kb') = [ucast sc]
    \<and> kb_keysPressed kb' = kb_keysPressed kb"
proof -
  have "ring_inv (kb_buffer kb)" using assms(1) by (simp add: kb_inv_def)
  from RingBuffer_enqueue_ok[OF this, of "ucast sc"] assms obtain b where
    "RingBuffer_enqueue (kb_buffer kb) (ucast sc) = Inr b" "ring_inv b" "rb_capacity b = 128"
    "ring_list b = [ucast sc]" by (auto simp: ring_empty_iff kb_inv_def)
  then show ?thesis using assms(1) by (simp add: PS2Keyboard_pushScanCode_def kb_inv_def)
qed

lemma wait_ok:
  assumes "kb_inv kb"
  shows "if pending kb irqs = [] then PS2Keyboard_wait kb irqs = Inl Hang
    else \<exists>kb' irqs'. PS2Keyboard_wait kb irqs = Inr (kb', irqs') \<and> kb_inv kb' \<and> ring_list (kb_buffer kb') \<noteq> []
      \<and> pending kb' irqs' = pending kb irqs \<and> kb_keysPressed kb' = kb_keysPressed kb"
proof (cases "RingBuffer_isEmpty (kb_buffer kb)")
  case False
  then have "PS2Keyboard_wait kb irqs = Inr (kb, irqs)" by (cases irqs) auto
  then show ?thesis using False assms by (auto simp: pending_def ring_empty_iff)
next
  case True
  show ?thesis
  proof (cases irqs)
    case Nil
    then show ?thesis using True by (simp add: pending_def ring_empty_iff)
  next
    case (Cons irq rest)
    from push_ok[OF assms True, of irq] obtain kb' where kb': "PS2Keyboard_pushScanCode kb irq = Inr kb'" "kb_inv kb'"
      "ring_list (kb_buffer kb') = [ucast irq]" "kb_keysPressed kb' = kb_keysPressed kb" by blast
    then have "PS2Keyboard_wait kb' rest = Inr (kb', rest)" by (cases rest) (auto simp: ring_empty_iff)
    then show ?thesis using True kb' Cons by (auto simp: pending_def ring_empty_iff)
  qed
qed

lemma PS2Keyboard_read_ok:
  assumes "kb_inv kb"
  shows "case pending kb irqs of [] \<Rightarrow> PS2Keyboard_read kb irqs = Inl Hang
    | sc # rest \<Rightarrow> \<exists>kb' irqs'. PS2Keyboard_read kb irqs = Inr (decode_scancode sc, kb', irqs') \<and> kb_inv kb'
      \<and> pending kb' irqs' = rest
      \<and> kb_keysPressed kb' = (kb_keysPressed kb)[keyCode (decode_scancode sc) := ke_type (decode_scancode sc) = kKeyEventPressed]"
proof (cases "pending kb irqs")
  case Nil
  then show ?thesis using wait_ok[OF assms, of irqs] by (simp add: PS2Keyboard_read_def)
next
  case (Cons sc rest)
  from wait_ok[OF assms, of irqs] Cons obtain kb1 irqs1 where w: "PS2Keyboard_wait kb irqs = Inr (kb1, irqs1)" "kb_inv kb1"
    "ring_list (kb_buffer kb1) \<noteq> []" "pending kb1 irqs1 = sc # rest" "kb_keysPressed kb1 = kb_keysPressed kb" by auto
  have inv: "ring_inv (kb_buffer kb1)" using w(2) by (simp add: kb_inv_def)
  from RingBuffer_pop_ok[OF inv w(3), of 0] obtain b where b: "RingBuffer_pop 0 (kb_buffer kb1) = Inr (hd (ring_list (kb_buffer kb1)), b)"
    "ring_inv b" "rb_capacity b = rb_capacity (kb_buffer kb1)" "ring_list b = tl (ring_list (kb_buffer kb1))" by blast
  have sc: "hd (ring_list (kb_buffer kb1)) = sc" "tl (ring_list (kb_buffer kb1)) @ map ucast irqs1 = rest"
    using w(3,4) by (cases "ring_list (kb_buffer kb1)"; simp add: pending_def)+
  let ?e = "decode_scancode sc"
  have "keyCode ?e < length (kb_keysPressed kb1)" using decode_range[of sc] w(2) by (simp add: kb_inv_def kKeyCount_def)
  then show ?thesis using w b sc Cons by (simp add: PS2Keyboard_read_def pending_def kb_inv_def Let_def)
qed

text \<open>The specification: the next character in a list of scan codes, given which keys are down.\<close>

fun next_char :: "bool list \<Rightarrow> u32 list \<Rightarrow> (char \<times> bool list \<times> u32 list) option" where
  "next_char ks [] = None"
| "next_char ks (sc # rest) =
     (let e = decode_scancode sc; down = (ke_type e = kKeyEventPressed); ks1 = ks[keyCode e := down] in
      if down \<and> kKeyToChar ! keyCode e \<noteq> NUL
      then Some ((if ks1 ! kKeyLeftShift \<or> ks1 ! kKeyRightShift then kKeyToCharShift else kKeyToChar) ! keyCode e, ks1, rest)
      else next_char ks1 rest)"

lemma KeyboardInputStream_read_ok:
  assumes "kb_inv kb"
  shows "case next_char (kb_keysPressed kb) (pending kb irqs) of
      None \<Rightarrow> KeyboardInputStream_read kb irqs out = Inl Hang
    | Some (c, ks, rest) \<Rightarrow> \<exists>kb' irqs'. KeyboardInputStream_read kb irqs out = Inr (of_char c, kb', irqs', out @ [c])
        \<and> kb_inv kb' \<and> kb_keysPressed kb' = ks \<and> pending kb' irqs' = rest"
  using assms
proof (induction "pending kb irqs" arbitrary: kb irqs)
  case Nil
  then show ?case using PS2Keyboard_read_ok[OF Nil(2), of irqs] by (simp add: KeyboardInputStream_read.simps flip: Nil(1))
next
  case (Cons sc rest)
  let ?e = "decode_scancode sc"
  from PS2Keyboard_read_ok[OF Cons.prems, of irqs] Cons(2) obtain kb1 irqs1 where r:
    "PS2Keyboard_read kb irqs = Inr (?e, kb1, irqs1)" "kb_inv kb1" "pending kb1 irqs1 = rest"
    "kb_keysPressed kb1 = (kb_keysPressed kb)[keyCode ?e := ke_type ?e = kKeyEventPressed]"
    by (auto split: list.splits)
  have code: "keyCode ?e < 128" using decode_range[of sc] by (simp add: kKeyCount_def)
  have len: "length (kb_keysPressed kb1) = 256" using r(2) by (simp add: kb_inv_def)
  have mods: "charWithModKeys kb1 (keyCode ?e) = Inr ((if kb_keysPressed kb1 ! kKeyLeftShift \<or> kb_keysPressed kb1 ! kKeyRightShift
    then kKeyToCharShift else kKeyToChar) ! keyCode ?e)"
    using code len by (simp add: charWithModKeys_def PS2Keyboard_keyIsPressed_def)
  show ?case
  proof (cases "ke_type ?e = kKeyEventPressed \<and> kKeyToChar ! keyCode ?e \<noteq> NUL")
    case True
    then have "KeyboardInputStream_read kb irqs out = rbind (charWithModKeys kb1 (keyCode ?e))
        (\<lambda>c. Inr (of_char c, kb1, irqs1, out @ [c]))"
      using r(1) code by (simp add: KeyboardInputStream_read.simps[of kb])
    then show ?thesis using True r mods by (simp add: Cons(2)[symmetric] Let_def)
  next
    case False
    then have e: "KeyboardInputStream_read kb irqs out = KeyboardInputStream_read kb1 irqs1 out"
      using r(1) code by (auto simp: KeyboardInputStream_read.simps[of kb])
    have n: "next_char (kb_keysPressed kb) (pending kb irqs) = next_char (kb_keysPressed kb1) (pending kb1 irqs1)"
      using False r(3,4) by (auto simp: Cons(2)[symmetric] Let_def)
    show ?thesis using Cons(1)[OF r(3)[symmetric] r(2)] unfolding n e .
  qed
qed

section \<open>Properties\<close>

text \<open>
  C23. Reading a character from the keyboard stream refines \<open>next_char\<close> on the scan codes that
  are buffered or still to be delivered: it returns and echoes the character of the next
  pressed key that has one, under the shift keys then held, consumes exactly the codes up to
  it, and waits for ever exactly when no such key is left. No table is read out of bounds.
\<close>

theorem KeyboardInputStream_read_refines:
  assumes "kb_inv kb"
  shows "case next_char (kb_keysPressed kb) (pending kb irqs) of
      None \<Rightarrow> KeyboardInputStream_read kb irqs out = Inl Hang
    | Some (c, ks, rest) \<Rightarrow> \<exists>kb' irqs'. KeyboardInputStream_read kb irqs out = Inr (of_char c, kb', irqs', out @ [c])
        \<and> kb_inv kb' \<and> kb_keysPressed kb' = ks \<and> pending kb' irqs' = rest"
  by (rule KeyboardInputStream_read_ok[OF assms])

text \<open>Left shift and the key of the letter a are pressed: the stream reads a capital A.\<close>

theorem KeyboardInputStream_read_refines_witness:
  "\<exists>kb' irqs'. KeyboardInputStream_read PS2Keyboard_new [0x2A, 0x1E, 0x9E] [] = Inr (65, kb', irqs', ''A'')"
proof -
  have d: "decode_scancode 0x2A = \<lparr>ke_type = kKeyEventPressed, keyCode = kKeyLeftShift\<rparr>"
    "decode_scancode 0x1E = \<lparr>ke_type = kKeyEventPressed, keyCode = kKeyA\<rparr>"
    by (simp_all add: decode_scancode_def scancodes_def kScanSet1_def)
  have "\<exists>ks. next_char (kb_keysPressed PS2Keyboard_new) (pending PS2Keyboard_new [0x2A, 0x1E, 0x9E]) = Some (CHR ''A'', ks, [0x9E])"
    by (simp add: pending_def PS2Keyboard_new_def d kKeyToChar_def kKeyToCharShift_def Let_def)
  then show ?thesis using KeyboardInputStream_read_refines[OF kb_inv_new, of "[0x2A, 0x1E, 0x9E]" "[]"] by auto
qed

end
