(* ===== verification/Array_List.thy ===== *)
theory Array_List
  imports Prelude
begin

text \<open>
  Growable arrays: \<open>libsys/include/util/DynamicArray.hpp\<close> with its default resizer, and the
  list built on them, \<open>libsys/include/util/ArrayList.hpp\<close>.

  A \<open>DynamicArray\<close> is the list of the elements of its block, so its capacity is the length
  of the list; \<open>dflt\<close> stands for a default-constructed or uninitialised element. An access
  outside the block is \<open>OutOfBounds\<close>. Element types are plain values, so moving an element
  copies it. The size of an \<open>ArrayList\<close> is a 32-bit word and wraps.

  The locale \<open>sequence\<close> states the part of the \<open>List\<close> concept of
  \<open>libsys/include/util/List.hpp\<close> that the clients in the kernel use.
\<close>

section \<open>Dynamic arrays\<close>

type_synonym 'a DynamicArray = "'a list"

definition DynamicArray_new :: "'a \<Rightarrow> size_t \<Rightarrow> 'a DynamicArray" where
  "DynamicArray_new dflt n = replicate (unat n) dflt"

definition DynamicArray_capacity :: "'a DynamicArray \<Rightarrow> size_t" where
  "DynamicArray_capacity d = of_nat (length d)"

definition nextCapacity :: "'a DynamicArray \<Rightarrow> size_t" where
  "nextCapacity d = DynamicArray_capacity d * 2"

definition Resizer_resize :: "'a \<Rightarrow> 'a list \<Rightarrow> size_t \<Rightarrow> size_t \<Rightarrow> 'a list res" where
  "Resizer_resize dflt old newSize offset =
     (if unat offset + length old \<le> unat newSize
      then Inr (replicate (unat offset) dflt @ old @ replicate (unat newSize - (unat offset + length old)) dflt)
      else Inl OutOfBounds)"

definition DynamicArray_resize :: "'a \<Rightarrow> 'a DynamicArray \<Rightarrow> size_t \<Rightarrow> size_t \<Rightarrow> 'a DynamicArray res" where
  "DynamicArray_resize dflt d newSize offset =
     Resizer_resize dflt d (if newSize = 0 then nextCapacity d else newSize) offset"

text \<open>\<open>_moveRight\<close> and \<open>_moveLeft\<close> with both pointers at the block, as \<open>shift\<close> calls them.\<close>

fun moveRight :: "'a DynamicArray \<Rightarrow> nat \<Rightarrow> nat \<Rightarrow> 'a DynamicArray res" where
  "moveRight d 0 offset = Inr d"
| "moveRight d (Suc idx) offset =
     rbind (aread d idx) (\<lambda>x. rbind (awrite d (idx + offset) x) (\<lambda>d1. moveRight d1 idx offset))"

definition moveLeft :: "'a DynamicArray \<Rightarrow> nat \<Rightarrow> nat \<Rightarrow> 'a DynamicArray res" where
  "moveLeft d amount offset =
     rfor (\<lambda>i d. rbind (aread d i) (\<lambda>x. awrite d (i - offset) x)) offset (amount - offset) d"

definition DynamicArray_shift :: "'a DynamicArray \<Rightarrow> size_t \<Rightarrow> bool \<Rightarrow> 'a DynamicArray res" where
  "DynamicArray_shift d offset shiftLeft =
     (if shiftLeft then moveLeft d (length d) (unat offset) else moveRight d (length d) (unat offset))"

definition DynamicArray_clear :: "'a \<Rightarrow> size_t \<Rightarrow> 'a DynamicArray" where
  "DynamicArray_clear dflt newSize = replicate (unat newSize) dflt"

text \<open>
  Ownership of the block. Where who frees a block matters, an array object is its capacity and
  a block identifier (\<open>None\<close> for \<open>nullptr\<close>), and the heap is the set of live blocks.
\<close>

record DynamicArray_obj =
  da_capacity :: size_t
  da_block :: "nat option"

definition delete_array :: "nat option \<Rightarrow> nat set \<Rightarrow> nat set res" where
  "delete_array p h = (case p of None \<Rightarrow> Inr h | Some b \<Rightarrow> if b \<in> h then Inr (h - {b}) else Inl DoubleFree)"

definition DynamicArray_move_new :: "DynamicArray_obj \<Rightarrow> DynamicArray_obj \<times> DynamicArray_obj" where
  "DynamicArray_move_new other = (other, \<lparr>da_capacity = 0, da_block = None\<rparr>)"

definition DynamicArray_move_assign ::
  "bool \<Rightarrow> nat set \<Rightarrow> DynamicArray_obj \<Rightarrow> DynamicArray_obj \<Rightarrow> (nat set \<times> DynamicArray_obj \<times> DynamicArray_obj) res" where
  "DynamicArray_move_assign same h this other =
     (if same then Inr (h, this, other)
      else rbind (delete_array (da_block this) h) (\<lambda>h1.
           let this1 = this\<lparr>da_capacity := 0\<rparr> in
           Inr (h1, \<lparr>da_capacity = da_capacity other, da_block = da_block other\<rparr>,
                \<lparr>da_capacity = da_capacity this1, da_block = da_block this1\<rparr>)))"

definition DynamicArray_destroy :: "nat set \<Rightarrow> DynamicArray_obj \<Rightarrow> nat set res" where
  "DynamicArray_destroy h d = delete_array (da_block d) h"

section \<open>Array lists\<close>

record 'a ArrayList =
  al_data :: "'a DynamicArray"
  al_size :: size_t

definition ArrayList_new :: "'a \<Rightarrow> size_t \<Rightarrow> 'a ArrayList" where
  "ArrayList_new dflt reserve = \<lparr>al_data = DynamicArray_new dflt reserve, al_size = 0\<rparr>"

definition ArrayList_of_list :: "'a list \<Rightarrow> 'a ArrayList" where
  "ArrayList_of_list il = \<lparr>al_data = il, al_size = of_nat (length il)\<rparr>"

definition ArrayList_capacity :: "'a ArrayList \<Rightarrow> size_t" where
  "ArrayList_capacity a = DynamicArray_capacity (al_data a)"

text \<open>
  Move assignment returns this list and the other after it; \<open>same\<close> says that they are one
  object, in which case the assignment of the arrays does nothing.
\<close>

definition ArrayList_move_assign :: "bool \<Rightarrow> 'a ArrayList \<Rightarrow> 'a ArrayList \<Rightarrow> 'a ArrayList \<times> 'a ArrayList" where
  "ArrayList_move_assign same this other =
     (if \<not> same then (this, other)
      else (this\<lparr>al_size := al_size other\<rparr>, other\<lparr>al_size := al_size this\<rparr>))"

definition ArrayList_reserve :: "'a \<Rightarrow> 'a ArrayList \<Rightarrow> size_t \<Rightarrow> 'a ArrayList res" where
  "ArrayList_reserve dflt a reserve =
     (if reserve > ArrayList_capacity a
      then rbind (DynamicArray_resize dflt (al_data a) reserve 0) (\<lambda>d. Inr (a\<lparr>al_data := d\<rparr>))
      else Inr a)"

definition shiftOrResize :: "'a \<Rightarrow> 'a ArrayList \<Rightarrow> size_t \<Rightarrow> 'a ArrayList res" where
  "shiftOrResize dflt a offset =
     (if al_size a = 0 then Inr a
      else if offset + al_size a > ArrayList_capacity a
      then let minCapacity = ArrayList_capacity a + offset;
               doubleCapacity = ArrayList_capacity a * 2;
               newSize = (if minCapacity < doubleCapacity then doubleCapacity else minCapacity) in
           rbind (DynamicArray_resize dflt (al_data a) newSize offset) (\<lambda>d. Inr (a\<lparr>al_data := d\<rparr>))
      else rbind (DynamicArray_shift (al_data a) offset False) (\<lambda>d. Inr (a\<lparr>al_data := d\<rparr>)))"

definition ArrayList_push :: "'a \<Rightarrow> 'a ArrayList \<Rightarrow> 'a \<Rightarrow> 'a ArrayList res" where
  "ArrayList_push dflt a obj =
     rbind (shiftOrResize dflt a 1) (\<lambda>a1.
     rbind (awrite (al_data a1) 0 obj) (\<lambda>d.
     Inr (a1\<lparr>al_data := d, al_size := al_size a1 + 1\<rparr>)))"

definition ArrayList_enqueue :: "'a \<Rightarrow> 'a ArrayList \<Rightarrow> 'a \<Rightarrow> 'a ArrayList res" where
  "ArrayList_enqueue dflt a obj =
     rbind (if al_size a = ArrayList_capacity a then DynamicArray_resize dflt (al_data a) 0 0 else Inr (al_data a)) (\<lambda>d.
     rbind (awrite d (unat (al_size a)) obj) (\<lambda>d1.
     Inr (a\<lparr>al_data := d1, al_size := al_size a + 1\<rparr>)))"

definition ArrayList_pop :: "'a ArrayList \<Rightarrow> ('a \<times> 'a ArrayList) res" where
  "ArrayList_pop a =
     rbind (aread (al_data a) 0) (\<lambda>ret.
     rbind (DynamicArray_shift (al_data a) 1 True) (\<lambda>d.
     Inr (ret, a\<lparr>al_data := d, al_size := al_size a - 1\<rparr>)))"

definition ArrayList_popBack :: "'a ArrayList \<Rightarrow> ('a \<times> 'a ArrayList) res" where
  "ArrayList_popBack a =
     (let a1 = a\<lparr>al_size := al_size a - 1\<rparr> in
      rbind (aread (al_data a1) (unat (al_size a1))) (\<lambda>x. Inr (x, a1)))"

definition ArrayList_peek :: "'a ArrayList \<Rightarrow> 'a res" where
  "ArrayList_peek a = aread (al_data a) 0"

definition ArrayList_peekBack :: "'a ArrayList \<Rightarrow> 'a res" where
  "ArrayList_peekBack a = aread (al_data a) (unat (al_size a - 1))"

definition ArrayList_isEmpty :: "'a ArrayList \<Rightarrow> bool" where
  "ArrayList_isEmpty a \<longleftrightarrow> al_size a = 0"

definition ArrayList_get :: "'a ArrayList \<Rightarrow> size_t \<Rightarrow> 'a res" where
  "ArrayList_get a idx = aread (al_data a) (unat idx)"

definition ArrayList_set :: "'a ArrayList \<Rightarrow> size_t \<Rightarrow> 'a \<Rightarrow> 'a ArrayList res" where
  "ArrayList_set a idx x = rbind (awrite (al_data a) (unat idx) x) (\<lambda>d. Inr (a\<lparr>al_data := d\<rparr>))"

text \<open>The loop \<open>for (i = _size; i > idx; --i) _data[i] = _data[i-1]\<close>.\<close>

fun slide_right :: "'a list \<Rightarrow> nat \<Rightarrow> nat \<Rightarrow> 'a list res" where
  "slide_right d idx 0 = Inr d"
| "slide_right d idx (Suc i) =
     (if Suc i > idx then rbind (aread d i) (\<lambda>x. rbind (awrite d (Suc i) x) (\<lambda>d1. slide_right d1 idx i)) else Inr d)"

definition ArrayList_insert_at :: "'a \<Rightarrow> 'a ArrayList \<Rightarrow> 'a \<Rightarrow> size_t \<Rightarrow> (bool \<times> 'a ArrayList) res" where
  "ArrayList_insert_at dflt a object idx =
     (if idx = al_size a then rbind (ArrayList_enqueue dflt a object) (\<lambda>a1. Inr (True, a1))
      else if idx = 0 then rbind (ArrayList_push dflt a object) (\<lambda>a1. Inr (True, a1))
      else if idx > al_size a then Inr (False, a)
      else rbind (if al_size a = ArrayList_capacity a then DynamicArray_resize dflt (al_data a) 0 0 else Inr (al_data a)) (\<lambda>d.
           rbind (slide_right d (unat idx) (unat (al_size a))) (\<lambda>d1.
           rbind (awrite d1 (unat idx) object) (\<lambda>d2.
           Inr (True, a\<lparr>al_data := d2, al_size := al_size a + 1\<rparr>)))))"

text \<open>The loop \<open>for (i = idx; i < _size; ++i) _data[i] = _data[i+1]\<close>, also that of strings.\<close>

definition slide_left :: "'a list \<Rightarrow> nat \<Rightarrow> nat \<Rightarrow> 'a list res" where
  "slide_left d idx n = rfor (\<lambda>i d. rbind (aread d (Suc i)) (\<lambda>x. awrite d i x)) idx (n - idx) d"

definition ArrayList_remove_at :: "'a ArrayList \<Rightarrow> size_t \<Rightarrow> (bool \<times> 'a ArrayList) res" where
  "ArrayList_remove_at a idx =
     (if idx \<ge> al_size a then Inr (False, a)
      else rbind (slide_left (al_data a) (unat idx) (unat (al_size a - 1))) (\<lambda>d.
           Inr (True, a\<lparr>al_data := d, al_size := al_size a - 1\<rparr>)))"

text \<open>The first index below \<open>n\<close> from \<open>i\<close> at which the element equals \<open>x\<close>, or \<open>SIZE_MAX\<close>.\<close>

fun index_loop :: "'a list \<Rightarrow> 'a \<Rightarrow> nat \<Rightarrow> nat \<Rightarrow> size_t res" where
  "index_loop d x i 0 = Inr (- 1)"
| "index_loop d x i (Suc k) = rbind (aread d i) (\<lambda>y. if y = x then Inr (of_nat i) else index_loop d x (Suc i) k)"

definition ArrayList_remove :: "'a ArrayList \<Rightarrow> 'a \<Rightarrow> (bool \<times> 'a ArrayList) res" where
  "ArrayList_remove a object =
     rbind (index_loop (al_data a) object 0 (unat (al_size a))) (\<lambda>removalIdx. ArrayList_remove_at a removalIdx)"

definition ArrayList_clear :: "'a \<Rightarrow> 'a ArrayList \<Rightarrow> 'a ArrayList" where
  "ArrayList_clear dflt a = a\<lparr>al_data := DynamicArray_clear dflt 8, al_size := 0\<rparr>"

section \<open>Loops over the block\<close>

lemma slide_right_ok:
  "idx \<le> n \<Longrightarrow> n < length d \<Longrightarrow>
   slide_right d idx n = Inr (take idx d @ d ! idx # take (n - idx) (drop idx d) @ drop (Suc n) d)"
proof (induction n arbitrary: d)
  case 0
  then show ?case by (simp add: Cons_nth_drop_Suc)
next
  case (Suc n)
  show ?case
  proof (cases "idx = Suc n")
    case True
    then show ?thesis using Suc.prems by (simp add: id_take_nth_drop[symmetric])
  next
    case False
    then have le: "idx \<le> n" using Suc.prems by simp
    let ?d = "d[Suc n := d ! n]"
    have "slide_right d idx (Suc n) = slide_right ?d idx n" using Suc.prems le by simp
    also have "\<dots> = Inr (take idx ?d @ ?d ! idx # take (n - idx) (drop idx ?d) @ drop (Suc n) ?d)"
      using Suc.IH[of ?d] Suc.prems le by simp
    also have "take idx ?d @ ?d ! idx # take (n - idx) (drop idx ?d) @ drop (Suc n) ?d
        = take idx d @ d ! idx # take (Suc n - idx) (drop idx d) @ drop (Suc (Suc n)) d"
    proof -
      have "take (n - idx) (drop idx ?d) = take (n - idx) (drop idx d)" using le by (simp add: drop_update_swap)
      moreover have "drop (Suc n) ?d = d ! n # drop (Suc (Suc n)) d"
        using Suc.prems by (simp add: Cons_nth_drop_Suc[symmetric] drop_update_swap)
      moreover have "take (Suc n - idx) (drop idx d) = take (n - idx) (drop idx d) @ [d ! n]"
        using Suc.prems le by (simp add: Suc_diff_le take_Suc_conv_app_nth)
      ultimately show ?thesis using le by simp
    qed
    finally show ?thesis .
  qed
qed

lemma slide_left_loop:
  "i + k < length d \<Longrightarrow>
   rfor (\<lambda>i d. rbind (aread d (Suc i)) (\<lambda>x. awrite d i x)) i k d = Inr (take i d @ take k (drop (Suc i) d) @ drop (i + k) d)"
proof (induction k arbitrary: i d)
  case 0
  then show ?case by simp
next
  case (Suc k)
  let ?d = "d[i := d ! Suc i]"
  have "take (Suc i) ?d @ take k (drop (Suc (Suc i)) ?d) @ drop (Suc i + k) ?d
      = take i d @ take (Suc k) (drop (Suc i) d) @ drop (i + Suc k) d"
    using Suc.prems by (simp add: take_Suc_conv_app_nth Cons_nth_drop_Suc[symmetric] del: drop_drop)
  then show ?case using Suc.IH[of "Suc i" ?d] Suc.prems by simp
qed

lemma slide_left_ok:
  "idx \<le> n \<Longrightarrow> n < length d \<Longrightarrow> slide_left d idx n = Inr (take idx d @ take (n - idx) (drop (Suc idx) d) @ drop n d)"
  by (simp add: slide_left_def slide_left_loop)

lemma moveLeft_loop:
  "Suc i + k \<le> length d \<Longrightarrow>
   rfor (\<lambda>i d. rbind (aread d i) (\<lambda>x. awrite d (i - 1) x)) (Suc i) k d = Inr (take i d @ take k (drop (Suc i) d) @ drop (i + k) d)"
proof (induction k arbitrary: i d)
  case 0
  then show ?case by simp
next
  case (Suc k)
  let ?d = "d[i := d ! Suc i]"
  have "take (Suc i) ?d @ take k (drop (Suc (Suc i)) ?d) @ drop (Suc i + k) ?d
      = take i d @ take (Suc k) (drop (Suc i) d) @ drop (i + Suc k) d"
    using Suc.prems by (simp add: take_Suc_conv_app_nth Cons_nth_drop_Suc[symmetric] del: drop_drop)
  then show ?case using Suc.IH[of "Suc i" ?d] Suc.prems by simp
qed

lemma shift_left_one: "d \<noteq> [] \<Longrightarrow> DynamicArray_shift d 1 True = Inr (tl d @ [last d])"
proof -
  assume "d \<noteq> []"
  then obtain n where n: "length d = Suc n" by (cases d) auto
  then have "moveLeft d (length d) 1 = Inr (take n (drop 1 d) @ drop n d)"
    using moveLeft_loop[of 0 n d] by (simp add: moveLeft_def)
  moreover have "drop n d = [last d]" using n \<open>d \<noteq> []\<close>
    by (metis Cons_nth_drop_Suc diff_Suc_1 drop_all last_conv_nth lessI order_refl)
  ultimately show ?thesis using n by (simp add: DynamicArray_shift_def drop_Suc)
qed

text \<open>Shifting a block right by a positive offset writes past its end at once.\<close>

lemma shift_right_faults: "d \<noteq> [] \<Longrightarrow> 0 < offset \<Longrightarrow> DynamicArray_shift d offset False = Inl OutOfBounds"
  by (cases "length d") (auto simp: DynamicArray_shift_def word_less_nat_alt)

section \<open>Invariant and contents\<close>

definition al_inv :: "'a ArrayList \<Rightarrow> bool" where
  "al_inv a \<longleftrightarrow> al_data a \<noteq> [] \<and> length (al_data a) < 2 ^ 32 \<and> unat (al_size a) \<le> length (al_data a)"

definition al_elems :: "'a ArrayList \<Rightarrow> 'a list" where
  "al_elems a = take (unat (al_size a)) (al_data a)"

text \<open>There is room to grow: doubling the block does not wrap the 32-bit size.\<close>

definition al_room :: "'a ArrayList \<Rightarrow> bool" where
  "al_room a \<longleftrightarrow> 2 * length (al_data a) < 2 ^ 32"

lemma al_length [simp]: "al_inv a \<Longrightarrow> length (al_elems a) = unat (al_size a)"
  by (simp add: al_elems_def al_inv_def min_def)

lemma al_full_iff: "al_inv a \<Longrightarrow> al_size a = ArrayList_capacity a \<longleftrightarrow> unat (al_size a) = length (al_data a)"
  by (simp add: ArrayList_capacity_def DynamicArray_capacity_def al_inv_def word32_eq_iff_unat)

lemma al_new: "0 < n \<Longrightarrow> al_inv (ArrayList_new dflt n) \<and> al_elems (ArrayList_new dflt n) = []"
  by (simp add: al_inv_def al_elems_def ArrayList_new_def DynamicArray_new_def word_less_nat_alt)

lemma nextCapacity_ok: "al_room a \<Longrightarrow> unat (nextCapacity (al_data a)) = 2 * length (al_data a)"
  by (simp add: nextCapacity_def DynamicArray_capacity_def al_room_def unat_word_ariths)

text \<open>The block after making room for one more element.\<close>

lemma grow_ok:
  assumes "al_inv a" "al_room a"
  shows "\<exists>d. (if al_size a = ArrayList_capacity a then DynamicArray_resize dflt (al_data a) 0 0 else Inr (al_data a)) = Inr d
    \<and> unat (al_size a) < length d \<and> length d < 2 ^ 32 \<and> take (unat (al_size a)) d = al_elems a"
proof (cases "al_size a = ArrayList_capacity a")
  case True
  then have "unat (al_size a) = length (al_data a)" using al_full_iff[OF assms(1)] by simp
  then show ?thesis using True nextCapacity_ok[OF assms(2)] assms
    by (auto simp: DynamicArray_resize_def Resizer_resize_def al_inv_def al_room_def al_elems_def)
next
  case False
  then have "unat (al_size a) \<noteq> length (al_data a)" using al_full_iff[OF assms(1)] by simp
  then show ?thesis using False assms(1) by (simp add: al_inv_def al_elems_def)
qed

lemma al_size_inc: "unat (al_size a) < n \<Longrightarrow> n < 2 ^ 32 \<Longrightarrow> unat (al_size a + 1) = Suc (unat (al_size a))"
  by (subst unat_plus_small) simp_all

lemma ArrayList_enqueue_ok:
  assumes "al_inv a" "al_room a"
  shows "\<exists>a'. ArrayList_enqueue dflt a x = Inr a' \<and> al_inv a' \<and> al_elems a' = al_elems a @ [x]"
proof -
  from grow_ok[OF assms, of dflt] obtain d where d:
    "(if al_size a = ArrayList_capacity a then DynamicArray_resize dflt (al_data a) 0 0 else Inr (al_data a)) = Inr d"
    "unat (al_size a) < length d" "length d < 2 ^ 32" "take (unat (al_size a)) d = al_elems a" by blast
  let ?a = "a\<lparr>al_data := d[unat (al_size a) := x], al_size := al_size a + 1\<rparr>"
  have e: "ArrayList_enqueue dflt a x = Inr ?a" using d(1,2) by (simp add: ArrayList_enqueue_def)
  have s: "unat (al_size a + 1) = Suc (unat (al_size a))" using al_size_inc d by blast
  have "al_elems ?a = al_elems a @ [x]" using d s by (simp add: al_elems_def take_Suc_conv_app_nth)
  moreover have "al_inv ?a" using d s by (auto simp: al_inv_def)
  ultimately show ?thesis using e by blast
qed

text \<open>The block grows only when it is full, and then to twice its length.\<close>

lemma ArrayList_enqueue_ok':
  assumes "al_inv a" "al_room a"
  shows "\<exists>a'. ArrayList_enqueue dflt a x = Inr a' \<and> al_inv a' \<and> al_elems a' = al_elems a @ [x]
    \<and> length (al_data a') \<le> max (length (al_data a)) (2 * length (al_elems a))"
proof -
  from ArrayList_enqueue_ok[OF assms, of dflt x] obtain a' where a': "ArrayList_enqueue dflt a x = Inr a'" "al_inv a'"
    "al_elems a' = al_elems a @ [x]" by blast
  have "length (al_data a') \<le> max (length (al_data a)) (2 * length (al_elems a))"
    using a'(1) nextCapacity_ok[OF assms(2)] al_full_iff[OF assms(1)] assms(1)
    by (auto simp: ArrayList_enqueue_def DynamicArray_resize_def Resizer_resize_def awrite_Inr_iff split: if_splits)
  then show ?thesis using a' by blast
qed

lemma ArrayList_insert_at_ok:
  assumes "al_inv a" "al_room a" "0 < idx" "unat idx \<le> length (al_elems a)"
  shows "\<exists>a'. ArrayList_insert_at dflt a x idx = Inr (True, a') \<and> al_inv a'
    \<and> al_elems a' = take (unat idx) (al_elems a) @ x # drop (unat idx) (al_elems a)"
proof (cases "idx = al_size a")
  case True
  then show ?thesis using ArrayList_enqueue_ok[OF assms(1,2), of dflt x] assms(1)
    by (auto simp: ArrayList_insert_at_def)
next
  case False
  let ?n = "unat (al_size a)" and ?i = "unat idx"
  have nz: "idx \<noteq> 0" using assms(3) by auto
  have "?i \<noteq> ?n" using False by (simp add: word32_eq_iff_unat)
  then have i: "?i < ?n" "\<not> idx > al_size a" using assms(1,4) by (simp_all add: word_less_nat_alt)
  from grow_ok[OF assms(1,2), of dflt] obtain d where d:
    "(if al_size a = ArrayList_capacity a then DynamicArray_resize dflt (al_data a) 0 0 else Inr (al_data a)) = Inr d"
    "?n < length d" "length d < 2 ^ 32" "take ?n d = al_elems a" by blast
  let ?d1 = "take ?i d @ d ! ?i # take (?n - ?i) (drop ?i d) @ drop (Suc ?n) d"
  let ?a = "a\<lparr>al_data := ?d1[?i := x], al_size := al_size a + 1\<rparr>"
  have sl: "slide_right d ?i ?n = Inr ?d1" using slide_right_ok[of ?i ?n d] i d by simp
  have len: "length ?d1 = length d" using i d by simp
  have e: "ArrayList_insert_at dflt a x idx = Inr (True, ?a)"
    using False i nz d(1,2) sl len unfolding ArrayList_insert_at_def by simp
  have s: "unat (al_size a + 1) = Suc ?n" using al_size_inc d by blast
  have "?d1[?i := x] = take ?i d @ x # take (?n - ?i) (drop ?i d) @ drop (Suc ?n) d"
    using i d(2) by (simp add: list_update_append)
  then have "al_elems ?a = take ?i d @ x # take (?n - ?i) (drop ?i d)"
    using i d(2) s by (simp add: al_elems_def Suc_diff_le)
  also have "\<dots> = take ?i (take ?n d) @ x # drop ?i (take ?n d)" using i by (simp add: drop_take)
  finally have "al_elems ?a = take ?i (al_elems a) @ x # drop ?i (al_elems a)" by (simp only: d(4))
  moreover have "al_inv ?a" using d s len by (auto simp: al_inv_def)
  ultimately show ?thesis using e by blast
qed

lemma ArrayList_pop_ok:
  assumes "al_inv a" "al_elems a \<noteq> []"
  shows "\<exists>a'. ArrayList_pop a = Inr (hd (al_elems a), a') \<and> al_inv a' \<and> al_elems a' = tl (al_elems a)"
proof -
  obtain y ys where d: "al_data a = y # ys" using assms(1) by (cases "al_data a") (auto simp: al_inv_def)
  have nz: "al_size a \<noteq> 0" using assms(2) by (auto simp: al_elems_def)
  then have s: "unat (al_size a) = Suc (unat (al_size a - 1))" by (simp add: unat_minus_one unat_gt_0)
  let ?a = "a\<lparr>al_data := ys @ [last (y # ys)], al_size := al_size a - 1\<rparr>"
  have "ArrayList_pop a = Inr (y, ?a)" using shift_left_one[of "al_data a"] by (simp add: ArrayList_pop_def d)
  moreover have "al_inv ?a" using assms(1) s by (auto simp: al_inv_def d)
  moreover have "al_elems ?a = tl (al_elems a)" using assms(1) s by (simp add: al_elems_def al_inv_def d)
  moreover have "hd (al_elems a) = y" using s by (simp add: al_elems_def d)
  ultimately show ?thesis by simp
qed

lemma ArrayList_popBack_ok:
  assumes "al_inv a" "al_elems a \<noteq> []"
  shows "\<exists>a'. ArrayList_popBack a = Inr (last (al_elems a), a') \<and> al_inv a' \<and> al_elems a' = butlast (al_elems a)"
proof -
  have nz: "al_size a \<noteq> 0" using assms(2) by (auto simp: al_elems_def)
  then have s: "unat (al_size a) = Suc (unat (al_size a - 1))" by (simp add: unat_minus_one unat_gt_0)
  have lt: "unat (al_size a - 1) < length (al_data a)" using assms(1) s by (simp add: al_inv_def)
  have "al_elems a = take (unat (al_size a - 1)) (al_data a) @ [al_data a ! unat (al_size a - 1)]"
    unfolding al_elems_def s using lt by (simp add: take_Suc_conv_app_nth)
  then show ?thesis using lt assms(1) by (simp add: ArrayList_popBack_def al_inv_def al_elems_def)
qed

lemma ArrayList_remove_at_ok:
  assumes "al_inv a" "unat idx < length (al_elems a)"
  shows "\<exists>a'. ArrayList_remove_at a idx = Inr (True, a') \<and> al_inv a'
    \<and> al_elems a' = take (unat idx) (al_elems a) @ drop (Suc (unat idx)) (al_elems a)"
proof -
  let ?i = "unat idx" and ?n = "unat (al_size a - 1)" and ?d = "al_data a"
  have i: "?i < unat (al_size a)" "\<not> idx \<ge> al_size a" using assms by (auto simp: word_le_nat_alt)
  then have "al_size a \<noteq> 0" by auto
  then have s: "unat (al_size a) = Suc ?n" by (simp add: unat_minus_one unat_gt_0)
  have lt: "?n < length ?d" "?i \<le> ?n" using assms(1) s i by (simp_all add: al_inv_def)
  let ?d1 = "take ?i ?d @ take (?n - ?i) (drop (Suc ?i) ?d) @ drop ?n ?d"
  let ?a = "a\<lparr>al_data := ?d1, al_size := al_size a - 1\<rparr>"
  have "ArrayList_remove_at a idx = Inr (True, ?a)"
    using i slide_left_ok[OF lt(2,1)] by (simp add: ArrayList_remove_at_def)
  moreover have "al_inv ?a" using assms(1) lt by (auto simp: al_inv_def)
  moreover have "al_elems ?a = take ?i (al_elems a) @ drop (Suc ?i) (al_elems a)"
    using lt s by (simp add: al_elems_def min_def take_drop add.commute)
  ultimately show ?thesis by blast
qed

lemma ArrayList_get_ok: "al_inv a \<Longrightarrow> unat idx < length (al_elems a) \<Longrightarrow> ArrayList_get a idx = Inr (al_elems a ! unat idx)"
  by (simp add: ArrayList_get_def al_inv_def al_elems_def)

section \<open>The interface\<close>

text \<open>
  A list that grows at the back and shrinks anywhere. \<open>room\<close> says that one more element fits.
\<close>

locale sequence =
  fixes linv :: "'l \<Rightarrow> bool" and elems :: "'l \<Rightarrow> 'a list" and room :: "'l \<Rightarrow> bool"
    and add :: "'l \<Rightarrow> 'a \<Rightarrow> 'l res" and pop :: "'l \<Rightarrow> ('a \<times> 'l) res" and popb :: "'l \<Rightarrow> ('a \<times> 'l) res"
  assumes add_ok: "linv l \<Longrightarrow> room l \<Longrightarrow> \<exists>l'. add l x = Inr l' \<and> linv l' \<and> elems l' = elems l @ [x]"
    and pop_ok: "linv l \<Longrightarrow> elems l \<noteq> [] \<Longrightarrow> \<exists>l'. pop l = Inr (hd (elems l), l') \<and> linv l' \<and> elems l' = tl (elems l)"
    and popb_ok: "linv l \<Longrightarrow> elems l \<noteq> [] \<Longrightarrow>
      \<exists>l'. popb l = Inr (last (elems l), l') \<and> linv l' \<and> elems l' = butlast (elems l)"
begin

lemma add_popb: "linv l \<Longrightarrow> room l \<Longrightarrow> \<exists>l1 l2. add l x = Inr l1 \<and> popb l1 = Inr (x, l2) \<and> linv l2 \<and> elems l2 = elems l"
proof -
  assume "linv l" "room l"
  from add_ok[OF this, of x] obtain l1 where l1: "add l x = Inr l1" "linv l1" "elems l1 = elems l @ [x]" by blast
  then show ?thesis using popb_ok[OF l1(2)] by auto
qed

lemma add_pop: "linv l \<Longrightarrow> room l \<Longrightarrow>
  \<exists>l1 l2. add l x = Inr l1 \<and> pop l1 = Inr (hd (elems l @ [x]), l2) \<and> linv l2 \<and> elems l2 = tl (elems l @ [x])"
proof -
  assume "linv l" "room l"
  from add_ok[OF this, of x] obtain l1 where l1: "add l x = Inr l1" "linv l1" "elems l1 = elems l @ [x]" by blast
  then show ?thesis using pop_ok[OF l1(2)] by auto
qed

end

interpretation al: sequence al_inv al_elems al_room "ArrayList_enqueue dflt" ArrayList_pop ArrayList_popBack for dflt :: 'a
  by unfold_locales (rule ArrayList_enqueue_ok ArrayList_pop_ok ArrayList_popBack_ok; assumption)+

section \<open>Properties\<close>

text \<open>
  Inserting at a position other than the first and removing there again restores the
  elements of an \<open>ArrayList\<close>, through the growth of the block when it is full; in between,
  the inserted element is found at that position and the others keep their order.
\<close>

theorem ArrayList_insert_remove:
  assumes "al_inv a" "al_room a" "0 < idx" "unat idx \<le> length (al_elems a)"
  shows "\<exists>a1 a2. ArrayList_insert_at dflt a x idx = Inr (True, a1) \<and> al_inv a1
    \<and> al_elems a1 = take (unat idx) (al_elems a) @ x # drop (unat idx) (al_elems a)
    \<and> ArrayList_get a1 idx = Inr x
    \<and> ArrayList_remove_at a1 idx = Inr (True, a2) \<and> al_inv a2 \<and> al_elems a2 = al_elems a"
proof -
  from ArrayList_insert_at_ok[OF assms, of dflt x] obtain a1 where a1: "ArrayList_insert_at dflt a x idx = Inr (True, a1)"
    "al_inv a1" "al_elems a1 = take (unat idx) (al_elems a) @ x # drop (unat idx) (al_elems a)" by blast
  have lt: "unat idx < length (al_elems a1)" using a1(3) assms(4) by simp
  have "ArrayList_get a1 idx = Inr x" using ArrayList_get_ok[OF a1(2) lt] a1(3) assms(4) by (simp add: nth_append)
  moreover have "take (unat idx) (al_elems a1) @ drop (Suc (unat idx)) (al_elems a1) = al_elems a"
    using a1(3) assms(4) by simp
  ultimately show ?thesis using a1 ArrayList_remove_at_ok[OF a1(2) lt] by metis
qed

lemma al_of_list: "xs \<noteq> [] \<Longrightarrow> length xs < 2 ^ 31 \<Longrightarrow>
  al_inv (ArrayList_of_list xs) \<and> al_room (ArrayList_of_list xs) \<and> al_elems (ArrayList_of_list xs) = xs"
  by (simp add: al_inv_def al_room_def al_elems_def ArrayList_of_list_def)

theorem ArrayList_insert_remove_witness:
  "\<exists>a1. ArrayList_insert_at 0 (ArrayList_of_list [1, 2 :: nat]) 9 1 = Inr (True, a1) \<and> al_elems a1 = [1, 9, 2]"
proof -
  let ?a = "ArrayList_of_list [1, 2 :: nat]"
  have e: "al_inv ?a" "al_room ?a" "al_elems ?a = [1, 2]" using al_of_list[of "[1, 2 :: nat]"] by simp_all
  have "unat (1 :: size_t) \<le> length (al_elems ?a)" unfolding e(3) by simp
  from ArrayList_insert_remove[OF e(1,2) _ this, of 0 9] show ?thesis unfolding e(3) by auto
qed

text \<open>
  Pushing at the front of a list that has elements and a spare slot writes past the end
  of its block: the shift moves as many elements as the block has, not as many as the list has.
\<close>

theorem ArrayList_push_out_of_bounds:
  assumes "al_inv a" "al_elems a \<noteq> []" "length (al_elems a) < length (al_data a)"
  shows "ArrayList_push dflt a x = Inl OutOfBounds"
proof -
  have nz: "al_size a \<noteq> 0" using assms(2) by (auto simp: al_elems_def)
  have lt: "unat (al_size a) < length (al_data a)" "length (al_data a) < 4294967296"
    using assms(1,3) by (simp_all add: al_inv_def)
  then have "unat (1 + al_size a) = Suc (unat (al_size a))" by (subst unat_plus_small) simp_all
  then have "\<not> 1 + al_size a > ArrayList_capacity a"
    using lt by (simp add: word_less_nat_alt ArrayList_capacity_def DynamicArray_capacity_def)
  moreover have "al_data a \<noteq> []" using assms(1) by (simp add: al_inv_def)
  ultimately show ?thesis using nz shift_right_faults[of "al_data a" 1]
    by (simp add: ArrayList_push_def shiftOrResize_def)
qed

theorem ArrayList_push_out_of_bounds_witness:
  "ArrayList_push 0 \<lparr>al_data = [5, 0, 0, 0, 0, 0, 0, 0 :: nat], al_size = 1\<rparr> 4 = Inl OutOfBounds"
  by (rule ArrayList_push_out_of_bounds) (simp_all add: al_inv_def al_elems_def)

text \<open>
  Move assignment of a dynamic array that owns a block leaves the freed block in the
  source, so destroying the source frees it a second time.
\<close>

theorem DynamicArray_move_assign_double_free:
  assumes "da_block this = Some b" "b \<in> h"
  shows "\<exists>h1 this1 other1. DynamicArray_move_assign False h this other = Inr (h1, this1, other1)
    \<and> da_block this1 = da_block other \<and> DynamicArray_destroy h1 other1 = Inl DoubleFree"
  using assms by (simp add: DynamicArray_move_assign_def DynamicArray_destroy_def delete_array_def)

theorem DynamicArray_move_assign_double_free_witness:
  "\<exists>h1 this1 other1. DynamicArray_move_assign False {1, 2} \<lparr>da_capacity = 9, da_block = Some 1\<rparr>
      \<lparr>da_capacity = 9, da_block = Some 2\<rparr> = Inr (h1, this1, other1) \<and> DynamicArray_destroy h1 other1 = Inl DoubleFree"
  using DynamicArray_move_assign_double_free[of "\<lparr>da_capacity = 9, da_block = Some 1\<rparr>" 1 "{1, 2}"
    "\<lparr>da_capacity = 9, da_block = Some 2\<rparr>"] by auto

end
