(* ===== verification/Strings.thy ===== *)
theory Strings
  imports Array_List
begin

text \<open>
  Strings: \<open>libsys/include/util/BasicString.hpp\<close>, \<open>libsys/include/util/StringView.hpp\<close>,
  \<open>libsys/include/util/String.hpp\<close> and the C string routines they call, from
  \<open>libc/include/bits/string-inl.h\<close>.

  Characters are bytes. A pointer into a character array is the list of the bytes from the
  pointer to the end of the array, so reading past the array is \<open>OutOfBounds\<close>; \<open>None\<close> stands
  for \<open>nullptr\<close>. \<open>g\<close> is the value of the bytes that an allocation leaves uninitialised.
\<close>

section \<open>C string routines\<close>

fun cstrlen :: "u8 list \<Rightarrow> size_t res" where
  "cstrlen [] = Inl OutOfBounds"
| "cstrlen (c # cs) = (if c = 0 then Inr 0 else rbind (cstrlen cs) (\<lambda>n. Inr (n + 1)))"

text \<open>\<open>strncpy\<close> from index \<open>i\<close> on: it stops after copying a terminator.\<close>

fun strncpy_loop :: "u8 list \<Rightarrow> u8 list \<Rightarrow> nat \<Rightarrow> nat \<Rightarrow> u8 list res" where
  "strncpy_loop dst src i 0 = Inr dst"
| "strncpy_loop dst src i (Suc num) =
     rbind (aread src i) (\<lambda>c. rbind (awrite dst i c) (\<lambda>d.
     if c = 0 then Inr d else strncpy_loop d src (Suc i) num))"

text \<open>\<open>strncmp\<close>: the pointers advance past a pair of characters before the loop stops on it.\<close>

fun strncmp_loop :: "nat \<Rightarrow> u8 list \<Rightarrow> u8 list \<Rightarrow> (u8 list \<times> u8 list) res" where
  "strncmp_loop 0 str1 str2 = Inr (str1, str2)"
| "strncmp_loop (Suc num) str1 str2 =
     rbind (aread str1 0) (\<lambda>a. if a = 0 then Inr (str1, str2) else
     rbind (aread str2 0) (\<lambda>b. if b = 0 then Inr (str1, str2) else
     if a = b then strncmp_loop num (tl str1) (tl str2) else Inr (tl str1, tl str2)))"

definition strncmp :: "u8 list \<Rightarrow> u8 list \<Rightarrow> size_t \<Rightarrow> int res" where
  "strncmp str1 str2 num =
     rbind (strncmp_loop (unat num) str1 str2) (\<lambda>(p, q).
     rbind (aread p 0) (\<lambda>a. rbind (aread q 0) (\<lambda>b. Inr (sint a - sint b))))"

text \<open>\<open>strcmp\<close>, on the bytes from each pointer on.\<close>

fun strcmp :: "u8 list \<Rightarrow> u8 list \<Rightarrow> int res" where
  "strcmp (a # as) (b # bs) = (if a \<noteq> 0 \<and> b \<noteq> 0 \<and> a = b then strcmp as bs else Inr (sint a - sint b))"
| "strcmp _ _ = Inl OutOfBounds"

section \<open>Strings\<close>

record BasicString =
  bs_data :: "u8 DynamicArray"
  bs_size :: size_t

definition BasicString_reserve :: "size_t \<Rightarrow> BasicString" where
  "BasicString_reserve reserve = \<lparr>bs_data = replicate (unat (reserve + 1)) 0, bs_size = 0\<rparr>"

definition BasicString_new :: BasicString where
  "BasicString_new = BasicString_reserve 8"

definition BasicString_of_len :: "u8 \<Rightarrow> u8 list \<Rightarrow> size_t \<Rightarrow> BasicString res" where
  "BasicString_of_len g str len =
     (let d = DynamicArray_new g (len + 1) in
      rbind (if len > 0 then strncpy_loop d str 0 (unat len) else Inr d) (\<lambda>d1.
      rbind (awrite d1 (unat len) 0) (\<lambda>d2.
      Inr \<lparr>bs_data = d2, bs_size = len\<rparr>)))"

definition BasicString_of_cstr :: "u8 \<Rightarrow> u8 list \<Rightarrow> BasicString res" where
  "BasicString_of_cstr g str = rbind (cstrlen str) (BasicString_of_len g str)"

definition BasicString_copy :: "u8 \<Rightarrow> BasicString \<Rightarrow> BasicString res" where
  "BasicString_copy g other = BasicString_of_len g (bs_data other) (bs_size other)"

definition BasicString_capacity :: "BasicString \<Rightarrow> size_t" where
  "BasicString_capacity s = DynamicArray_capacity (bs_data s)"

definition BasicString_isEmpty :: "BasicString \<Rightarrow> bool" where
  "BasicString_isEmpty s \<longleftrightarrow> bs_size s = 0"

definition BasicString_insert :: "u8 \<Rightarrow> BasicString \<Rightarrow> u8 \<Rightarrow> BasicString res" where
  "BasicString_insert g s object =
     rbind (if bs_size s = BasicString_capacity s then DynamicArray_resize g (bs_data s) 0 0 else Inr (bs_data s)) (\<lambda>d.
     rbind (awrite d (unat (bs_size s)) object) (\<lambda>d1.
     rbind (awrite d1 (unat (bs_size s + 1)) 0) (\<lambda>d2.
     Inr (s\<lparr>bs_data := d2, bs_size := bs_size s + 1\<rparr>))))"

definition BasicString_remove_at :: "BasicString \<Rightarrow> size_t \<Rightarrow> (bool \<times> BasicString) res" where
  "BasicString_remove_at s idx =
     (if idx \<ge> bs_size s then Inr (False, s)
      else rbind (slide_left (bs_data s) (unat idx) (unat (bs_size s - 1))) (\<lambda>d.
           rbind (awrite d (unat (bs_size s - 1)) 0) (\<lambda>d1.
           Inr (True, s\<lparr>bs_data := d1, bs_size := bs_size s - 1\<rparr>))))"

definition BasicString_remove :: "BasicString \<Rightarrow> u8 \<Rightarrow> (bool \<times> BasicString) res" where
  "BasicString_remove s object =
     rbind (index_loop (bs_data s) object 0 (unat (bs_size s))) (BasicString_remove_at s)"

definition BasicString_clear :: "BasicString \<Rightarrow> BasicString res" where
  "BasicString_clear s = rbind (awrite (bs_data s) 0 0) (\<lambda>d. Inr (s\<lparr>bs_data := d, bs_size := 0\<rparr>))"

definition BasicString_append_n :: "u8 \<Rightarrow> BasicString \<Rightarrow> u8 list \<Rightarrow> size_t \<Rightarrow> BasicString res" where
  "BasicString_append_n g s str n =
     (let requiredSize = bs_size s + n + 1 in
      rbind (if requiredSize > BasicString_capacity s
             then let newSize = (if requiredSize > BasicString_capacity s * 2 then requiredSize else 0) in
                  DynamicArray_resize g (bs_data s) newSize 0
             else Inr (bs_data s)) (\<lambda>d.
      rbind (rfor (\<lambda>i d. rbind (aread str i) (awrite d (unat (bs_size s) + i))) 0 (unat n) d) (\<lambda>d1.
      rbind (awrite d1 (unat (bs_size s + n)) 0) (\<lambda>d2.
      Inr (s\<lparr>bs_data := d2, bs_size := bs_size s + n\<rparr>)))))"

definition BasicString_append_cstr :: "u8 \<Rightarrow> BasicString \<Rightarrow> u8 list \<Rightarrow> BasicString res" where
  "BasicString_append_cstr g s str = rbind (cstrlen str) (BasicString_append_n g s str)"

definition BasicString_append :: "u8 \<Rightarrow> BasicString \<Rightarrow> BasicString \<Rightarrow> BasicString res" where
  "BasicString_append g s rhs = BasicString_append_n g s (bs_data rhs) (bs_size rhs)"

text \<open>Appending a range, one character at a time; the list is what the iterators yield.\<close>

fun append_range_loop :: "u8 \<Rightarrow> BasicString \<Rightarrow> u8 list \<Rightarrow> BasicString res" where
  "append_range_loop g s [] = Inr s"
| "append_range_loop g s (c # cs) =
     rbind (if bs_size s = BasicString_capacity s then DynamicArray_resize g (bs_data s) 0 0 else Inr (bs_data s)) (\<lambda>d.
     rbind (awrite d (unat (bs_size s)) c) (\<lambda>d1.
     append_range_loop g (s\<lparr>bs_data := d1, bs_size := bs_size s + 1\<rparr>) cs))"

definition BasicString_append_range :: "u8 \<Rightarrow> BasicString \<Rightarrow> u8 list \<Rightarrow> BasicString res" where
  "BasicString_append_range g s cs =
     rbind (append_range_loop g s cs) (\<lambda>s1.
     rbind (awrite (bs_data s1) (unat (bs_size s1)) 0) (\<lambda>d. Inr (s1\<lparr>bs_data := d\<rparr>)))"

text \<open>Copy assignment; assigning a string to itself appends it after its size became zero.\<close>

definition BasicString_assign :: "u8 \<Rightarrow> bool \<Rightarrow> BasicString \<Rightarrow> BasicString \<Rightarrow> BasicString res" where
  "BasicString_assign g same s rhs =
     (let s0 = s\<lparr>bs_size := 0\<rparr> in BasicString_append g s0 (if same then s0 else rhs))"

definition BasicString_substring :: "u8 \<Rightarrow> BasicString \<Rightarrow> size_t \<Rightarrow> size_t \<Rightarrow> BasicString res" where
  "BasicString_substring g s start len =
     (let start1 = (if start > bs_size s then bs_size s else start);
          len1 = (if len > bs_size s - start1 then bs_size s - start1 else len) in
      if len1 = 0 then Inr BasicString_new
      else BasicString_of_len g (drop (unat start1) (bs_data s)) len1)"

definition BasicString_get :: "BasicString \<Rightarrow> size_t \<Rightarrow> u8 res" where
  "BasicString_get s idx = aread (bs_data s) (unat idx)"

definition BasicString_plus :: "u8 \<Rightarrow> BasicString \<Rightarrow> BasicString \<Rightarrow> BasicString res" where
  "BasicString_plus g s rhs = rbind (BasicString_copy g s) (\<lambda>c. BasicString_append g c rhs)"

definition BasicString_plus_char :: "u8 \<Rightarrow> BasicString \<Rightarrow> u8 \<Rightarrow> BasicString res" where
  "BasicString_plus_char g s c = rbind (BasicString_copy g s) (\<lambda>t. BasicString_insert g t c)"

datatype strong_ordering = Less | Equal | Greater

text \<open>\<open>operator<=>\<close>: as in \<open>strncmp\<close>, the pointers advance past a mismatch before the loop ends.\<close>

fun spaceship_loop :: "u8 list \<Rightarrow> u8 list \<Rightarrow> (u8 list \<times> u8 list) res" where
  "spaceship_loop (a # as) (b # bs) =
     (if a = 0 \<or> b = 0 then Inr (a # as, b # bs) else if a = b then spaceship_loop as bs else Inr (as, bs))"
| "spaceship_loop (a # as) [] = (if a = 0 then Inr (a # as, []) else Inl OutOfBounds)"
| "spaceship_loop [] str2 = Inl OutOfBounds"

definition BasicString_spaceship :: "BasicString \<Rightarrow> BasicString \<Rightarrow> strong_ordering res" where
  "BasicString_spaceship s rhs =
     rbind (spaceship_loop (bs_data s) (bs_data rhs)) (\<lambda>(p, q).
     rbind (aread p 0) (\<lambda>a. rbind (aread q 0) (\<lambda>b.
     Inr (if uint a - uint b < 0 then Less else if uint a - uint b = 0 then Equal else Greater))))"

definition BasicString_eq :: "BasicString \<Rightarrow> BasicString \<Rightarrow> bool res" where
  "BasicString_eq s rhs =
     (if bs_size s \<noteq> bs_size rhs then Inr False
      else rbind (BasicString_spaceship s rhs) (\<lambda>ord. Inr (ord = Equal)))"

section \<open>String views\<close>

record StringView =
  sv_data :: "u8 list option"
  sv_size :: size_t

definition StringView_empty :: StringView where
  "StringView_empty = \<lparr>sv_data = None, sv_size = 0\<rparr>"

definition StringView_of_cstr :: "u8 list \<Rightarrow> StringView res" where
  "StringView_of_cstr str = rbind (cstrlen str) (\<lambda>n. Inr \<lparr>sv_data = Some str, sv_size = n\<rparr>)"

definition StringView_of_string :: "BasicString \<Rightarrow> StringView" where
  "StringView_of_string s = \<lparr>sv_data = Some (bs_data s), sv_size = bs_size s\<rparr>"

definition StringView_isEmpty :: "StringView \<Rightarrow> bool" where
  "StringView_isEmpty v \<longleftrightarrow> sv_size v = 0"

definition StringView_get :: "StringView \<Rightarrow> size_t \<Rightarrow> u8 res" where
  "StringView_get v idx = (case sv_data v of None \<Rightarrow> Inl NullPointer | Some d \<Rightarrow> aread d (unat idx))"

definition StringView_substring :: "StringView \<Rightarrow> size_t \<Rightarrow> size_t \<Rightarrow> StringView" where
  "StringView_substring v start len =
     (let start1 = (if start > sv_size v then sv_size v else start);
          len1 = (if len > sv_size v - start1 then sv_size v - start1 else len) in
      if len1 = 0 then StringView_empty
      else \<lparr>sv_data = map_option (drop (unat start1)) (sv_data v), sv_size = len1\<rparr>)"

definition StringView_spaceship :: "StringView \<Rightarrow> StringView \<Rightarrow> strong_ordering res" where
  "StringView_spaceship v rhs =
     (case (sv_data v, sv_data rhs) of
        (Some d, Some e) \<Rightarrow> rbind (strncmp d e (min (sv_size v) (sv_size rhs))) (\<lambda>diff.
          Inr (if diff < 0 then Less else if diff > 0 then Greater else Equal))
      | _ \<Rightarrow> Inl NullPointer)"

definition StringView_eq :: "StringView \<Rightarrow> StringView \<Rightarrow> bool res" where
  "StringView_eq v rhs =
     (if sv_size v \<noteq> sv_size rhs then Inr False
      else rbind (StringView_spaceship v rhs) (\<lambda>ord. Inr (ord = Equal)))"

section \<open>Hashing and numbers\<close>

text \<open>djb2 over a terminated string; \<open>char\<close> is signed and widens with its sign.\<close>

fun djb2 :: "size_t \<Rightarrow> u8 list \<Rightarrow> size_t res" where
  "djb2 hash [] = Inl OutOfBounds"
| "djb2 hash (c # cs) = (if c = 0 then Inr hash else djb2 ((push_bit 5 hash + hash) + scast c) cs)"

definition Hasher_cstr :: "u8 list \<Rightarrow> size_t res" where
  "Hasher_cstr str = djb2 5381 str"

definition Hasher_String :: "BasicString \<Rightarrow> size_t res" where
  "Hasher_String s = djb2 5381 (bs_data s)"

definition clamp_base :: "u32 \<Rightarrow> u32" where
  "clamp_base base = (if base < 2 then 2 else if base > 32 then 32 else base)"

definition digit_char :: "u32 \<Rightarrow> u8" where
  "digit_char d = (if d < 10 then 48 + ucast d else 65 + ucast d - 10)"

text \<open>The \<open>do\<close> loop of \<open>append_string\<close>: appends the digits, least significant first.\<close>

function digits_loop :: "u8 \<Rightarrow> BasicString \<Rightarrow> u32 \<Rightarrow> u32 \<Rightarrow> BasicString res" where
  "digits_loop g revstr num base =
     (if base < 2 then Inl DivideByZero
      else rbind (BasicString_insert g revstr (digit_char (num mod base))) (\<lambda>r.
           if num div base = 0 then Inr r else digits_loop g r (num div base) base))"
  by pat_completeness auto
termination
proof (relation "measure (\<lambda>(g, r, num, base). unat num)")
  fix num base :: u32
  assume "\<not> base < 2" "num div base \<noteq> 0"
  then have "2 \<le> unat base" "0 < unat num div unat base"
    by (simp_all add: word_less_nat_alt unat_div_distrib word32_eq_iff_unat)
  then have "unat num div unat base < unat num" by (intro div_less_dividend) (auto intro: gr0I)
  then show "((g, x, num div base, base), g, revstr, num, base) \<in> measure (\<lambda>(g, r, num, base). unat num)" for g x revstr
    by (simp add: unat_div_distrib)
qed simp

declare digits_loop.simps [simp del]

definition append_string_u32 :: "u8 \<Rightarrow> BasicString \<Rightarrow> u32 \<Rightarrow> u32 \<Rightarrow> BasicString res" where
  "append_string_u32 g s num base =
     rbind (digits_loop g (BasicString_reserve (4 * 8)) num (clamp_base base)) (\<lambda>revstr.
     BasicString_append_range g s (rev (take (unat (bs_size revstr)) (bs_data revstr))))"

definition append_string_i32 :: "u8 \<Rightarrow> BasicString \<Rightarrow> u32 \<Rightarrow> u32 \<Rightarrow> BasicString res" where
  "append_string_i32 g s num base =
     (if base = 10 \<and> num <s 0
      then rbind (BasicString_insert g s 45) (\<lambda>s1. append_string_u32 g s1 (- num) base)
      else append_string_u32 g s num base)"

text \<open>The digits \<open>uitoa\<close> writes, most significant first.\<close>

fun uitoa_digits :: "nat \<Rightarrow> u32 \<Rightarrow> u32 \<Rightarrow> u8 list" where
  "uitoa_digits 0 value base = []"
| "uitoa_digits (Suc fuel) value base =
     (if value div base = 0 then [] else uitoa_digits fuel (value div base) base) @ [digit_char (value mod base)]"

text \<open>The terminated prefix \<open>base_prefix\<close> writes; a base has at most two decimal digits.\<close>

definition base_prefix :: "u32 \<Rightarrow> u8 list" where
  "base_prefix clampedBase =
     (if clampedBase = 10 then [0]
      else if clampedBase = 2 then [48, 98, 0]
      else if clampedBase = 8 then [48, 111, 0]
      else if clampedBase = 16 then [48, 120, 0]
      else 98 # uitoa_digits 2 clampedBase 10 @ [95, 0])"

definition to_string_u32 :: "u8 \<Rightarrow> u32 \<Rightarrow> u32 \<Rightarrow> BasicString res" where
  "to_string_u32 g num base0 =
     (let base = clamp_base base0;
          prefix = base_prefix base;
          reserve = (if base < 8 then 4 * 8 else if base < 16 then 4 * 3 else 4 * 2) in
      rbind (cstrlen prefix) (\<lambda>n.
      rbind (BasicString_append_cstr g (BasicString_reserve (n + reserve)) prefix) (\<lambda>s.
      append_string_u32 g s num base)))"

section \<open>Invariant and contents\<close>

definition bs_inv :: "BasicString \<Rightarrow> bool" where
  "bs_inv s \<longleftrightarrow> unat (bs_size s) < length (bs_data s) \<and> length (bs_data s) < 2 ^ 32 \<and> bs_data s ! unat (bs_size s) = 0"

definition bs_chars :: "BasicString \<Rightarrow> u8 list" where
  "bs_chars s = take (unat (bs_size s)) (bs_data s)"

text \<open>The characters of a C string.\<close>

definition ctext :: "u8 list \<Rightarrow> u8 list" where
  "ctext cs = takeWhile (\<lambda>c. c \<noteq> 0) cs"

lemma sint_eq_iff8: "sint (a :: u8) - sint b = 0 \<longleftrightarrow> a = b"
  using signed_word_eqI[of a b] by auto

lemma strcmp_ok: "0 \<in> set as \<Longrightarrow> 0 \<in> set bs \<Longrightarrow> \<exists>c. strcmp as bs = Inr c \<and> (c = 0 \<longleftrightarrow> ctext as = ctext bs)"
proof (induction as bs rule: strcmp.induct)
  case (1 a as b bs)
  show ?case
  proof (cases "a \<noteq> 0 \<and> b \<noteq> 0 \<and> a = b")
    case True
    then show ?thesis using 1 by (auto simp: ctext_def)
  next
    case False
    then show ?thesis using sint_eq_iff8[of a b] by (auto simp: ctext_def)
  qed
qed auto

lemma ctext_terminated: "0 \<notin> set cs \<Longrightarrow> ctext (cs @ 0 # xs) = cs"
  by (induction cs) (auto simp: ctext_def)

lemma ctext_no_zero: "0 \<notin> set (ctext cs)"
  by (auto simp: ctext_def dest: set_takeWhileD)

lemma strncpy_loop_ok:
  "i + n \<le> length src \<Longrightarrow> i + n \<le> length dst \<Longrightarrow> 0 \<notin> set (take n (drop i src)) \<Longrightarrow>
   strncpy_loop dst src i n = Inr (take i dst @ take n (drop i src) @ drop (i + n) dst)"
proof (induction n arbitrary: i dst)
  case (Suc n)
  have d: "drop i src = src ! i # drop (Suc i) src" using Suc.prems by (simp add: Cons_nth_drop_Suc)
  let ?dst = "dst[i := src ! i]"
  have "take (Suc i) ?dst = take i dst @ [src ! i]" using Suc.prems by (simp add: take_Suc_conv_app_nth)
  then show ?case using Suc.IH[of "Suc i" ?dst] Suc.prems by (simp add: d)
qed simp

lemma of_len_ok:
  assumes "unat n \<le> length str" "unat n + 1 < 2 ^ 32" "0 \<notin> set (take (unat n) str)"
  shows "\<exists>s. BasicString_of_len g str n = Inr s \<and> bs_inv s \<and> bs_chars s = take (unat n) str \<and> bs_size s = n"
proof -
  have n: "unat (n + 1) = unat n + 1" using assms(2) by (subst unat_plus_small) simp_all
  let ?d = "DynamicArray_new g (n + 1)"
  have d: "length ?d = unat n + 1" using n by (simp add: DynamicArray_new_def)
  have c: "strncpy_loop ?d str 0 (unat n) = Inr (take (unat n) str @ drop (unat n) ?d)"
    using strncpy_loop_ok[of 0 "unat n" str ?d] assms d by simp
  have "(if n > 0 then strncpy_loop ?d str 0 (unat n) else Inr ?d) = Inr (take (unat n) str @ drop (unat n) ?d)"
    using c by (cases "n = 0") (auto simp: word_gt_0)
  then show ?thesis using assms d n
    by (simp add: BasicString_of_len_def Let_def bs_inv_def bs_chars_def nth_append)
qed

lemma copy_ok:
  assumes "bs_inv s" "0 \<notin> set (bs_chars s)"
  shows "\<exists>s'. BasicString_copy g s = Inr s' \<and> bs_inv s' \<and> bs_chars s' = bs_chars s \<and> bs_size s' = bs_size s"
  using of_len_ok[of "bs_size s" "bs_data s" g] assms by (auto simp: BasicString_copy_def bs_chars_def bs_inv_def)

lemma length_bs_chars [simp]: "bs_inv s \<Longrightarrow> length (bs_chars s) = unat (bs_size s)"
  by (simp add: bs_inv_def bs_chars_def)

lemma bs_capacity: "bs_inv s \<Longrightarrow> unat (BasicString_capacity s) = length (bs_data s)"
  by (simp add: bs_inv_def BasicString_capacity_def DynamicArray_capacity_def)

lemma bs_not_full: "bs_inv s \<Longrightarrow> bs_size s \<noteq> BasicString_capacity s"
  using bs_capacity[of s] by (auto simp: bs_inv_def)

lemma bs_size_inc: "bs_inv s \<Longrightarrow> unat (bs_size s + 1) = Suc (unat (bs_size s))"
  by (subst unat_plus_small) (auto simp: bs_inv_def)

lemma reserve_ok:
  assumes "unat n + 1 < 2 ^ 32"
  shows "bs_inv (BasicString_reserve n)" "bs_chars (BasicString_reserve n) = []"
    "length (bs_data (BasicString_reserve n)) = unat n + 1"
proof -
  have "unat (n + 1) = unat n + 1" using assms by (subst unat_plus_small) simp_all
  then show "bs_inv (BasicString_reserve n)" "bs_chars (BasicString_reserve n) = []"
    "length (bs_data (BasicString_reserve n)) = unat n + 1"
    using assms by (simp_all add: bs_inv_def bs_chars_def BasicString_reserve_def)
qed

lemma insert_ok:
  assumes inv: "bs_inv s" and room: "Suc (unat (bs_size s)) < length (bs_data s)"
  shows "\<exists>s'. BasicString_insert g s c = Inr s' \<and> bs_inv s' \<and> bs_chars s' = bs_chars s @ [c]
    \<and> length (bs_data s') = length (bs_data s) \<and> unat (bs_size s') = Suc (unat (bs_size s))"
proof -
  let ?d = "(bs_data s)[unat (bs_size s) := c, Suc (unat (bs_size s)) := 0]"
  let ?s = "s\<lparr>bs_data := ?d, bs_size := bs_size s + 1\<rparr>"
  have "BasicString_insert g s c = Inr ?s"
    using bs_not_full[OF inv] bs_size_inc[OF inv] room by (simp add: BasicString_insert_def)
  moreover have "bs_inv ?s" using inv bs_size_inc[OF inv] room by (simp add: bs_inv_def)
  moreover have "bs_chars ?s = bs_chars s @ [c]"
    using bs_size_inc[OF inv] room by (simp add: bs_chars_def take_Suc_conv_app_nth)
  ultimately show ?thesis using bs_size_inc[OF inv] by auto
qed

lemma append_range_loop_ok:
  "unat (bs_size s) + length cs < length (bs_data s) \<Longrightarrow> length (bs_data s) < 2 ^ 32 \<Longrightarrow>
   \<exists>s'. append_range_loop g s cs = Inr s' \<and> length (bs_data s') = length (bs_data s)
     \<and> unat (bs_size s') = unat (bs_size s) + length cs \<and> bs_chars s' = bs_chars s @ cs"
proof (induction cs arbitrary: s)
  case (Cons c cs)
  let ?s = "s\<lparr>bs_data := (bs_data s)[unat (bs_size s) := c], bs_size := bs_size s + 1\<rparr>"
  have sz: "unat (bs_size s + 1) = Suc (unat (bs_size s))" using Cons.prems by (subst unat_plus_small) simp_all
  have "unat (BasicString_capacity s) = length (bs_data s)"
    using Cons.prems by (simp add: BasicString_capacity_def DynamicArray_capacity_def)
  then have "bs_size s \<noteq> BasicString_capacity s" using Cons.prems by auto
  then have e: "append_range_loop g s (c # cs) = append_range_loop g ?s cs" using Cons.prems by simp
  have "bs_chars ?s = bs_chars s @ [c]" using Cons.prems sz by (simp add: bs_chars_def take_Suc_conv_app_nth)
  then show ?case using Cons.IH[of ?s] Cons.prems sz e by auto
qed simp

lemma append_range_ok:
  assumes "bs_inv s" "unat (bs_size s) + length cs < length (bs_data s)"
  shows "\<exists>s'. BasicString_append_range g s cs = Inr s' \<and> bs_inv s' \<and> bs_chars s' = bs_chars s @ cs"
proof -
  from append_range_loop_ok[OF assms(2), of g] assms(1) obtain s' where s': "append_range_loop g s cs = Inr s'"
    "length (bs_data s') = length (bs_data s)" "unat (bs_size s') = unat (bs_size s) + length cs"
    "bs_chars s' = bs_chars s @ cs" by (auto simp: bs_inv_def)
  let ?s = "s'\<lparr>bs_data := (bs_data s')[unat (bs_size s') := 0]\<rparr>"
  have "BasicString_append_range g s cs = Inr ?s" using s' assms(2) by (simp add: BasicString_append_range_def)
  moreover have "bs_inv ?s" using s' assms by (simp add: bs_inv_def)
  moreover have "bs_chars ?s = bs_chars s @ cs" using s' by (simp add: bs_chars_def)
  ultimately show ?thesis by blast
qed

lemma copy_loop:
  "off + i + k \<le> length d \<Longrightarrow> i + k \<le> length str \<Longrightarrow>
   rfor (\<lambda>i d. rbind (aread str i) (awrite d (off + i))) i k d
     = Inr (take (off + i) d @ take k (drop i str) @ drop (off + i + k) d)"
proof (induction k arbitrary: i d)
  case 0
  then show ?case by simp
next
  case (Suc k)
  let ?d = "d[off + i := str ! i]"
  have "take (off + Suc i) ?d @ take k (drop (Suc i) str) @ drop (off + Suc i + k) ?d
      = take (off + i) d @ take (Suc k) (drop i str) @ drop (off + i + Suc k) d"
    using Suc.prems by (simp add: take_Suc_conv_app_nth Cons_nth_drop_Suc[symmetric])
  then show ?case using Suc.IH[of "Suc i" ?d] Suc.prems by simp
qed

text \<open>There is room to append \<open>n\<close> characters: no size involved wraps.\<close>

definition bs_room :: "BasicString \<Rightarrow> nat \<Rightarrow> bool" where
  "bs_room s n \<longleftrightarrow> unat (bs_size s) + n + 1 < 2 ^ 32 \<and> 2 * length (bs_data s) < 2 ^ 32"

lemma append_block_ok:
  assumes inv: "bs_inv s" and room: "bs_room s (unat n)"
  shows "\<exists>d. (if bs_size s + n + 1 > BasicString_capacity s
      then let newSize = (if bs_size s + n + 1 > BasicString_capacity s * 2 then bs_size s + n + 1 else 0) in
           DynamicArray_resize g (bs_data s) newSize 0
      else Inr (bs_data s)) = Inr d
    \<and> unat (bs_size s) + unat n < length d \<and> length d < 2 ^ 32 \<and> take (unat (bs_size s)) d = bs_chars s
    \<and> length (bs_data s) \<le> length d"
proof -
  have "unat (bs_size s + n) = unat (bs_size s) + unat n"
    using room by (subst unat_plus_small) (auto simp: bs_room_def)
  then have r: "unat (bs_size s + n + 1) = unat (bs_size s) + unat n + 1"
    using room by (subst unat_plus_small) (auto simp: bs_room_def)
  have c: "unat (BasicString_capacity s) = length (bs_data s)" by (rule bs_capacity[OF inv])
  have c2: "unat (BasicString_capacity s * 2) = 2 * length (bs_data s)"
    using c room by (simp add: unat_word_ariths bs_room_def)
  have nx: "nextCapacity (bs_data s) = BasicString_capacity s * 2"
    by (simp add: nextCapacity_def BasicString_capacity_def)
  have nz: "bs_size s + n + 1 \<noteq> 0" using r by auto
  have sz: "unat (bs_size s) < length (bs_data s)" "length (bs_data s) < 2 ^ 32" using inv by (auto simp: bs_inv_def)
  show ?thesis
  proof (cases "bs_size s + n + 1 > BasicString_capacity s")
    case False
    then show ?thesis using r c sz by (auto simp: word_less_nat_alt bs_chars_def)
  next
    case True
    then show ?thesis using r c c2 nx nz sz room
      by (auto simp: DynamicArray_resize_def Resizer_resize_def word_less_nat_alt bs_chars_def bs_room_def)
  qed
qed

lemma append_n_ok:
  assumes inv: "bs_inv s" and room: "bs_room s (unat n)" and len: "unat n \<le> length str"
  shows "\<exists>s'. BasicString_append_n g s str n = Inr s' \<and> bs_inv s' \<and> bs_chars s' = bs_chars s @ take (unat n) str
    \<and> unat (bs_size s') = unat (bs_size s) + unat n \<and> length (bs_data s) \<le> length (bs_data s')"
proof -
  let ?o = "unat (bs_size s)"
  from append_block_ok[OF inv room, of g] obtain d where d: "(if bs_size s + n + 1 > BasicString_capacity s
      then let newSize = (if bs_size s + n + 1 > BasicString_capacity s * 2 then bs_size s + n + 1 else 0) in
           DynamicArray_resize g (bs_data s) newSize 0
      else Inr (bs_data s)) = Inr d"
    "?o + unat n < length d" "length d < 2 ^ 32" "take ?o d = bs_chars s" "length (bs_data s) \<le> length d" by blast
  have sz: "unat (bs_size s + n) = ?o + unat n" using room by (subst unat_plus_small) (auto simp: bs_room_def)
  let ?d1 = "bs_chars s @ take (unat n) str @ drop (?o + unat n) d"
  have cp: "rfor (\<lambda>i d. rbind (aread str i) (awrite d (?o + i))) 0 (unat n) d = Inr ?d1"
    using copy_loop[of ?o 0 "unat n" d str] d(2) len by (simp add: d(4))
  have l: "length (bs_chars s) = ?o" using inv by simp
  have l1: "length ?d1 = length d" using d(2) len l by simp
  let ?s = "s\<lparr>bs_data := ?d1[?o + unat n := 0], bs_size := bs_size s + n\<rparr>"
  have "BasicString_append_n g s str n = Inr ?s"
    unfolding BasicString_append_n_def Let_def[of "bs_size s + n + 1"] d(1) using cp sz l1 d(2) by simp
  moreover have "bs_inv ?s" using d sz l1 by (simp add: bs_inv_def)
  moreover have "bs_chars ?s = bs_chars s @ take (unat n) str" using sz l len by (simp add: bs_chars_def)
  ultimately show ?thesis using sz l1 d(5) by auto
qed

lemma cstrlen_ok: "0 \<notin> set xs \<Longrightarrow> cstrlen (xs @ 0 # ys) = Inr (of_nat (length xs))"
  by (induction xs) auto

section \<open>Digits\<close>

text \<open>The digits of a number in base \<open>b\<close>, least significant first, and reading them back.\<close>

function radix_digits :: "nat \<Rightarrow> nat \<Rightarrow> nat list" where
  "radix_digits b n = (if b < 2 then [] else n mod b # (if n div b = 0 then [] else radix_digits b (n div b)))"
  by pat_completeness auto
termination
  by (relation "measure snd") (auto intro!: div_less_dividend simp: div_eq_0_iff)

declare radix_digits.simps [simp del]

lemma radix_digits_lt: "d \<in> set (radix_digits b n) \<Longrightarrow> d < b"
proof (induction b n rule: radix_digits.induct)
  case (1 b n)
  show ?case
  proof (cases "b < 2")
    case False
    then show ?thesis using 1 by (auto simp: radix_digits.simps[of b n] split: if_splits)
  qed (use 1 in \<open>simp add: radix_digits.simps[of b n]\<close>)
qed

lemma radix_digits_length: "2 \<le> b \<Longrightarrow> 0 < k \<Longrightarrow> n < b ^ k \<Longrightarrow> length (radix_digits b n) \<le> k"
proof (induction k arbitrary: n)
  case (Suc k)
  show ?case
  proof (cases "n div b = 0")
    case False
    then have "k \<noteq> 0" using Suc.prems by (auto intro: gr0I)
    moreover have "n div b < b ^ k" using Suc.prems by (simp add: less_mult_imp_div_less mult.commute)
    ultimately show ?thesis using Suc.IH[of "n div b"] Suc.prems False by (simp add: radix_digits.simps[of b n])
  qed (simp add: radix_digits.simps[of b n])
qed simp

lemma radix_digits_value: "2 \<le> b \<Longrightarrow> foldr (\<lambda>d v. v * b + d) (radix_digits b n) 0 = n"
proof (induction b n rule: radix_digits.induct)
  case (1 b n)
  then have b: "\<not> b < 2" by simp
  show ?case
  proof (cases "n div b = 0")
    case True
    then have "n mod b = n" using b by (simp add: div_eq_0_iff)
    then show ?thesis using True b by (simp add: radix_digits.simps[of b n])
  next
    case False
    then show ?thesis using 1(1)[OF b False] 1(2) b by (simp add: radix_digits.simps[of b n])
  qed
qed

definition digit_value :: "u8 \<Rightarrow> nat" where
  "digit_value c = (if c < 65 then unat c - 48 else unat c - 55)"

definition parse_digits :: "nat \<Rightarrow> u8 list \<Rightarrow> nat" where
  "parse_digits b cs = foldl (\<lambda>v c. v * b + digit_value c) 0 cs"

lemma digit_value_char: "d < 32 \<Longrightarrow> digit_value (digit_char (of_nat d)) = d"
proof -
  have "\<forall>d \<in> set [0..<32]. digit_value (digit_char (of_nat d)) = d"
    by (simp add: upt_rec digit_value_def digit_char_def)
  then show "d < 32 \<Longrightarrow> ?thesis" by simp
qed

lemma parse_radix:
  assumes "2 \<le> b" "b \<le> 32"
  shows "parse_digits b (rev (map (\<lambda>d. digit_char (of_nat d)) (radix_digits b n))) = n"
proof -
  have "foldr (\<lambda>d v. v * b + digit_value (digit_char (of_nat d))) ds 0 = foldr (\<lambda>d v. v * b + d) ds 0"
    if "\<And>d. d \<in> set ds \<Longrightarrow> d < 32" for ds
    using that by (induction ds) (auto simp: digit_value_char)
  moreover have "d < 32" if "d \<in> set (radix_digits b n)" for d using radix_digits_lt[OF that] assms by simp
  ultimately show ?thesis using radix_digits_value[OF assms(1), of n]
    by (simp add: parse_digits_def foldl_conv_foldr foldr_map comp_def)
qed

lemma digits_loop_ok:
  "bs_inv r \<Longrightarrow> 2 \<le> unat base \<Longrightarrow> unat (bs_size r) + length (radix_digits (unat base) (unat num)) < length (bs_data r) \<Longrightarrow>
   \<exists>r'. digits_loop g r num base = Inr r' \<and> bs_inv r'
     \<and> bs_chars r' = bs_chars r @ map (\<lambda>d. digit_char (of_nat d)) (radix_digits (unat base) (unat num))"
proof (induction g r num base rule: digits_loop.induct)
  case (1 g r num base)
  have b: "\<not> base < 2" using "1.prems"(2) by (simp add: word_less_nat_alt)
  have e: "of_nat (unat num mod unat base) = num mod base" by (simp flip: unat_mod32)
  have z: "num div base = 0 \<longleftrightarrow> unat num div unat base = 0" by (simp add: word32_eq_iff_unat)
  have room: "Suc (unat (bs_size r)) < length (bs_data r)"
    using "1.prems"(2,3) by (simp add: radix_digits.simps[of "unat base" "unat num"] split: if_splits)
  from insert_ok[OF "1.prems"(1) room, of g "digit_char (num mod base)"] obtain r1 where r1:
    "BasicString_insert g r (digit_char (num mod base)) = Inr r1" "bs_inv r1"
    "bs_chars r1 = bs_chars r @ [digit_char (num mod base)]" "length (bs_data r1) = length (bs_data r)"
    "unat (bs_size r1) = Suc (unat (bs_size r))" by blast
  show ?case
  proof (cases "num div base = 0")
    case True
    then show ?thesis using r1 b z e "1.prems"(2)
      by (simp add: digits_loop.simps[of g r] radix_digits.simps[of "unat base" "unat num"])
  next
    case False
    have len: "unat (bs_size r1) + length (radix_digits (unat base) (unat (num div base))) < length (bs_data r1)"
      using r1(4,5) "1.prems"(2,3) False z by (simp add: radix_digits.simps[of "unat base" "unat num"])
    from "1.IH"[OF b r1(1) False r1(2) "1.prems"(2) len] obtain r' where
      "digits_loop g r1 (num div base) base = Inr r'" "bs_inv r'"
      "bs_chars r' = bs_chars r1 @ map (\<lambda>d. digit_char (of_nat d)) (radix_digits (unat base) (unat (num div base)))"
      by blast
    then show ?thesis using r1 b z e False "1.prems"(2)
      by (simp add: digits_loop.simps[of g r] radix_digits.simps[of "unat base" "unat num"])
  qed
qed

lemma digits_fit: "2 \<le> b \<Longrightarrow> length (radix_digits b (unat (num :: u32))) \<le> 32"
proof (rule radix_digits_length)
  assume "2 \<le> b"
  then have "(2 :: nat) ^ 32 \<le> b ^ 32" by (rule power_mono) simp
  moreover have "unat num < 2 ^ 32" using unat_lt32[of num] by simp
  ultimately show "unat num < b ^ 32" by (rule less_le_trans[rotated])
qed simp_all

lemma clamp_base_range: "2 \<le> unat (clamp_base b) \<and> unat (clamp_base b) \<le> 32"
  by (auto simp: clamp_base_def word_less_nat_alt not_less)

lemma clamp_base_idem [simp]: "clamp_base (clamp_base b) = clamp_base b"
  by (auto simp: clamp_base_def)

lemma append_string_u32_ok:
  assumes "bs_inv s" "unat (bs_size s) + length (radix_digits (unat (clamp_base base)) (unat num)) < length (bs_data s)"
  shows "\<exists>s'. append_string_u32 g s num base = Inr s' \<and> bs_inv s'
    \<and> bs_chars s' = bs_chars s @ rev (map (\<lambda>d. digit_char (of_nat d)) (radix_digits (unat (clamp_base base)) (unat num)))"
proof -
  let ?r = "BasicString_reserve (4 * 8)" and ?b = "clamp_base base"
  have r: "bs_inv ?r" "bs_chars ?r = []" "length (bs_data ?r) = 33" using reserve_ok[of "4 * 8"] by simp_all
  have "unat (bs_size ?r) = 0" by (simp add: BasicString_reserve_def)
  then have "unat (bs_size ?r) + length (radix_digits (unat ?b) (unat num)) < length (bs_data ?r)"
    using digits_fit[of "unat ?b" num] clamp_base_range[of base] r(3) by simp
  from digits_loop_ok[OF r(1) _ this, of g] clamp_base_range[of base] r(2) obtain r' where r':
    "digits_loop g ?r num ?b = Inr r'" "bs_chars r' = map (\<lambda>d. digit_char (of_nat d)) (radix_digits (unat ?b) (unat num))"
    by auto
  have "length (rev (bs_chars r')) = length (radix_digits (unat ?b) (unat num))" by (simp add: r'(2))
  from append_range_ok[OF assms(1), of "rev (bs_chars r')" g] this assms(2) r' show ?thesis
    by (simp add: append_string_u32_def flip: bs_chars_def)
qed

section \<open>Properties\<close>

text \<open>
  Appending to a string grows its block as needed and yields the concatenation of the
  characters, terminated, whatever the block looked like before.
\<close>

theorem BasicString_append_correct:
  assumes "bs_inv s" "bs_inv rhs" "bs_room s (unat (bs_size rhs))"
  shows "\<exists>s'. BasicString_append g s rhs = Inr s' \<and> bs_inv s' \<and> bs_chars s' = bs_chars s @ bs_chars rhs"
proof -
  have "unat (bs_size rhs) \<le> length (bs_data rhs)" using assms(2) by (simp add: bs_inv_def)
  from append_n_ok[OF assms(1,3) this, of g] show ?thesis
    by (auto simp: BasicString_append_def bs_chars_def)
qed

definition example_string :: "u8 list \<Rightarrow> BasicString" where
  "example_string cs = \<lparr>bs_data = cs @ [0], bs_size = of_nat (length cs)\<rparr>"

lemma example_string_ok: "Suc (length cs) < 2 ^ 32 \<Longrightarrow> bs_inv (example_string cs) \<and> bs_chars (example_string cs) = cs"
  by (simp add: example_string_def bs_inv_def bs_chars_def)

theorem BasicString_append_correct_witness:
  "\<exists>s'. BasicString_append 7 (example_string [1, 2]) (example_string [3, 4, 5]) = Inr s' \<and> bs_chars s' = [1, 2, 3, 4, 5]"
proof -
  have "bs_room (example_string [1, 2]) (unat (bs_size (example_string [3, 4, 5])))"
    by (simp add: bs_room_def example_string_def)
  then show ?thesis
    using BasicString_append_correct[of "example_string [1, 2]" "example_string [3, 4, 5]" 7]
      example_string_ok[of "[1, 2]"] example_string_ok[of "[3, 4, 5]"] by auto
qed

text \<open>
  Appending a single character to a string whose terminator is in the last byte of its
  block writes one byte past the block: \<open>insert\<close> grows only when the size reaches the
  capacity, but it needs room for the character and the terminator.
\<close>

theorem BasicString_insert_out_of_bounds:
  assumes "bs_inv s" "Suc (unat (bs_size s)) = length (bs_data s)"
  shows "BasicString_insert g s c = Inl OutOfBounds"
  using bs_not_full[OF assms(1)] bs_size_inc[OF assms(1)] assms(2) by (simp add: BasicString_insert_def)

theorem BasicString_insert_out_of_bounds_witness:
  "BasicString_insert 0 (example_string [97, 98]) 99 = Inl OutOfBounds"
  by (rule BasicString_insert_out_of_bounds) (simp_all add: example_string_ok, simp add: example_string_def)

lemma spaceship_prefix: "0 \<notin> set p \<Longrightarrow> spaceship_loop (p @ xs) (p @ ys) = spaceship_loop xs ys"
  by (induction p) auto

text \<open>
  String equality is not character equality: two strings that agree except in one place
  compare equal, because the comparison has moved past the first mismatch when it looks at
  the characters to compare.
\<close>

theorem BasicString_eq_confuses:
  assumes "bs_data s = p @ a # q @ [0]" "bs_data t = p @ b # q @ [0]" "bs_size s = bs_size t"
    "0 \<notin> set p" "a \<noteq> 0" "b \<noteq> 0" "a \<noteq> b"
  shows "BasicString_eq s t = Inr True \<and> bs_data s \<noteq> bs_data t"
proof -
  have "spaceship_loop (bs_data s) (bs_data t) = Inr (q @ [0], q @ [0])"
    using assms by (simp add: spaceship_prefix)
  then show ?thesis using assms by (simp add: BasicString_eq_def BasicString_spaceship_def)
qed

theorem BasicString_eq_confuses_witness:
  "BasicString_eq (example_string [97]) (example_string [98]) = Inr True"
  using BasicString_eq_confuses[of "example_string [97]" "[]" 97 "[]" "example_string [98]" 98]
  by (simp add: example_string_def)

lemma strncmp_prefix: "0 \<notin> set p \<Longrightarrow> strncmp_loop (length p) (p @ xs) (p @ ys) = Inr (xs, ys)"
  by (induction p) auto

text \<open>
  Equality of string views looks one character past both views: views of the same
  characters compare unequal when the characters that follow them differ.
\<close>

theorem StringView_eq_reads_past:
  assumes "sv_data v = Some (p @ a # q)" "sv_data w = Some (p @ b # r)" "sv_size v = of_nat (length p)"
    "sv_size w = of_nat (length p)" "length p < 2 ^ 32" "0 \<notin> set p" "a \<noteq> b"
  shows "StringView_eq v w = Inr False"
proof -
  have "sint a \<noteq> sint b" using assms(7) by (metis signed_word_eqI)
  then show ?thesis using assms strncmp_prefix[OF assms(6)]
    by (simp add: StringView_eq_def StringView_spaceship_def strncmp_def)
qed

theorem StringView_eq_reads_past_witness:
  "StringView_eq \<lparr>sv_data = Some [97, 98, 99], sv_size = 2\<rparr> \<lparr>sv_data = Some [97, 98, 100], sv_size = 2\<rparr> = Inr False"
  using StringView_eq_reads_past[of "\<lparr>sv_data = Some [97, 98, 99], sv_size = 2\<rparr>" "[97, 98]" 99 "[]"
    "\<lparr>sv_data = Some [97, 98, 100], sv_size = 2\<rparr>" 100 "[]"] by simp

lemma digit_char_nonzero: "d < 32 \<Longrightarrow> digit_char d \<noteq> 0"
proof -
  have "\<forall>n \<in> set [0..<32]. digit_char (of_nat n) \<noteq> 0" by (simp add: upt_rec digit_char_def)
  moreover have "unat d \<in> set [0..<32]" if "d < 32" using that by (simp add: word_less_nat_alt)
  ultimately show "d < 32 \<Longrightarrow> ?thesis" by (metis of_nat_unat ucast_id)
qed

lemma uitoa_digits_shape: "0 \<notin> set (uitoa_digits k v 10) \<and> length (uitoa_digits k v 10) \<le> k"
proof (induction k arbitrary: v)
  case (Suc k)
  have "v mod 10 < 32" by (simp add: word_less_nat_alt)
  then show ?case using Suc digit_char_nonzero[of "v mod 10"] by simp
qed simp

lemma base_prefix_shape: "\<exists>p. base_prefix b = p @ [0] \<and> 0 \<notin> set p \<and> length p \<le> 4"
  using uitoa_digits_shape[of 2 b] by (simp add: base_prefix_def)

text \<open>
  C37. Formatting a 32-bit number never faults, whatever the base asked for: the result is the
  prefix of the base, clamped to 2 to 32, and digits that read back as the number in it.
\<close>

theorem to_string_roundtrip:
  "\<exists>s p ds. to_string_u32 g num base = Inr s \<and> bs_inv s \<and> base_prefix (clamp_base base) = p @ [0]
     \<and> bs_chars s = p @ ds \<and> parse_digits (unat (clamp_base base)) ds = unat num"
proof -
  let ?b = "clamp_base base"
  let ?ds = "radix_digits (unat ?b) (unat num)"
  define res :: size_t where "res = (if ?b < 8 then 4 * 8 else if ?b < 16 then 4 * 3 else 4 * 2)"
  have res32: "unat res \<le> 32" by (simp add: res_def)
  have "unat num < unat ?b ^ unat res"
  proof -
    have "(2 :: nat) ^ 32 \<le> unat ?b ^ unat res"
    proof (cases "?b < 8")
      case True
      then show ?thesis using clamp_base_range[of base] by (simp add: res_def power_mono[of 2 "unat ?b" 32, simplified])
    next
      case False
      show ?thesis
      proof (cases "?b < 16")
        case True
        have "(8 :: nat) ^ 12 \<le> unat ?b ^ 12" using False by (intro power_mono) (auto simp: word_less_nat_alt)
        then show ?thesis using False True by (simp add: res_def)
      next
        case False
        have "(16 :: nat) ^ 8 \<le> unat ?b ^ 8" using False by (intro power_mono) (auto simp: word_less_nat_alt)
        then show ?thesis using False \<open>\<not> ?b < 8\<close> by (simp add: res_def)
      qed
    qed
    moreover have "unat num < 2 ^ 32" using unat_lt32[of num] by simp
    ultimately show ?thesis by (rule less_le_trans[rotated])
  qed
  then have fit: "length ?ds \<le> unat res"
    using radix_digits_length[of "unat ?b" "unat res" "unat num"] clamp_base_range[of base] by (auto simp: res_def)
  obtain p where p: "base_prefix ?b = p @ [0]" "0 \<notin> set p" "length p \<le> 4" using base_prefix_shape[of ?b] by blast
  have len: "cstrlen (base_prefix ?b) = Inr (of_nat (length p))" using cstrlen_ok[OF p(2), of "[]"] p(1) by simp
  let ?n = "of_nat (length p) + res"
  have n: "unat ?n = length p + unat res" using p(3) res32 by (subst unat_plus_small) auto
  let ?s0 = "BasicString_reserve ?n"
  have s0: "bs_inv ?s0" "bs_chars ?s0 = []" "length (bs_data ?s0) = unat ?n + 1" "bs_size ?s0 = 0"
    using reserve_ok[of ?n] n p(3) res32 by (auto simp: BasicString_reserve_def)
  have "bs_room ?s0 (unat (of_nat (length p) :: size_t))" using s0 n p(3) res32 by (simp add: bs_room_def)
  from append_n_ok[OF s0(1) this, of "base_prefix ?b" g] s0 p obtain s1 where s1:
    "BasicString_append_n g ?s0 (base_prefix ?b) (of_nat (length p)) = Inr s1" "bs_inv s1" "bs_chars s1 = p"
    "unat (bs_size s1) = length p" "length (bs_data ?s0) \<le> length (bs_data s1)" by auto
  have "unat (bs_size s1) + length ?ds < length (bs_data s1)" using s1(4,5) s0(3) n fit by simp
  from append_string_u32_ok[OF s1(2), of ?b num g] this obtain s where s: "append_string_u32 g s1 num ?b = Inr s" "bs_inv s"
    "bs_chars s = p @ rev (map (\<lambda>d. digit_char (of_nat d)) ?ds)" using s1(3) by auto
  have "to_string_u32 g num base = Inr s"
    using len s1(1) s(1) by (simp add: to_string_u32_def BasicString_append_cstr_def Let_def flip: res_def)
  then show ?thesis using s p(1) parse_radix[of "unat ?b" "unat num"] clamp_base_range[of base] by blast
qed

end
