(* ===== verification/Console.thy ===== *)
theory Console
  imports Strings
begin

text \<open>
  The VGA text console (\<open>kernel/src/arch/i386/device/display/VGATextConsole.cpp\<close> and its
  header), the output stream on it (\<open>kernel/src/device/display/ConsoleOutputStream.cpp\<close>) and
  the screen \<open>Kernel::panic\<close> draws (\<open>kernel/src/Kernel.cpp\<close>).

  The text memory at 0xB8000 is a list of 80 * 25 cells; an access outside it is
  \<open>OutOfBounds\<close>. The two bytes that \<open>move_cursor_to\<close> sends to the display controller make up
  its cursor register.
\<close>

section \<open>The text console\<close>

definition VGA_WIDTH :: size_t where
  "VGA_WIDTH = 80"

definition VGA_HEIGHT :: size_t where
  "VGA_HEIGHT = 25"

record VGATextConsole =
  vc_cursorIsVisible :: bool
  vc_row :: size_t
  vc_column :: size_t
  vc_color :: u8
  vc_buffer :: "u16 list"
  vc_cursor :: u16

definition make_vgaentry :: "u8 \<Rightarrow> u8 \<Rightarrow> u16" where
  "make_vgaentry c color = scast c OR push_bit 8 (ucast color)"

definition move_cursor_to :: "VGATextConsole \<Rightarrow> u16 \<Rightarrow> u16 \<Rightarrow> VGATextConsole" where
  "move_cursor_to con row col =
     (let position = row * 80 + col;
          low = (ucast (position AND 0xFF) :: u8);
          high = (ucast (drop_bit 8 position) :: u8) AND 0xFF in
      con\<lparr>vc_cursor := ucast low OR push_bit 8 (ucast high)\<rparr>)"

definition moveTo :: "VGATextConsole \<Rightarrow> size_t \<Rightarrow> size_t \<Rightarrow> VGATextConsole" where
  "moveTo con row col =
     (let con1 = (if vc_cursorIsVisible con then move_cursor_to con (ucast row) (ucast col) else con) in
      con1\<lparr>vc_row := row, vc_column := col\<rparr>)"

definition setCursorVisible :: "VGATextConsole \<Rightarrow> bool \<Rightarrow> VGATextConsole" where
  "setCursorVisible con isVisible =
     (let con1 = con\<lparr>vc_cursorIsVisible := isVisible\<rparr> in
      if \<not> isVisible then move_cursor_to con1 0xFF 0xFF
      else move_cursor_to con1 (ucast (vc_row con1)) (ucast (vc_column con1)))"

definition putCharAt :: "VGATextConsole \<Rightarrow> u8 \<Rightarrow> size_t \<Rightarrow> size_t \<Rightarrow> VGATextConsole res" where
  "putCharAt con c row col =
     rbind (awrite (vc_buffer con) (unat (row * VGA_WIDTH + col)) (make_vgaentry c (vc_color con))) (\<lambda>b.
     Inr (con\<lparr>vc_buffer := b\<rparr>))"

definition clear_rows :: "VGATextConsole \<Rightarrow> nat \<Rightarrow> VGATextConsole res" where
  "clear_rows con from_row =
     rfor (\<lambda>y con. rfor (\<lambda>x con. putCharAt con 32 (of_nat y) (of_nat x)) 0 (unat VGA_WIDTH) con)
       from_row (unat VGA_HEIGHT - from_row) con"

definition Console_clear :: "VGATextConsole \<Rightarrow> VGATextConsole res" where
  "Console_clear con = rbind (clear_rows con 0) (\<lambda>con1. Inr (moveTo con1 0 0))"

definition VGATextConsole_new :: "u16 list \<Rightarrow> u16 \<Rightarrow> VGATextConsole res" where
  "VGATextConsole_new mem cursor =
     rbind (Console_clear \<lparr>vc_cursorIsVisible = False, vc_row = 0, vc_column = 0, vc_color = 7 OR push_bit 4 0,
              vc_buffer = mem, vc_cursor = cursor\<rparr>) (\<lambda>con.
     Inr (setCursorVisible con (vc_cursorIsVisible con)))"

definition setForegroundColor :: "VGATextConsole \<Rightarrow> u32 \<Rightarrow> VGATextConsole" where
  "setForegroundColor con fg = con\<lparr>vc_color := ucast ((ucast (vc_color con) AND 0xF0) OR fg)\<rparr>"

definition setBackgroundColor :: "VGATextConsole \<Rightarrow> u32 \<Rightarrow> VGATextConsole" where
  "setBackgroundColor con bg = con\<lparr>vc_color := ucast ((ucast (vc_color con) AND 0x0F) OR push_bit 4 bg)\<rparr>"

text \<open>\<open>memcpy\<close> within the text memory; the destination is below the source, so it copies forward.\<close>

definition scroll :: "VGATextConsole \<Rightarrow> size_t \<Rightarrow> VGATextConsole res" where
  "scroll con n =
     (if n \<noteq> 0
      then let old_row = vc_row con;
               off = unat (VGA_WIDTH * n);
               len = unat (VGA_WIDTH * (VGA_HEIGHT - n)) in
           if off + len \<le> length (vc_buffer con)
           then let con1 = con\<lparr>vc_buffer := take len (drop off (vc_buffer con)) @ drop len (vc_buffer con),
                               vc_row := VGA_HEIGHT - n\<rparr> in
                rbind (clear_rows con1 (unat (vc_row con1))) (\<lambda>con2. Inr (con2\<lparr>vc_row := old_row\<rparr>))
           else Inl OutOfBounds
      else Inr con)"

text \<open>Both branches of \<open>putChar\<close> advance to the next row in the same way.\<close>

definition next_row :: "VGATextConsole \<Rightarrow> VGATextConsole res" where
  "next_row con =
     (let con1 = con\<lparr>vc_column := 0, vc_row := vc_row con + 1\<rparr> in
      if vc_row con1 = VGA_HEIGHT
      then rbind (scroll con1 1) (\<lambda>con2. Inr (moveTo con2 (VGA_HEIGHT - 1) 0))
      else Inr con1)"

definition putChar :: "VGATextConsole \<Rightarrow> u8 \<Rightarrow> VGATextConsole res" where
  "putChar con c =
     rbind (if c = 10 then next_row con
            else rbind (putCharAt con c (vc_row con) (vc_column con)) (\<lambda>con1.
                 let con2 = con1\<lparr>vc_column := vc_column con1 + 1\<rparr> in
                 if vc_column con2 = VGA_WIDTH then next_row con2 else Inr con2)) (\<lambda>con3.
     Inr (moveTo con3 (vc_row con3) (vc_column con3)))"

fun put_all :: "VGATextConsole \<Rightarrow> u8 list \<Rightarrow> VGATextConsole res" where
  "put_all con [] = Inr con"
| "put_all con (c # cs) = rbind (putChar con c) (\<lambda>con1. put_all con1 cs)"

definition writeString_n :: "VGATextConsole \<Rightarrow> u8 list \<Rightarrow> size_t \<Rightarrow> VGATextConsole res" where
  "writeString_n con data len =
     (let moveCursor = vc_cursorIsVisible con;
          con1 = (if moveCursor then setCursorVisible con False else con) in
      rbind (if unat len \<le> length data then put_all con1 (take (unat len) data) else Inl OutOfBounds) (\<lambda>con2.
      Inr (if moveCursor then setCursorVisible con2 True else con2)))"

definition writeString :: "VGATextConsole \<Rightarrow> u8 list \<Rightarrow> VGATextConsole res" where
  "writeString con data = rbind (cstrlen data) (writeString_n con data)"

section \<open>The output stream\<close>

definition doBackspace :: "VGATextConsole \<Rightarrow> VGATextConsole res" where
  "doBackspace con =
     (if vc_column con = 0
      then if vc_row con = 0 then putCharAt con 32 0 0
           else let con1 = moveTo con (vc_row con - 1) (VGA_WIDTH - 1) in
                putCharAt con1 32 (vc_row con1) (vc_column con1)
      else let con1 = moveTo con (vc_row con) (vc_column con - 1) in
           putCharAt con1 32 (vc_row con1) (vc_column con1))"

definition ConsoleOutputStream_write :: "VGATextConsole \<Rightarrow> u8 \<Rightarrow> VGATextConsole res" where
  "ConsoleOutputStream_write con byte = (if byte = 8 then doBackspace con else putChar con byte)"

section \<open>The panic screen\<close>

text \<open>A terminated C string of ASCII characters.\<close>

definition ascii :: "string \<Rightarrow> u8 list" where
  "ascii s = map of_char s"

definition cstr :: "string \<Rightarrow> u8 list" where
  "cstr s = map of_char s @ [0]"

lemma length_ascii [simp]: "length (ascii s) = length s"
  by (simp add: ascii_def)

lemma cstr_ascii: "cstr s = ascii s @ [0]"
  by (simp add: cstr_def ascii_def)

definition banner :: "string list" where
  "banner = [''* * * * * * * * * * * * * * * * * * * *'', ''* LAMBOS FOUND OUT ABOUT WHAT YOU DID *'',
             ''* * * * * * * * * * * * * * * * * * * *'']"

definition write_banner_line :: "nat \<Rightarrow> VGATextConsole \<Rightarrow> VGATextConsole res" where
  "write_banner_line i con =
     (let line = cstr (banner ! i) in
      rbind (cstrlen line) (\<lambda>bannerlength.
      let columnToCenter = (if VGA_WIDTH > bannerlength then (VGA_WIDTH - bannerlength) div 2 else 0) in
      writeString (moveTo con (of_nat i + 1) columnToCenter) line))"

text \<open>The search for the last space in a line: the line up to and including it.\<close>

fun break_line :: "StringView \<Rightarrow> nat \<Rightarrow> StringView res" where
  "break_line line 0 = Inr line"
| "break_line line (Suc j) =
     rbind (StringView_get line (of_nat j)) (\<lambda>c.
     if c = 32 then Inr (StringView_substring line 0 (of_nat (Suc j))) else break_line line j)"

definition view_data :: "StringView \<Rightarrow> u8 list" where
  "view_data v = (case sv_data v of None \<Rightarrow> [] | Some d \<Rightarrow> d)"

text \<open>The loop over the estimated lines; \<open>k\<close> lines are left.\<close>

fun panic_lines :: "nat \<Rightarrow> StringView \<Rightarrow> size_t \<Rightarrow> VGATextConsole \<Rightarrow> VGATextConsole res" where
  "panic_lines 0 wholeStr row con = Inr con"
| "panic_lines (Suc k) wholeStr row con =
     (let line = StringView_substring wholeStr 0 (VGA_WIDTH - 4) in
      if StringView_isEmpty line then Inr con
      else rbind (break_line line (unat (sv_size line))) (\<lambda>line1.
           let columnToCenter = (VGA_WIDTH - sv_size line1) div 2 in
           rbind (writeString_n (moveTo con row columnToCenter) (view_data line1) (sv_size line1)) (\<lambda>con1.
           panic_lines k (StringView_substring wholeStr (sv_size line1) (- 1)) (row + 1) con1)))"

text \<open>The screen drawn before the processor is halted.\<close>

definition panic_screen :: "VGATextConsole \<Rightarrow> u8 list \<Rightarrow> VGATextConsole res" where
  "panic_screen con str =
     rbind (cstrlen str) (\<lambda>len.
     rbind (Console_clear (setForegroundColor (setBackgroundColor con 4) 15)) (\<lambda>con1.
     rbind (rfor write_banner_line 0 3 con1) (\<lambda>con2.
     let rowToCenter = VGA_HEIGHT div 2; maxLineWidth = VGA_WIDTH - 4 in
     rbind (if len > maxLineWidth
            then let estimatedLines = len div maxLineWidth + (if len mod VGA_WIDTH \<noteq> 0 then 1 else 0);
                     row = rowToCenter - (estimatedLines div 2) in
                 rbind (StringView_of_cstr str) (\<lambda>wholeStr. panic_lines (unat estimatedLines) wholeStr row con2)
            else writeString (moveTo con2 rowToCenter ((VGA_WIDTH - len) div 2)) str) (\<lambda>con3.
     let msg = cstr ''0xL4MBOS'' in
     rbind (cstrlen msg) (\<lambda>n. writeString (moveTo con3 (VGA_HEIGHT - 2) ((VGA_WIDTH - n) div 2)) msg)))))"

section \<open>Invariant and abstract terminal\<close>

definition con_inv :: "VGATextConsole \<Rightarrow> bool" where
  "con_inv con \<longleftrightarrow> length (vc_buffer con) = 2000 \<and> vc_row con < 25 \<and> vc_column con < 80"

definition con_pos :: "VGATextConsole \<Rightarrow> nat" where
  "con_pos con = unat (vc_row con) * 80 + unat (vc_column con)"

definition blank :: "u8 \<Rightarrow> u16" where
  "blank color = make_vgaentry 32 color"

text \<open>A terminal is its cells and a position among them; the last cell of a row runs on to the next.\<close>

definition term_scroll :: "u8 \<Rightarrow> u16 list \<Rightarrow> u16 list" where
  "term_scroll color buf = drop 80 buf @ replicate 80 (blank color)"

definition term_put :: "u8 \<Rightarrow> u8 \<Rightarrow> u16 list \<times> nat \<Rightarrow> u16 list \<times> nat" where
  "term_put color c = (\<lambda>(buf, pos).
     if c = 10
     then if pos div 80 = 24 then (term_scroll color buf, 1920) else (buf, (pos div 80 + 1) * 80)
     else let buf1 = buf[pos := make_vgaentry c color] in
          if pos = 1999 then (term_scroll color buf1, 1920) else (buf1, pos + 1))"

definition term_erase :: "u8 \<Rightarrow> u16 list \<times> nat \<Rightarrow> u16 list \<times> nat" where
  "term_erase color = (\<lambda>(buf, pos). (buf[pos - 1 := blank color], pos - 1))"

section \<open>Cells\<close>

lemma cell_index:
  assumes "row < (25 :: size_t)" "col \<le> (80 :: size_t)"
  shows "unat (row * VGA_WIDTH + col) = unat row * 80 + unat col"
proof -
  have "unat row < 25" "unat col \<le> 80" using assms by (simp_all add: word_less_nat_alt word_le_nat_alt)
  then show ?thesis by (simp add: VGA_WIDTH_def unat_word_ariths)
qed

lemma cell_index_nat: "y < 25 \<Longrightarrow> x < 80 \<Longrightarrow> unat (of_nat y * VGA_WIDTH + of_nat x) = y * 80 + x"
  by (subst cell_index) (simp_all add: word_less_nat_alt word_le_nat_alt)

lemma putCharAt_ok:
  assumes "length (vc_buffer con) = 2000" "row < 25" "col < 80"
  shows "putCharAt con c row col
    = Inr (con\<lparr>vc_buffer := (vc_buffer con)[unat row * 80 + unat col := make_vgaentry c (vc_color con)]\<rparr>)"
proof -
  have "unat row < 25" "unat col < 80" "col \<le> 80" using assms by (auto simp: word_less_nat_alt word_le_nat_alt)
  then show ?thesis using cell_index[of row col] assms by (simp add: putCharAt_def)
qed

lemma take_update_snoc: "i < length xs \<Longrightarrow> take (Suc i) (xs[i := v]) = take i xs @ [v]"
  by (simp add: take_Suc_conv_app_nth)

lemma clear_row_loop:
  "y < 25 \<Longrightarrow> x + k \<le> 80 \<Longrightarrow> length (vc_buffer con) = 2000 \<Longrightarrow>
   rfor (\<lambda>x con. putCharAt con 32 (of_nat y) (of_nat x)) x k con
     = Inr (con\<lparr>vc_buffer := take (y * 80 + x) (vc_buffer con) @ replicate k (blank (vc_color con)) @ drop (y * 80 + x + k) (vc_buffer con)\<rparr>)"
proof (induction k arbitrary: x con)
  case (Suc k)
  let ?i = "y * 80 + x" and ?b = "blank (vc_color con)"
  let ?con = "con\<lparr>vc_buffer := (vc_buffer con)[?i := ?b]\<rparr>"
  have i: "?i < length (vc_buffer con)" using Suc.prems by simp
  have "putCharAt con 32 (of_nat y) (of_nat x) = Inr ?con"
    using putCharAt_ok[of con "of_nat y" "of_nat x" 32] Suc.prems by (simp add: word_less_nat_alt blank_def)
  moreover have "take (Suc ?i) ((vc_buffer con)[?i := ?b]) = take ?i (vc_buffer con) @ [?b]"
    using i by (rule take_update_snoc)
  ultimately show ?case using Suc.IH[of "Suc x" ?con] Suc.prems by simp
qed simp

lemma clear_rows_ok:
  assumes "r \<le> 25" "length (vc_buffer con) = 2000"
  shows "clear_rows con r
    = Inr (con\<lparr>vc_buffer := take (r * 80) (vc_buffer con) @ replicate ((25 - r) * 80) (blank (vc_color con))\<rparr>)"
proof -
  have "rfor (\<lambda>y con. rfor (\<lambda>x con. putCharAt con 32 (of_nat y) (of_nat x)) 0 80 con) y k con
    = Inr (con\<lparr>vc_buffer := take (y * 80) (vc_buffer con) @ replicate (k * 80) (blank (vc_color con)) @ drop ((y + k) * 80) (vc_buffer con)\<rparr>)"
    if "y + k \<le> 25" "length (vc_buffer con) = 2000" for y k con
    using that
  proof (induction k arbitrary: y con)
    case (Suc k)
    let ?b = "blank (vc_color con)"
    let ?con = "con\<lparr>vc_buffer := take (y * 80) (vc_buffer con) @ replicate 80 ?b @ drop (y * 80 + 80) (vc_buffer con)\<rparr>"
    have row: "rfor (\<lambda>x con. putCharAt con 32 (of_nat y) (of_nat x)) 0 80 con = Inr ?con"
      using clear_row_loop[of y 0 80 con] Suc.prems by simp
    have "take (Suc y * 80) (vc_buffer ?con) = take (y * 80) (vc_buffer con) @ replicate 80 ?b"
      "drop ((Suc y + k) * 80) (vc_buffer ?con) = drop ((y + Suc k) * 80) (vc_buffer con)"
      using Suc.prems by (simp_all add: algebra_simps)
    moreover have "replicate (Suc k * 80) ?b = replicate 80 ?b @ replicate (k * 80) ?b" by (simp flip: replicate_add)
    ultimately show ?case using Suc.IH[of "Suc y" ?con] Suc.prems row by simp
  qed simp
  from this[of r "25 - r" con] assms show ?thesis by (simp add: clear_rows_def VGA_WIDTH_def VGA_HEIGHT_def)
qed

lemma scroll_ok:
  assumes "length (vc_buffer con) = 2000"
  shows "scroll con 1 = Inr (con\<lparr>vc_buffer := term_scroll (vc_color con) (vc_buffer con)\<rparr>)"
proof -
  let ?con = "con\<lparr>vc_buffer := take 1920 (drop 80 (vc_buffer con)) @ drop 1920 (vc_buffer con), vc_row := 24\<rparr>"
  have "clear_rows ?con 24 = Inr (?con\<lparr>vc_buffer := take 1920 (vc_buffer ?con) @ replicate 80 (blank (vc_color con))\<rparr>)"
    using clear_rows_ok[of 24 ?con] assms by simp
  moreover have "take 1920 (vc_buffer ?con) = drop 80 (vc_buffer con)" using assms by simp
  ultimately show ?thesis using assms by (simp add: scroll_def VGA_WIDTH_def VGA_HEIGHT_def term_scroll_def Let_def)
qed

lemma moveTo_simps [simp]:
  "vc_row (moveTo con r c) = r" "vc_column (moveTo con r c) = c" "vc_buffer (moveTo con r c) = vc_buffer con"
  "vc_color (moveTo con r c) = vc_color con" "vc_cursorIsVisible (moveTo con r c) = vc_cursorIsVisible con"
  by (simp_all add: moveTo_def move_cursor_to_def Let_def)

lemma setCursorVisible_simps [simp]:
  "vc_row (setCursorVisible con v) = vc_row con" "vc_column (setCursorVisible con v) = vc_column con"
  "vc_buffer (setCursorVisible con v) = vc_buffer con" "vc_color (setCursorVisible con v) = vc_color con"
  "vc_cursorIsVisible (setCursorVisible con v) = v"
  by (simp_all add: setCursorVisible_def move_cursor_to_def Let_def)

text \<open>The two bytes sent to the controller are the halves of the position.\<close>

lemma cursor_bytes: "(ucast (ucast (p AND 0xFF) :: u8) OR push_bit 8 (ucast ((ucast (drop_bit 8 p) :: u8) AND 0xFF))) = (p :: u16)"
  by (rule bit_eqI) (auto simp: bit_simps bit_255)

lemma move_cursor_to_register [simp]: "vc_cursor (move_cursor_to con r c) = r * 80 + c"
  unfolding move_cursor_to_def Let_def by (simp only: cursor_bytes) simp

lemma cursor_register:
  "vc_cursorIsVisible con \<Longrightarrow> r < 25 \<Longrightarrow> c < 80 \<Longrightarrow> unat (vc_cursor (moveTo con r c)) = unat r * 80 + unat c"
proof -
  assume v: "vc_cursorIsVisible con" and rc: "r < 25" "c < 80"
  then have "unat r < 25" "unat c < 80" by (simp_all add: word_less_nat_alt)
  then show ?thesis using v
    by (simp add: moveTo_def Let_def unat_word_ariths unsigned_ucast_eq take_bit_nat_eq_self)
qed

section \<open>The console implements the terminal\<close>

lemma con_bounds: "con_inv con \<Longrightarrow> unat (vc_row con) < 25 \<and> unat (vc_column con) < 80 \<and> con_pos con < 2000"
  by (auto simp: con_inv_def con_pos_def word_less_nat_alt)

lemma con_pos_div: "con_inv con \<Longrightarrow> con_pos con div 80 = unat (vc_row con)"
  using con_bounds[of con] by (simp add: con_pos_def)

text \<open>What an operation that writes characters keeps.\<close>

definition same_look :: "VGATextConsole \<Rightarrow> VGATextConsole \<Rightarrow> bool" where
  "same_look con con' \<longleftrightarrow> vc_color con' = vc_color con \<and> vc_cursorIsVisible con' = vc_cursorIsVisible con"

lemma same_look_trans: "same_look a b \<Longrightarrow> same_look b c \<Longrightarrow> same_look a c"
  by (simp add: same_look_def)

lemma next_row_ok:
  assumes "length (vc_buffer con) = 2000" "vc_row con < 25"
  shows "\<exists>con'. next_row con = Inr con' \<and> con_inv con' \<and> same_look con con' \<and> vc_column con' = 0
    \<and> (if unat (vc_row con) = 24 then vc_buffer con' = term_scroll (vc_color con) (vc_buffer con) \<and> vc_row con' = 24
       else vc_buffer con' = vc_buffer con \<and> unat (vc_row con') = unat (vc_row con) + 1)"
proof -
  let ?con = "con\<lparr>vc_column := 0, vc_row := vc_row con + 1\<rparr>"
  have r: "unat (vc_row con + 1) = unat (vc_row con) + 1" "unat (vc_row con) < 25"
    using assms(2) by (simp_all add: word_less_nat_alt unat_word_ariths)
  then have e: "vc_row con + 1 = VGA_HEIGHT \<longleftrightarrow> unat (vc_row con) = 24" by (auto simp: VGA_HEIGHT_def word32_eq_iff_unat)
  show ?thesis
  proof (cases "unat (vc_row con) = 24")
    case True
    have "length (term_scroll (vc_color con) (vc_buffer con)) = 2000" using assms(1) by (simp add: term_scroll_def)
    then show ?thesis using True e scroll_ok[of ?con] assms
      by (simp add: next_row_def Let_def con_inv_def same_look_def VGA_HEIGHT_def)
  next
    case False
    then have "vc_row con + 1 < 25" using r by (simp add: word_less_nat_alt)
    then show ?thesis using False e r assms by (simp add: next_row_def Let_def con_inv_def same_look_def)
  qed
qed

lemma putChar_ok:
  assumes inv: "con_inv con"
  shows "\<exists>con'. putChar con c = Inr con' \<and> con_inv con' \<and> same_look con con'
    \<and> (vc_buffer con', con_pos con') = term_put (vc_color con) c (vc_buffer con, con_pos con)
    \<and> (vc_cursorIsVisible con \<longrightarrow> unat (vc_cursor con') = con_pos con')"
proof -
  have len: "length (vc_buffer con) = 2000" and lt: "vc_row con < 25" "vc_column con < 80" using inv by (auto simp: con_inv_def)
  note b = con_bounds[OF inv]
  let ?step = "if c = 10 then next_row con
    else rbind (putCharAt con c (vc_row con) (vc_column con)) (\<lambda>con1.
         let con2 = con1\<lparr>vc_column := vc_column con1 + 1\<rparr> in if vc_column con2 = VGA_WIDTH then next_row con2 else Inr con2)"
  have "\<exists>con3. ?step = Inr con3 \<and> con_inv con3 \<and> same_look con con3
    \<and> (vc_buffer con3, con_pos con3) = term_put (vc_color con) c (vc_buffer con, con_pos con)"
  proof (cases "c = 10")
    case True
    then show ?thesis using next_row_ok[OF len lt(1)] con_pos_div[OF inv] by (auto simp: term_put_def con_pos_def)
  next
    case False
    let ?buf = "(vc_buffer con)[con_pos con := make_vgaentry c (vc_color con)]"
    let ?con = "con\<lparr>vc_buffer := ?buf, vc_column := vc_column con + 1\<rparr>"
    have p: "putCharAt con c (vc_row con) (vc_column con) = Inr (con\<lparr>vc_buffer := ?buf\<rparr>)"
      using putCharAt_ok[OF len lt] by (simp add: con_pos_def)
    have u: "unat (vc_column con + 1) = unat (vc_column con) + 1" using b by (simp add: unat_word_ariths)
    have w: "vc_column con + 1 = VGA_WIDTH \<longleftrightarrow> unat (vc_column con) = 79" using u by (auto simp: VGA_WIDTH_def word32_eq_iff_unat)
    show ?thesis
    proof (cases "unat (vc_column con) = 79")
      case True
      have "con_pos con = 1999 \<longleftrightarrow> unat (vc_row con) = 24" using True by (auto simp: con_pos_def)
      moreover have "length (vc_buffer ?con) = 2000" "vc_row ?con < 25" using len lt by simp_all
      from next_row_ok[OF this] obtain con3 where c3: "next_row ?con = Inr con3" "con_inv con3" "same_look ?con con3" "vc_column con3 = 0"
        "if unat (vc_row con) = 24 then vc_buffer con3 = term_scroll (vc_color con) ?buf \<and> vc_row con3 = 24
         else vc_buffer con3 = ?buf \<and> unat (vc_row con3) = unat (vc_row con) + 1" by auto
      moreover have "?step = Inr con3" using p w True False c3(1) by simp
      moreover have "same_look con con3" using c3(3) by (simp add: same_look_def)
      ultimately show ?thesis using False True
        by (cases "unat (vc_row con) = 24") (simp_all add: term_put_def con_pos_def)
    next
      case nw: False
      have "con_pos con \<noteq> 1999" using nw b by (auto simp: con_pos_def)
      moreover have "vc_column con + 1 < 80" using nw u b by (simp add: word_less_nat_alt)
      moreover have "con_pos ?con = con_pos con + 1" using u by (simp add: con_pos_def)
      ultimately show ?thesis using p w nw False len lt
        by (simp add: term_put_def con_inv_def same_look_def Let_def)
    qed
  qed
  then obtain con3 where c3: "?step = Inr con3" "con_inv con3" "same_look con con3"
    "(vc_buffer con3, con_pos con3) = term_put (vc_color con) c (vc_buffer con, con_pos con)" by blast
  let ?con = "moveTo con3 (vc_row con3) (vc_column con3)"
  have "putChar con c = Inr ?con" unfolding putChar_def c3(1) by simp
  moreover have "con_inv ?con" "same_look con ?con" "con_pos ?con = con_pos con3" "vc_buffer ?con = vc_buffer con3"
    using c3 by (simp_all add: con_inv_def same_look_def con_pos_def)
  moreover have "unat (vc_cursor ?con) = con_pos ?con" if "vc_cursorIsVisible con"
    using cursor_register[of con3 "vc_row con3" "vc_column con3"] c3(2,3) that
    by (simp add: con_inv_def same_look_def con_pos_def)
  ultimately show ?thesis using c3(4) by metis
qed

lemma put_all_ok:
  "con_inv con \<Longrightarrow> \<exists>con'. put_all con cs = Inr con' \<and> con_inv con' \<and> same_look con con'
    \<and> (vc_buffer con', con_pos con') = fold (term_put (vc_color con)) cs (vc_buffer con, con_pos con)"
proof (induction cs arbitrary: con)
  case Nil
  then show ?case by (simp add: same_look_def)
next
  case (Cons c cs)
  from putChar_ok[OF Cons.prems, of c] obtain con1 where c1: "putChar con c = Inr con1" "con_inv con1" "same_look con con1"
    "(vc_buffer con1, con_pos con1) = term_put (vc_color con) c (vc_buffer con, con_pos con)" by blast
  from Cons.IH[OF c1(2)] obtain con' where "put_all con1 cs = Inr con'" "con_inv con'" "same_look con1 con'"
    "(vc_buffer con', con_pos con') = fold (term_put (vc_color con1)) cs (vc_buffer con1, con_pos con1)" by blast
  then show ?case using c1 same_look_trans[OF c1(3)] by (simp add: same_look_def)
qed

lemma writeString_n_ok:
  assumes "con_inv con" "unat n \<le> length data"
  shows "\<exists>con'. writeString_n con data n = Inr con' \<and> con_inv con' \<and> same_look con con'
    \<and> (vc_buffer con', con_pos con') = fold (term_put (vc_color con)) (take (unat n) data) (vc_buffer con, con_pos con)"
proof -
  let ?con = "if vc_cursorIsVisible con then setCursorVisible con False else con"
  have "con_inv ?con" "con_pos ?con = con_pos con" using assms(1) by (simp_all add: con_inv_def con_pos_def)
  with put_all_ok[of ?con "take (unat n) data"] obtain con1 where "put_all ?con (take (unat n) data) = Inr con1" "con_inv con1"
    "same_look ?con con1" "(vc_buffer con1, con_pos con1) = fold (term_put (vc_color con)) (take (unat n) data) (vc_buffer con, con_pos con)"
    by (auto split: if_splits)
  then show ?thesis using assms(2)
    by (auto simp: writeString_n_def Let_def con_inv_def con_pos_def same_look_def split: if_splits)
qed

lemma doBackspace_ok:
  assumes inv: "con_inv con"
  shows "\<exists>con'. doBackspace con = Inr con' \<and> con_inv con' \<and> same_look con con'
    \<and> (vc_buffer con', con_pos con') = term_erase (vc_color con) (vc_buffer con, con_pos con)"
proof (cases "con_pos con = 0")
  case True
  then have "vc_row con = 0" "vc_column con = 0" by (simp_all add: con_pos_def word32_eq_iff_unat)
  then show ?thesis using inv putCharAt_ok[of con 0 0 32]
    by (simp add: doBackspace_def con_inv_def same_look_def term_erase_def con_pos_def blank_def)
next
  case False
  let ?r = "if vc_column con = 0 then vc_row con - 1 else vc_row con"
  let ?k = "if vc_column con = 0 then VGA_WIDTH - 1 else vc_column con - 1"
  have b: "unat (vc_row con) < 25" "unat (vc_column con) < 80" "length (vc_buffer con) = 2000"
    using con_bounds[OF inv] inv by (auto simp: con_inv_def)
  have nz: "vc_row con \<noteq> 0" if "vc_column con = 0" using False that by (auto simp: con_pos_def)
  have rk: "unat ?r * 80 + unat ?k = con_pos con - 1 \<and> unat ?r < 25 \<and> unat ?k < 80"
  proof (cases "vc_column con = 0")
    case True
    then have "0 < unat (vc_row con)" using nz by (simp add: unat_gt_0)
    then obtain n where "unat (vc_row con) = Suc n" by (cases "unat (vc_row con)") auto
    then show ?thesis using True nz b by (simp add: con_pos_def VGA_WIDTH_def unat_minus_one)
  next
    case False
    then have "0 < unat (vc_column con)" by (simp add: unat_gt_0)
    then show ?thesis using False b by (simp add: con_pos_def unat_minus_one)
  qed
  have "putCharAt (moveTo con ?r ?k) 32 ?r ?k = Inr ((moveTo con ?r ?k)\<lparr>vc_buffer := (vc_buffer con)[con_pos con - 1 := blank (vc_color con)]\<rparr>)"
    using putCharAt_ok[of "moveTo con ?r ?k" ?r ?k 32] rk b(3) by (simp add: word_less_nat_alt blank_def)
  then have "doBackspace con = Inr ((moveTo con ?r ?k)\<lparr>vc_buffer := (vc_buffer con)[con_pos con - 1 := blank (vc_color con)]\<rparr>)"
    using nz by (simp add: doBackspace_def Let_def split: if_splits)
  then show ?thesis using rk b
    by (simp add: con_inv_def con_pos_def word_less_nat_alt same_look_def term_erase_def)
qed

section \<open>Text on one row\<close>

lemma fold_put_plain:
  "10 \<notin> set cs \<Longrightarrow> pos + length cs < 2000 \<Longrightarrow> length buf = 2000 \<Longrightarrow>
   fold (term_put color) cs (buf, pos) = (take pos buf @ map (\<lambda>c. make_vgaentry c color) cs @ drop (pos + length cs) buf, pos + length cs)"
proof (induction cs arbitrary: buf pos)
  case (Cons c cs)
  let ?buf = "buf[pos := make_vgaentry c color]"
  have "term_put color c (buf, pos) = (?buf, Suc pos)" using Cons.prems by (simp add: term_put_def Let_def)
  moreover have "take (Suc pos) ?buf = take pos buf @ [make_vgaentry c color]"
    using Cons.prems by (intro take_update_snoc) simp
  ultimately show ?case using Cons.IH[of "Suc pos" ?buf] Cons.prems by simp
qed simp

lemma nth_splice:
  "p + length ys \<le> length xs \<Longrightarrow> i < length xs \<Longrightarrow>
   (take p xs @ ys @ drop (p + length ys) xs) ! i = (if p \<le> i \<and> i < p + length ys then ys ! (i - p) else xs ! i)"
  by (auto simp: nth_append)

text \<open>A console after \<open>cs\<close> has been written at cell \<open>pos\<close>.\<close>

definition wrote_at :: "VGATextConsole \<Rightarrow> nat \<Rightarrow> u8 list \<Rightarrow> VGATextConsole \<Rightarrow> bool" where
  "wrote_at con pos cs con' \<longleftrightarrow> con_inv con' \<and> vc_color con' = vc_color con
     \<and> (\<forall>i<2000. vc_buffer con' ! i = (if pos \<le> i \<and> i < pos + length cs then make_vgaentry (cs ! (i - pos)) (vc_color con)
                                        else vc_buffer con ! i))"

lemma write_at:
  assumes inv: "con_inv con" and cs: "10 \<notin> set cs" "0 \<notin> set cs" and r: "unat r < 25" "unat k < 80"
    and fit: "unat r * 80 + unat k + length cs < 2000"
  shows "\<exists>con'. writeString (moveTo con r k) (cs @ [0]) = Inr con' \<and> wrote_at con (unat r * 80 + unat k) cs con'"
proof -
  let ?con = "moveTo con r k" and ?p = "unat r * 80 + unat k"
  have c: "con_inv ?con" "con_pos ?con = ?p" "length (vc_buffer con) = 2000"
    using inv r by (simp_all add: con_inv_def con_pos_def word_less_nat_alt)
  have n: "unat (of_nat (length cs) :: size_t) = length cs" using fit by simp
  from writeString_n_ok[OF c(1), of "of_nat (length cs)" "cs @ [0]"] n obtain con' where
    w: "writeString_n ?con (cs @ [0]) (of_nat (length cs)) = Inr con'" "con_inv con'" "same_look ?con con'"
    "(vc_buffer con', con_pos con') = fold (term_put (vc_color con)) cs (vc_buffer con, ?p)"
    using c by auto
  have b: "vc_buffer con' = take ?p (vc_buffer con) @ map (\<lambda>c. make_vgaentry c (vc_color con)) cs @ drop (?p + length cs) (vc_buffer con)"
    using w(4) fold_put_plain[OF cs(1) fit c(3)] by simp
  have "wrote_at con ?p cs con'" using w(2,3) c(3) fit nth_splice[of ?p "map (\<lambda>c. make_vgaentry c (vc_color con)) cs" "vc_buffer con"]
    by (auto simp: wrote_at_def same_look_def b)
  moreover have "writeString ?con (cs @ [0]) = Inr con'"
    using w(1) cstrlen_ok[OF cs(2), of "[]"] by (simp add: writeString_def)
  ultimately show ?thesis by blast
qed

lemma banner_ok:
  assumes "con_inv con" "i < 3"
  shows "\<exists>con'. write_banner_line i con = Inr con' \<and> wrote_at con ((i + 1) * 80 + 20) (map of_char (banner ! i)) con'"
proof -
  let ?cs = "map of_char (banner ! i) :: u8 list"
  have cases: "i = 0 \<or> i = 1 \<or> i = 2" using assms(2) by auto
  have len: "length ?cs = 39" and plain: "10 \<notin> set ?cs" "0 \<notin> set ?cs"
    using cases by (auto simp: banner_def of_char_def)
  have u: "unat (of_nat i + 1 :: size_t) = i + 1" using cases by auto
  have "cstrlen (cstr (banner ! i)) = Inr 39"
    using cstrlen_ok[OF plain(2), of "[]"] len by (simp add: cstr_def)
  then have e: "write_banner_line i con = writeString (moveTo con (of_nat i + 1) 20) (?cs @ [0])"
    by (simp add: write_banner_line_def cstr_def VGA_WIDTH_def)
  from write_at[OF assms(1) plain, of "of_nat i + 1" 20] u len assms(2) e show ?thesis by auto
qed

lemma panic_color:
  "vc_color (setForegroundColor (setBackgroundColor con 4) 15) = 0x4F"
proof -
  have "(ucast (ucast ((ucast c AND 0x0F) OR push_bit 4 4 :: u32) :: u8) AND 0xF0 :: u32) = 0x40" for c :: u8
  proof (rule bit_eqI)
    fix n
    have b: "bit (0x0F :: int) n \<longleftrightarrow> n < 4" "bit (0xF0 :: int) n \<longleftrightarrow> 4 \<le> n \<and> n < 8" "bit (0x40 :: int) n \<longleftrightarrow> n = 6" for n
    proof -
      have m: "(0x0F :: int) = mask 4" "(0xF0 :: int) = push_bit 4 (mask 4)" "(0x40 :: int) = 2 ^ 6"
        by (simp_all add: mask_eq_exp_minus_1 push_bit_eq_mult)
      show "bit (0x0F :: int) n \<longleftrightarrow> n < 4" unfolding m by (simp add: bit_mask_iff)
      show "bit (0xF0 :: int) n \<longleftrightarrow> 4 \<le> n \<and> n < 8" unfolding m by (auto simp: bit_push_bit_iff bit_mask_iff)
      show "bit (0x40 :: int) n \<longleftrightarrow> n = 6" by (simp only: m(3) bit_exp_iff possible_bit_int) auto
    qed
    show "bit (ucast (ucast ((ucast c AND 0x0F) OR push_bit 4 4 :: u32) :: u8) AND 0xF0 :: u32) n \<longleftrightarrow> bit (0x40 :: u32) n"
      by (auto simp: bit_simps b)
  qed
  then show ?thesis by (simp add: setForegroundColor_def setBackgroundColor_def)
qed

lemma Console_clear_ok:
  assumes "length (vc_buffer con) = 2000"
  shows "\<exists>con'. Console_clear con = Inr con' \<and> con_inv con' \<and> vc_color con' = vc_color con
    \<and> (\<forall>i<2000. vc_buffer con' ! i = blank (vc_color con))"
  using clear_rows_ok[of 0 con] assms by (simp add: Console_clear_def con_inv_def)

lemma wrote_at_inv: "wrote_at con p cs con' \<Longrightarrow> con_inv con' \<and> vc_color con' = vc_color con"
  by (simp add: wrote_at_def)

lemma wrote_at_other: "wrote_at con p cs con' \<Longrightarrow> i < 2000 \<Longrightarrow> i < p \<or> p + length cs \<le> i \<Longrightarrow> vc_buffer con' ! i = vc_buffer con ! i"
  by (auto simp: wrote_at_def)

lemma wrote_at_cell:
  "wrote_at con p cs con' \<Longrightarrow> p + j < 2000 \<Longrightarrow> j < length cs \<Longrightarrow> vc_buffer con' ! (p + j) = make_vgaentry (cs ! j) (vc_color con)"
  by (simp add: wrote_at_def)

lemma banner_inv:
  assumes "con_inv con" "i < 3"
  obtains con' where "write_banner_line i con = Inr con'" "con_inv con'" "vc_color con' = vc_color con"
proof -
  from banner_ok[OF assms] obtain con' where "write_banner_line i con = Inr con'"
    and w: "wrote_at con ((i + 1) * 80 + 20) (map of_char (banner ! i)) con'" by blast
  with wrote_at_inv[OF w] show thesis using that by blast
qed

lemma banners_ok:
  assumes "con_inv con"
  shows "\<exists>con'. rfor write_banner_line 0 3 con = Inr con' \<and> con_inv con' \<and> vc_color con' = vc_color con"
proof -
  obtain c1 where c1: "write_banner_line 0 con = Inr c1" "con_inv c1" "vc_color c1 = vc_color con"
    using banner_inv[OF assms, of 0] by auto
  obtain c2 where c2: "write_banner_line 1 c1 = Inr c2" "con_inv c2" "vc_color c2 = vc_color con"
    using banner_inv[OF c1(2), of 1] c1(3) by auto
  obtain c3 where "write_banner_line 2 c2 = Inr c3" "con_inv c3" "vc_color c3 = vc_color con"
    using banner_inv[OF c2(2), of 2] c2(3) by auto
  then show ?thesis using c1 c2 by (simp add: numeral_3_eq_3 numeral_2_eq_2)
qed

section \<open>Properties\<close>

text \<open>
  C24. Writing a string implements the abstract terminal: from any state with the cursor on the
  screen, every character goes to the cell at the cursor in the current colour or ends the
  row, the cursor moves on, and the screen scrolls by one blank row at its end. It never
  writes outside the text memory and keeps the cursor on the screen.
\<close>

theorem writeString_refines_terminal:
  assumes "con_inv con" "0 \<notin> set cs" "length cs < 2 ^ 32"
  shows "\<exists>con'. writeString con (cs @ [0]) = Inr con' \<and> con_inv con' \<and> vc_color con' = vc_color con
    \<and> (vc_buffer con', con_pos con') = fold (term_put (vc_color con)) cs (vc_buffer con, con_pos con)"
  using writeString_n_ok[OF assms(1), of "of_nat (length cs)" "cs @ [0]"] cstrlen_ok[OF assms(2), of "[]"] assms(3)
  by (auto simp: writeString_def same_look_def)

definition example_console :: VGATextConsole where
  "example_console = \<lparr>vc_cursorIsVisible = True, vc_row = 24, vc_column = 79, vc_color = 7,
     vc_buffer = replicate 2000 (blank 7), vc_cursor = 0\<rparr>"

lemma example_console_inv: "con_inv example_console"
  by (simp add: con_inv_def example_console_def)

theorem writeString_refines_terminal_witness:
  "\<exists>con'. writeString example_console [65, 0] = Inr con' \<and> con_pos con' = 1920"
  using writeString_refines_terminal[OF example_console_inv, of "[65]"]
  by (auto simp: term_put_def example_console_def con_pos_def)

text \<open>
  A backspace after a printable character undoes it: the cursor is back where it was and
  the cell under it is blank, unless the character was written in the last cell and scrolled
  the screen.
\<close>

theorem backspace_undoes:
  assumes inv: "con_inv con" and c: "c \<noteq> 10" "c \<noteq> 8" and pos: "con_pos con < 1999"
  shows "\<exists>con1 con2. ConsoleOutputStream_write con c = Inr con1 \<and> ConsoleOutputStream_write con1 8 = Inr con2
    \<and> con_inv con2 \<and> con_pos con2 = con_pos con
    \<and> vc_buffer con2 = (vc_buffer con)[con_pos con := blank (vc_color con)]"
proof -
  from putChar_ok[OF inv, of c] obtain con1 where c1: "putChar con c = Inr con1" "con_inv con1" "same_look con con1"
    "vc_buffer con1 = (vc_buffer con)[con_pos con := make_vgaentry c (vc_color con)]" "con_pos con1 = con_pos con + 1"
    using c pos by (auto simp: term_put_def Let_def)
  from doBackspace_ok[OF c1(2)] c1 show ?thesis using c
    by (auto simp: ConsoleOutputStream_write_def term_erase_def Let_def same_look_def)
qed

theorem backspace_undoes_witness:
  "\<exists>con1 con2. ConsoleOutputStream_write (moveTo example_console 3 79) 65 = Inr con1
    \<and> ConsoleOutputStream_write con1 8 = Inr con2 \<and> con_pos con2 = 319"
proof -
  have "con_inv (moveTo example_console 3 79)" "con_pos (moveTo example_console 3 79) = 319"
    by (simp_all add: con_inv_def con_pos_def example_console_def)
  then show ?thesis using backspace_undoes[of "moveTo example_console 3 79" 65] by auto
qed

text \<open>
  The panic screen of a message that fits one line never faults and shows the message:
  its characters stand centred in row 12, white on red.
\<close>

theorem panic_shows_message:
  assumes inv: "con_inv con" and cs: "10 \<notin> set cs" "0 \<notin> set cs" "length cs \<le> 76"
  shows "\<exists>con'. panic_screen con (cs @ [0]) = Inr con'
    \<and> (\<forall>j<length cs. vc_buffer con' ! (12 * 80 + (80 - length cs) div 2 + j) = make_vgaentry (cs ! j) 0x4F)"
proof -
  let ?con0 = "setForegroundColor (setBackgroundColor con 4) 15"
  let ?k = "(VGA_WIDTH - of_nat (length cs)) div 2" and ?n = "of_nat (length cs) :: size_t"
  have "length (vc_buffer ?con0) = 2000" using inv by (simp add: con_inv_def setForegroundColor_def setBackgroundColor_def)
  from Console_clear_ok[OF this] obtain c1 where c1: "Console_clear ?con0 = Inr c1" "con_inv c1" "vc_color c1 = 0x4F"
    using panic_color by metis
  from banners_ok[OF c1(2)] obtain c2 where c2: "rfor write_banner_line 0 3 c1 = Inr c2" "con_inv c2" "vc_color c2 = 0x4F"
    using c1(3) by metis
  have n: "unat ?n = length cs" using cs(3) by simp
  have k: "unat ?k = (80 - length cs) div 2"
    using cs(3) n by (simp add: VGA_WIDTH_def unat_div_distrib unat_sub word_le_nat_alt)
  have r: "unat (VGA_HEIGHT div 2) = 12" by (simp add: VGA_HEIGHT_def)
  have kk: "(80 - length cs) div 2 < 80" by linarith
  from write_at[OF c2(2) cs(1,2), of "VGA_HEIGHT div 2" ?k] r k kk cs(3) obtain c3 where
    c3: "writeString (moveTo c2 (VGA_HEIGHT div 2) ?k) (cs @ [0]) = Inr c3" "wrote_at c2 (960 + (80 - length cs) div 2) cs c3"
    by auto
  let ?msg = "map of_char ''0xL4MBOS'' :: u8 list"
  have m: "cstr ''0xL4MBOS'' = ?msg @ [0]" "10 \<notin> set ?msg" "0 \<notin> set ?msg" "length ?msg = 8"
    by (simp_all add: cstr_def of_char_def)
  have mc: "cstrlen (?msg @ [0]) = Inr 8" using cstrlen_ok[OF m(3), of "[]"] m(4) by simp
  from write_at[OF _ m(2,3), of c3 "VGA_HEIGHT - 2" "(VGA_WIDTH - 8) div 2"] wrote_at_inv[OF c3(2)] m(4) obtain c4 where
    c4: "writeString (moveTo c3 (VGA_HEIGHT - 2) ((VGA_WIDTH - 8) div 2)) (?msg @ [0]) = Inr c4" "wrote_at c3 1876 ?msg c4"
    by (auto simp: VGA_HEIGHT_def VGA_WIDTH_def)
  have len: "cstrlen (cs @ [0]) = Inr ?n" using cstrlen_ok[OF cs(2), of "[]"] by simp
  have "\<not> ?n > VGA_WIDTH - 4" using n cs(3) by (simp add: VGA_WIDTH_def word_less_nat_alt)
  then have e: "panic_screen con (cs @ [0]) = Inr c4"
    unfolding panic_screen_def len rbind_simps c1(1) c2(1) Let_def m(1) using c3(1) c4(1) mc by simp
  have "vc_buffer c4 ! (12 * 80 + (80 - length cs) div 2 + j) = make_vgaentry (cs ! j) 0x4F" if "j < length cs" for j
  proof -
    have "(80 - length cs) div 2 + j < 916" using that cs(3) by linarith
    then show ?thesis using wrote_at_other[OF c4(2), of "960 + (80 - length cs) div 2 + j"] wrote_at_cell[OF c3(2), of j] that cs(3) c2(3) by simp
  qed
  then show ?thesis using e by blast
qed

theorem panic_shows_message_witness:
  "\<exists>con'. panic_screen example_console [79, 75, 0] = Inr con' \<and> vc_buffer con' ! 999 = make_vgaentry 79 0x4F"
  using panic_shows_message[OF example_console_inv, of "[79, 75]"] by auto

end
