(* ===== verification/Paths.thy ===== *)
theory Paths
  imports Strings
begin

text \<open>
  The tokenizer (\<open>libsys/src/util/StringTokenizer.cpp\<close>) and file system paths
  (\<open>libsys/src/fs/Path.cpp\<close>). The list of components of a path is an \<open>ArrayList\<close> of strings.
\<close>

section \<open>The tokenizer\<close>

record StringTokenizer =
  st_string :: BasicString
  st_delimiters :: BasicString
  st_currentIndex :: size_t

definition StringTokenizer_new :: "u8 \<Rightarrow> BasicString \<Rightarrow> BasicString \<Rightarrow> StringTokenizer res" where
  "StringTokenizer_new g str delimiters =
     rbind (BasicString_copy g str) (\<lambda>s. rbind (BasicString_copy g delimiters) (\<lambda>d.
     Inr \<lparr>st_string = s, st_delimiters = d, st_currentIndex = 0\<rparr>))"

text \<open>The inner loop of \<open>tokenStart\<close> and \<open>tokenEnd\<close>: is \<open>c\<close> one of the delimiters from \<open>d\<close> on?\<close>

fun delim_loop :: "BasicString \<Rightarrow> u8 \<Rightarrow> nat \<Rightarrow> nat \<Rightarrow> bool res" where
  "delim_loop ds c d 0 = Inr False"
| "delim_loop ds c d (Suc k) =
     rbind (BasicString_get ds (of_nat d)) (\<lambda>e. if c = e then Inr True else delim_loop ds c (Suc d) k)"

definition isDelim :: "StringTokenizer \<Rightarrow> nat \<Rightarrow> bool res" where
  "isDelim t i = rbind (BasicString_get (st_string t) (of_nat i)) (\<lambda>c.
     delim_loop (st_delimiters t) c 0 (unat (bs_size (st_delimiters t))))"

text \<open>The outer loops; \<open>k\<close> characters are left.\<close>

fun tokenStart_loop :: "StringTokenizer \<Rightarrow> nat \<Rightarrow> nat \<Rightarrow> size_t res" where
  "tokenStart_loop t i 0 = Inr (bs_size (st_string t))"
| "tokenStart_loop t i (Suc k) =
     rbind (isDelim t i) (\<lambda>b. if \<not> b then Inr (of_nat i) else tokenStart_loop t (Suc i) k)"

fun tokenEnd_loop :: "StringTokenizer \<Rightarrow> nat \<Rightarrow> nat \<Rightarrow> size_t res" where
  "tokenEnd_loop t i 0 = Inr (bs_size (st_string t) - 1)"
| "tokenEnd_loop t i (Suc k) =
     rbind (isDelim t i) (\<lambda>b. if b then Inr (of_nat i - 1) else tokenEnd_loop t (Suc i) k)"

definition tokenStart :: "StringTokenizer \<Rightarrow> size_t \<Rightarrow> size_t res" where
  "tokenStart t startIndex = tokenStart_loop t (unat startIndex) (unat (bs_size (st_string t)) - unat startIndex)"

definition tokenEnd :: "StringTokenizer \<Rightarrow> size_t \<Rightarrow> size_t res" where
  "tokenEnd t startIndex = tokenEnd_loop t (unat startIndex) (unat (bs_size (st_string t)) - unat startIndex)"

definition hasNextToken :: "StringTokenizer \<Rightarrow> bool res" where
  "hasNextToken t = rbind (tokenStart t (st_currentIndex t)) (\<lambda>i. Inr (i \<noteq> bs_size (st_string t)))"

definition nextToken :: "u8 \<Rightarrow> StringTokenizer \<Rightarrow> (BasicString \<times> StringTokenizer) res" where
  "nextToken g t =
     rbind (tokenStart t (st_currentIndex t)) (\<lambda>i.
     let t1 = t\<lparr>st_currentIndex := i\<rparr> in
     if st_currentIndex t1 = bs_size (st_string t1) then Inr (BasicString_new, t1)
     else let start = st_currentIndex t1 in
          rbind (tokenEnd t1 start) (\<lambda>e.
          let en = e + 1; t2 = t1\<lparr>st_currentIndex := en\<rparr> in
          rbind (BasicString_substring g (st_string t2) start (en - start)) (\<lambda>s. Inr (s, t2))))"

definition StringTokenizer_reset :: "u8 \<Rightarrow> StringTokenizer \<Rightarrow> BasicString \<Rightarrow> StringTokenizer res" where
  "StringTokenizer_reset g t str =
     rbind (BasicString_assign g False (st_string t) str) (\<lambda>s. Inr (t\<lparr>st_string := s, st_currentIndex := 0\<rparr>))"

section \<open>Paths\<close>

record Path =
  path_components :: "BasicString ArrayList"
  path_isAbsolute :: bool
  path_isDirectory :: bool

text \<open>The delimiters, as the character array with its terminator.\<close>

definition kDelims :: "u8 list" where
  "kDelims = [47, 92, 0]"

definition isAbsolutePath :: "u8 list \<Rightarrow> bool res" where
  "isAbsolutePath str = rbind (aread str 0) (\<lambda>c. Inr (c \<in> set kDelims))"

definition Path_empty :: Path where
  "Path_empty = \<lparr>path_components = ArrayList_new BasicString_new 8, path_isAbsolute = False, path_isDirectory = False\<rparr>"

text \<open>\<open>while (tokenizer.hasNextToken()) enqueue(nextToken())\<close>; the fuel bounds the number of tokens.\<close>

fun path_loop :: "nat \<Rightarrow> u8 \<Rightarrow> StringTokenizer \<Rightarrow> BasicString ArrayList \<Rightarrow> BasicString ArrayList res" where
  "path_loop 0 g t cs = Inl Hang"
| "path_loop (Suc fuel) g t cs =
     rbind (hasNextToken t) (\<lambda>b.
     if b then rbind (nextToken g t) (\<lambda>(s, t1).
               rbind (ArrayList_enqueue BasicString_new cs s) (\<lambda>cs1. path_loop fuel g t1 cs1))
     else Inr cs)"

definition Path_new :: "nat \<Rightarrow> u8 \<Rightarrow> u8 list \<Rightarrow> Path res" where
  "Path_new fuel g str =
     rbind (BasicString_of_cstr g str) (\<lambda>s.
     if bs_size s = 0 then Inr Path_empty
     else rbind (isAbsolutePath str) (\<lambda>abs.
          rbind (BasicString_of_cstr g kDelims) (\<lambda>delims.
          rbind (StringTokenizer_new g s delims) (\<lambda>t.
          rbind (path_loop fuel g t (path_components Path_empty)) (\<lambda>cs.
          Inr (Path_empty\<lparr>path_components := cs, path_isAbsolute := abs\<rparr>))))))"

fun pathString_loop :: "u8 \<Rightarrow> Path \<Rightarrow> BasicString \<Rightarrow> BasicString list \<Rightarrow> BasicString res" where
  "pathString_loop g p result [] = Inr result"
| "pathString_loop g p result (c # cs) =
     rbind (BasicString_append g result c) (\<lambda>r1.
     rbind (ArrayList_peekBack (path_components p)) (\<lambda>b.
     rbind (BasicString_eq c b) (\<lambda>same.
     rbind (if \<not> same then BasicString_insert g r1 47 else Inr r1) (\<lambda>r2.
     pathString_loop g p r2 cs))))"

definition pathString :: "u8 \<Rightarrow> Path \<Rightarrow> BasicString res" where
  "pathString g p =
     rbind (if path_isAbsolute p then BasicString_insert g BasicString_new 47 else Inr BasicString_new) (\<lambda>r.
     pathString_loop g p r (take (unat (al_size (path_components p))) (al_data (path_components p))))"

definition lastPathComponent :: "Path \<Rightarrow> BasicString res" where
  "lastPathComponent p =
     (if ArrayList_isEmpty (path_components p) then Inr BasicString_new else ArrayList_peekBack (path_components p))"

fun extension_loop :: "nat \<Rightarrow> u8 \<Rightarrow> StringTokenizer \<Rightarrow> BasicString \<Rightarrow> BasicString res" where
  "extension_loop 0 g t token = Inl Hang"
| "extension_loop (Suc fuel) g t token =
     rbind (hasNextToken t) (\<lambda>b.
     if b then rbind (nextToken g t) (\<lambda>(s, t1). extension_loop fuel g t1 s) else Inr token)"

definition Path_extension :: "nat \<Rightarrow> u8 \<Rightarrow> Path \<Rightarrow> BasicString res" where
  "Path_extension fuel g p =
     (if path_isDirectory p then Inr BasicString_new
      else rbind (lastPathComponent p) (\<lambda>s.
           if bs_size s = 0 then Inr BasicString_new
           else rbind (BasicString_of_cstr g [46, 0]) (\<lambda>d.
                rbind (StringTokenizer_new g s d) (\<lambda>t.
                extension_loop fuel g t BasicString_new))))"

section \<open>Copies of strings\<close>

lemma of_cstr_ok:
  assumes "0 \<notin> set cs" "length cs + 1 < 2 ^ 32"
  shows "\<exists>s. BasicString_of_cstr g (cs @ [0]) = Inr s \<and> bs_inv s \<and> bs_chars s = cs"
  using of_len_ok[of "of_nat (length cs)" "cs @ [0]" g] cstrlen_ok[OF assms(1), of "[]"] assms
  by (simp add: BasicString_of_cstr_def) blast

section \<open>Tokens\<close>

text \<open>The tokens of a character list: the maximal runs without a delimiter.\<close>

function tokens :: "('c \<Rightarrow> bool) \<Rightarrow> 'c list \<Rightarrow> 'c list list" where
  "tokens P cs = (let r = dropWhile P cs in
     if r = [] then [] else takeWhile (\<lambda>c. \<not> P c) r # tokens P (dropWhile (\<lambda>c. \<not> P c) r))"
  by pat_completeness auto
termination
proof (relation "measure (length \<circ> snd)")
  fix P :: "'c \<Rightarrow> bool" and cs r
  assume r: "r = dropWhile P cs" "r \<noteq> []"
  then obtain c cs' where "r = c # cs'" "\<not> P c" using hd_dropWhile by (metis list.exhaust list.sel(1))
  then have "length (dropWhile (\<lambda>c. \<not> P c) r) < length r" by (simp add: length_dropWhile_le le_imp_less_Suc)
  also have "length r \<le> length cs" using r(1) by (simp add: length_dropWhile_le)
  finally show "((P, dropWhile (\<lambda>c. \<not> P c) r), P, cs) \<in> measure (length \<circ> snd)" by simp
qed simp

declare tokens.simps [simp del]

lemma tokens_length: "length (tokens P cs) \<le> length cs"
proof (induction P cs rule: tokens.induct)
  case (1 P cs)
  show ?case
  proof (cases "dropWhile P cs = []")
    case False
    then obtain c cs' where r: "dropWhile P cs = c # cs'" "\<not> P c" using hd_dropWhile by (metis list.exhaust list.sel(1))
    have "length (dropWhile P cs) \<le> length cs" by (rule length_dropWhile_le)
    moreover have "length (dropWhile (\<lambda>c. \<not> P c) (dropWhile P cs)) \<le> length cs'" using r by (simp add: length_dropWhile_le)
    moreover note 1[OF refl False]
    ultimately show ?thesis using False r by (simp add: tokens.simps[of P cs])
  qed (simp add: tokens.simps[of P cs])
qed

definition tok_inv :: "StringTokenizer \<Rightarrow> bool" where
  "tok_inv t \<longleftrightarrow> bs_inv (st_string t) \<and> bs_inv (st_delimiters t) \<and> 0 \<notin> set (bs_chars (st_string t))
     \<and> st_currentIndex t \<le> bs_size (st_string t)"

abbreviation delim :: "StringTokenizer \<Rightarrow> u8 \<Rightarrow> bool" where
  "delim t c \<equiv> c \<in> set (bs_chars (st_delimiters t))"

definition rest :: "StringTokenizer \<Rightarrow> u8 list" where
  "rest t = drop (unat (st_currentIndex t)) (bs_chars (st_string t))"

lemma get_ok: "bs_inv s \<Longrightarrow> i < length (bs_chars s) \<Longrightarrow> BasicString_get s (of_nat i) = Inr (bs_chars s ! i)"
  by (simp add: BasicString_get_def bs_inv_def bs_chars_def)

lemma delim_loop_ok:
  "bs_inv ds \<Longrightarrow> d + k = length (bs_chars ds) \<Longrightarrow> delim_loop ds c d k = Inr (c \<in> set (drop d (bs_chars ds)))"
proof (induction k arbitrary: d)
  case (Suc k)
  then have "drop d (bs_chars ds) = bs_chars ds ! d # drop (Suc d) (bs_chars ds)"
    by (metis Cons_nth_drop_Suc less_add_Suc1 add_Suc_right)
  then show ?case using Suc get_ok[of ds d] by auto
qed simp

lemma isDelim_ok: "tok_inv t \<Longrightarrow> i < length (bs_chars (st_string t)) \<Longrightarrow> isDelim t i = Inr (delim t (bs_chars (st_string t) ! i))"
  using delim_loop_ok[of "st_delimiters t" 0] get_ok[of "st_string t" i] by (simp add: isDelim_def tok_inv_def)

lemma tokenStart_loop_ok:
  "tok_inv t \<Longrightarrow> i + k = length (bs_chars (st_string t)) \<Longrightarrow>
   tokenStart_loop t i k = Inr (of_nat (i + length (takeWhile (delim t) (drop i (bs_chars (st_string t))))))"
proof (induction k arbitrary: i)
  case 0
  then have "bs_size (st_string t) = of_nat i" by (simp add: tok_inv_def)
  then show ?case using 0 by simp
next
  case (Suc k)
  let ?cs = "bs_chars (st_string t)"
  have i: "i < length ?cs" using Suc.prems by simp
  then have "drop i ?cs = ?cs ! i # drop (Suc i) ?cs" by (simp add: Cons_nth_drop_Suc)
  then show ?case using Suc.IH[of "Suc i"] Suc.prems isDelim_ok[OF Suc.prems(1) i] by simp
qed

lemma tokenEnd_loop_ok:
  "tok_inv t \<Longrightarrow> i + k = length (bs_chars (st_string t)) \<Longrightarrow>
   tokenEnd_loop t i k = Inr (of_nat (i + length (takeWhile (\<lambda>c. \<not> delim t c) (drop i (bs_chars (st_string t))))) - 1)"
proof (induction k arbitrary: i)
  case 0
  then have "bs_size (st_string t) = of_nat i" by (simp add: tok_inv_def)
  then show ?case using 0 by simp
next
  case (Suc k)
  let ?cs = "bs_chars (st_string t)"
  have i: "i < length ?cs" using Suc.prems by simp
  then have "drop i ?cs = ?cs ! i # drop (Suc i) ?cs" by (simp add: Cons_nth_drop_Suc)
  then show ?case using Suc.IH[of "Suc i"] Suc.prems isDelim_ok[OF Suc.prems(1) i] by simp
qed

lemma drop_takeWhile: "drop (length (takeWhile P xs)) xs = dropWhile P xs"
  by (simp add: dropWhile_eq_drop)

lemma tokenStart_ok:
  assumes inv: "tok_inv t"
  shows "\<exists>i. tokenStart t (st_currentIndex t) = Inr i \<and> i \<le> bs_size (st_string t)
    \<and> drop (unat i) (bs_chars (st_string t)) = dropWhile (delim t) (rest t)"
proof -
  let ?cs = "bs_chars (st_string t)" and ?c = "unat (st_currentIndex t)"
  let ?i = "?c + length (takeWhile (delim t) (rest t))"
  have len: "length ?cs = unat (bs_size (st_string t))" "?c \<le> length ?cs" using inv by (simp_all add: tok_inv_def word_le_nat_alt)
  have "length (takeWhile (delim t) (rest t)) \<le> length (rest t)" by (rule length_takeWhile_le)
  then have i: "?i \<le> length ?cs" using len by (simp add: rest_def)
  have "length ?cs < 4294967296" using len(1) by simp
  then have u: "unat (of_nat ?i :: size_t) = ?i" using i by (intro unat_of_nat_small) simp
  have "tokenStart t (st_currentIndex t) = Inr (of_nat ?i)"
    using tokenStart_loop_ok[OF inv, of ?c] len by (simp add: tokenStart_def rest_def)
  moreover have "drop ?i ?cs = dropWhile (delim t) (rest t)"
    using drop_takeWhile[of "delim t" "rest t"] by (simp add: rest_def add.commute)
  ultimately show ?thesis using u i len(1) by (intro exI[of _ "of_nat ?i"]) (simp add: word_le_nat_alt)
qed

lemma hasNextToken_ok: "tok_inv t \<Longrightarrow> hasNextToken t = Inr (dropWhile (delim t) (rest t) \<noteq> [])"
proof -
  assume inv: "tok_inv t"
  from tokenStart_ok[OF inv] obtain i where i: "tokenStart t (st_currentIndex t) = Inr i" "i \<le> bs_size (st_string t)"
    "drop (unat i) (bs_chars (st_string t)) = dropWhile (delim t) (rest t)" by blast
  have "length (bs_chars (st_string t)) = unat (bs_size (st_string t))" using inv by (simp add: tok_inv_def)
  then have "dropWhile (delim t) (rest t) = [] \<longleftrightarrow> unat (bs_size (st_string t)) \<le> unat i" by (simp flip: i(3))
  also have "\<dots> \<longleftrightarrow> i = bs_size (st_string t)" using i(2) by (auto simp: word_le_nat_alt word32_eq_iff_unat)
  finally show ?thesis using i(1) by (simp add: hasNextToken_def)
qed

lemma nextToken_ok:
  assumes inv: "tok_inv t" and more: "dropWhile (delim t) (rest t) \<noteq> []"
  shows "\<exists>s t'. nextToken g t = Inr (s, t') \<and> bs_inv s \<and> bs_chars s = takeWhile (\<lambda>c. \<not> delim t c) (dropWhile (delim t) (rest t))
    \<and> tok_inv t' \<and> st_delimiters t' = st_delimiters t \<and> rest t' = dropWhile (\<lambda>c. \<not> delim t c) (dropWhile (delim t) (rest t))"
proof -
  let ?s = "st_string t" and ?D = "\<lambda>c. \<not> delim t c"
  let ?cs = "bs_chars ?s"
  from tokenStart_ok[OF inv] obtain i where i: "tokenStart t (st_currentIndex t) = Inr i" "i \<le> bs_size ?s"
    "drop (unat i) ?cs = dropWhile (delim t) (rest t)" by blast
  let ?t1 = "t\<lparr>st_currentIndex := i\<rparr>" and ?r = "dropWhile (delim t) (rest t)"
  let ?n = "length (takeWhile ?D ?r)"
  have s: "bs_inv ?s" and len: "length ?cs = unat (bs_size ?s)" using inv by (simp_all add: tok_inv_def)
  have inv1: "tok_inv ?t1" using inv i(2) by (simp add: tok_inv_def)
  have ne: "i \<noteq> bs_size ?s" using more len by (auto simp flip: i(3))
  have n: "0 < ?n" using more hd_dropWhile[OF more] by (cases ?r) auto
  have "?n \<le> length ?r" by (rule length_takeWhile_le)
  then have fit: "unat i + ?n \<le> unat (bs_size ?s)" using len i(2) by (simp add: word_le_nat_alt flip: i(3))
  define e where "e = (of_nat (unat i + ?n) :: size_t)"
  have lt: "unat (bs_size ?s) < 4294967296" by simp
  have "unat i + ?n < 4294967296" using fit lt by linarith
  then have e: "unat e = unat i + ?n" unfolding e_def by (intro unat_of_nat_small) simp
  have te: "tokenEnd ?t1 i = Inr (e - 1)"
    using tokenEnd_loop_ok[OF inv1, of "unat i"] len i(2,3) by (simp add: tokenEnd_def e_def word_le_nat_alt)
  have d: "unat (e - i) = ?n" using e by (simp add: unat_sub word_le_nat_alt)
  have sub: "BasicString_substring g ?s i (e - i) = BasicString_of_len g (drop (unat i) (bs_data ?s)) (e - i)"
  proof -
    have "\<not> i > bs_size ?s" using i(2) by simp
    moreover have "unat (bs_size ?s - i) = unat (bs_size ?s) - unat i" using i(2) by (simp add: unat_sub)
    then have "\<not> e - i > bs_size ?s - i" unfolding word_less_nat_alt d using fit by linarith
    moreover have "e - i \<noteq> 0" using d n by auto
    ultimately show ?thesis by (simp only: BasicString_substring_def Let_def if_False)
  qed
  have tk: "take ?n (drop (unat i) (bs_data ?s)) = takeWhile ?D ?r"
  proof -
    have "take ?n (drop (unat i) (bs_data ?s)) = take ?n (drop (unat i) ?cs)" using fit by (simp add: bs_chars_def drop_take)
    then show ?thesis by (simp add: i(3) flip: takeWhile_eq_take)
  qed
  have "set (takeWhile ?D ?r) \<subseteq> set ?cs" by (metis i(3) set_drop_subset set_takeWhileD subset_eq)
  then have "0 \<notin> set (takeWhile ?D ?r)" using inv by (auto simp: tok_inv_def)
  moreover have "unat (bs_size ?s) < length (bs_data ?s)" "length (bs_data ?s) < 4294967296" using s by (simp_all add: bs_inv_def)
  then have "unat (e - i) + unat i \<le> length (bs_data ?s)" "unat (e - i) + 1 < 4294967296" unfolding d using fit by linarith+
  then have "unat (e - i) \<le> length (drop (unat i) (bs_data ?s))" "unat (e - i) + 1 < 2 ^ 32" by simp_all
  ultimately obtain s' where s': "BasicString_of_len g (drop (unat i) (bs_data ?s)) (e - i) = Inr s'" "bs_inv s'" "bs_chars s' = takeWhile ?D ?r"
    using of_len_ok[of "e - i" "drop (unat i) (bs_data ?s)" g] unfolding d tk by blast
  let ?t2 = "t\<lparr>st_currentIndex := e\<rparr>"
  have "nextToken g t = Inr (s', ?t2)" using i(1) ne te sub s'(1) by (simp add: nextToken_def Let_def)
  moreover have "tok_inv ?t2" using inv e fit by (simp add: tok_inv_def word_le_nat_alt)
  moreover have "rest ?t2 = dropWhile ?D ?r"
  proof -
    have "rest ?t2 = drop (unat i + ?n) ?cs" using e by (simp add: rest_def[of "t\<lparr>st_currentIndex := e\<rparr>"])
    also have "\<dots> = drop ?n (drop (unat i) ?cs)" by (simp add: add.commute)
    finally show ?thesis unfolding i(3) drop_takeWhile .
  qed
  ultimately show ?thesis using s' by auto
qed

text \<open>The loop of the path constructor collects the tokens.\<close>

definition al_chars :: "BasicString ArrayList \<Rightarrow> u8 list list" where
  "al_chars a = map bs_chars (al_elems a)"

lemma path_loop_ok:
  "tok_inv t \<Longrightarrow> length (tokens (delim t) (rest t)) < fuel \<Longrightarrow> al_inv cs \<Longrightarrow>
   length (al_elems cs) + length (tokens (delim t) (rest t)) < 2 ^ 30 \<Longrightarrow> length (al_data cs) \<le> 2 * max 8 (length (al_elems cs)) \<Longrightarrow>
   \<exists>cs'. path_loop fuel g t cs = Inr cs' \<and> al_inv cs' \<and> al_chars cs' = al_chars cs @ tokens (delim t) (rest t)"
proof (induction fuel arbitrary: t cs)
  case (Suc fuel)
  let ?r = "dropWhile (delim t) (rest t)"
  show ?case
  proof (cases "?r = []")
    case True
    then have "tokens (delim t) (rest t) = []" by (simp add: tokens.simps[of "delim t" "rest t"])
    then show ?thesis using True hasNextToken_ok[OF Suc.prems(1)] Suc.prems(3) by simp
  next
    case False
    from nextToken_ok[OF Suc.prems(1) False, of g] obtain s t' where s: "nextToken g t = Inr (s, t')" "bs_inv s"
      "bs_chars s = takeWhile (\<lambda>c. \<not> delim t c) ?r" "tok_inv t'" "st_delimiters t' = st_delimiters t"
      "rest t' = dropWhile (\<lambda>c. \<not> delim t c) ?r" by blast
    have tk: "tokens (delim t) (rest t) = bs_chars s # tokens (delim t') (rest t')"
      using False s by (simp add: tokens.simps[of "delim t" "rest t"] Let_def)
    have "al_room cs" using Suc.prems(4,5) unfolding al_room_def by (auto simp: max_def split: if_splits)
    from ArrayList_enqueue_ok'[OF Suc.prems(3) this, of BasicString_new s] obtain cs1 where c: "ArrayList_enqueue BasicString_new cs s = Inr cs1"
      "al_inv cs1" "al_elems cs1 = al_elems cs @ [s]" "length (al_data cs1) \<le> max (length (al_data cs)) (2 * length (al_elems cs))"
      by blast
    have "length (al_data cs1) \<le> 2 * max 8 (length (al_elems cs1))" using c(3,4) Suc.prems(5) by simp
    from Suc.IH[OF s(4) _ c(2) _ this] Suc.prems(2,4) tk c(3) obtain cs' where
      "path_loop fuel g t' cs1 = Inr cs'" "al_inv cs'" "al_chars cs' = al_chars cs1 @ tokens (delim t') (rest t')" by auto
    then show ?thesis using hasNextToken_ok[OF Suc.prems(1)] False s(1) c(1,3) tk by (simp add: al_chars_def)
  qed
qed simp

section \<open>Properties\<close>

abbreviation slash :: "u8 \<Rightarrow> bool" where
  "slash c \<equiv> c = 47 \<or> c = 92"

text \<open>
  Constructing a path from a C string terminates without a fault and splits the string at
  slashes and backslashes: the components are its maximal runs without them, in order, and the
  path is absolute exactly when the string starts with one. As many steps as the string has
  characters, and one more, are enough.
\<close>

theorem Path_new_splits:
  assumes cs: "0 \<notin> set cs" "length cs < 2 ^ 29" "length cs < fuel"
  shows "\<exists>p. Path_new fuel g (cs @ [0]) = Inr p \<and> al_chars (path_components p) = tokens slash cs
    \<and> path_isAbsolute p = (cs \<noteq> [] \<and> slash (hd cs))"
proof (cases "cs = []")
  case True
  from of_cstr_ok[of "[]" g] obtain s where s: "BasicString_of_cstr g [0] = Inr s" "bs_inv s" "bs_chars s = []" by auto
  then have "unat (bs_size s) = 0" using length_bs_chars[OF s(2)] by simp
  then have "Path_new fuel g [0] = Inr Path_empty" using s(1) by (simp add: Path_new_def unat_eq_zero)
  moreover have "al_chars (path_components Path_empty) = []"
    by (simp add: al_chars_def Path_empty_def ArrayList_new_def al_elems_def)
  ultimately show ?thesis using True by (simp add: tokens.simps Path_empty_def)
next
  case False
  from of_cstr_ok[OF cs(1), of g] cs(2) obtain s where s: "BasicString_of_cstr g (cs @ [0]) = Inr s" "bs_inv s" "bs_chars s = cs" by auto
  have "length (bs_chars s) = unat (bs_size s)" using s(2) by simp
  then have ne: "bs_size s \<noteq> 0" using False unfolding s(3) by auto
  from of_cstr_ok[of "[47, 92]" g] obtain d where d: "BasicString_of_cstr g kDelims = Inr d" "bs_inv d" "bs_chars d = [47, 92]"
    by (auto simp: kDelims_def)
  from copy_ok[OF s(2), of g] s(3) cs(1) obtain s1 where s1: "BasicString_copy g s = Inr s1" "bs_inv s1" "bs_chars s1 = cs" by auto
  from copy_ok[OF d(2), of g] d(3) obtain d1 where d1: "BasicString_copy g d = Inr d1" "bs_inv d1" "bs_chars d1 = [47, 92]" by auto
  let ?t = "\<lparr>st_string = s1, st_delimiters = d1, st_currentIndex = 0\<rparr>"
  have t: "StringTokenizer_new g s d = Inr ?t" using s1(1) d1(1) by (simp add: StringTokenizer_new_def)
  have tk: "delim ?t = slash" "rest ?t = cs" using s1 d1 by (auto simp: rest_def)
  have inv: "tok_inv ?t" using s1 d1 cs(1) by (simp add: tok_inv_def)
  let ?a = "path_components Path_empty"
  have a: "al_inv ?a" "al_elems ?a = []" "length (al_data ?a) = 8"
    using al_new[of 8 BasicString_new] by (simp_all add: Path_empty_def ArrayList_new_def DynamicArray_new_def)
  have "\<exists>cs'. path_loop fuel g ?t ?a = Inr cs' \<and> al_inv cs' \<and> al_chars cs' = al_chars ?a @ tokens (delim ?t) (rest ?t)"
    by (rule path_loop_ok[OF inv _ a(1)]) (use tokens_length[of slash cs] cs(2,3) a tk in simp_all)
  then obtain a' where a': "path_loop fuel g ?t ?a = Inr a'" "al_chars a' = tokens slash cs"
    using a(2) unfolding tk by (auto simp: al_chars_def)
  have "hd cs \<noteq> 0" using cs(1) False by (cases cs) auto
  then have "isAbsolutePath (cs @ [0]) = Inr (slash (hd cs))"
    using False by (cases cs) (auto simp: isAbsolutePath_def kDelims_def)
  then show ?thesis using s(1) ne d(1) t a' False by (simp add: Path_new_def)
qed

theorem Path_new_splits_witness:
  "\<exists>p. Path_new 8 0 [47, 97, 47, 47, 98, 0] = Inr p \<and> al_chars (path_components p) = [[97], [98]] \<and> path_isAbsolute p"
  using Path_new_splits[of "[47, 97, 47, 47, 98]" 8 0] by (auto simp: tokens.simps)

text \<open>
  The string of a path need not be a path to the same place: separators are left out after
  any component that the string comparison takes for the last one, so \<open>/a/b\<close> becomes \<open>/ab\<close>,
  and a separator that needs the last byte of the block is written past it.
\<close>

theorem pathString_loses_separators:
  "(case rbind (Path_new 5 0 [47, 97, 47, 98, 0]) (pathString 0) of Inr s \<Rightarrow> bs_chars s = [47, 97, 98] | Inl e \<Rightarrow> False)
   \<and> rbind (Path_new 11 0 [47, 97, 97, 97, 97, 97, 97, 97, 47, 98, 0]) (pathString 0) = Inl OutOfBounds"
proof
  show "case rbind (Path_new 5 0 [47, 97, 47, 98, 0]) (pathString 0) of Inr s \<Rightarrow> bs_chars s = [47, 97, 98] | Inl e \<Rightarrow> False"
    by code_simp
  show "rbind (Path_new 11 0 [47, 97, 97, 97, 97, 97, 97, 97, 47, 98, 0]) (pathString 0) = Inl OutOfBounds"
    by code_simp
qed

end
