(* ===== verification/Linked_List.thy ===== *)
theory Linked_List
  imports Prelude
begin

text \<open>
  Shared pointers (\<open>libsys/include/mem/ArcPtr.hpp\<close>, \<open>libsys/include/mem/RefCount.hpp\<close>) and the
  doubly linked list built on them (\<open>libsys/include/util/LinkedList.hpp\<close>).

  The heap holds list nodes and reference-count blocks, each at an address that is never
  reused: a block holds the address of the node it owns and its count. An \<open>ArcPtr\<close> is the
  address of a block or \<open>None\<close>; a raw \<open>Node *\<close> is the address of a node. Using a deleted node
  or block is \<open>UseAfterFree\<close>, deleting a node twice is \<open>DoubleFree\<close>. Deleting a node releases
  its \<open>next\<close> pointer, which may delete further nodes; \<open>fuel\<close> bounds the length of that chain.
\<close>

section \<open>Nodes, blocks and the heap\<close>

record 'a Node =
  nd_value :: 'a
  nd_prev :: "nat option"
  nd_next :: "nat option"

record RefCount =
  rc_ptr :: "nat option"
  rc_count :: int

record 'a heap =
  hp_nodes :: "nat \<Rightarrow> 'a Node option"
  hp_blocks :: "nat \<Rightarrow> RefCount option"
  hp_fresh :: nat

definition heap_empty :: "'a heap" where
  "heap_empty = \<lparr>hp_nodes = (\<lambda>_. None), hp_blocks = (\<lambda>_. None), hp_fresh = 0\<rparr>"

definition deref :: "'a heap \<Rightarrow> nat option \<Rightarrow> 'a Node res" where
  "deref h p = (case p of None \<Rightarrow> Inl NullPointer
     | Some a \<Rightarrow> (case hp_nodes h a of None \<Rightarrow> Inl UseAfterFree | Some n \<Rightarrow> Inr n))"

definition set_node :: "'a heap \<Rightarrow> nat \<Rightarrow> 'a Node \<Rightarrow> 'a heap" where
  "set_node h a n = h\<lparr>hp_nodes := (hp_nodes h)(a := Some n)\<rparr>"

section \<open>Shared pointers\<close>

type_synonym ArcPtr = "nat option"

text \<open>A new block for a raw pointer: a null pointer gets none.\<close>

definition arc_from_raw :: "'a heap \<Rightarrow> nat option \<Rightarrow> ArcPtr \<times> 'a heap" where
  "arc_from_raw h p = (case p of None \<Rightarrow> (None, h)
     | Some a \<Rightarrow> (Some (hp_fresh h), h\<lparr>hp_blocks := (hp_blocks h)(hp_fresh h := Some \<lparr>rc_ptr = Some a, rc_count = 1\<rparr>),
                                       hp_fresh := Suc (hp_fresh h)\<rparr>))"

definition make_arc :: "'a heap \<Rightarrow> 'a \<Rightarrow> ArcPtr \<times> nat \<times> 'a heap" where
  "make_arc h v =
     (let a = hp_fresh h;
          h1 = h\<lparr>hp_nodes := (hp_nodes h)(a := Some \<lparr>nd_value = v, nd_prev = None, nd_next = None\<rparr>), hp_fresh := Suc a\<rparr>;
          (p, h2) = arc_from_raw h1 (Some a) in
      (p, a, h2))"

definition arc_block :: "'a heap \<Rightarrow> nat \<Rightarrow> RefCount res" where
  "arc_block h b = (case hp_blocks h b of None \<Rightarrow> Inl UseAfterFree | Some r \<Rightarrow> Inr r)"

definition arc_get :: "'a heap \<Rightarrow> ArcPtr \<Rightarrow> (nat option) res" where
  "arc_get h p = (case p of None \<Rightarrow> Inr None | Some b \<Rightarrow> rbind (arc_block h b) (\<lambda>r. Inr (rc_ptr r)))"

definition arc_retain :: "'a heap \<Rightarrow> ArcPtr \<Rightarrow> 'a heap res" where
  "arc_retain h p = (case p of None \<Rightarrow> Inr h
     | Some b \<Rightarrow> rbind (arc_block h b) (\<lambda>r. Inr (h\<lparr>hp_blocks := (hp_blocks h)(b := Some (r\<lparr>rc_count := rc_count r + 1\<rparr>))\<rparr>)))"

text \<open>
  \<open>release\<close>: at count zero the node is deleted, which releases its \<open>next\<close>, and then the block.
\<close>

fun arc_release :: "nat \<Rightarrow> 'a heap \<Rightarrow> ArcPtr \<Rightarrow> 'a heap res" where
  "arc_release fuel h None = Inr h"
| "arc_release 0 h (Some b) = Inl Hang"
| "arc_release (Suc fuel) h (Some b) =
     rbind (arc_block h b) (\<lambda>r.
     let c = rc_count r - 1; h1 = h\<lparr>hp_blocks := (hp_blocks h)(b := Some (r\<lparr>rc_count := c\<rparr>))\<rparr> in
     if c > 0 then Inr h1
     else rbind (case rc_ptr r of None \<Rightarrow> Inr h1
                 | Some a \<Rightarrow> (case hp_nodes h1 a of None \<Rightarrow> Inl DoubleFree
                     | Some n \<Rightarrow> arc_release fuel (h1\<lparr>hp_nodes := (hp_nodes h1)(a := None)\<rparr>) (nd_next n))) (\<lambda>h2.
          Inr (h2\<lparr>hp_blocks := (hp_blocks h2)(b := None)\<rparr>)))"

definition arc_eq :: "'a heap \<Rightarrow> ArcPtr \<Rightarrow> ArcPtr \<Rightarrow> bool res" where
  "arc_eq h p q = rbind (arc_get h p) (\<lambda>a. rbind (arc_get h q) (\<lambda>b. Inr (a = b \<and> p = q)))"

text \<open>Copy and move assignment into a variable that holds \<open>dst\<close>; the variable then holds \<open>src\<close>.\<close>

definition arc_assign :: "nat \<Rightarrow> 'a heap \<Rightarrow> ArcPtr \<Rightarrow> ArcPtr \<Rightarrow> 'a heap res" where
  "arc_assign fuel h dst src =
     rbind (arc_eq h dst src) (\<lambda>same.
     if same then Inr h else rbind (arc_release fuel h dst) (\<lambda>h1. arc_retain h1 src))"

definition arc_move_assign :: "nat \<Rightarrow> 'a heap \<Rightarrow> ArcPtr \<Rightarrow> ArcPtr \<Rightarrow> 'a heap res" where
  "arc_move_assign fuel h dst src =
     rbind (arc_eq h dst src) (\<lambda>same. if same then arc_release fuel h src else arc_release fuel h dst)"

section \<open>List nodes\<close>

text \<open>\<open>this\<close> is the address of the node the method is called on.\<close>

definition Node_insertBefore :: "nat \<Rightarrow> 'a heap \<Rightarrow> nat \<Rightarrow> 'a \<Rightarrow> (ArcPtr \<times> 'a heap) res" where
  "Node_insertBefore fuel h this obj =
     (let (n, a, h1) = make_arc h obj; (nx, h2) = arc_from_raw h1 (Some this) in
      rbind (deref h2 (Some this)) (\<lambda>t.
      rbind (deref h2 (Some a)) (\<lambda>nd.
      let h3 = set_node h2 a (nd\<lparr>nd_next := nx, nd_prev := nd_prev t\<rparr>) in
      rbind (case nd_prev t of None \<Rightarrow> Inr h3
             | Some p \<Rightarrow> rbind (deref h3 (Some p)) (\<lambda>pn.
                 rbind (arc_assign fuel h3 (nd_next pn) n) (\<lambda>h4.
                 rbind (deref h4 (Some p)) (\<lambda>pn1. Inr (set_node h4 p (pn1\<lparr>nd_next := n\<rparr>)))))) (\<lambda>h5.
      rbind (deref h5 (Some this)) (\<lambda>t1. Inr (n, set_node h5 this (t1\<lparr>nd_prev := Some a\<rparr>)))))))"

definition Node_insertAfter :: "nat \<Rightarrow> 'a heap \<Rightarrow> nat \<Rightarrow> 'a \<Rightarrow> (ArcPtr \<times> 'a heap) res" where
  "Node_insertAfter fuel h this obj =
     (let (n, a, h1) = make_arc h obj in
      rbind (deref h1 (Some this)) (\<lambda>t.
      rbind (arc_retain h1 (nd_next t)) (\<lambda>h2.
      rbind (deref h2 (Some a)) (\<lambda>nd.
      let h3 = set_node h2 a (nd\<lparr>nd_prev := Some this, nd_next := nd_next t\<rparr>) in
      rbind (arc_get h3 (nd_next t)) (\<lambda>nx.
      rbind (case nx of None \<Rightarrow> Inr h3
             | Some x \<Rightarrow> rbind (deref h3 (Some x)) (\<lambda>xn. Inr (set_node h3 x (xn\<lparr>nd_prev := Some a\<rparr>)))) (\<lambda>h4.
      rbind (arc_assign fuel h4 (nd_next t) n) (\<lambda>h5.
      rbind (deref h5 (Some this)) (\<lambda>t1. Inr (n, set_node h5 this (t1\<lparr>nd_next := n\<rparr>))))))))))"

definition Node_remove :: "nat \<Rightarrow> 'a heap \<Rightarrow> nat \<Rightarrow> (ArcPtr \<times> 'a heap) res" where
  "Node_remove fuel h this =
     (let (self, h1) = arc_from_raw h (Some this) in
      rbind (deref h1 (Some this)) (\<lambda>t.
      rbind (case nd_prev t of None \<Rightarrow> Inr h1
             | Some p \<Rightarrow> rbind (deref h1 (Some p)) (\<lambda>pn.
                 rbind (arc_assign fuel h1 (nd_next pn) (nd_next t)) (\<lambda>h2.
                 rbind (deref h2 (Some p)) (\<lambda>pn1. Inr (set_node h2 p (pn1\<lparr>nd_next := nd_next t\<rparr>)))))) (\<lambda>h3.
      rbind (deref h3 (Some this)) (\<lambda>t1.
      rbind (arc_get h3 (nd_next t1)) (\<lambda>nx.
      rbind (case nx of None \<Rightarrow> Inr h3
             | Some x \<Rightarrow> rbind (deref h3 (Some x)) (\<lambda>xn. Inr (set_node h3 x (xn\<lparr>nd_prev := nd_prev t1\<rparr>)))) (\<lambda>h4.
      Inr (self, h4)))))))"

section \<open>The list\<close>

record LinkedList =
  ll_first :: ArcPtr
  ll_last :: ArcPtr
  ll_size :: size_t

definition LinkedList_new :: LinkedList where
  "LinkedList_new = \<lparr>ll_first = None, ll_last = None, ll_size = 0\<rparr>"

definition the_node :: "'a heap \<Rightarrow> ArcPtr \<Rightarrow> nat res" where
  "the_node h p = rbind (arc_get h p) (\<lambda>a. case a of None \<Rightarrow> Inl NullPointer | Some x \<Rightarrow> Inr x)"

definition LinkedList_push :: "nat \<Rightarrow> 'a heap \<Rightarrow> LinkedList \<Rightarrow> 'a \<Rightarrow> ('a heap \<times> LinkedList) res" where
  "LinkedList_push fuel h l obj =
     rbind (arc_get h (ll_first l)) (\<lambda>f.
     case f of
       None \<Rightarrow> let (n, a, h1) = make_arc h obj in
         rbind (arc_move_assign fuel h1 (ll_first l) n) (\<lambda>h2.
         rbind (arc_assign fuel h2 (ll_last l) n) (\<lambda>h3.
         Inr (h3, \<lparr>ll_first = n, ll_last = n, ll_size = ll_size l + 1\<rparr>)))
     | Some this \<Rightarrow>
         rbind (Node_insertBefore fuel h this obj) (\<lambda>(n, h1).
         rbind (arc_move_assign fuel h1 (ll_first l) n) (\<lambda>h2.
         Inr (h2, l\<lparr>ll_first := n, ll_size := ll_size l + 1\<rparr>))))"

definition LinkedList_enqueue :: "nat \<Rightarrow> 'a heap \<Rightarrow> LinkedList \<Rightarrow> 'a \<Rightarrow> ('a heap \<times> LinkedList) res" where
  "LinkedList_enqueue fuel h l obj =
     rbind (arc_get h (ll_last l)) (\<lambda>e.
     case e of
       None \<Rightarrow> LinkedList_push fuel h l obj
     | Some this \<Rightarrow>
         rbind (Node_insertAfter fuel h this obj) (\<lambda>(n, h1).
         rbind (arc_move_assign fuel h1 (ll_last l) n) (\<lambda>h2.
         Inr (h2, l\<lparr>ll_last := n, ll_size := ll_size l + 1\<rparr>))))"

text \<open>
  \<open>pop\<close> keeps a copy of the first pointer, and the pointer that \<open>remove\<close> returns is a temporary,
  destroyed at the end of its statement.
\<close>

definition LinkedList_pop :: "nat \<Rightarrow> 'a heap \<Rightarrow> LinkedList \<Rightarrow> ('a \<times> 'a heap \<times> LinkedList) res" where
  "LinkedList_pop fuel h l =
     rbind (arc_retain h (ll_first l)) (\<lambda>h0.
     rbind (arc_eq h0 (ll_first l) (ll_last l)) (\<lambda>single.
     rbind (if single
            then rbind (arc_release fuel h0 (ll_first l)) (\<lambda>h1.
                 rbind (arc_release fuel h1 (ll_last l)) (\<lambda>h2. Inr (h2, l\<lparr>ll_first := None, ll_last := None\<rparr>)))
            else rbind (the_node h0 (ll_first l)) (\<lambda>this.
                 rbind (Node_remove fuel h0 this) (\<lambda>(self, h1).
                 rbind (deref h1 (Some this)) (\<lambda>t.
                 rbind (arc_assign fuel h1 (ll_first l) (nd_next t)) (\<lambda>h2.
                 rbind (arc_release fuel h2 self) (\<lambda>h3. Inr (h3, l\<lparr>ll_first := nd_next t\<rparr>))))))) (\<lambda>(h4, l1).
     let l2 = (if ll_size l1 \<noteq> 0 then l1\<lparr>ll_size := ll_size l1 - 1\<rparr> else l1) in
     rbind (the_node h4 (ll_first l)) (\<lambda>old.
     rbind (deref h4 (Some old)) (\<lambda>n.
     rbind (arc_release fuel h4 (ll_first l)) (\<lambda>h5. Inr (nd_value n, h5, l2)))))))"

definition LinkedList_popBack :: "nat \<Rightarrow> 'a heap \<Rightarrow> LinkedList \<Rightarrow> ('a \<times> 'a heap \<times> LinkedList) res" where
  "LinkedList_popBack fuel h l =
     rbind (arc_retain h (ll_last l)) (\<lambda>h0.
     rbind (arc_eq h0 (ll_first l) (ll_last l)) (\<lambda>single.
     rbind (if single
            then rbind (arc_release fuel h0 (ll_first l)) (\<lambda>h1.
                 rbind (arc_release fuel h1 (ll_last l)) (\<lambda>h2. Inr (h2, l\<lparr>ll_first := None, ll_last := None\<rparr>)))
            else rbind (the_node h0 (ll_last l)) (\<lambda>this.
                 rbind (Node_remove fuel h0 this) (\<lambda>(self, h1).
                 rbind (deref h1 (Some this)) (\<lambda>t.
                 rbind (arc_release fuel h1 (ll_last l)) (\<lambda>h2.
                 let (p, h3) = arc_from_raw h2 (nd_prev t) in
                 rbind (arc_release fuel h3 self) (\<lambda>h4. Inr (h4, l\<lparr>ll_last := p\<rparr>))))))) (\<lambda>(h4, l1).
     let l2 = (if ll_size l1 \<noteq> 0 then l1\<lparr>ll_size := ll_size l1 - 1\<rparr> else l1) in
     rbind (the_node h4 (ll_last l)) (\<lambda>old.
     rbind (deref h4 (Some old)) (\<lambda>n.
     rbind (arc_release fuel h4 (ll_last l)) (\<lambda>h5. Inr (nd_value n, h5, l2)))))))"

definition LinkedList_peek :: "'a heap \<Rightarrow> LinkedList \<Rightarrow> 'a res" where
  "LinkedList_peek h l = rbind (the_node h (ll_first l)) (\<lambda>a. rbind (deref h (Some a)) (\<lambda>n. Inr (nd_value n)))"

definition LinkedList_peekBack :: "'a heap \<Rightarrow> LinkedList \<Rightarrow> 'a res" where
  "LinkedList_peekBack h l = rbind (the_node h (ll_last l)) (\<lambda>a. rbind (deref h (Some a)) (\<lambda>n. Inr (nd_value n)))"

definition LinkedList_isEmpty :: "'a heap \<Rightarrow> LinkedList \<Rightarrow> bool res" where
  "LinkedList_isEmpty h l = rbind (arc_get h (ll_first l)) (\<lambda>a. Inr (a = None))"

definition LinkedList_clear :: "nat \<Rightarrow> 'a heap \<Rightarrow> LinkedList \<Rightarrow> ('a heap \<times> LinkedList) res" where
  "LinkedList_clear fuel h l =
     rbind (arc_release fuel h (ll_first l)) (\<lambda>h1.
     rbind (arc_release fuel h1 (ll_last l)) (\<lambda>h2. Inr (h2, LinkedList_new)))"

text \<open>
  The search of \<open>remove\<close>; \<open>it\<close> is a shared pointer of its own, \<open>k\<close> bounds the steps. The pointer
  \<open>target\<close> has a block of its own, and equality of shared pointers compares blocks too.
\<close>

fun remove_loop :: "nat \<Rightarrow> nat \<Rightarrow> 'a heap \<Rightarrow> LinkedList \<Rightarrow> ArcPtr \<Rightarrow> 'a \<Rightarrow> (bool \<times> 'a heap \<times> LinkedList) res" where
  "remove_loop 0 fuel h l it object = Inl Hang"
| "remove_loop (Suc k) fuel h l it object =
     rbind (arc_get h it) (\<lambda>a. case a of
       None \<Rightarrow> rbind (arc_release fuel h it) (\<lambda>h1. Inr (False, h1, l))
     | Some this \<Rightarrow> rbind (deref h (Some this)) (\<lambda>n.
         if nd_value n = object
         then rbind (Node_remove fuel h this) (\<lambda>(target, h1).
              rbind (deref h1 (Some this)) (\<lambda>t.
              rbind (arc_eq h1 target (ll_first l)) (\<lambda>isFirst.
              rbind (if isFirst then rbind (arc_assign fuel h1 (ll_first l) (nd_next t)) (\<lambda>h2. Inr (h2, l\<lparr>ll_first := nd_next t\<rparr>))
                     else Inr (h1, l)) (\<lambda>(h2, l1).
              rbind (arc_eq h2 target (ll_last l1)) (\<lambda>isLast.
              rbind (if isLast
                     then rbind (arc_release fuel h2 (ll_last l1)) (\<lambda>h3. let (p, h4) = arc_from_raw h3 (nd_prev t) in Inr (h4, l1\<lparr>ll_last := p\<rparr>))
                     else Inr (h2, l1)) (\<lambda>(h4, l2).
              rbind (arc_release fuel h4 target) (\<lambda>h5.
              rbind (arc_release fuel h5 it) (\<lambda>h6. Inr (True, h6, l2\<lparr>ll_size := ll_size l2 - 1\<rparr>)))))))))
         else rbind (arc_assign fuel h it (nd_next n)) (\<lambda>h1. remove_loop k fuel h1 l (nd_next n) object)))"

definition LinkedList_remove :: "nat \<Rightarrow> nat \<Rightarrow> 'a heap \<Rightarrow> LinkedList \<Rightarrow> 'a \<Rightarrow> (bool \<times> 'a heap \<times> LinkedList) res" where
  "LinkedList_remove k fuel h l object =
     rbind (arc_get h (ll_first l)) (\<lambda>f.
     if f = None then Inr (False, h, l)
     else rbind (arc_retain h (ll_first l)) (\<lambda>h1. remove_loop k fuel h1 l (ll_first l) object))"

text \<open>\<open>nodeAt\<close>: \<open>idx\<close> steps from the first node.\<close>

fun nodeAt_loop :: "'a heap \<Rightarrow> nat option \<Rightarrow> nat \<Rightarrow> (nat option) res" where
  "nodeAt_loop h it 0 = Inr it"
| "nodeAt_loop h it (Suc idx) = rbind (deref h it) (\<lambda>n. rbind (arc_get h (nd_next n)) (\<lambda>nx. nodeAt_loop h nx idx))"

definition LinkedList_get :: "'a heap \<Rightarrow> LinkedList \<Rightarrow> size_t \<Rightarrow> 'a res" where
  "LinkedList_get h l idx =
     rbind (arc_get h (ll_first l)) (\<lambda>f.
     rbind (nodeAt_loop h f (unat idx)) (\<lambda>it. rbind (deref h it) (\<lambda>n. Inr (nd_value n))))"

text \<open>Iteration from \<open>begin\<close> to \<open>end\<close>.\<close>

fun iterate :: "nat \<Rightarrow> 'a heap \<Rightarrow> nat option \<Rightarrow> ('a list) res" where
  "iterate fuel h None = Inr []"
| "iterate 0 h (Some a) = Inl Hang"
| "iterate (Suc fuel) h (Some a) =
     rbind (deref h (Some a)) (\<lambda>n. rbind (arc_get h (nd_next n)) (\<lambda>nx.
     rbind (iterate fuel h nx) (\<lambda>xs. Inr (nd_value n # xs))))"

definition LinkedList_elements :: "nat \<Rightarrow> 'a heap \<Rightarrow> LinkedList \<Rightarrow> ('a list) res" where
  "LinkedList_elements fuel h l = rbind (arc_get h (ll_first l)) (iterate fuel h)"

section \<open>Lists built at the back\<close>

text \<open>
  The heap holds the list \<open>xs\<close> in nodes \<open>as\<close> owned by blocks \<open>bs\<close>: each block is owned once by
  its predecessor or the list head, the last one by the list's tail pointer as well.
\<close>

definition chain :: "'a heap \<Rightarrow> LinkedList \<Rightarrow> 'a list \<Rightarrow> nat list \<Rightarrow> nat list \<Rightarrow> bool" where
  "chain h l xs as bs \<longleftrightarrow> length as = length xs \<and> length bs = length xs \<and> distinct as \<and> distinct bs
     \<and> (\<forall>a\<in>set as. a < hp_fresh h) \<and> (\<forall>b\<in>set bs. b < hp_fresh h)
     \<and> (\<forall>i<length xs. hp_nodes h (as ! i) = Some \<lparr>nd_value = xs ! i, nd_prev = (if i = 0 then None else Some (as ! (i - 1))),
          nd_next = (if Suc i < length xs then Some (bs ! Suc i) else None)\<rparr>)
     \<and> (\<forall>i<length xs. hp_blocks h (bs ! i) = Some \<lparr>rc_ptr = Some (as ! i), rc_count = (if Suc i = length xs then 2 else 1)\<rparr>)
     \<and> ll_first l = (if xs = [] then None else Some (bs ! 0))
     \<and> ll_last l = (if xs = [] then None else Some (bs ! (length xs - 1)))
     \<and> ll_size l = of_nat (length xs)"

lemma chain_new: "chain heap_empty LinkedList_new [] [] []"
  by (simp add: chain_def LinkedList_new_def)

lemmas arc_defs = deref_def set_node_def arc_from_raw_def make_arc_def arc_block_def arc_get_def arc_retain_def
  arc_eq_def arc_assign_def arc_move_assign_def

lemma enqueue_empty:
  assumes "chain h l [] as bs"
  shows "\<exists>h' l' as' bs'. LinkedList_enqueue fuel h l x = Inr (h', l') \<and> chain h' l' [x] as' bs'"
proof -
  let ?a = "hp_fresh h"
  let ?h = "\<lparr>hp_nodes = (hp_nodes h)(?a := Some \<lparr>nd_value = x, nd_prev = None, nd_next = None\<rparr>),
    hp_blocks = (hp_blocks h)(Suc ?a := Some \<lparr>rc_ptr = Some ?a, rc_count = 2\<rparr>), hp_fresh = Suc (Suc ?a)\<rparr>"
  let ?l = "\<lparr>ll_first = Some (Suc ?a), ll_last = Some (Suc ?a), ll_size = 1\<rparr>"
  have "ll_first l = None" "ll_last l = None" "ll_size l = 0" using assms by (simp_all add: chain_def)
  then have "LinkedList_enqueue fuel h l x = Inr (?h, ?l)"
    by (simp add: LinkedList_enqueue_def LinkedList_push_def arc_defs Let_def)
  moreover have "chain ?h ?l [x] [?a] [Suc ?a]" by (simp add: chain_def)
  ultimately show ?thesis by blast
qed

lemma enqueue_nonempty:
  assumes c: "chain h l xs as bs" and ne: "xs \<noteq> []"
  shows "\<exists>h' l' as' bs'. LinkedList_enqueue (Suc fuel) h l x = Inr (h', l') \<and> chain h' l' (xs @ [x]) as' bs'"
proof -
  define n where "n = length xs - 1"
  define a where "a = hp_fresh h"
  define this where "this = as ! n"
  define lb where "lb = bs ! n"
  have n: "n < length xs" "Suc n = length xs" using ne by (auto simp: n_def)
  have len: "length as = length xs" "length bs = length xs" and dist: "distinct as" "distinct bs" using c by (simp_all add: chain_def)
  have fr: "\<And>y. y \<in> set as \<Longrightarrow> y < a" "\<And>y. y \<in> set bs \<Longrightarrow> y < a" using c by (auto simp: chain_def a_def)
  have this_in: "this \<in> set as" "lb \<in> set bs" using n len by (simp_all add: this_def lb_def)
  have lt: "this < a" "lb < a" using fr this_in by auto
  have nd: "hp_nodes h this = Some \<lparr>nd_value = xs ! n, nd_prev = (if n = 0 then None else Some (as ! (n - 1))), nd_next = None\<rparr>"
    using c n by (simp add: chain_def this_def)
  have bl: "hp_blocks h lb = Some \<lparr>rc_ptr = Some this, rc_count = 2\<rparr>" using c n by (simp add: chain_def this_def lb_def)
  have last: "ll_last l = Some lb" using c ne by (simp add: chain_def lb_def n_def)
  let ?t = "\<lparr>nd_value = xs ! n, nd_prev = (if n = 0 then None else Some (as ! (n - 1))), nd_next = Some (Suc a)\<rparr>"
  let ?nodes = "(hp_nodes h)(a := Some \<lparr>nd_value = x, nd_prev = Some this, nd_next = None\<rparr>, this := Some ?t)"
  let ?blocks = "(hp_blocks h)(Suc a := Some \<lparr>rc_ptr = Some a, rc_count = 2\<rparr>, lb := Some \<lparr>rc_ptr = Some this, rc_count = 1\<rparr>)"
  let ?h = "\<lparr>hp_nodes = ?nodes, hp_blocks = ?blocks, hp_fresh = Suc (Suc a)\<rparr>"
  let ?l = "l\<lparr>ll_last := Some (Suc a), ll_size := ll_size l + 1\<rparr>"
  have e: "LinkedList_enqueue (Suc fuel) h l x = Inr (?h, ?l)"
    using lt nd bl last by (simp add: LinkedList_enqueue_def Node_insertAfter_def arc_defs a_def Let_def fun_upd_twist)
  have nodes: "?nodes (as ! i) = hp_nodes h (as ! i)" if "i < n" for i
    using that n len dist fr(1)[of "as ! i"] by (auto simp: this_def nth_eq_iff_index_eq)
  have blocks: "?blocks (bs ! i) = hp_blocks h (bs ! i)" if "i < n" for i
    using that n len dist fr(2)[of "bs ! i"] by (auto simp: lb_def nth_eq_iff_index_eq)
  have "chain ?h ?l (xs @ [x]) (as @ [a]) (bs @ [Suc a])"
    unfolding chain_def
  proof (intro conjI allI impI)
    fix i
    assume i: "i < length (xs @ [x])"
    have d: "i < n \<or> i = n \<or> i = Suc n" using i n by auto
    then consider "i < n" | "i = n" | "i = Suc n" by blast
    then show "hp_nodes ?h ((as @ [a]) ! i) = Some \<lparr>nd_value = (xs @ [x]) ! i,
        nd_prev = (if i = 0 then None else Some ((as @ [a]) ! (i - 1))),
        nd_next = (if Suc i < length (xs @ [x]) then Some ((bs @ [Suc a]) ! Suc i) else None)\<rparr>"
    proof cases
      case 1
      then have "hp_nodes h (as ! i) = Some \<lparr>nd_value = xs ! i, nd_prev = (if i = 0 then None else Some (as ! (i - 1))),
          nd_next = Some (bs ! Suc i)\<rparr>" using c n by (simp add: chain_def)
      then show ?thesis using 1 n len nodes[OF 1] by (auto simp: nth_append simp del: fun_upd_apply)
    next
      case 2
      then show ?thesis using n len by (auto simp: nth_append simp flip: this_def)
    next
      case 3
      then have "(as @ [a]) ! (i - 1) = this" using n len by (simp add: nth_append this_def n_def)
      then show ?thesis using 3 n len lt ne by (simp add: nth_append)
    qed
    show "hp_blocks ?h ((bs @ [Suc a]) ! i) = Some \<lparr>rc_ptr = Some ((as @ [a]) ! i),
        rc_count = (if Suc i = length (xs @ [x]) then 2 else 1)\<rparr>"
      using d
    proof (elim disjE)
      assume 1: "i < n"
      then have "hp_blocks h (bs ! i) = Some \<lparr>rc_ptr = Some (as ! i), rc_count = 1\<rparr>" using c n by (simp add: chain_def)
      then show ?thesis using 1 n len blocks[OF 1] by (simp add: nth_append)
    next
      assume "i = n"
      then show ?thesis using n len by (simp add: nth_append flip: this_def lb_def)
    next
      assume "i = Suc n"
      then show ?thesis using n len lt by (simp add: nth_append)
    qed
  qed (use c ne len n dist fr lt in \<open>auto simp: chain_def nth_append a_def less_Suc_eq\<close>)
  then show ?thesis using e by blast
qed

fun LinkedList_enqueue_all :: "nat \<Rightarrow> 'a heap \<Rightarrow> LinkedList \<Rightarrow> 'a list \<Rightarrow> ('a heap \<times> LinkedList) res" where
  "LinkedList_enqueue_all fuel h l [] = Inr (h, l)"
| "LinkedList_enqueue_all fuel h l (x # xs) =
     rbind (LinkedList_enqueue fuel h l x) (\<lambda>(h1, l1). LinkedList_enqueue_all fuel h1 l1 xs)"

lemma enqueue_all_chain:
  "chain h l ys as bs \<Longrightarrow> \<exists>h' l' as' bs'. LinkedList_enqueue_all (Suc fuel) h l xs = Inr (h', l') \<and> chain h' l' (ys @ xs) as' bs'"
proof (induction xs arbitrary: h l ys as bs)
  case (Cons x xs)
  have "\<exists>h' l' as' bs'. LinkedList_enqueue (Suc fuel) h l x = Inr (h', l') \<and> chain h' l' (ys @ [x]) as' bs'"
    using enqueue_empty[of h l as bs "Suc fuel" x] enqueue_nonempty[OF Cons.prems, of fuel x] Cons.prems by (cases "ys = []") auto
  then obtain h1 l1 as1 bs1 where s: "LinkedList_enqueue (Suc fuel) h l x = Inr (h1, l1)" "chain h1 l1 (ys @ [x]) as1 bs1" by blast
  then show ?case using Cons.IH[OF s(2)] by simp
qed auto

lemma iterate_chain:
  assumes c: "chain h l xs as bs"
  shows "i < length xs \<Longrightarrow> length xs - i \<le> fuel \<Longrightarrow> iterate fuel h (Some (as ! i)) = Inr (drop i xs)"
proof (induction fuel arbitrary: i)
  case (Suc fuel)
  have nd: "deref h (Some (as ! i)) = Inr \<lparr>nd_value = xs ! i, nd_prev = (if i = 0 then None else Some (as ! (i - 1))),
          nd_next = (if Suc i < length xs then Some (bs ! Suc i) else None)\<rparr>"
    using c Suc.prems(1) by (simp add: chain_def deref_def)
  have dr: "drop i xs = xs ! i # drop (Suc i) xs" using Suc.prems(1) by (simp add: Cons_nth_drop_Suc)
  show ?case
  proof (cases "Suc i < length xs")
    case True
    then have "arc_get h (Some (bs ! Suc i)) = Inr (Some (as ! Suc i))"
      using c by (simp add: chain_def arc_get_def arc_block_def)
    then show ?thesis using True Suc.IH[of "Suc i"] Suc.prems nd dr by simp
  next
    case False
    then show ?thesis using nd dr by (simp add: arc_get_def)
  qed
qed simp

section \<open>Properties\<close>

text \<open>
  A linked list built by adding at the back is sound: adding any elements to an empty list
  never faults, its reference counts balance, and iterating over it yields the elements in
  order.
\<close>

theorem LinkedList_enqueue_iterate:
  assumes "length xs \<le> steps"
  shows "\<exists>h l. LinkedList_enqueue_all (Suc fuel) heap_empty LinkedList_new xs = Inr (h, l)
    \<and> LinkedList_elements steps h l = Inr xs \<and> ll_size l = of_nat (length xs)"
proof -
  from enqueue_all_chain[OF chain_new, of fuel xs] obtain h l as bs where
    s: "LinkedList_enqueue_all (Suc fuel) heap_empty LinkedList_new xs = Inr (h, l)" "chain h l xs as bs" by auto
  have "LinkedList_elements steps h l = Inr xs"
  proof (cases "xs = []")
    case True
    then show ?thesis using s(2) by (simp add: chain_def LinkedList_elements_def arc_get_def)
  next
    case False
    then have "arc_get h (ll_first l) = Inr (Some (as ! 0))" using s(2) by (simp add: chain_def arc_get_def arc_block_def)
    then show ?thesis using iterate_chain[OF s(2), of 0 steps] False assms by (simp add: LinkedList_elements_def)
  qed
  then show ?thesis using s by (auto simp: chain_def)
qed

theorem LinkedList_enqueue_iterate_witness:
  "\<exists>h l. LinkedList_enqueue_all 1 heap_empty LinkedList_new [4, 5, 6 :: nat] = Inr (h, l)
    \<and> LinkedList_elements 3 h l = Inr [4, 5, 6]"
  using LinkedList_enqueue_iterate[of "[4, 5, 6 :: nat]" 3 0] by auto

text \<open>
  Removing at the front is not: \<open>pop\<close> on any list with two or more elements built at the
  back reads the removed node after it was deleted, because \<open>remove\<close> gives the node a second
  reference count.
\<close>

theorem LinkedList_pop_use_after_free:
  assumes c: "chain h l xs as bs" and n: "2 \<le> length xs"
  shows "LinkedList_pop (Suc (Suc fuel)) h l = Inl UseAfterFree"
proof -
  obtain a0 a1 as' b0 b1 bs' where ab: "as = a0 # a1 # as'" "bs = b0 # b1 # bs'"
    using c n by (cases as; cases "tl as"; cases bs; cases "tl bs") (auto simp: chain_def)
  have ne: "xs \<noteq> []" using n by auto
  have neq: "a0 \<noteq> a1" "b0 \<noteq> b1" and fr: "b0 < hp_fresh h" "b1 < hp_fresh h" using c ab by (auto simp: chain_def)
  have nodes: "\<forall>i<length xs. hp_nodes h (as ! i) = Some \<lparr>nd_value = xs ! i, nd_prev = (if i = 0 then None else Some (as ! (i - 1))),
      nd_next = (if Suc i < length xs then Some (bs ! Suc i) else None)\<rparr>"
    and blocks: "\<forall>i<length xs. hp_blocks h (bs ! i) = Some \<lparr>rc_ptr = Some (as ! i), rc_count = (if Suc i = length xs then 2 else 1)\<rparr>"
    using c unfolding chain_def by blast+
  have n0: "hp_nodes h a0 = Some \<lparr>nd_value = xs ! 0, nd_prev = None, nd_next = Some b1\<rparr>" using nodes[rule_format, of 0] n ne ab by simp
  have n1: "\<exists>nx. hp_nodes h a1 = Some \<lparr>nd_value = xs ! 1, nd_prev = Some a0, nd_next = nx\<rparr>" using nodes[rule_format, of 1] n ab by simp
  have b0: "hp_blocks h b0 = Some \<lparr>rc_ptr = Some a0, rc_count = 1\<rparr>" using blocks[rule_format, of 0] n ne ab by simp
  have b1: "\<exists>k. hp_blocks h b1 = Some \<lparr>rc_ptr = Some a1, rc_count = k\<rparr> \<and> 1 \<le> k" using blocks[rule_format, of 1] n ab by simp
  have first: "ll_first l = Some b0" using c ne ab by (simp add: chain_def)
  have last: "\<exists>e ae ke. ll_last l = Some e \<and> e \<noteq> b0 \<and> hp_blocks h e = Some \<lparr>rc_ptr = Some ae, rc_count = ke\<rparr>"
  proof -
    have "distinct bs" "length bs = length xs" using c by (simp_all add: chain_def)
    then have "bs ! (length xs - 1) \<noteq> bs ! 0" using nth_eq_iff_index_eq[of bs "length xs - 1" 0] n ne by simp
    moreover have "hp_blocks h (bs ! (length xs - 1)) = Some \<lparr>rc_ptr = Some (as ! (length xs - 1)), rc_count = 2\<rparr>"
      using blocks[rule_format, of "length xs - 1"] ne by simp
    ultimately show ?thesis using c ne ab by (simp add: chain_def)
  qed
  show ?thesis using first last n0 n1 b0 b1 neq fr
    by (auto simp: LinkedList_pop_def Node_remove_def the_node_def arc_defs Let_def split: option.splits if_splits)
qed

theorem LinkedList_pop_use_after_free_witness:
  "\<exists>h l. LinkedList_enqueue_all 1 heap_empty LinkedList_new [1, 2 :: nat] = Inr (h, l) \<and> LinkedList_pop 9 h l = Inl UseAfterFree"
proof -
  obtain h l as bs where s: "LinkedList_enqueue_all 1 heap_empty LinkedList_new [1, 2 :: nat] = Inr (h, l)" "chain h l [1, 2] as bs"
    using enqueue_all_chain[OF chain_new, of 0 "[1, 2 :: nat]"] by auto
  then show ?thesis using LinkedList_pop_use_after_free[OF s(2), of 7] by (simp add: eval_nat_numeral)
qed

text \<open>
  Nor is adding at the front: after three elements are pushed, the list's first pointer
  leads to nodes that were deleted, because \<open>insertBefore\<close> gives the old first node a second
  reference count and the list then drops the first one.
\<close>

theorem LinkedList_push_use_after_free:
  "rbind (LinkedList_push 9 heap_empty LinkedList_new (1 :: nat)) (\<lambda>(h1, l1).
   rbind (LinkedList_push 9 h1 l1 2) (\<lambda>(h2, l2).
   rbind (LinkedList_push 9 h2 l2 3) (\<lambda>(h3, l3). LinkedList_elements 9 h3 l3))) = Inl UseAfterFree"
  by code_simp

end
