(* ===== verification/Hash_Map.thy ===== *)
theory Hash_Map
  imports Array_List
begin

text \<open>
  The chained hash map of \<open>libsys/include/util/HashMap.hpp\<close>. The hash function is a template
  parameter of the class and so a parameter of the operations; keys are compared with \<open>=\<close>.
  A bucket is the list of its entries in the order they were enqueued; that lists built at the
  back iterate in that order is shown for \<open>LinkedList\<close>. Removal goes through
  \<open>LinkedList::remove\<close> and is not modelled here.
\<close>

section \<open>Operations\<close>

type_synonym ('k, 'v) buckets = "('k \<times> 'v) list DynamicArray"

record ('k, 'v) HashMap =
  hm_values :: "('k, 'v) buckets"
  hm_size :: size_t

definition HashMap_new :: "('k, 'v) HashMap" where
  "HashMap_new = \<lparr>hm_values = DynamicArray_new [] 8, hm_size = 0\<rparr>"

definition HashMap_size :: "('k, 'v) HashMap \<Rightarrow> size_t" where
  "HashMap_size m = hm_size m"

definition HashMap_isEmpty :: "('k, 'v) HashMap \<Rightarrow> bool" where
  "HashMap_isEmpty m \<longleftrightarrow> hm_size m = 0"

definition HashMap_hash :: "('k \<Rightarrow> size_t) \<Rightarrow> ('k, 'v) HashMap \<Rightarrow> 'k \<Rightarrow> size_t res" where
  "HashMap_hash hasher m k =
     (if DynamicArray_capacity (hm_values m) = 0 then Inl DivideByZero
      else Inr (hasher k mod DynamicArray_capacity (hm_values m)))"

definition shouldResize :: "('k, 'v) HashMap \<Rightarrow> bool" where
  "shouldResize m \<longleftrightarrow> hm_size m > DynamicArray_capacity (hm_values m) * 2"

text \<open>Rehashing: every entry of the old buckets, in order, is enqueued in its new bucket.\<close>

definition rehash_entry :: "('k \<Rightarrow> size_t) \<Rightarrow> size_t \<Rightarrow> 'k \<times> 'v \<Rightarrow> ('k, 'v) buckets \<Rightarrow> ('k, 'v) buckets res" where
  "rehash_entry hasher newSize value newData =
     (if newSize = 0 then Inl DivideByZero
      else let newHash = unat (hasher (fst value) mod newSize) in
           rbind (aread newData newHash) (\<lambda>b. awrite newData newHash (b @ [value])))"

fun rehash_all :: "('k \<Rightarrow> size_t) \<Rightarrow> size_t \<Rightarrow> ('k \<times> 'v) list \<Rightarrow> ('k, 'v) buckets \<Rightarrow> ('k, 'v) buckets res" where
  "rehash_all hasher newSize [] newData = Inr newData"
| "rehash_all hasher newSize (v # vs) newData =
     rbind (rehash_entry hasher newSize v newData) (rehash_all hasher newSize vs)"

definition ArrayResizer_resize :: "('k \<Rightarrow> size_t) \<Rightarrow> ('k, 'v) buckets \<Rightarrow> size_t \<Rightarrow> ('k, 'v) buckets res" where
  "ArrayResizer_resize hasher src newSize = rehash_all hasher newSize (concat src) (replicate (unat newSize) [])"

definition HashMap_resize :: "('k \<Rightarrow> size_t) \<Rightarrow> ('k, 'v) HashMap \<Rightarrow> ('k, 'v) HashMap res" where
  "HashMap_resize hasher m =
     (let n = hm_size m * 2; newSize = (if n = 0 then nextCapacity (hm_values m) else n) in
      rbind (ArrayResizer_resize hasher (hm_values m) newSize) (\<lambda>vs. Inr (m\<lparr>hm_values := vs\<rparr>)))"

text \<open>The search of a bucket that replaces the value of a key already there.\<close>

fun bucket_update :: "'k \<Rightarrow> 'v \<Rightarrow> ('k \<times> 'v) list \<Rightarrow> ('k \<times> 'v) list option" where
  "bucket_update k v [] = None"
| "bucket_update k v (e # es) =
     (if fst e = k then Some ((fst e, v) # es) else map_option ((#) e) (bucket_update k v es))"

definition HashMap_insert :: "('k \<Rightarrow> size_t) \<Rightarrow> ('k, 'v) HashMap \<Rightarrow> 'k \<Rightarrow> 'v \<Rightarrow> ('k, 'v) HashMap res" where
  "HashMap_insert hasher m k v =
     rbind (if shouldResize m then HashMap_resize hasher m else Inr m) (\<lambda>m1.
     rbind (HashMap_hash hasher m1 k) (\<lambda>newHash.
     rbind (aread (hm_values m1) (unat newHash)) (\<lambda>b.
     rbind (awrite (hm_values m1) (unat newHash)
              (case bucket_update k v b of Some b1 \<Rightarrow> b1 | None \<Rightarrow> b @ [(k, v)])) (\<lambda>vs.
     Inr (m1\<lparr>hm_values := vs\<rparr>)))))"

definition HashMap_contains :: "('k \<Rightarrow> size_t) \<Rightarrow> ('k, 'v) HashMap \<Rightarrow> 'k \<Rightarrow> bool res" where
  "HashMap_contains hasher m k =
     rbind (HashMap_hash hasher m k) (\<lambda>h. rbind (aread (hm_values m) (unat h)) (\<lambda>b. Inr (\<exists>e \<in> set b. fst e = k)))"

text \<open>\<open>operator[]\<close>: the value of a key, inserting the default value first if there is none.\<close>

definition HashMap_get :: "'v \<Rightarrow> ('k \<Rightarrow> size_t) \<Rightarrow> ('k, 'v) HashMap \<Rightarrow> 'k \<Rightarrow> ('v \<times> ('k, 'v) HashMap) res" where
  "HashMap_get dflt hasher m k =
     rbind (HashMap_hash hasher m k) (\<lambda>h.
     rbind (aread (hm_values m) (unat h)) (\<lambda>b.
     case map_of b k of
       Some v \<Rightarrow> Inr (v, m)
     | None \<Rightarrow> rbind (HashMap_insert hasher m k dflt) (\<lambda>m1.
         rbind (aread (hm_values m1) (unat h)) (\<lambda>b1.
         case map_of b1 k of Some v \<Rightarrow> Inr (v, m1) | None \<Rightarrow> Inl NullPointer))))"

section \<open>The map it implements\<close>

definition slot :: "('k \<Rightarrow> size_t) \<Rightarrow> nat \<Rightarrow> 'k \<Rightarrow> nat" where
  "slot hasher n k = unat (hasher k) mod n"

definition buckets_ok :: "('k \<Rightarrow> size_t) \<Rightarrow> ('k, 'v) buckets \<Rightarrow> bool" where
  "buckets_ok hasher vs \<longleftrightarrow> vs \<noteq> [] \<and> length vs < 2 ^ 32
     \<and> (\<forall>i<length vs. distinct (map fst (vs ! i)) \<and> (\<forall>e\<in>set (vs ! i). slot hasher (length vs) (fst e) = i))"

definition hm_inv :: "('k \<Rightarrow> size_t) \<Rightarrow> ('k, 'v) HashMap \<Rightarrow> bool" where
  "hm_inv hasher m \<longleftrightarrow> buckets_ok hasher (hm_values m) \<and> hm_size m = 0"

definition hm_map :: "('k \<Rightarrow> size_t) \<Rightarrow> ('k, 'v) HashMap \<Rightarrow> 'k \<Rightarrow> 'v option" where
  "hm_map hasher m k = map_of (hm_values m ! slot hasher (length (hm_values m)) k) k"

lemma capacity_nat: "length vs < 2 ^ 32 \<Longrightarrow> unat (DynamicArray_capacity vs) = length vs"
  by (simp add: DynamicArray_capacity_def)

lemma hash_ok:
  assumes "buckets_ok hasher (hm_values m)"
  shows "\<exists>h. HashMap_hash hasher m k = Inr h \<and> unat h = slot hasher (length (hm_values m)) k \<and> unat h < length (hm_values m)"
proof -
  have "length (hm_values m) < 2 ^ 32" "hm_values m \<noteq> []" using assms by (simp_all add: buckets_ok_def)
  then show ?thesis using capacity_nat[of "hm_values m"] by (auto simp: HashMap_hash_def slot_def)
qed

lemma bucket_update_Some:
  "bucket_update k v b = Some b1 \<Longrightarrow> map fst b1 = map fst b \<and> map_of b1 = (map_of b)(k \<mapsto> v) \<and> k \<in> fst ` set b"
  by (induction b arbitrary: b1) (auto split: if_splits simp: fun_upd_twist)

lemma bucket_update_None: "bucket_update k v b = None \<longleftrightarrow> k \<notin> fst ` set b"
  by (induction b) auto

definition put :: "'k \<Rightarrow> 'v \<Rightarrow> ('k \<times> 'v) list \<Rightarrow> ('k \<times> 'v) list" where
  "put k v b = (case bucket_update k v b of Some b1 \<Rightarrow> b1 | None \<Rightarrow> b @ [(k, v)])"

lemma put_ok:
  "distinct (map fst b) \<Longrightarrow> distinct (map fst (put k v b)) \<and> fst ` set (put k v b) = insert k (fst ` set b)
     \<and> map_of (put k v b) = (map_of b)(k \<mapsto> v)"
proof (cases "bucket_update k v b")
  case None
  assume "distinct (map fst b)"
  moreover have "k \<notin> fst ` set b" using None bucket_update_None[of k v b] by simp
  then have "map_of b k = None" by (simp add: map_of_eq_None_iff)
  ultimately show ?thesis using None \<open>k \<notin> fst ` set b\<close>
    by (auto simp: put_def map_of_append map_add_def fun_eq_iff split: option.splits)
next
  case (Some b1)
  assume "distinct (map fst b)"
  moreover have b1: "map fst b1 = map fst b" "map_of b1 = (map_of b)(k \<mapsto> v)" "k \<in> fst ` set b"
    using bucket_update_Some[OF Some] by auto
  moreover have "fst ` set b1 = fst ` set b" using b1(1) by (metis list.set_map)
  ultimately show ?thesis using Some by (simp add: put_def insert_absorb)
qed

lemma hm_insert_ok:
  assumes inv: "hm_inv hasher m"
  shows "\<exists>m'. HashMap_insert hasher m k v = Inr m' \<and> hm_inv hasher m' \<and> hm_map hasher m' = (hm_map hasher m)(k \<mapsto> v)
    \<and> length (hm_values m') = length (hm_values m)"
proof -
  let ?vs = "hm_values m"
  have b: "buckets_ok hasher ?vs" using inv by (simp add: hm_inv_def)
  from hash_ok[OF b, of k] obtain h where h: "HashMap_hash hasher m k = Inr h" "unat h = slot hasher (length ?vs) k" "unat h < length ?vs" by blast
  let ?i = "slot hasher (length ?vs) k"
  let ?m = "m\<lparr>hm_values := ?vs[?i := put k v (?vs ! ?i)]\<rparr>"
  have "\<not> shouldResize m" using inv by (simp add: shouldResize_def hm_inv_def)
  then have e: "HashMap_insert hasher m k v = Inr ?m" using h by (simp add: HashMap_insert_def put_def)
  have d: "distinct (map fst (?vs ! ?i))" using b h by (simp add: buckets_ok_def)
  note p = put_ok[OF d, of k v]
  have keys: "slot hasher (length ?vs) (fst e) = ?i" if "e \<in> set (put k v (?vs ! ?i))" for e
  proof -
    have "fst e \<in> insert k (fst ` set (?vs ! ?i))" using p that by blast
    moreover have "\<forall>x\<in>set (?vs ! ?i). slot hasher (length ?vs) (fst x) = ?i" using b h by (simp add: buckets_ok_def)
    ultimately show ?thesis by (metis imageE insertE)
  qed
  have "buckets_ok hasher (?vs[?i := put k v (?vs ! ?i)])"
    unfolding buckets_ok_def length_list_update
  proof (intro conjI allI impI)
    fix i assume i: "i < length ?vs"
    show "distinct (map fst (?vs[?i := put k v (?vs ! ?i)] ! i))"
      using b p i by (cases "i = ?i") (simp_all add: buckets_ok_def)
    show "\<forall>e\<in>set (?vs[?i := put k v (?vs ! ?i)] ! i). slot hasher (length ?vs) (fst e) = i"
      using b keys i by (cases "i = ?i") (simp_all add: buckets_ok_def)
  qed (use b in \<open>simp_all add: buckets_ok_def\<close>)
  then have "hm_inv hasher ?m" using inv by (simp add: hm_inv_def)
  moreover have "hm_map hasher ?m = (hm_map hasher m)(k \<mapsto> v)"
    using p h by (auto simp: hm_map_def fun_eq_iff nth_list_update)
  ultimately show ?thesis using e by simp
qed

lemma hm_get_present:
  assumes "hm_inv hasher m" "hm_map hasher m k = Some v"
  shows "HashMap_get dflt hasher m k = Inr (v, m)" "HashMap_contains hasher m k = Inr True"
proof -
  have b: "buckets_ok hasher (hm_values m)" using assms(1) by (simp add: hm_inv_def)
  from hash_ok[OF b, of k] obtain h where h: "HashMap_hash hasher m k = Inr h" "unat h = slot hasher (length (hm_values m)) k"
    "unat h < length (hm_values m)" by blast
  have "map_of (hm_values m ! unat h) k = Some v" using assms(2) h(2) by (simp add: hm_map_def)
  moreover from map_of_SomeD[OF this] have "\<exists>e \<in> set (hm_values m ! unat h). fst e = k" by force
  ultimately show "HashMap_get dflt hasher m k = Inr (v, m)" "HashMap_contains hasher m k = Inr True"
    using h by (simp_all add: HashMap_get_def HashMap_contains_def)
qed

lemma hm_get_absent:
  assumes inv: "hm_inv hasher m" and none: "hm_map hasher m k = None"
  shows "\<exists>m'. HashMap_get dflt hasher m k = Inr (dflt, m') \<and> hm_inv hasher m' \<and> hm_map hasher m' = (hm_map hasher m)(k \<mapsto> dflt)"
    and "HashMap_contains hasher m k = Inr False"
proof -
  have b: "buckets_ok hasher (hm_values m)" using inv by (simp add: hm_inv_def)
  from hash_ok[OF b, of k] obtain h where h: "HashMap_hash hasher m k = Inr h" "unat h = slot hasher (length (hm_values m)) k"
    "unat h < length (hm_values m)" by blast
  have n: "map_of (hm_values m ! unat h) k = None" using none h(2) by (simp add: hm_map_def)
  then show "HashMap_contains hasher m k = Inr False" using h by (force simp: HashMap_contains_def map_of_eq_None_iff)
  from hm_insert_ok[OF inv, of k dflt] obtain m' where m': "HashMap_insert hasher m k dflt = Inr m'" "hm_inv hasher m'"
    "hm_map hasher m' = (hm_map hasher m)(k \<mapsto> dflt)" "length (hm_values m') = length (hm_values m)" by blast
  have "map_of (hm_values m' ! unat h) k = Some dflt"
    using fun_cong[OF m'(3), of k] h(2) m'(4) by (simp add: hm_map_def)
  then show "\<exists>m'. HashMap_get dflt hasher m k = Inr (dflt, m') \<and> hm_inv hasher m' \<and> hm_map hasher m' = (hm_map hasher m)(k \<mapsto> dflt)"
    using h n m' by (simp add: HashMap_get_def)
qed

section \<open>The interface\<close>

locale map_store =
  fixes minv :: "'m \<Rightarrow> bool" and contents :: "'m \<Rightarrow> 'k \<Rightarrow> 'v option"
    and ins :: "'m \<Rightarrow> 'k \<Rightarrow> 'v \<Rightarrow> 'm res" and mem :: "'m \<Rightarrow> 'k \<Rightarrow> bool res"
  assumes ins_ok: "minv m \<Longrightarrow> \<exists>m'. ins m k v = Inr m' \<and> minv m' \<and> contents m' = (contents m)(k \<mapsto> v)"
    and mem_ok: "minv m \<Longrightarrow> mem m k = Inr (k \<in> dom (contents m))"
begin

lemma ins_all:
  "minv m \<Longrightarrow> \<exists>m'. foldr (\<lambda>(k, v) r. rbind r (\<lambda>m. ins m k v)) kvs (Inr m) = Inr m' \<and> minv m' \<and> contents m' = contents m ++ map_of kvs"
proof (induction kvs)
  case (Cons kv kvs)
  then obtain m1 where m1: "foldr (\<lambda>(k, v) r. rbind r (\<lambda>m. ins m k v)) kvs (Inr m) = Inr m1" "minv m1"
    "contents m1 = contents m ++ map_of kvs" by auto
  obtain m2 where m2: "ins m1 (fst kv) (snd kv) = Inr m2" "minv m2" "contents m2 = (contents m1)(fst kv \<mapsto> snd kv)"
    using ins_ok[OF m1(2)] by blast
  have "map_of (kv # kvs) = (map_of kvs)(fst kv \<mapsto> snd kv)" by (cases kv) (simp add: fun_eq_iff)
  then have "contents m2 = contents m ++ map_of (kv # kvs)" using m2(3) m1(3) by (simp only: map_add_upd)
  moreover have "foldr (\<lambda>(k, v) r. rbind r (\<lambda>m. ins m k v)) (kv # kvs) (Inr m) = Inr m2"
    using m1(1) m2(1) by (simp add: case_prod_unfold)
  ultimately show ?case using m2(2) by blast
qed auto

end

interpretation hm: map_store "hm_inv hasher" "hm_map hasher" "HashMap_insert hasher" "HashMap_contains hasher"
  for hasher :: "'k \<Rightarrow> size_t"
proof unfold_locales
  fix m :: "('k, 'b) HashMap" and k :: 'k and v :: 'b
  show "hm_inv hasher m \<Longrightarrow> \<exists>m'. HashMap_insert hasher m k v = Inr m' \<and> hm_inv hasher m' \<and> hm_map hasher m' = (hm_map hasher m)(k \<mapsto> v)"
    by (drule hm_insert_ok[of hasher m k v]) (elim exE conjE, rule exI, intro conjI, assumption+)
  show "hm_inv hasher m \<Longrightarrow> HashMap_contains hasher m k = Inr (k \<in> dom (hm_map hasher m))"
    using hm_get_present(2) hm_get_absent(2) by (cases "hm_map hasher m k") (auto simp: dom_def)
qed

lemma hm_new: "hm_inv hasher HashMap_new \<and> hm_map hasher HashMap_new = Map.empty"
  by (auto simp: hm_inv_def buckets_ok_def hm_map_def HashMap_new_def DynamicArray_new_def slot_def fun_eq_iff)

section \<open>Properties\<close>

text \<open>
  C36. For any hash function the hash map is a finite map: after any insertions into a new map,
  a key is contained exactly when it was inserted, indexing it yields the value inserted last,
  and the reported size is nevertheless zero, so the map is never resized and always reports
  itself empty.
\<close>

theorem HashMap_implements_map:
  shows "\<exists>m. foldr (\<lambda>(k, v) r. rbind r (\<lambda>m. HashMap_insert hasher m k v)) kvs (Inr HashMap_new) = Inr m
    \<and> (\<forall>k. HashMap_contains hasher m k = Inr (k \<in> fst ` set kvs))
    \<and> (\<forall>k v. map_of kvs k = Some v \<longleftrightarrow> k \<in> fst ` set kvs \<and> HashMap_get dflt hasher m k = Inr (v, m))
    \<and> HashMap_isEmpty m \<and> \<not> shouldResize m"
proof -
  from hm.ins_all[OF conjunct1[OF hm_new], of hasher kvs] obtain m where
    m: "foldr (\<lambda>(k, v) r. rbind r (\<lambda>m. HashMap_insert hasher m k v)) kvs (Inr HashMap_new) = Inr m" "hm_inv hasher m"
    "hm_map hasher m = map_of kvs" unfolding conjunct2[OF hm_new] map_add_empty empty_map_add by blast
  have dom: "k \<in> fst ` set kvs \<longleftrightarrow> (\<exists>v. map_of kvs k = Some v)" for k
    using dom_map_of_conv_image_fst[of kvs] by (auto simp: dom_def)
  have "HashMap_contains hasher m k = Inr (k \<in> fst ` set kvs)" for k
    using hm.mem_ok[OF m(2), of k] m(3) dom[of k] by (auto simp: dom_def)
  moreover have "map_of kvs k = Some v \<longleftrightarrow> k \<in> fst ` set kvs \<and> HashMap_get dflt hasher m k = Inr (v, m)" for k v
    using hm_get_present(1)[OF m(2), of k] m(3) dom[of k] by auto
  moreover have "HashMap_isEmpty m \<and> \<not> shouldResize m" using m(2) by (simp add: hm_inv_def HashMap_isEmpty_def shouldResize_def)
  ultimately show ?thesis using m(1) by blast
qed

end
