(* ===== verification/Scheduler.thy ===== *)
theory Scheduler
  imports Array_List
begin

text \<open>
  Processes and the scheduler: \<open>kernel/include/proc/Process.hpp\<close>,
  \<open>kernel/include/proc/Scheduler.hpp\<close> and \<open>kernel/src/proc/Scheduler.cpp\<close>.

  The scheduler owns its processes in an \<open>ArrayList\<close> and hands out pointers to its elements.
  A pointer is the block it points into and an index; the list gets a new block whenever it
  grows, and following a pointer into an earlier block is \<open>UseAfterFree\<close>. Process objects
  outside the list, which \<open>setCurrentProcess\<close> accepts too, are \<open>Outside\<close> and never move.
  \<open>Scheduler.cpp\<close> tests a member \<open>addressSpace\<close> that \<open>struct Process\<close> does not declare, so
  the outcome of that test is an argument.
\<close>

section \<open>Operations\<close>

datatype ProcState = Unused | Embryo | Sleeping | Runnable | Running | Zombie

datatype proc_ptr = InList nat nat | Outside nat

record Process =
  p_sz :: u32
  p_pgdir :: uintptr
  p_kernStack :: uintptr
  p_state :: ProcState
  p_pid :: int
  p_parent :: "proc_ptr option"
  p_procState :: uintptr
  p_killed :: bool
  p_openFiles :: "size_t list"
  p_cwd :: size_t
  p_name :: string

record Scheduler =
  activeProcess :: "proc_ptr option"
  dormantProcesses :: "Process ArrayList"
  nextPid_next :: int
  sch_block :: nat
  sch_outside :: "nat \<Rightarrow> Process"

definition Scheduler_new :: "Process \<Rightarrow> (nat \<Rightarrow> Process) \<Rightarrow> Scheduler" where
  "Scheduler_new dflt outside =
     \<lparr>activeProcess = None, dormantProcesses = ArrayList_new dflt 8, nextPid_next = 0,
      sch_block = 0, sch_outside = outside\<rparr>"

definition deref :: "Scheduler \<Rightarrow> proc_ptr \<Rightarrow> Process res" where
  "deref s p = (case p of
     InList b i \<Rightarrow> if b = sch_block s then aread (al_data (dormantProcesses s)) i else Inl UseAfterFree
   | Outside n \<Rightarrow> Inr (sch_outside s n))"

definition store :: "Scheduler \<Rightarrow> proc_ptr \<Rightarrow> Process \<Rightarrow> Scheduler res" where
  "store s p x = (case p of
     InList b i \<Rightarrow>
       if b = sch_block s
       then rbind (awrite (al_data (dormantProcesses s)) i x)
              (\<lambda>d. Inr (s\<lparr>dormantProcesses := (dormantProcesses s)\<lparr>al_data := d\<rparr>\<rparr>))
       else Inl UseAfterFree
   | Outside n \<Rightarrow> Inr (s\<lparr>sch_outside := (sch_outside s)(n := x)\<rparr>))"

text \<open>\<open>p->state = st\<close>.\<close>

definition set_state :: "Scheduler \<Rightarrow> proc_ptr \<Rightarrow> ProcState \<Rightarrow> Scheduler res" where
  "set_state s p st = rbind (deref s p) (\<lambda>x. store s p (x\<lparr>p_state := st\<rparr>))"

definition currentProcess :: "Scheduler \<Rightarrow> proc_ptr option" where
  "currentProcess s = activeProcess s"

definition setCurrentProcess :: "Scheduler \<Rightarrow> proc_ptr option \<Rightarrow> Scheduler" where
  "setCurrentProcess s p = s\<lparr>activeProcess := p\<rparr>"

text \<open>\<open>ranges::find_if\<close> for a runnable process: the index of the first one.\<close>

fun find_runnable :: "Process list \<Rightarrow> nat \<Rightarrow> nat option" where
  "find_runnable [] i = None"
| "find_runnable (p # ps) i = (if p_state p = Runnable then Some i else find_runnable ps (Suc i))"

definition hasRunnableProcess :: "Scheduler \<Rightarrow> bool" where
  "hasRunnableProcess s \<longleftrightarrow> find_runnable (al_elems (dormantProcesses s)) 0 \<noteq> None"

definition nextPid :: "Scheduler \<Rightarrow> (int \<times> Scheduler) res" where
  "nextPid s =
     (if nextPid_next s = 2 ^ 31 - 1 then Inl SignedOverflow
      else Inr (nextPid_next s, s\<lparr>nextPid_next := nextPid_next s + 1\<rparr>))"

text \<open>\<open>ArrayList::enqueue\<close> always reports success, so the null result is never returned.\<close>

definition enqueueEmbryo :: "Process \<Rightarrow> Scheduler \<Rightarrow> Process \<Rightarrow> (proc_ptr \<times> Scheduler) res" where
  "enqueueEmbryo dflt s process =
     (let process1 = process\<lparr>p_state := Embryo, p_procState := 0\<rparr>;
          grows = (al_size (dormantProcesses s) = ArrayList_capacity (dormantProcesses s)) in
      rbind (ArrayList_enqueue dflt (dormantProcesses s) process1) (\<lambda>l.
      let block = (if grows then Suc (sch_block s) else sch_block s) in
      Inr (InList block (unat (al_size l - 1)), s\<lparr>dormantProcesses := l, sch_block := block\<rparr>)))"

definition makeRunnable :: "Scheduler \<Rightarrow> proc_ptr \<Rightarrow> bool \<Rightarrow> uintptr \<Rightarrow> (bool \<times> Scheduler) res" where
  "makeRunnable s p hasAddressSpace cpuState =
     rbind (deref s p) (\<lambda>process.
     if p_state process \<noteq> Embryo \<or> cpuState = 0 \<or> \<not> hasAddressSpace \<or> p_kernStack process = 0
     then Inr (False, s)
     else rbind (store s p (process\<lparr>p_procState := cpuState, p_state := Runnable\<rparr>)) (\<lambda>s1. Inr (True, s1)))"

definition nextProcess :: "Scheduler \<Rightarrow> proc_ptr option res" where
  "nextProcess s = (case find_runnable (al_elems (dormantProcesses s)) 0 of
     Some i \<Rightarrow> Inr (Some (InList (sch_block s) i))
   | None \<Rightarrow> (case currentProcess s of
       None \<Rightarrow> Inr None
     | Some cur \<Rightarrow> rbind (deref s cur) (\<lambda>p.
         Inr (if p_state p = Running \<or> p_state p = Runnable then Some cur else None))))"

definition promoteNextProcessToCurrent :: "Scheduler \<Rightarrow> (proc_ptr option \<times> Scheduler) res" where
  "promoteNextProcessToCurrent s =
     rbind (nextProcess s) (\<lambda>next.
     if next \<noteq> activeProcess s
     then rbind (case activeProcess s of None \<Rightarrow> Inr s | Some c \<Rightarrow> set_state s c Runnable) (\<lambda>s1.
          Inr (next, s1\<lparr>activeProcess := next\<rparr>))
     else Inr (activeProcess s, s))"

section \<open>Validity of pointers\<close>

definition valid :: "Scheduler \<Rightarrow> proc_ptr \<Rightarrow> bool" where
  "valid s p = (case p of InList b i \<Rightarrow> b = sch_block s \<and> i < unat (al_size (dormantProcesses s)) | Outside n \<Rightarrow> True)"

definition sched_ok :: "Scheduler \<Rightarrow> bool" where
  "sched_ok s \<longleftrightarrow> al_inv (dormantProcesses s) \<and> (case activeProcess s of None \<Rightarrow> True | Some p \<Rightarrow> valid s p)"

definition state_of :: "Scheduler \<Rightarrow> proc_ptr \<Rightarrow> ProcState option" where
  "state_of s p = (case deref s p of Inl e \<Rightarrow> None | Inr x \<Rightarrow> Some (p_state x))"

text \<open>The process at the front of those ready to run.\<close>

definition first_runnable :: "Scheduler \<Rightarrow> nat \<Rightarrow> bool" where
  "first_runnable s i \<longleftrightarrow> i < length (al_elems (dormantProcesses s))
     \<and> p_state (al_elems (dormantProcesses s) ! i) = Runnable
     \<and> (\<forall>j<i. p_state (al_elems (dormantProcesses s) ! j) \<noteq> Runnable)"

lemma find_runnable_shift: "find_runnable ps (Suc n) = map_option Suc (find_runnable ps n)"
  by (induction ps arbitrary: n) auto

lemma find_runnable_Some:
  "find_runnable ps 0 = Some i \<longleftrightarrow>
     i < length ps \<and> p_state (ps ! i) = Runnable \<and> (\<forall>j<i. p_state (ps ! j) \<noteq> Runnable)"
proof (induction ps arbitrary: i)
  case (Cons p ps)
  show ?case
    by (cases i) (auto simp: find_runnable_shift Cons.IH less_Suc_eq_0_disj)
qed simp

lemma find_runnable_first: "find_runnable (al_elems (dormantProcesses s)) 0 = Some i \<longleftrightarrow> first_runnable s i"
  by (simp add: find_runnable_Some first_runnable_def)

lemma find_runnable_none: "find_runnable (al_elems (dormantProcesses s)) 0 = None \<longleftrightarrow> (\<nexists>i. first_runnable s i)"
  using find_runnable_first[of s] by (cases "find_runnable (al_elems (dormantProcesses s)) 0") auto

lemma deref_valid: "al_inv (dormantProcesses s) \<Longrightarrow> valid s p \<Longrightarrow> \<exists>x. deref s p = Inr x"
  by (cases p) (auto simp: valid_def deref_def al_inv_def)

lemma store_valid:
  assumes "al_inv (dormantProcesses s)" "valid s p"
  shows "\<exists>s'. store s p x = Inr s' \<and> al_inv (dormantProcesses s') \<and> al_size (dormantProcesses s') = al_size (dormantProcesses s)
    \<and> length (al_data (dormantProcesses s')) = length (al_data (dormantProcesses s))
    \<and> activeProcess s' = activeProcess s \<and> sch_block s' = sch_block s \<and> nextPid_next s' = nextPid_next s
    \<and> deref s' p = Inr x \<and> (\<forall>q. q \<noteq> p \<longrightarrow> deref s' q = deref s q)"
proof (cases p)
  case (InList b i)
  then have "i < length (al_data (dormantProcesses s))" "b = sch_block s" using assms by (auto simp: valid_def al_inv_def)
  then show ?thesis using assms InList
    by (auto simp: store_def deref_def al_inv_def aread_def split: proc_ptr.splits)
next
  case (Outside n)
  then show ?thesis using assms by (auto simp: store_def deref_def split: proc_ptr.splits)
qed

lemma set_state_valid:
  assumes "al_inv (dormantProcesses s)" "valid s p"
  shows "\<exists>s'. set_state s p st = Inr s' \<and> al_inv (dormantProcesses s') \<and> al_size (dormantProcesses s') = al_size (dormantProcesses s)
    \<and> length (al_data (dormantProcesses s')) = length (al_data (dormantProcesses s))
    \<and> activeProcess s' = activeProcess s \<and> sch_block s' = sch_block s
    \<and> state_of s' p = Some st \<and> (\<forall>q. q \<noteq> p \<longrightarrow> deref s' q = deref s q)"
proof -
  obtain x where "deref s p = Inr x" using deref_valid[OF assms] by blast
  then show ?thesis using store_valid[OF assms, of "x\<lparr>p_state := st\<rparr>"] by (auto simp: set_state_def state_of_def)
qed

lemma valid_cong: "al_size (dormantProcesses s') = al_size (dormantProcesses s) \<Longrightarrow> sch_block s' = sch_block s \<Longrightarrow> valid s' p = valid s p"
  by (simp add: valid_def split: proc_ptr.splits)

lemma first_runnable_state: "al_inv (dormantProcesses s) \<Longrightarrow> first_runnable s i \<Longrightarrow>
    valid s (InList (sch_block s) i) \<and> state_of s (InList (sch_block s) i) = Some Runnable"
  by (auto simp: first_runnable_def valid_def state_of_def deref_def al_elems_def al_inv_def)

text \<open>What \<open>nextProcess\<close> chooses.\<close>

definition chosen :: "Scheduler \<Rightarrow> proc_ptr option \<Rightarrow> bool" where
  "chosen s r \<longleftrightarrow>
     (\<forall>i. first_runnable s i \<longrightarrow> r = Some (InList (sch_block s) i)) \<and>
     ((\<nexists>i. first_runnable s i) \<longrightarrow>
        r = (case activeProcess s of None \<Rightarrow> None
             | Some c \<Rightarrow> if state_of s c \<in> {Some Running, Some Runnable} then Some c else None))"

lemma nextProcess_ok:
  assumes "sched_ok s"
  shows "\<exists>r. nextProcess s = Inr r \<and> chosen s r \<and> (\<forall>q. r = Some q \<longrightarrow> valid s q \<and> state_of s q \<in> {Some Running, Some Runnable})"
proof (cases "find_runnable (al_elems (dormantProcesses s)) 0")
  case (Some i)
  then have f: "first_runnable s i" using find_runnable_first by blast
  have "j = i" if "first_runnable s j" for j using that Some find_runnable_first[of s j] by simp
  then have "chosen s (Some (InList (sch_block s) i))" using f unfolding chosen_def by blast
  moreover have "al_inv (dormantProcesses s)" using assms by (simp add: sched_ok_def)
  ultimately show ?thesis using Some first_runnable_state[OF _ f] by (simp add: nextProcess_def)
next
  case None
  then have n: "\<nexists>i. first_runnable s i" using find_runnable_none by blast
  show ?thesis
  proof (cases "activeProcess s")
    case None
    then show ?thesis using n \<open>find_runnable _ _ = None\<close> by (simp add: nextProcess_def chosen_def currentProcess_def)
  next
    case (Some c)
    then have "valid s c" "al_inv (dormantProcesses s)" using assms by (simp_all add: sched_ok_def)
    then obtain x where x: "deref s c = Inr x" using deref_valid by blast
    show ?thesis using n Some x None \<open>valid s c\<close>
      by (simp add: nextProcess_def chosen_def currentProcess_def state_of_def)
  qed
qed

lemma promote_ok:
  assumes ok: "sched_ok s"
  shows "\<exists>r s'. promoteNextProcessToCurrent s = Inr (r, s') \<and> sched_ok s' \<and> activeProcess s' = r \<and> chosen s r
    \<and> al_size (dormantProcesses s') = al_size (dormantProcesses s) \<and> sch_block s' = sch_block s
    \<and> length (al_data (dormantProcesses s')) = length (al_data (dormantProcesses s))
    \<and> (\<forall>q. r = Some q \<longrightarrow> state_of s' q \<in> {Some Running, Some Runnable})
    \<and> (\<forall>c. activeProcess s = Some c \<and> r \<noteq> Some c \<longrightarrow> state_of s' c = Some Runnable)
    \<and> (\<forall>q. activeProcess s \<noteq> Some q \<or> r = Some q \<longrightarrow> deref s' q = deref s q)"
proof -
  obtain r where r: "nextProcess s = Inr r" "chosen s r"
    "\<And>q. r = Some q \<Longrightarrow> valid s q \<and> state_of s q \<in> {Some Running, Some Runnable}"
    using nextProcess_ok[OF ok] by blast
  have inv: "al_inv (dormantProcesses s)" using ok by (simp add: sched_ok_def)
  show ?thesis
  proof (cases "r = activeProcess s")
    case True
    then show ?thesis using r ok by (auto simp: promoteNextProcessToCurrent_def)
  next
    case ne: False
    show ?thesis
    proof (cases "activeProcess s")
      case None
      let ?s = "s\<lparr>activeProcess := r\<rparr>"
      have d: "deref ?s = deref s" "valid ?s = valid s" by (auto simp: fun_eq_iff deref_def valid_def split: proc_ptr.splits)
      then have "sched_ok ?s" using inv r(3) by (auto simp: sched_ok_def split: option.splits)
      then show ?thesis using None ne r d by (auto simp: promoteNextProcessToCurrent_def state_of_def)
    next
      case (Some c)
      then have "valid s c" using ok by (simp add: sched_ok_def)
      from set_state_valid[OF inv this, of Runnable] obtain s1 where s1: "set_state s c Runnable = Inr s1"
        "al_inv (dormantProcesses s1)" "al_size (dormantProcesses s1) = al_size (dormantProcesses s)"
        "length (al_data (dormantProcesses s1)) = length (al_data (dormantProcesses s))" "sch_block s1 = sch_block s"
        "state_of s1 c = Some Runnable" "\<And>q. q \<noteq> c \<Longrightarrow> deref s1 q = deref s q" by blast
      let ?s = "s1\<lparr>activeProcess := r\<rparr>"
      have d: "deref ?s q = deref s1 q" for q by (simp add: deref_def split: proc_ptr.splits)
      have st: "state_of ?s q = state_of s1 q" for q by (simp add: state_of_def d)
      have v: "valid ?s q = valid s q" for q using s1(3,5) by (simp add: valid_def split: proc_ptr.splits)
      have q: "q \<noteq> c" if "r = Some q" for q using that ne Some by auto
      have "sched_ok ?s" using s1(2) r(3) v by (auto simp: sched_ok_def split: option.splits)
      moreover have "state_of ?s q \<in> {Some Running, Some Runnable}" if "r = Some q" for q
        using r(3)[OF that] s1(7)[OF q[OF that]] unfolding st by (simp add: state_of_def)
      moreover have "promoteNextProcessToCurrent s = Inr (r, ?s)" using r(1) ne Some s1(1) by (simp add: promoteNextProcessToCurrent_def)
      ultimately show ?thesis using r(2) s1 st d Some q by auto
    qed
  qed
qed

section \<open>Runs of the scheduler\<close>

text \<open>
  A run performs the scheduler's operations in any order, together with the changes other code
  makes to the state of a process it holds a pointer to, and counts the processes added.
\<close>

inductive runs :: "Process \<Rightarrow> Scheduler \<Rightarrow> nat \<Rightarrow> Scheduler \<Rightarrow> bool" for dflt s0 where
  runs_start: "runs dflt s0 0 s0"
| runs_enqueue: "runs dflt s0 n s \<Longrightarrow> enqueueEmbryo dflt s p = Inr (q, s') \<Longrightarrow> runs dflt s0 (Suc n) s'"
| runs_makeRunnable: "runs dflt s0 n s \<Longrightarrow> valid s p \<Longrightarrow> makeRunnable s p a c = Inr (b, s') \<Longrightarrow> runs dflt s0 n s'"
| runs_promote: "runs dflt s0 n s \<Longrightarrow> promoteNextProcessToCurrent s = Inr (q, s') \<Longrightarrow> runs dflt s0 n s'"
| runs_setCurrent: "runs dflt s0 n s \<Longrightarrow> (\<And>p. q = Some p \<Longrightarrow> valid s p) \<Longrightarrow> runs dflt s0 n (setCurrentProcess s q)"
| runs_nextPid: "runs dflt s0 n s \<Longrightarrow> nextPid s = Inr (i, s') \<Longrightarrow> runs dflt s0 n s'"
| runs_state: "runs dflt s0 n s \<Longrightarrow> valid s p \<Longrightarrow> set_state s p st = Inr s' \<Longrightarrow> runs dflt s0 n s'"

definition run_inv :: "nat \<Rightarrow> Scheduler \<Rightarrow> bool" where
  "run_inv n s \<longleftrightarrow> sched_ok s \<and> unat (al_size (dormantProcesses s)) = n
     \<and> length (al_data (dormantProcesses s)) = 8 \<and> sch_block s = 0"

lemma run_inv_update:
  assumes "run_inv n s" "al_inv (dormantProcesses s')" "al_size (dormantProcesses s') = al_size (dormantProcesses s)"
    "length (al_data (dormantProcesses s')) = length (al_data (dormantProcesses s))"
    "activeProcess s' = activeProcess s" "sch_block s' = sch_block s"
  shows "run_inv n s'"
proof -
  have "valid s' = valid s" using assms by (simp add: fun_eq_iff valid_def split: proc_ptr.splits)
  then show ?thesis using assms by (simp add: run_inv_def sched_ok_def split: option.splits)
qed

lemma enqueueEmbryo_ok:
  assumes "al_inv (dormantProcesses s)" "unat (al_size (dormantProcesses s)) < length (al_data (dormantProcesses s))"
  shows "enqueueEmbryo dflt s p =
    Inr (InList (sch_block s) (unat (al_size (dormantProcesses s))),
         s\<lparr>dormantProcesses := \<lparr>al_data = (al_data (dormantProcesses s))[unat (al_size (dormantProcesses s)) := p\<lparr>p_state := Embryo, p_procState := 0\<rparr>],
                                  al_size = al_size (dormantProcesses s) + 1\<rparr>\<rparr>)"
  using assms al_full_iff[OF assms(1)] by (simp add: enqueueEmbryo_def ArrayList_enqueue_def)

lemma run_inv_enqueue:
  assumes "run_inv n s" "enqueueEmbryo dflt s p = Inr (q, s')" "n < 8"
  shows "run_inv (Suc n) s'"
proof -
  have inv: "al_inv (dormantProcesses s)" and n: "unat (al_size (dormantProcesses s)) = n"
    "length (al_data (dormantProcesses s)) = 8" "sch_block s = 0"
    and act: "case activeProcess s of None \<Rightarrow> True | Some p \<Rightarrow> valid s p"
    using assms(1) by (simp_all add: run_inv_def sched_ok_def)
  have s': "s' = s\<lparr>dormantProcesses := \<lparr>al_data = (al_data (dormantProcesses s))[n := p\<lparr>p_state := Embryo, p_procState := 0\<rparr>],
      al_size = al_size (dormantProcesses s) + 1\<rparr>\<rparr>"
    using enqueueEmbryo_ok[OF inv, of dflt p] assms(2,3) n by simp
  have u: "unat (al_size (dormantProcesses s) + 1) = Suc n" using al_size_inc[of "dormantProcesses s" 8] n assms(3) by simp
  then have "case activeProcess s' of None \<Rightarrow> True | Some p \<Rightarrow> valid s' p"
    using act n s' by (auto simp: valid_def split: option.splits proc_ptr.splits)
  moreover have "al_inv (dormantProcesses s')" using s' n u assms(3) inv by (simp add: al_inv_def)
  ultimately show ?thesis using s' n u by (auto simp: run_inv_def sched_ok_def)
qed

lemma runs_inv: "runs dflt s0 n s \<Longrightarrow> run_inv 0 s0 \<Longrightarrow> n \<le> 8 \<Longrightarrow> run_inv n s"
proof (induction rule: runs.induct)
  case (runs_enqueue n s p q s')
  then show ?case using run_inv_enqueue by (simp add: less_eq_Suc_le)
next
  case (runs_makeRunnable n s p a c b s')
  then have inv: "run_inv n s" "al_inv (dormantProcesses s)" by (simp_all add: run_inv_def sched_ok_def)
  from deref_valid[OF inv(2) runs_makeRunnable.hyps(2)] obtain x where x: "deref s p = Inr x" by blast
  from store_valid[OF inv(2) runs_makeRunnable.hyps(2), of "x\<lparr>p_procState := c, p_state := Runnable\<rparr>"] obtain s1 where
    s1: "store s p (x\<lparr>p_procState := c, p_state := Runnable\<rparr>) = Inr s1" "run_inv n s1" using run_inv_update[OF inv(1)] by blast
  have "s' \<in> {s, s1}" using runs_makeRunnable.hyps(3) x s1(1) by (auto simp: makeRunnable_def split: if_splits)
  then show ?case using inv(1) s1(2) by auto
next
  case (runs_promote n s q s')
  then have inv: "run_inv n s" by simp
  then have "sched_ok s" by (simp add: run_inv_def)
  from promote_ok[OF this] runs_promote.hyps(2) show ?case using inv by (auto simp: run_inv_def)
next
  case (runs_setCurrent n s q)
  then have inv: "run_inv n s" by simp
  have "valid (setCurrentProcess s q) p = valid s p" for p by (simp add: setCurrentProcess_def valid_def split: proc_ptr.splits)
  then have "case activeProcess (setCurrentProcess s q) of None \<Rightarrow> True | Some p \<Rightarrow> valid (setCurrentProcess s q) p"
    using runs_setCurrent.hyps(2) by (cases q) (simp_all add: setCurrentProcess_def)
  moreover have d: "dormantProcesses (setCurrentProcess s q) = dormantProcesses s" "sch_block (setCurrentProcess s q) = sch_block s"
    by (simp_all add: setCurrentProcess_def)
  ultimately show ?case using inv unfolding run_inv_def sched_ok_def d by simp
next
  case (runs_nextPid n s i s')
  then have e: "s' = s\<lparr>nextPid_next := nextPid_next s + 1\<rparr>" by (auto simp: nextPid_def split: if_splits)
  have "run_inv n s" using runs_nextPid by simp
  then show ?case unfolding e by (rule run_inv_update) (use \<open>run_inv n s\<close> in \<open>simp_all add: run_inv_def sched_ok_def\<close>)
next
  case (runs_state n s p st s')
  then have inv: "run_inv n s" "al_inv (dormantProcesses s)" by (simp_all add: run_inv_def sched_ok_def)
  from set_state_valid[OF inv(2) runs_state.hyps(2), of st] show ?case using runs_state.hyps(3) run_inv_update[OF inv(1)] by auto
qed

lemma new_run_inv: "run_inv 0 (Scheduler_new dflt outside)"
  by (simp add: run_inv_def sched_ok_def Scheduler_new_def ArrayList_new_def DynamicArray_new_def al_inv_def)

lemma runs_ok:
  assumes "runs dflt (Scheduler_new dflt outside) n s" "n \<le> 8"
  shows "sched_ok s" "unat (al_size (dormantProcesses s)) = n" "sch_block s = 0"
  using runs_inv[OF assms(1) new_run_inv assms(2)] by (simp_all add: run_inv_def)

section \<open>Properties\<close>

text \<open>
  C31. With a live current process, selecting the next process never faults: the first runnable
  process of the list is chosen, and without one the current process stays if it is running or
  runnable and nobody runs otherwise. The result becomes the current process and is running or
  runnable; a current process that is displaced becomes runnable, whatever its state was, and
  no other process changes.
\<close>

theorem promote_correct:
  assumes "sched_ok s"
  shows "\<exists>r s'. promoteNextProcessToCurrent s = Inr (r, s') \<and> sched_ok s' \<and> currentProcess s' = r
    \<and> (\<forall>i. first_runnable s i \<longrightarrow> r = Some (InList (sch_block s) i))
    \<and> ((\<nexists>i. first_runnable s i) \<longrightarrow>
         r = (case currentProcess s of None \<Rightarrow> None
              | Some c \<Rightarrow> if state_of s c \<in> {Some Running, Some Runnable} then Some c else None))
    \<and> (\<forall>q. r = Some q \<longrightarrow> state_of s' q \<in> {Some Running, Some Runnable})
    \<and> (\<forall>c. currentProcess s = Some c \<and> r \<noteq> Some c \<longrightarrow> state_of s' c = Some Runnable)
    \<and> (\<forall>q. currentProcess s \<noteq> Some q \<or> r = Some q \<longrightarrow> deref s' q = deref s q)"
  using promote_ok[OF assms] unfolding chosen_def currentProcess_def by blast

definition example_process :: Process where
  "example_process = \<lparr>p_sz = 0, p_pgdir = 0, p_kernStack = 4096, p_state = Zombie, p_pid = 0, p_parent = None,
     p_procState = 0, p_killed = False, p_openFiles = [], p_cwd = 0, p_name = ''init''\<rparr>"

definition example_scheduler :: Scheduler where
  "example_scheduler = setCurrentProcess (Scheduler_new example_process (\<lambda>_. example_process)) (Some (Outside 0))"

lemma example_ok: "sched_ok example_scheduler" "\<not> first_runnable example_scheduler i"
    "state_of example_scheduler (Outside 0) = Some Zombie" "currentProcess example_scheduler = Some (Outside 0)"
  by (simp_all add: sched_ok_def example_scheduler_def setCurrentProcess_def Scheduler_new_def ArrayList_new_def
      DynamicArray_new_def al_inv_def valid_def first_runnable_def al_elems_def state_of_def deref_def example_process_def
      currentProcess_def)

text \<open>A finished process that is current when nothing else can run is made runnable again.\<close>

theorem promote_correct_witness:
  "\<exists>s'. promoteNextProcessToCurrent example_scheduler = Inr (None, s') \<and> state_of s' (Outside 0) = Some Runnable"
proof -
  have "(case currentProcess example_scheduler of None \<Rightarrow> None
      | Some c \<Rightarrow> if state_of example_scheduler c \<in> {Some Running, Some Runnable} then Some c else None) = None"
    using example_ok by simp
  then show ?thesis using promote_correct[OF example_ok(1)] example_ok(2,4) by auto
qed

text \<open>
  C6. As long as at most eight processes have been added, every run of the scheduler's
  operations keeps its pointers valid: the current process and every listed process can be
  followed, and selecting the next process never faults.
\<close>

theorem Scheduler_pointers_valid:
  assumes "runs dflt (Scheduler_new dflt outside) n s" "n \<le> 8"
  shows "sched_ok s \<and> length (al_elems (dormantProcesses s)) = n
    \<and> (\<forall>i. i < n \<longrightarrow> (\<exists>p. deref s (InList 0 i) = Inr p))
    \<and> (\<exists>r s'. promoteNextProcessToCurrent s = Inr (r, s') \<and> runs dflt (Scheduler_new dflt outside) n s')"
proof -
  note ok = runs_ok[OF assms]
  have inv: "al_inv (dormantProcesses s)" using ok(1) by (simp add: sched_ok_def)
  have "\<exists>p. deref s (InList 0 i) = Inr p" if "i < n" for i
    by (rule deref_valid[OF inv]) (use that ok in \<open>simp add: valid_def\<close>)
  moreover obtain r s' where p: "promoteNextProcessToCurrent s = Inr (r, s')" using promote_ok[OF ok(1)] by blast
  moreover from runs_promote[OF assms(1) p] have "runs dflt (Scheduler_new dflt outside) n s'" .
  ultimately show ?thesis using ok inv by simp
qed

theorem Scheduler_pointers_valid_witness:
  "\<exists>q s. enqueueEmbryo example_process (Scheduler_new example_process (\<lambda>_. example_process)) example_process = Inr (q, s)
    \<and> length (al_elems (dormantProcesses s)) = 1"
proof -
  let ?s = "Scheduler_new example_process (\<lambda>_. example_process)"
  have "al_inv (dormantProcesses ?s)" "unat (al_size (dormantProcesses ?s)) < length (al_data (dormantProcesses ?s))"
    using new_run_inv[of example_process "\<lambda>_. example_process"] by (simp_all add: run_inv_def sched_ok_def)
  from enqueueEmbryo_ok[OF this] obtain q s where e: "enqueueEmbryo example_process ?s example_process = Inr (q, s)" by blast
  have "runs example_process ?s 1 s" using runs_enqueue[OF runs_start e] by simp
  from Scheduler_pointers_valid[OF this] e show ?thesis by simp
qed

text \<open>
  Adding a process to a full list moves all processes: when the current process is one of
  the list, the scheduler keeps its old address, and selecting the next process then uses freed
  memory.
\<close>

theorem enqueueEmbryo_dangles:
  assumes "sched_ok s" "currentProcess s = Some (InList b i)"
    and "unat (al_size (dormantProcesses s)) = length (al_data (dormantProcesses s))" "al_room (dormantProcesses s)"
  shows "\<exists>q s'. enqueueEmbryo dflt s p = Inr (q, s') \<and> promoteNextProcessToCurrent s' = Inl UseAfterFree"
proof -
  have inv: "al_inv (dormantProcesses s)" and b: "b = sch_block s"
    using assms(1,2) by (simp_all add: sched_ok_def valid_def currentProcess_def)
  from ArrayList_enqueue_ok[OF inv assms(4)] obtain l where
    "ArrayList_enqueue dflt (dormantProcesses s) (p\<lparr>p_state := Embryo, p_procState := 0\<rparr>) = Inr l" by blast
  moreover have "al_size (dormantProcesses s) = ArrayList_capacity (dormantProcesses s)" using al_full_iff[OF inv] assms(3) by simp
  ultimately have e: "enqueueEmbryo dflt s p = Inr (InList (Suc (sch_block s)) (unat (al_size l - 1)),
      s\<lparr>dormantProcesses := l, sch_block := Suc (sch_block s)\<rparr>)" by (simp add: enqueueEmbryo_def)
  have "promoteNextProcessToCurrent (s\<lparr>dormantProcesses := l, sch_block := Suc (sch_block s)\<rparr>) = Inl UseAfterFree"
    using assms(2) b by (auto simp: promoteNextProcessToCurrent_def nextProcess_def currentProcess_def set_state_def deref_def
        split: option.splits)
  then show ?thesis using e by blast
qed

definition full_scheduler :: Scheduler where
  "full_scheduler = \<lparr>activeProcess = Some (InList 0 0), dormantProcesses = ArrayList_of_list (replicate 8 example_process),
     nextPid_next = 0, sch_block = 0, sch_outside = \<lambda>_. example_process\<rparr>"

theorem enqueueEmbryo_dangles_witness:
  "\<exists>q s'. enqueueEmbryo example_process full_scheduler example_process = Inr (q, s')
    \<and> promoteNextProcessToCurrent s' = Inl UseAfterFree"
  by (rule enqueueEmbryo_dangles[of full_scheduler 0 0])
    (simp_all add: full_scheduler_def sched_ok_def valid_def ArrayList_of_list_def al_inv_def currentProcess_def al_room_def)

end
