(* ===== verification/Ata.thy ===== *)
theory Ata
  imports Strings
begin

text \<open>
  ATA and ATAPI devices: the SCSI command packets (\<open>kernel/src/device/storage/AtapiCommand.cpp\<close>),
  the decoding of what a device reports about itself
  (\<open>kernel/src/device/storage/AtaDeviceDescriptor.cpp\<close>) and the driver that drives the device
  through its I/O ports (\<open>kernel/src/arch/i386/device/storage/X86AtaDevice.cpp\<close>).

  The hardware behind the ports is an argument of every operation: a record of four functions on
  a device state, one for each of \<open>inb\<close>, \<open>outb\<close>, \<open>inw\<close> and \<open>outw\<close>. Loops that poll a status
  register may run for ever, so they count rounds and running out is \<open>Hang\<close>. Buffers are lists of
  words with a start index; a write outside them is \<open>OutOfBounds\<close>. Messages printed with \<open>puts\<close>
  are not part of the state. Uninitialised arrays are filled by the argument \<open>junk\<close>.
\<close>

section \<open>The bus\<close>

record 'd bus =
  bus_inb :: "u16 \<Rightarrow> 'd \<Rightarrow> u8 \<times> 'd"
  bus_outb :: "u16 \<Rightarrow> u8 \<Rightarrow> 'd \<Rightarrow> 'd"
  bus_inw :: "u16 \<Rightarrow> 'd \<Rightarrow> u16 \<times> 'd"
  bus_outw :: "u16 \<Rightarrow> u16 \<Rightarrow> 'd \<Rightarrow> 'd"

text \<open>The little-endian view of memory as bytes and as 16-bit words.\<close>

fun bytes_of_words :: "u16 list \<Rightarrow> u8 list" where
  "bytes_of_words [] = []"
| "bytes_of_words (w # ws) = ucast w # ucast (drop_bit 8 w) # bytes_of_words ws"

fun words_of_bytes :: "u8 list \<Rightarrow> u16 list" where
  "words_of_bytes (lo # hi # bs) = (ucast lo OR push_bit 8 (ucast hi)) # words_of_bytes bs"
| "words_of_bytes bs = []"

definition load32 :: "u8 list \<Rightarrow> nat \<Rightarrow> u32" where
  "load32 b i = ucast (b ! i) OR push_bit 8 (ucast (b ! (i + 1)))
     OR push_bit 16 (ucast (b ! (i + 2))) OR push_bit 24 (ucast (b ! (i + 3)))"

definition load64 :: "u8 list \<Rightarrow> nat \<Rightarrow> u64" where
  "load64 b i = ucast (load32 b i) OR push_bit 32 (ucast (load32 b (i + 4)))"

section \<open>Command packets\<close>

definition kReadCapacity :: u8 where "kReadCapacity = 0x25"

definition kRead12 :: u8 where "kRead12 = 0xA8"

text \<open>A packet is its twelve bytes; the other member of the union reads them as six words.\<close>

type_synonym AtapiCommand = "u8 list"

definition packet_words :: "AtapiCommand \<Rightarrow> u16 list" where
  "packet_words cmd = words_of_bytes cmd"

definition readCapacityCommand :: AtapiCommand where
  "readCapacityCommand = kReadCapacity # replicate 11 0"

definition read12Command :: "u32 \<Rightarrow> u32 \<Rightarrow> AtapiCommand" where
  "read12Command lba len =
     [kRead12, 0,
      ucast (drop_bit 0x18 lba AND 0xFF), ucast (drop_bit 0x10 lba AND 0xFF), ucast (drop_bit 0x8 lba AND 0xFF), ucast (lba AND 0xFF),
      ucast (drop_bit 0x18 len AND 0xFF), ucast (drop_bit 0x10 len AND 0xFF), ucast (drop_bit 0x8 len AND 0xFF), ucast (len AND 0xFF),
      0, 0]"

section \<open>Device descriptors\<close>

definition endianSwap :: "u32 \<Rightarrow> u32" where
  "endianSwap l = push_bit 24 (l AND 0xFF) OR push_bit 8 (l AND 0xFF00)
     OR drop_bit 8 (l AND 0xFF0000) OR drop_bit 24 (l AND 0xFF000000)"

text \<open>\<open>fixAtaWordString\<close> on the characters at \<open>off\<close>: the two bytes of every word are swapped.\<close>

definition swap_at :: "nat \<Rightarrow> nat \<Rightarrow> u8 list \<Rightarrow> u8 list res" where
  "swap_at off k s =
     rbind (aread s (off + 2 * k + 1)) (\<lambda>tmp.
     rbind (aread s (off + 2 * k)) (\<lambda>x.
     rbind (awrite s (off + 2 * k + 1) x) (\<lambda>s1. awrite s1 (off + 2 * k) tmp)))"

definition fixAtaWordString :: "u8 list \<Rightarrow> nat \<Rightarrow> nat \<Rightarrow> u8 list res" where
  "fixAtaWordString b off len = rfor (swap_at off) 0 ((len + 1) div 2) b"

record AtaDeviceDescriptor =
  ad_littleEndian :: bool
  ad_firmware :: "u8 list"
  ad_model :: "u8 list"
  ad_serial :: "u8 list"
  ad_lba28bitSectorCount :: u32
  ad_lba48bitSectorCount :: u64
  ad_atapiEndLba :: u32
  ad_sectorSize :: u32

text \<open>
  The offsets of the members of \<open>AtaInfo\<close> in the 512 bytes of the identity: serial 20, firmware
  46, model 54, \<open>sectors_28\<close> 120, \<open>sectors_48\<close> 200. The strings are fixed in place in the
  caller's array, which is the second result.
\<close>

definition readIdentity :: "AtaDeviceDescriptor \<Rightarrow> u8 list option \<Rightarrow> (AtaDeviceDescriptor \<times> u8 list option) res" where
  "readIdentity desc rawInfo = (case rawInfo of
     None \<Rightarrow> Inr (desc, None)
   | Some b \<Rightarrow>
       if length b < 512 then Inl OutOfBounds else
       rbind (awrite (ad_serial desc) 20 0) (\<lambda>serial.
       rbind (awrite (ad_firmware desc) 8 0) (\<lambda>firmware.
       rbind (awrite (ad_model desc) 40 0) (\<lambda>model.
       rbind (if ad_littleEndian desc
              then rbind (fixAtaWordString b 20 20) (\<lambda>b1.
                   rbind (fixAtaWordString b1 46 8) (\<lambda>b2. fixAtaWordString b2 54 40))
              else Inr b) (\<lambda>b3.
       rbind (strncpy_loop serial (drop 20 b3) 0 20) (\<lambda>serial1.
       rbind (strncpy_loop firmware (drop 46 b3) 0 8) (\<lambda>firmware1.
       rbind (strncpy_loop model (drop 54 b3) 0 40) (\<lambda>model1.
       let lba28 = load32 b3 120; lba48 = load64 b3 200 in
       Inr (desc\<lparr>ad_serial := serial1, ad_firmware := firmware1, ad_model := model1,
                 ad_lba28bitSectorCount := lba28, ad_lba48bitSectorCount := lba48,
                 ad_sectorSize := (if lba48 \<noteq> 0 \<or> lba48 \<noteq> 0 then 512 else ad_sectorSize desc)\<rparr>,
            Some b3)))))))))"

definition AtaDeviceDescriptor_new ::
  "(nat \<Rightarrow> u8) \<Rightarrow> bool \<Rightarrow> u8 list option \<Rightarrow> (AtaDeviceDescriptor \<times> u8 list option) res" where
  "AtaDeviceDescriptor_new junk isLittleEndian rawInfo =
     readIdentity \<lparr>ad_littleEndian = isLittleEndian, ad_firmware = map junk [0..<9], ad_model = map junk [0..<41],
       ad_serial = map junk [0..<21], ad_lba28bitSectorCount = 0, ad_lba48bitSectorCount = 0,
       ad_atapiEndLba = 0, ad_sectorSize = 0\<rparr> rawInfo"

definition readAtapiCapacity :: "AtaDeviceDescriptor \<Rightarrow> u16 list option \<Rightarrow> AtaDeviceDescriptor res" where
  "readAtapiCapacity desc rawInfo = (case rawInfo of
     None \<Rightarrow> Inr desc
   | Some ws \<Rightarrow>
       if length ws < 4 then Inl OutOfBounds
       else let lba = load32 (bytes_of_words ws) 0; blocks = load32 (bytes_of_words ws) 4 in
            Inr (desc\<lparr>ad_atapiEndLba := (if ad_littleEndian desc then endianSwap lba else lba),
                      ad_sectorSize := (if ad_littleEndian desc then endianSwap blocks else blocks)\<rparr>))"

section \<open>The driver\<close>

datatype AtaType = PATA | SATA | PATAPI | SATAPI | UnknownType

record X86AtaDevice =
  ata_primary :: bool
  ata_slaveBit :: u16
  ata_ioPort :: u16
  ata_controlPort :: u16
  ata_identified :: bool
  ata_descriptor :: AtaDeviceDescriptor

definition slaveBit :: "bool \<Rightarrow> u8" where "slaveBit master = (if master then 0 else 1)"

definition ioPort :: "bool \<Rightarrow> u16" where "ioPort primary = (if primary then 0x1F0 else 0x170)"

definition controlPort :: "bool \<Rightarrow> u16" where "controlPort primary = (if primary then 0x3F6 else 0x376)"

definition X86AtaDevice_new :: "(nat \<Rightarrow> u8) \<Rightarrow> bool \<Rightarrow> bool \<Rightarrow> X86AtaDevice res" where
  "X86AtaDevice_new junk primary master =
     rbind (AtaDeviceDescriptor_new junk True None) (\<lambda>(desc, _).
     Inr \<lparr>ata_primary = primary, ata_slaveBit = ucast (slaveBit master), ata_ioPort = ioPort primary,
          ata_controlPort = controlPort primary, ata_identified = False, ata_descriptor = desc\<rparr>)"

definition isPrimary :: "X86AtaDevice \<Rightarrow> bool" where "isPrimary dev = ata_primary dev"

definition isMaster :: "X86AtaDevice \<Rightarrow> bool" where "isMaster dev \<longleftrightarrow> ata_slaveBit dev = 0"

text \<open>Register offsets and status bits.\<close>

definition kAtaRegisterFeatureInfo :: u16 where "kAtaRegisterFeatureInfo = 1"
definition kAtaRegisterLbaLow :: u16 where "kAtaRegisterLbaLow = 3"
definition kAtaRegisterLbaMid :: u16 where "kAtaRegisterLbaMid = 4"
definition kAtaRegisterCylinderLow :: u16 where "kAtaRegisterCylinderLow = 4"
definition kAtaRegisterLbaHigh :: u16 where "kAtaRegisterLbaHigh = 5"
definition kAtaRegisterCylinderHigh :: u16 where "kAtaRegisterCylinderHigh = 5"
definition kAtaRegisterDriveSelect :: u16 where "kAtaRegisterDriveSelect = 6"
definition kAtaRegisterStatus :: u16 where "kAtaRegisterStatus = 7"
definition kAtaRegisterCommand :: u16 where "kAtaRegisterCommand = 7"

definition kAtaStatusBitBusy :: u8 where "kAtaStatusBitBusy = 0x80"
definition kAtaStatusBitReady :: u8 where "kAtaStatusBitReady = 0x40"
definition kAtaStatusBitDriveFault :: u8 where "kAtaStatusBitDriveFault = 0x20"
definition kAtaStatusBitDRQ :: u8 where "kAtaStatusBitDRQ = 0x08"
definition kAtaStatusBitError :: u8 where "kAtaStatusBitError = 0x01"

lemmas ata_regs = kAtaRegisterFeatureInfo_def kAtaRegisterLbaLow_def kAtaRegisterLbaMid_def kAtaRegisterCylinderLow_def
  kAtaRegisterLbaHigh_def kAtaRegisterCylinderHigh_def kAtaRegisterDriveSelect_def kAtaRegisterStatus_def
  kAtaRegisterCommand_def

lemmas ata_bits = kAtaStatusBitBusy_def kAtaStatusBitReady_def kAtaStatusBitDriveFault_def kAtaStatusBitDRQ_def
  kAtaStatusBitError_def

definition drive_select :: "X86AtaDevice \<Rightarrow> u8" where
  "drive_select dev = ucast (0xA0 OR push_bit 4 (ata_slaveBit dev))"

definition ioWait :: "'d bus \<Rightarrow> X86AtaDevice \<Rightarrow> 'd \<Rightarrow> 'd" where
  "ioWait bus dev d = ((\<lambda>d. snd (bus_inb bus (ata_ioPort dev + 0x0C) d)) ^^ 4) d"

definition softReset :: "'d bus \<Rightarrow> X86AtaDevice \<Rightarrow> 'd \<Rightarrow> 'd" where
  "softReset bus dev d =
     bus_outb bus (ata_controlPort dev) 0x00 (ioWait bus dev (bus_outb bus (ata_controlPort dev) 0x04 d))"

fun wait_timeout :: "'d bus \<Rightarrow> u16 \<Rightarrow> nat \<Rightarrow> 'd \<Rightarrow> u8 \<times> 'd" where
  "wait_timeout bus p 0 d = bus_inb bus p d"
| "wait_timeout bus p (Suc n) d =
     (let (status, d1) = bus_inb bus p d in
      if status AND kAtaStatusBitBusy \<noteq> 0 then wait_timeout bus p n d1 else (status, d1))"

fun wait_forever :: "nat \<Rightarrow> 'd bus \<Rightarrow> u16 \<Rightarrow> 'd \<Rightarrow> (u8 \<times> 'd) res" where
  "wait_forever 0 bus p d = Inl Hang"
| "wait_forever (Suc fuel) bus p d =
     (let (status, d1) = bus_inb bus p d in
      if status AND kAtaStatusBitBusy \<noteq> 0 then wait_forever fuel bus p d1 else Inr (status, d1))"

definition waitForStatus :: "nat \<Rightarrow> 'd bus \<Rightarrow> X86AtaDevice \<Rightarrow> int \<Rightarrow> 'd \<Rightarrow> (u8 \<times> 'd) res" where
  "waitForStatus fuel bus dev timeout d =
     (if timeout > 0 then Inr (wait_timeout bus (ata_ioPort dev + kAtaRegisterStatus) (nat timeout) d)
      else wait_forever fuel bus (ata_ioPort dev + kAtaRegisterStatus) d)"

definition waitUntilReady :: "nat \<Rightarrow> 'd bus \<Rightarrow> X86AtaDevice \<Rightarrow> bool \<Rightarrow> 'd \<Rightarrow> (u8 \<times> 'd) res" where
  "waitUntilReady fuel bus dev errorCheck d =
     rbind (waitForStatus fuel bus dev (- 1) (ioWait bus dev d)) (\<lambda>(_, d1).
     if errorCheck
     then let (status, d2) = bus_inb bus (ata_ioPort dev + kAtaRegisterStatus) d1 in
          if status AND kAtaStatusBitError \<noteq> 0 then Inr (1, d2)
          else if status AND kAtaStatusBitDriveFault \<noteq> 0 then Inr (1, d2)
          else if status AND kAtaStatusBitDRQ = 0 then Inr (1, d2)
          else Inr (0, d2)
     else Inr (0, d1))"

definition isAttached :: "nat \<Rightarrow> 'd bus \<Rightarrow> X86AtaDevice \<Rightarrow> 'd \<Rightarrow> (bool \<times> 'd) res" where
  "isAttached fuel bus dev d =
     (let d1 = softReset bus dev d;
          d2 = bus_outb bus (ata_ioPort dev + kAtaRegisterDriveSelect) (drive_select dev) d1;
          d3 = bus_outb bus (ata_ioPort dev + kAtaRegisterLbaLow) 0 d2;
          d4 = bus_outb bus (ata_ioPort dev + kAtaRegisterLbaMid) 0 d3;
          d5 = bus_outb bus (ata_ioPort dev + kAtaRegisterLbaHigh) 0 d4;
          d6 = bus_outb bus (ata_ioPort dev + kAtaRegisterCommand) 0xEC d5 in
      rbind (waitForStatus fuel bus dev (- 1) d6) (\<lambda>(status, d7). Inr (status \<noteq> 0, d7)))"

definition AtaDevice_type :: "'d bus \<Rightarrow> X86AtaDevice \<Rightarrow> 'd \<Rightarrow> AtaType \<times> 'd" where
  "AtaDevice_type bus dev d =
     (let d1 = softReset bus dev d;
          d2 = bus_outb bus (ata_ioPort dev + kAtaRegisterDriveSelect) (drive_select dev) d1;
          d3 = ioWait bus dev d2;
          (cl, d4) = bus_inb bus (ata_ioPort dev + kAtaRegisterCylinderLow) d3;
          (ch, d5) = bus_inb bus (ata_ioPort dev + kAtaRegisterCylinderHigh) d4 in
      (if cl = 0x14 \<and> ch = 0xEB then PATAPI
       else if cl = 0x69 \<and> ch = 0x96 then SATAPI
       else if cl = 0 \<and> ch = 0 then PATA
       else if cl = 0x3C \<and> ch = 0xC3 then SATA
       else UnknownType, d5))"

definition typeOf :: "(nat \<Rightarrow> u8) \<Rightarrow> 'd bus \<Rightarrow> bool \<Rightarrow> bool \<Rightarrow> 'd \<Rightarrow> (AtaType \<times> 'd) res" where
  "typeOf junk bus primary master d =
     rbind (X86AtaDevice_new junk primary master) (\<lambda>dev. Inr (AtaDevice_type bus dev d))"

definition pioRead :: "'d bus \<Rightarrow> X86AtaDevice \<Rightarrow> u16 list \<Rightarrow> nat \<Rightarrow> u32 \<Rightarrow> 'd \<Rightarrow> (u16 list \<times> 'd) res" where
  "pioRead bus dev buf base bytesToRead d =
     rfor (\<lambda>i (buf, d). let (w, d1) = bus_inw bus (ata_ioPort dev) d in
             rbind (awrite buf (base + i) w) (\<lambda>buf1. Inr (buf1, d1)))
       0 (unat (bytesToRead div 2)) (buf, d)"

definition pioWrite :: "'d bus \<Rightarrow> X86AtaDevice \<Rightarrow> u16 list \<Rightarrow> nat \<Rightarrow> u32 \<Rightarrow> 'd \<Rightarrow> 'd res" where
  "pioWrite bus dev buf base bytesToRead d =
     rfor (\<lambda>i d. rbind (aread buf (base + i)) (\<lambda>w. Inr (bus_outw bus (ata_ioPort dev) w d)))
       0 (unat (bytesToRead div 2)) d"

text \<open>The two polling loops of a packet operation: \<open>None\<close> is the error exit.\<close>

fun poll_packet :: "nat \<Rightarrow> 'd bus \<Rightarrow> u16 \<Rightarrow> 'd \<Rightarrow> (u8 option \<times> 'd) res" where
  "poll_packet 0 bus p d = Inl Hang"
| "poll_packet (Suc fuel) bus p d =
     (let (status, d1) = bus_inb bus p d in
      if status AND kAtaStatusBitError \<noteq> 0 then Inr (None, d1)
      else if status AND kAtaStatusBitBusy = 0 \<and> status AND kAtaStatusBitReady \<noteq> 0 then Inr (Some status, d1)
      else poll_packet fuel bus p d1)"

fun poll_data :: "nat \<Rightarrow> 'd bus \<Rightarrow> u16 \<Rightarrow> 'd \<Rightarrow> (u8 option \<times> 'd) res" where
  "poll_data 0 bus p d = Inl Hang"
| "poll_data (Suc fuel) bus p d =
     (let (status, d1) = bus_inb bus p d in
      if status AND kAtaStatusBitError \<noteq> 0 then Inr (None, d1)
      else if status AND kAtaStatusBitBusy = 0 \<and> status AND kAtaStatusBitReady \<noteq> 0 then Inr (Some status, d1)
      else if status AND kAtaStatusBitDRQ \<noteq> 0 then Inr (Some status, d1)
      else poll_data fuel bus p d1)"

definition send_packet :: "'d bus \<Rightarrow> X86AtaDevice \<Rightarrow> AtapiCommand \<Rightarrow> 'd \<Rightarrow> 'd res" where
  "send_packet bus dev cmd d =
     rfor (\<lambda>i d. rbind (aread (packet_words cmd) i) (\<lambda>w. Inr (bus_outw bus (ata_ioPort dev) w d))) 0 6 d"

definition performPioAtapiOperation ::
  "nat \<Rightarrow> 'd bus \<Rightarrow> X86AtaDevice \<Rightarrow> AtapiCommand \<Rightarrow> u16 list \<Rightarrow> nat \<Rightarrow> size_t \<Rightarrow> 'd \<Rightarrow> (bool \<times> u16 list \<times> 'd) res" where
  "performPioAtapiOperation fuel bus dev cmd buf base bufSize d =
     (let io = ata_ioPort dev;
          d1 = bus_outb bus (io + kAtaRegisterFeatureInfo) 0 d;
          d2 = bus_outb bus (io + kAtaRegisterLbaMid) (ucast (bufSize AND 0xFF)) d1;
          d3 = bus_outb bus (io + kAtaRegisterLbaHigh) (ucast (drop_bit 8 bufSize)) d2;
          d4 = bus_outb bus (io + kAtaRegisterCommand) 0xA0 d3 in
      rbind (poll_packet fuel bus (io + kAtaRegisterStatus) d4) (\<lambda>(r, d5).
      if r = None then Inr (False, buf, d5)
      else rbind (send_packet bus dev cmd d5) (\<lambda>d6.
           rbind (poll_data fuel bus (io + kAtaRegisterStatus) d6) (\<lambda>(r, d7).
           case r of None \<Rightarrow> Inr (False, buf, d7)
           | Some status \<Rightarrow>
               if status AND kAtaStatusBitDRQ \<noteq> 0
               then let (hi, d8) = bus_inb bus (io + kAtaRegisterLbaHigh) d7;
                        (lo, d9) = bus_inb bus (io + kAtaRegisterLbaMid) d8;
                        readSizeBytes = push_bit 8 (ucast hi :: u16) OR ucast lo in
                    rbind (pioRead bus dev buf base (ucast readSizeBytes) d9) (\<lambda>(buf1, d10). Inr (True, buf1, d10))
               else Inr (True, buf, d7)))))"

definition identify :: "nat \<Rightarrow> 'd bus \<Rightarrow> (nat \<Rightarrow> u16) \<Rightarrow> X86AtaDevice \<Rightarrow> 'd \<Rightarrow> (X86AtaDevice \<times> 'd) res" where
  "identify fuel bus junk dev d =
     (let io = ata_ioPort dev;
          d1 = bus_outb bus (io + 1) 0 d;
          d2 = bus_outb bus (ata_controlPort dev) 0 d1;
          d3 = bus_outb bus (io + kAtaRegisterDriveSelect) (drive_select dev) d2;
          (ty, d4) = AtaDevice_type bus dev (ioWait bus dev d3) in
      if ty = UnknownType then Inr (dev, d4)
      else let d5 = bus_outb bus (io + 7) (if ty = PATAPI \<or> ty = SATAPI then 0xA1 else 0xEC) d4;
               d6 = ioWait bus dev d5 in
           rbind (waitUntilReady fuel bus dev False d6) (\<lambda>(_, d7).
           rbind (pioRead bus dev (map junk [0..<256]) 0 256 d7) (\<lambda>(ident, d8).
           rbind (readIdentity (ata_descriptor dev) (Some (bytes_of_words ident))) (\<lambda>(desc, _).
           let dev1 = dev\<lparr>ata_descriptor := desc, ata_identified := True\<rparr>;
               (ty1, d9) = AtaDevice_type bus dev1 d8 in
           if ty1 = PATAPI
           then rbind (performPioAtapiOperation fuel bus dev1 readCapacityCommand (map junk [0..<4]) 0 8 d9) (\<lambda>(_, data, d10).
                rbind (readAtapiCapacity desc (Some data)) (\<lambda>desc1.
                Inr (dev1\<lparr>ata_descriptor := desc1\<rparr>, d10)))
           else Inr (dev1, d9)))))"

definition AtaDevice_descriptor :: "nat \<Rightarrow> 'd bus \<Rightarrow> (nat \<Rightarrow> u16) \<Rightarrow> X86AtaDevice \<Rightarrow> 'd \<Rightarrow> (X86AtaDevice \<times> 'd) res" where
  "AtaDevice_descriptor fuel bus junk dev d =
     (if \<not> ata_identified dev then identify fuel bus junk dev d else Inr (dev, d))"

definition AtaDevice_model :: "nat \<Rightarrow> 'd bus \<Rightarrow> (nat \<Rightarrow> u16) \<Rightarrow> X86AtaDevice \<Rightarrow> 'd \<Rightarrow> (u8 list \<times> X86AtaDevice \<times> 'd) res" where
  "AtaDevice_model fuel bus junk dev d =
     rbind (AtaDevice_descriptor fuel bus junk dev d) (\<lambda>(dev1, d1). Inr (ad_model (ata_descriptor dev1), dev1, d1))"

definition AtaDevice_serial :: "nat \<Rightarrow> 'd bus \<Rightarrow> (nat \<Rightarrow> u16) \<Rightarrow> X86AtaDevice \<Rightarrow> 'd \<Rightarrow> (u8 list \<times> X86AtaDevice \<times> 'd) res" where
  "AtaDevice_serial fuel bus junk dev d =
     rbind (AtaDevice_descriptor fuel bus junk dev d) (\<lambda>(dev1, d1). Inr (ad_serial (ata_descriptor dev1), dev1, d1))"

definition AtaDevice_firmware :: "nat \<Rightarrow> 'd bus \<Rightarrow> (nat \<Rightarrow> u16) \<Rightarrow> X86AtaDevice \<Rightarrow> 'd \<Rightarrow> (u8 list \<times> X86AtaDevice \<times> 'd) res" where
  "AtaDevice_firmware fuel bus junk dev d =
     rbind (AtaDevice_descriptor fuel bus junk dev d) (\<lambda>(dev1, d1). Inr (ad_firmware (ata_descriptor dev1), dev1, d1))"

definition AtaDevice_sectorSize :: "nat \<Rightarrow> 'd bus \<Rightarrow> (nat \<Rightarrow> u16) \<Rightarrow> X86AtaDevice \<Rightarrow> 'd \<Rightarrow> (u32 \<times> X86AtaDevice \<times> 'd) res" where
  "AtaDevice_sectorSize fuel bus junk dev d =
     rbind (AtaDevice_descriptor fuel bus junk dev d) (\<lambda>(dev1, d1). Inr (ad_sectorSize (ata_descriptor dev1), dev1, d1))"

definition readInternal ::
  "nat \<Rightarrow> 'd bus \<Rightarrow> (nat \<Rightarrow> u16) \<Rightarrow> X86AtaDevice \<Rightarrow> u64 \<Rightarrow> u16 list \<Rightarrow> nat \<Rightarrow> size_t \<Rightarrow> 'd
   \<Rightarrow> (bool \<times> u16 list \<times> X86AtaDevice \<times> 'd) res" where
  "readInternal fuel bus junk dev address buf base sectors d =
     rbind (AtaDevice_sectorSize fuel bus junk dev d) (\<lambda>(size1, dev1, d1).
     let maxByteCount = size1 * sectors;
         d2 = bus_outb bus (ata_ioPort dev1 + kAtaRegisterDriveSelect) (drive_select dev1) d1;
         (ty, d3) = AtaDevice_type bus dev1 (ioWait bus dev1 d2) in
     if ty = PATAPI \<or> ty = SATAPI
     then rbind (performPioAtapiOperation fuel bus dev1 (read12Command (ucast address) sectors) buf base maxByteCount d3)
            (\<lambda>(ok, buf1, d4). Inr (ok, buf1, dev1, d4))
     else if ty = PATA \<or> ty = SATA then Inl (KernelPanic ''Attempted to read from unsupported ATA device.'')
     else Inr (False, buf, dev1, d3))"

text \<open>The loop of \<open>read\<close> over chunks of ten sectors.\<close>

fun read_chunks ::
  "nat \<Rightarrow> nat \<Rightarrow> 'd bus \<Rightarrow> (nat \<Rightarrow> u16) \<Rightarrow> X86AtaDevice \<Rightarrow> u64 \<Rightarrow> u16 list \<Rightarrow> nat \<Rightarrow> size_t \<Rightarrow> size_t \<Rightarrow> size_t \<Rightarrow> 'd
   \<Rightarrow> (bool \<times> u16 list \<times> X86AtaDevice \<times> 'd) res" where
  "read_chunks 0 fuel bus junk dev address buf base bufIncr sectors offset d = Inl Hang"
| "read_chunks (Suc k) fuel bus junk dev address buf base bufIncr sectors offset d =
     (if offset < sectors
      then let bufOffset = bufIncr * offset;
               sectorsToRead = (if sectors - offset < 10 then sectors - offset else 10) in
           rbind (readInternal fuel bus junk dev (address + ucast offset) buf (base + unat bufOffset) sectorsToRead d)
             (\<lambda>(success, buf1, dev1, d1).
              if \<not> success then Inr (False, buf1, dev1, d1)
              else read_chunks k fuel bus junk dev1 address buf1 base bufIncr sectors (offset + 10) d1)
      else Inr (True, buf, dev, d))"

definition AtaDevice_read ::
  "nat \<Rightarrow> 'd bus \<Rightarrow> (nat \<Rightarrow> u16) \<Rightarrow> X86AtaDevice \<Rightarrow> u64 \<Rightarrow> u16 list \<Rightarrow> nat \<Rightarrow> size_t \<Rightarrow> 'd
   \<Rightarrow> (bool \<times> u16 list \<times> X86AtaDevice \<times> 'd) res" where
  "AtaDevice_read fuel bus junk dev address buf base sectors d =
     (if sectors = 0 then Inr (False, buf, dev, d)
      else if sectors > 10
      then rbind (AtaDevice_sectorSize fuel bus junk dev d) (\<lambda>(size1, dev1, d1).
           read_chunks fuel fuel bus junk dev1 address buf base (size1 div 2) sectors 0 d1)
      else readInternal fuel bus junk dev address buf base sectors d)"

end
