(* ===== verification/Streams.thy ===== *)
theory Streams
  imports Array_List
begin

text \<open>
  Byte streams and the random-access reader on top of them: the generic operations of
  \<open>libsys/include/io/InputStream.hpp\<close> and \<open>libsys/include/io/FileReader.hpp\<close> with
  \<open>libsys/src/io/FileReader.cpp\<close>.

  A stream is a state and an operation that reads a byte, \<open>None\<close> being \<open>kEndOfStream\<close>. A
  \<open>Byte\<close> is compared with \<open>kEndOfStream\<close> through its conversion to \<open>bool\<close>, which tells whether
  there is a byte. The locale \<open>byte_stream\<close> says what a stream promises: it delivers a list of
  bytes and then ends. A \<open>FileReader\<close> caches what it has read in a growing array; \<open>dflt\<close> stands
  for the uninitialised bytes of that array. The reader's shared pointer to its stream is the
  stream itself, or \<open>None\<close> for null.
\<close>

section \<open>Streams\<close>

text \<open>
  \<open>InputStream::read(bytes, n)\<close> and \<open>skip(n)\<close>, for any stream with an operation that reads a byte.
  The destination is a buffer and an index; the count of bytes read is the first result.
\<close>

fun InputStream_read_n :: "('s \<Rightarrow> (u8 option \<times> 's) res) \<Rightarrow> nat \<Rightarrow> u8 list \<Rightarrow> nat \<Rightarrow> 's \<Rightarrow> (nat \<times> u8 list \<times> 's) res" where
  "InputStream_read_n rd 0 bytes i s = Inr (0, bytes, s)"
| "InputStream_read_n rd (Suc n) bytes i s =
     rbind (rd s) (\<lambda>(c, s1). case c of None \<Rightarrow> Inr (0, bytes, s1)
     | Some x \<Rightarrow> rbind (awrite bytes i x) (\<lambda>bytes1.
                 rbind (InputStream_read_n rd n bytes1 (Suc i) s1) (\<lambda>(k, bytes2, s2). Inr (Suc k, bytes2, s2))))"

fun InputStream_skip :: "('s \<Rightarrow> (u8 option \<times> 's) res) \<Rightarrow> nat \<Rightarrow> 's \<Rightarrow> (nat \<times> 's) res" where
  "InputStream_skip rd 0 s = Inr (0, s)"
| "InputStream_skip rd (Suc n) s =
     rbind (rd s) (\<lambda>(c, s1). case c of None \<Rightarrow> Inr (0, s1)
     | Some x \<Rightarrow> rbind (InputStream_skip rd n s1) (\<lambda>(k, s2). Inr (Suc k, s2)))"

section \<open>The file reader\<close>

record 's FileReader =
  fr_stream :: "'s option"
  fr_bytes :: "u8 DynamicArray"
  fr_extent :: size_t
  fr_eof :: bool

definition FileReader_new :: "u8 \<Rightarrow> 's option \<Rightarrow> 's FileReader" where
  "FileReader_new dflt fileStream =
     \<lparr>fr_stream = fileStream, fr_bytes = DynamicArray_new dflt 512, fr_extent = 0, fr_eof = (fileStream = None)\<rparr>"

definition markEofReached :: "'s FileReader \<Rightarrow> 's FileReader" where
  "markEofReached r = r\<lparr>fr_eof := True, fr_stream := None\<rparr>"

text \<open>The cache grows to twice its size, or to \<open>offset\<close> bytes if that is more.\<close>

definition grow_cache :: "u8 \<Rightarrow> u8 DynamicArray \<Rightarrow> size_t \<Rightarrow> u8 DynamicArray res" where
  "grow_cache dflt bytes offset =
     (if offset \<ge> DynamicArray_capacity bytes
      then let doubleCapacity = DynamicArray_capacity bytes * 2;
               newSize = (if offset < doubleCapacity then doubleCapacity else offset) in
           DynamicArray_resize dflt bytes newSize 0
      else Inr bytes)"

definition FileReader_read :: "('s \<Rightarrow> (u8 option \<times> 's) res) \<Rightarrow> u8 \<Rightarrow> 's FileReader \<Rightarrow> size_t \<Rightarrow> (u8 option \<times> 's FileReader) res" where
  "FileReader_read rd dflt r offset =
     (if offset \<ge> fr_extent r
      then if fr_eof r then Inr (None, r)
           else rbind (grow_cache dflt (fr_bytes r) offset) (\<lambda>bytes.
                let expectedBytes = 1 + (offset - fr_extent r) in
                case fr_stream r of None \<Rightarrow> Inl NullPointer
                | Some s \<Rightarrow>
                    rbind (InputStream_read_n rd (unat expectedBytes) bytes (unat (fr_extent r)) s) (\<lambda>(bytesRead, bytes1, s1).
                    let r1 = r\<lparr>fr_stream := Some s1, fr_bytes := bytes1, fr_extent := fr_extent r + of_nat bytesRead\<rparr> in
                    if expectedBytes \<noteq> of_nat bytesRead then Inr (None, markEofReached r1)
                    else rbind (aread bytes1 (unat offset)) (\<lambda>b. Inr (Some b, r1))))
      else rbind (aread (fr_bytes r) (unat offset)) (\<lambda>b. Inr (Some b, r)))"

text \<open>The loop that copies the cached part of a range; the first result counts the bytes.\<close>

function copy_range :: "u8 list \<Rightarrow> size_t \<Rightarrow> size_t \<Rightarrow> size_t \<Rightarrow> size_t \<Rightarrow> u8 list \<Rightarrow> (size_t \<times> u8 list) res" where
  "copy_range bytes extent offset lastIndex i buf =
     (if i \<le> lastIndex \<and> i < extent
      then rbind (aread bytes (unat i)) (\<lambda>b.
           rbind (awrite buf (unat (i - offset)) b) (\<lambda>buf1.
           rbind (copy_range bytes extent offset lastIndex (i + 1) buf1) (\<lambda>(k, buf2). Inr (k + 1, buf2))))
      else Inr (0, buf))"
  by pat_completeness auto
termination
  by (relation "measure (\<lambda>(bytes, extent, offset, lastIndex, i, buf). unat extent - unat i)")
    (auto simp: unat_inc word_less_nat_alt)

declare copy_range.simps [simp del]

definition FileReader_read_range :: "('s \<Rightarrow> (u8 option \<times> 's) res) \<Rightarrow> u8 \<Rightarrow> 's FileReader \<Rightarrow> u8 list \<Rightarrow> size_t \<Rightarrow> size_t
    \<Rightarrow> (size_t \<times> u8 list \<times> 's FileReader) res" where
  "FileReader_read_range rd dflt r buf offset bytesToRead =
     (if bytesToRead = 0 then Inr (0, buf, r)
      else let lastIndex = offset + bytesToRead - 1 in
           rbind (FileReader_read rd dflt r lastIndex) (\<lambda>(_, r1).
           rbind (copy_range (fr_bytes r1) (fr_extent r1) offset lastIndex offset buf) (\<lambda>(k, buf1).
           Inr (k, buf1, r1))))"

text \<open>\<open>readAll\<close>: \<open>fuel\<close> bounds the number of bytes read.\<close>

fun readAll_loop :: "nat \<Rightarrow> ('s \<Rightarrow> (u8 option \<times> 's) res) \<Rightarrow> u8 \<Rightarrow> size_t \<Rightarrow> 's FileReader \<Rightarrow> 's FileReader res" where
  "readAll_loop 0 rd dflt i r = Inl Hang"
| "readAll_loop (Suc fuel) rd dflt i r =
     rbind (FileReader_read rd dflt r i) (\<lambda>(b, r1). if b = None then Inr r1 else readAll_loop fuel rd dflt (i + 1) r1)"

definition FileReader_readAll :: "nat \<Rightarrow> ('s \<Rightarrow> (u8 option \<times> 's) res) \<Rightarrow> u8 \<Rightarrow> 's FileReader \<Rightarrow> 's FileReader res" where
  "FileReader_readAll fuel rd dflt r = readAll_loop fuel rd dflt 0 r"

section \<open>What streams promise\<close>

lemma copy_range_ok:
  assumes "unat extent \<le> length bytes" "unat offset \<le> unat i"
    and "unat i - unat offset + (min (Suc (unat lastIndex)) (unat extent) - unat i) \<le> length buf"
  shows "copy_range bytes extent offset lastIndex i buf =
     Inr (of_nat (min (Suc (unat lastIndex)) (unat extent) - unat i),
          patch (unat i - unat offset) (take (min (Suc (unat lastIndex)) (unat extent) - unat i) (drop (unat i) bytes)) buf)"
  using assms
proof (induction "min (Suc (unat lastIndex)) (unat extent) - unat i" arbitrary: i buf)
  case 0
  then have "\<not> (i \<le> lastIndex \<and> i < extent)" by (auto simp: word_le_nat_alt word_less_nat_alt)
  then show ?case using 0 by (subst copy_range.simps) auto
next
  case (Suc k)
  let ?i = "unat i" and ?o = "unat offset"
  have lt: "i \<le> lastIndex" "i < extent" using Suc.hyps(2) by (auto simp: word_le_nat_alt word_less_nat_alt)
  have i1: "unat (i + 1) = Suc ?i" using unat_inc[OF lt(2)] by simp
  have d: "unat (i - offset) = ?i - ?o" using Suc.prems(2) by (simp add: unat_sub word_le_nat_alt)
  have b: "?i < length bytes" "?i - ?o < length buf" using Suc.prems Suc.hyps(2) lt by (auto simp: word_less_nat_alt)
  have k: "k = min (Suc (unat lastIndex)) (unat extent) - unat (i + 1)" using Suc.hyps(2) i1 by simp
  have "copy_range bytes extent offset lastIndex (i + 1) (buf[?i - ?o := bytes ! ?i]) =
     Inr (of_nat k, patch (Suc (?i - ?o)) (take k (drop (Suc ?i) bytes)) (buf[?i - ?o := bytes ! ?i]))"
  proof -
    have "unat (i + 1) - ?o = Suc (?i - ?o)" using i1 Suc.prems(2) by simp
    moreover have "Suc (?i - ?o) + k \<le> length buf" using Suc.prems(3) Suc.hyps(2) by linarith
    ultimately show ?thesis
      using Suc.hyps(1)[OF k Suc.prems(1), of "buf[?i - ?o := bytes ! ?i]"] Suc.prems(2) i1 unfolding k[symmetric] by simp
  qed
  moreover have "take (Suc k) (drop ?i bytes) = bytes ! ?i # take k (drop (Suc ?i) bytes)"
    using b(1) by (simp add: take_Suc_conv_app_nth Cons_nth_drop_Suc[symmetric])
  ultimately show ?case using lt b d unfolding Suc.hyps(2)[symmetric]
    by (simp add: copy_range.simps[of _ _ _ _ i] patch_Cons)
qed

locale byte_stream =
  fixes rd :: "'s \<Rightarrow> (u8 option \<times> 's) res" and sinv :: "'s \<Rightarrow> bool" and srest :: "'s \<Rightarrow> u8 list"
  assumes rd_ok: "sinv s \<Longrightarrow> \<exists>s'. rd s = Inr (case srest s of [] \<Rightarrow> None | c # cs \<Rightarrow> Some c, s')
    \<and> sinv s' \<and> srest s' = tl (srest s)"
begin

lemma rd_end: "sinv s \<Longrightarrow> srest s = [] \<Longrightarrow> \<exists>s'. rd s = Inr (None, s') \<and> sinv s' \<and> srest s' = []"
  using rd_ok[of s] by auto

lemma rd_byte: "sinv s \<Longrightarrow> srest s = c # cs \<Longrightarrow> \<exists>s'. rd s = Inr (Some c, s') \<and> sinv s' \<and> srest s' = cs"
  using rd_ok[of s] by auto

lemma read_n_ok:
  "sinv s \<Longrightarrow> i + min n (length (srest s)) \<le> length bytes \<Longrightarrow>
   \<exists>s'. InputStream_read_n rd n bytes i s =
     Inr (min n (length (srest s)), patch i (take n (srest s)) bytes, s') \<and> sinv s' \<and> srest s' = drop n (srest s)"
proof (induction n arbitrary: bytes i s)
  case (Suc n)
  show ?case
  proof (cases "srest s")
    case Nil
    then show ?thesis using rd_end[OF Suc.prems(1)] by auto
  next
    case (Cons c cs)
    with rd_byte[OF Suc.prems(1)] obtain s1 where s1: "rd s = Inr (Some c, s1)" "sinv s1" "srest s1 = cs" by blast
    have i: "i < length bytes" using Suc.prems(2) Cons by simp
    from Suc.IH[OF s1(2), of "Suc i" "bytes[i := c]"] Suc.prems(2) s1(3) Cons show ?thesis
      using s1(1) i by (auto simp: patch_Cons)
  qed
qed simp

lemma read_n_overrun:
  "sinv s \<Longrightarrow> i \<le> length bytes \<Longrightarrow> length bytes < i + min n (length (srest s)) \<Longrightarrow> InputStream_read_n rd n bytes i s = Inl OutOfBounds"
proof (induction n arbitrary: bytes i s)
  case (Suc n)
  then obtain c cs where Cons: "srest s = c # cs" "length bytes < i + Suc (min n (length cs))"
    by (cases "srest s") auto
  with rd_byte[OF Suc.prems(1)] obtain s1 where s1: "rd s = Inr (Some c, s1)" "sinv s1" "srest s1 = cs" by blast
  show ?case
  proof (cases "i < length bytes")
    case True
    then have "InputStream_read_n rd n (bytes[i := c]) (Suc i) s1 = Inl OutOfBounds"
      using Suc.IH[OF s1(2), of "Suc i" "bytes[i := c]"] s1(3) Cons by simp
    then show ?thesis using s1(1) True by simp
  next
    case False
    then show ?thesis using s1(1) by simp
  qed
qed simp

lemma skip_ok:
  "sinv s \<Longrightarrow> \<exists>s'. InputStream_skip rd n s = Inr (min n (length (srest s)), s') \<and> sinv s' \<and> srest s' = drop n (srest s)"
proof (induction n arbitrary: s)
  case (Suc n)
  show ?case
  proof (cases "srest s")
    case Nil
    then show ?thesis using rd_end[OF Suc.prems] by auto
  next
    case (Cons c cs)
    with rd_byte[OF Suc.prems] obtain s1 where s1: "rd s = Inr (Some c, s1)" "sinv s1" "srest s1 = cs" by blast
    from Suc.IH[OF s1(2)] s1 Cons show ?thesis by auto
  qed
qed simp

text \<open>The cache of a reader of a file holds a prefix of it, and the stream the rest.\<close>

definition fr_inv :: "u8 list \<Rightarrow> 's FileReader \<Rightarrow> bool" where
  "fr_inv file r \<longleftrightarrow> length file < 2 ^ 31 \<and> length (fr_bytes r) < 2 ^ 32
     \<and> unat (fr_extent r) \<le> length (fr_bytes r) \<and> unat (fr_extent r) \<le> length file
     \<and> take (unat (fr_extent r)) (fr_bytes r) = take (unat (fr_extent r)) file
     \<and> (if fr_eof r then unat (fr_extent r) = length file
        else \<exists>s. fr_stream r = Some s \<and> sinv s \<and> srest s = drop (unat (fr_extent r)) file)"

lemma grow_cache_ok:
  assumes "unat offset < 2 ^ 31" "length bytes < 2 ^ 32"
  shows "\<exists>bytes'. grow_cache dflt bytes offset = Inr bytes' \<and> length bytes' < 2 ^ 32
    \<and> take (length bytes) bytes' = bytes \<and> length bytes \<le> length bytes' \<and> unat offset \<le> length bytes'
    \<and> (unat offset < length bytes' \<longleftrightarrow> unat offset < 2 * length bytes)"
proof (cases "DynamicArray_capacity bytes \<le> offset")
  case False
  then show ?thesis using assms by (simp add: grow_cache_def DynamicArray_capacity_def word_le_nat_alt)
next
  case True
  let ?c = "DynamicArray_capacity bytes"
  have c: "unat ?c = length bytes" "length bytes \<le> unat offset" using True assms(2) by (simp_all add: DynamicArray_capacity_def word_le_nat_alt)
  then have d: "unat (?c * 2) = 2 * length bytes" using assms(1) by (simp add: unat_word_ariths)
  show ?thesis
  proof (cases "offset < ?c * 2")
    case True
    then have "?c * 2 \<noteq> 0" "unat offset < 2 * length bytes" using d by (auto simp: word_less_nat_alt)
    then show ?thesis using \<open>?c \<le> offset\<close> True c d assms
      by (simp add: grow_cache_def DynamicArray_resize_def Resizer_resize_def Let_def)
  next
    case False
    then have n: "\<not> unat offset < 2 * length bytes" using d by (simp add: word_less_nat_alt)
    show ?thesis
    proof (cases "offset = 0")
      case True
      then have "bytes = []" using n by simp
      then show ?thesis using True by (simp add: grow_cache_def DynamicArray_resize_def Resizer_resize_def nextCapacity_def DynamicArray_capacity_def)
    next
      case o: False
      then show ?thesis using \<open>?c \<le> offset\<close> False c n assms
        by (simp add: grow_cache_def DynamicArray_resize_def Resizer_resize_def Let_def)
    qed
  qed
qed

lemma FileReader_read_ok:
  assumes inv: "fr_inv file r" and off: "unat offset < 2 ^ 31" "unat offset < 2 * length (fr_bytes r) \<or> length file \<le> unat offset"
  shows "\<exists>r'. FileReader_read rd dflt r offset = Inr (if unat offset < length file then Some (file ! unat offset) else None, r')
    \<and> fr_inv file r' \<and> unat (fr_extent r') = max (unat (fr_extent r)) (min (unat offset + 1) (length file))
    \<and> length (fr_bytes r) \<le> length (fr_bytes r') \<and> (length file \<le> unat offset \<longrightarrow> fr_eof r')
    \<and> (fr_eof r \<longrightarrow> fr_eof r')"
proof -
  let ?e = "unat (fr_extent r)" and ?o = "unat offset"
  have len: "length file < 2 ^ 31" "length (fr_bytes r) < 2 ^ 32" "?e \<le> length (fr_bytes r)" "?e \<le> length file"
    and pre: "take ?e (fr_bytes r) = take ?e file" using inv by (auto simp: fr_inv_def)
  consider "?o < ?e" | "?e \<le> ?o" "fr_eof r" | "?e \<le> ?o" "\<not> fr_eof r" by linarith
  then show ?thesis
  proof cases
    case 1
    then have "fr_bytes r ! ?o = file ! ?o" using pre by (metis nth_take)
    then show ?thesis using 1 len inv by (simp add: FileReader_read_def word_le_nat_alt)
  next
    case 2
    then show ?thesis using inv len by (auto simp: FileReader_read_def word_le_nat_alt fr_inv_def)
  next
    case 3
    then obtain s where s: "fr_stream r = Some s" "sinv s" "srest s = drop ?e file" using inv by (auto simp: fr_inv_def)
    from grow_cache_ok[OF off(1) len(2)] obtain b where b: "grow_cache dflt (fr_bytes r) offset = Inr b" "length b < 2 ^ 32"
      "take (length (fr_bytes r)) b = fr_bytes r" "length (fr_bytes r) \<le> length b" "?o \<le> length b"
      "?o < length b \<longleftrightarrow> ?o < 2 * length (fr_bytes r)" by blast
    let ?x = "1 + (offset - fr_extent r)" and ?k = "min (?o + 1) (length file) - ?e"
    have x: "unat ?x = ?o + 1 - ?e" using 3(1) off(1) by (simp add: unat_word_ariths unat_sub word_le_nat_alt)
    have k: "min (unat ?x) (length (srest s)) = ?k" "take (unat ?x) (srest s) = take ?k (drop ?e file)"
      using x s(3) 3(1) len(4) by (auto simp: min_def)
    have fit: "?e + ?k \<le> length b" using off(2) b(5,6) 3(1) len(4) by (auto simp: min_def)
    from read_n_ok[OF s(2), of ?e "unat ?x" b] fit k obtain s1 where
      s1: "InputStream_read_n rd (unat ?x) b ?e s = Inr (?k, patch ?e (take ?k (drop ?e file)) b, s1)"
        "sinv s1" "srest s1 = drop (unat ?x) (srest s)" by auto
    define b1 where "b1 = patch ?e (take ?k (drop ?e file)) b"
    note s1 = s1[folded b1_def]
    have lk: "length (take ?k (drop ?e file)) = ?k" using len(4) by simp
    have b1: "length b1 = length b" "take (?e + ?k) b1 = take (?e + ?k) file"
    proof -
      show "length b1 = length b" unfolding b1_def using fit lk by (intro length_patch) simp
      have "take ?e b = take ?e file" using b(3,4) pre len(3) by (metis min.absorb1 take_take)
      then show "take (?e + ?k) b1 = take (?e + ?k) file" using take_patch[of ?e "take ?k (drop ?e file)" b] fit unfolding lk b1_def take_add by simp
    qed
    have "?e + ?k \<le> length file" using len(4) by linarith
    then have "?k < 2 ^ 32" "?e + ?k < 2 ^ 32" using len(1) by simp_all
    then have uk: "unat (of_nat ?k :: size_t) = ?k" "?e + ?k < 4294967296" by (simp_all only: unat_of_nat_small) simp
    then have ext: "unat (fr_extent r + of_nat ?k) = ?e + ?k" by (subst unat_plus_small) (simp_all only: uk)
    have eq: "?x = of_nat ?k \<longleftrightarrow> ?o < length file"
      unfolding word32_eq_iff_unat uk(1) x using 3(1) by linarith
    show ?thesis
    proof (cases "?o < length file")
      case True
      then have ek: "?e + ?k = Suc ?o" using 3(1) by simp
      have "take (Suc ?o) b1 ! ?o = take (Suc ?o) file ! ?o" using b1(2) unfolding ek by simp
      then have "b1 ! ?o = file ! ?o" by simp
      moreover have "?o < length b1" using b1(1) fit True 3(1) by simp
      moreover have "srest s1 = drop (?e + ?k) file" using s1(3) s(3) x True 3(1) by simp
      ultimately show ?thesis
        using True 3 s(1) b(1,2) s1(1,2) eq b1 ext fit len
        by (simp add: FileReader_read_def word_le_nat_alt Let_def fr_inv_def) (use b(4) in simp)
    next
      case False
      then show ?thesis using 3 s(1) b(1,2) s1(1,2) eq b1 ext fit len b(4)
        by (simp add: FileReader_read_def word_le_nat_alt Let_def fr_inv_def markEofReached_def)
    qed
  qed
qed

lemma FileReader_read_overrun:
  assumes inv: "fr_inv file r" and off: "2 * length (fr_bytes r) \<le> unat offset" "unat offset < length file" "\<not> fr_eof r"
  shows "FileReader_read rd dflt r offset = Inl OutOfBounds"
proof -
  let ?e = "unat (fr_extent r)" and ?o = "unat offset"
  have len: "length file < 2 ^ 31" "length (fr_bytes r) < 2 ^ 32" "?e \<le> length (fr_bytes r)" using inv by (auto simp: fr_inv_def)
  then have e: "?e \<le> ?o" "?o < 2 ^ 31" using off by simp_all
  obtain s where s: "fr_stream r = Some s" "sinv s" "srest s = drop ?e file" using inv off(3) by (auto simp: fr_inv_def)
  from grow_cache_ok[OF e(2) len(2)] off(1) obtain b where b: "grow_cache dflt (fr_bytes r) offset = Inr b" "length b = ?o"
    by (metis nless_le not_less)
  have x: "unat (1 + (offset - fr_extent r)) = ?o + 1 - ?e" using e by (simp add: unat_word_ariths unat_sub word_le_nat_alt)
  have "InputStream_read_n rd (unat (1 + (offset - fr_extent r))) b ?e s = Inl OutOfBounds"
    by (rule read_n_overrun[OF s(2)]) (use x s(3) b(2) e off(2) in auto)
  then show ?thesis using off(3) s(1) b(1) e(1) by (simp add: FileReader_read_def word_le_nat_alt Let_def)
qed

lemma readAll_loop_ok:
  assumes "fr_inv file r" "unat i \<le> length file" "unat i < 2 * length (fr_bytes r)" "length file - unat i < fuel"
  shows "\<exists>r'. readAll_loop fuel rd dflt i r = Inr r' \<and> fr_inv file r' \<and> fr_eof r'"
  using assms
proof (induction fuel arbitrary: i r)
  case (Suc fuel)
  have i: "unat i < 2 ^ 31" using Suc.prems by (auto simp: fr_inv_def)
  from FileReader_read_ok[OF Suc.prems(1) i disjI1[OF Suc.prems(3)]] obtain r' where
    r': "FileReader_read rd dflt r i = Inr (if unat i < length file then Some (file ! unat i) else None, r')"
      "fr_inv file r'" "unat (fr_extent r') = max (unat (fr_extent r)) (min (unat i + 1) (length file))"
      "length file \<le> unat i \<longrightarrow> fr_eof r'" by blast
  show ?case
  proof (cases "unat i < length file")
    case True
    have "unat (i + 1) = unat i + 1" using i by (subst unat_plus_small) simp_all
    moreover have "unat i + 1 \<le> length (fr_bytes r')" using r'(2,3) True by (simp add: fr_inv_def)
    ultimately show ?thesis using Suc.IH[OF r'(2), of "i + 1"] Suc.prems True r'(1) by simp
  next
    case False
    then show ?thesis using r' by simp
  qed
qed simp

lemma FileReader_readAll_ok:
  assumes "sinv s" "length (srest s) < 2 ^ 31" "length (srest s) < fuel"
  shows "\<exists>r. FileReader_readAll fuel rd dflt (FileReader_new dflt (Some s)) = Inr r \<and> fr_inv (srest s) r \<and> fr_eof r"
  unfolding FileReader_readAll_def
  by (rule readAll_loop_ok) (use assms in \<open>simp_all add: fr_inv_def FileReader_new_def DynamicArray_new_def\<close>)

lemma FileReader_read_range_ok:
  assumes inv: "fr_inv file r" and fits: "unat offset + unat n < 2 ^ 31" "unat n \<le> length buf"
    and known: "fr_eof r \<or> unat offset + unat n \<le> 2 * length (fr_bytes r)"
  shows "\<exists>r'. FileReader_read_range rd dflt r buf offset n =
      Inr (of_nat (length (take (unat n) (drop (unat offset) file))), patch 0 (take (unat n) (drop (unat offset) file)) buf, r')
    \<and> fr_inv file r' \<and> length (fr_bytes r) \<le> length (fr_bytes r') \<and> (fr_eof r \<longrightarrow> fr_eof r')"
proof (cases "n = 0")
  case True
  then show ?thesis using inv by (simp add: FileReader_read_range_def)
next
  case False
  then have n: "0 < unat n" by (simp add: unat_gt_0)
  let ?o = "unat offset" and ?last = "offset + n - 1"
  have "unat (offset + n) = ?o + unat n" using fits by (subst unat_plus_small) simp_all
  then have l: "unat ?last = ?o + unat n - 1" using n by (subst unat_sub) (simp_all add: word_le_nat_alt)
  have "\<exists>c r'. FileReader_read rd dflt r ?last = Inr (c, r') \<and> fr_inv file r' \<and> length (fr_bytes r) \<le> length (fr_bytes r')
    \<and> (fr_eof r \<longrightarrow> fr_eof r') \<and> min (?o + unat n) (length file) \<le> unat (fr_extent r')"
  proof (cases "unat ?last < length file \<and> fr_eof r")
    case True
    then show ?thesis using inv l n by (auto simp: fr_inv_def FileReader_read_def word_le_nat_alt)
  next
    case False
    then have "unat ?last < 2 * length (fr_bytes r) \<or> length file \<le> unat ?last" using known l n by auto
    moreover have "unat ?last < 2 ^ 31" "unat ?last + 1 = ?o + unat n" using l n fits by linarith+
    ultimately show ?thesis using FileReader_read_ok[OF inv, of ?last dflt] by (metis max.cobounded2)
  qed
  then obtain c r' where r': "FileReader_read rd dflt r ?last = Inr (c, r')" "fr_inv file r'" "length (fr_bytes r) \<le> length (fr_bytes r')"
    "fr_eof r \<longrightarrow> fr_eof r'" "min (?o + unat n) (length file) \<le> unat (fr_extent r')" by blast
  let ?e = "unat (fr_extent r')" and ?k = "min (Suc (unat ?last)) (unat (fr_extent r')) - ?o"
  have e: "?e \<le> length (fr_bytes r')" "?e \<le> length file" "take ?e (fr_bytes r') = take ?e file" using r'(2) by (auto simp: fr_inv_def)
  have "copy_range (fr_bytes r') (fr_extent r') offset ?last offset buf = Inr (of_nat ?k, patch 0 (take ?k (drop ?o (fr_bytes r'))) buf)"
    using copy_range_ok[OF e(1) order.refl, where lastIndex = ?last and buf = buf] l n fits by simp
  moreover have "take ?k (drop ?o (fr_bytes r')) = take ?k (drop ?o file)"
    using e(3) by (metis (no_types, lifting) drop_take take_take min.commute diff_le_mono min.cobounded2 min.absorb1)
  moreover have "take ?k (drop ?o file) = take (unat n) (drop ?o file)" "length (take (unat n) (drop ?o file)) = ?k"
  proof -
    have "min (Suc (unat ?last)) ?e = min (?o + unat n) (length file)" using l n r'(5) e(2) by linarith
    then have "?k = min (unat n) (length file - ?o)" by linarith
    then show "take ?k (drop ?o file) = take (unat n) (drop ?o file)" "length (take (unat n) (drop ?o file)) = ?k"
      by (simp_all add: min_def)
  qed
  ultimately show ?thesis using False r' by (simp add: FileReader_read_range_def Let_def)
qed

end

end
