(* ===== verification/Iso9660.thy ===== *)
theory Iso9660
  imports Paths Linked_List Ata Streams
begin

text \<open>
  ISO 9660 volumes: \<open>kernel/src/fs/iso9660/DirectoryEntry.cpp\<close>, \<open>Volume.cpp\<close> and
  \<open>Iso9660.cpp\<close>, with the on-disk structures of \<open>DataStructures.hpp\<close>. File contents are
  delivered by a byte stream of the kind \<open>Streams\<close> is about.

  The block device is the interface \<open>AtaDevice\<close>: a record of the two operations the file system
  calls, on a device state. Directory extents are byte lists and a pointer into one is an index;
  an access outside the buffer is \<open>OutOfBounds\<close>. \<open>junk\<close> fills buffers that are not initialised
  and \<open>g\<close> is what a fresh string block holds. A loop that makes no progress is \<open>Hang\<close>.
\<close>

section \<open>The device\<close>

record 'd AtaOps =
  op_sectorSize :: "'d \<Rightarrow> (u32 \<times> 'd) res"
  op_read :: "u64 \<Rightarrow> u8 list \<Rightarrow> size_t \<Rightarrow> 'd \<Rightarrow> (bool \<times> u8 list \<times> 'd) res"

text \<open>The interface implemented by the driver: the byte buffer is passed as an array of words.\<close>

definition x86_ops :: "nat \<Rightarrow> 'b bus \<Rightarrow> (nat \<Rightarrow> u16) \<Rightarrow> (X86AtaDevice \<times> 'b) AtaOps" where
  "x86_ops fuel bus junk =
     \<lparr>op_sectorSize = (\<lambda>(dev, d). rbind (AtaDevice_sectorSize fuel bus junk dev d) (\<lambda>(n, dev1, d1). Inr (n, dev1, d1))),
      op_read = (\<lambda>address buf sectors (dev, d).
        rbind (AtaDevice_read fuel bus junk dev address (words_of_bytes buf) 0 sectors d) (\<lambda>(ok, ws, dev1, d1).
        Inr (ok, bytes_of_words ws, dev1, d1)))\<rparr>"

section \<open>Little-endian fields\<close>

definition read_u32 :: "u8 list \<Rightarrow> nat \<Rightarrow> u32 res" where
  "read_u32 b i = (if i + 3 < length b then Inr (load32 b i) else Inl OutOfBounds)"

section \<open>Directory records\<close>

text \<open>
  Offsets in \<open>DirectoryInfo\<close>: length 0, extentLba 2, extentLength 10, flags 25, nameLength 32,
  name 33. \<open>suspStart\<close> and \<open>suspLength\<close> are relative to the record at \<open>p\<close>.
\<close>

definition suspStart :: "u8 list \<Rightarrow> nat \<Rightarrow> nat res" where
  "suspStart b p = rbind (aread b (p + 32)) (\<lambda>n. Inr (p + 33 + unat n + (if unat n mod 2 \<noteq> 0 then 0 else 1)))"

definition suspLength :: "u8 list \<Rightarrow> nat \<Rightarrow> int res" where
  "suspLength b p = rbind (suspStart b p) (\<lambda>s. rbind (aread b p) (\<lambda>n. Inr (int (unat n) - (int s - int p))))"

datatype RREntry = PX | PN | SL | NM | CL | PL | RE | TF | SF | RRUnknown

definition decodeSignature :: "u8 list \<Rightarrow> nat \<Rightarrow> RREntry res" where
  "decodeSignature b i =
     rbind (aread b i) (\<lambda>c0. rbind (aread b (i + 1)) (\<lambda>c1.
     Inr (if (c0, c1) = (0x50, 0x58) then PX
          else if (c0, c1) = (0x50, 0x4E) then PN
          else if (c0, c1) = (0x53, 0x4C) then SL
          else if (c0, c1) = (0x4E, 0x4D) then NM
          else if (c0, c1) = (0x43, 0x4C) then CL
          else if (c0, c1) = (0x50, 0x4C) then PL
          else if (c0, c1) = (0x52, 0x45) then RE
          else if (c0, c1) = (0x54, 0x46) then TF
          else if (c0, c1) = (0x53, 0x46) then SF
          else RRUnknown)))"

text \<open>
  The search for the alternate name: an entry of length zero that is not a name is looked at
  again and again.
\<close>

function findRockRidgeNameEntry :: "u8 list \<Rightarrow> nat \<Rightarrow> int \<Rightarrow> nat option res" where
  "findRockRidgeNameEntry b i len =
     (if len > 0
      then rbind (decodeSignature b i) (\<lambda>ty.
           if ty = RRUnknown then Inr None
           else rbind (aread b (i + 2)) (\<lambda>entryLength.
                if ty \<noteq> NM
                then if entryLength = 0 then Inl Hang
                     else findRockRidgeNameEntry b (i + unat entryLength) (len - int (unat entryLength))
                else Inr (Some i)))
      else Inr None)"
  by pat_completeness auto
termination
proof (relation "measure (\<lambda>(b, i, len). nat len)")
  fix b i len ty and entryLength :: u8
  assume "(0 :: int) < len" "entryLength \<noteq> 0"
  moreover have "0 < unat entryLength" using \<open>entryLength \<noteq> 0\<close> by (simp add: unat_gt_0)
  ultimately have "nat (len - int (unat entryLength)) < nat len" by linarith
  then show "((b, i + unat entryLength, len - int (unat entryLength)), b, i, len) \<in> measure (\<lambda>(b, i, len). nat len)"
    by (simp only: in_measure prod.case)
qed simp

declare findRockRidgeNameEntry.simps [simp del]

definition rockRidgeName :: "u8 \<Rightarrow> u8 list \<Rightarrow> nat \<Rightarrow> BasicString res" where
  "rockRidgeName g b i = rbind (aread b (i + 2)) (\<lambda>n. BasicString_of_len g (drop (i + 5) b) (ucast n - 5))"

datatype EntryType = EntryUnknown | EntryFile | EntryDirectory

record DirectoryEntry =
  de_type :: EntryType
  de_name :: BasicString
  de_extentLba :: u32
  de_extentLength :: u32

definition DirectoryEntry_new :: "u8 \<Rightarrow> u8 list \<Rightarrow> nat \<Rightarrow> DirectoryEntry res" where
  "DirectoryEntry_new g b p =
     rbind (aread b (p + 25)) (\<lambda>flags.
     rbind (aread b (p + 32)) (\<lambda>nameLength.
     rbind (BasicString_of_len g (drop (p + 33) b) (ucast nameLength)) (\<lambda>raw.
     rbind (BasicString_copy g raw) (\<lambda>name.
     rbind (read_u32 b (p + 2)) (\<lambda>lba.
     rbind (read_u32 b (p + 10)) (\<lambda>len.
     let e = \<lparr>de_type = (if flags AND 2 \<noteq> 0 then EntryDirectory else EntryFile), de_name = name,
              de_extentLba = lba, de_extentLength = len\<rparr> in
     rbind (suspStart b p) (\<lambda>start.
     rbind (suspLength b p) (\<lambda>slen.
     rbind (findRockRidgeNameEntry b start slen) (\<lambda>r.
     case r of None \<Rightarrow> Inr e
     | Some i \<Rightarrow> rbind (rockRidgeName g b i) (\<lambda>n.
                 rbind (BasicString_assign g False (de_name e) n) (\<lambda>n1. Inr (e\<lparr>de_name := n1\<rparr>))))))))))))"

definition isFile :: "DirectoryEntry \<Rightarrow> bool" where "isFile e \<longleftrightarrow> de_type e = EntryFile"

definition isDir :: "DirectoryEntry \<Rightarrow> bool" where "isDir e \<longleftrightarrow> de_type e = EntryDirectory"

text \<open>\<open>fixEntryName\<close> on the name at \<open>s\<close>; \<open>name[length - 2]\<close> may lie before the name.\<close>

definition fixEntryName :: "u8 list \<Rightarrow> nat \<Rightarrow> int \<Rightarrow> u8 list res" where
  "fixEntryName b s len =
     rbind (aread b (nat (int s + len - 2))) (\<lambda>c.
     rbind (if c = 0x3B then rbind (awrite b (nat (int s + len - 2)) 0) (\<lambda>b1. Inr (b1, len - 2)) else Inr (b, len)) (\<lambda>(b1, len1).
     if len1 > 1
     then rbind (aread b1 (nat (int s + len1 - 1))) (\<lambda>c1. if c1 = 0x2E then awrite b1 (nat (int s + len1 - 1)) 0 else Inr b1)
     else Inr b1))"

definition sectorsToRead :: "size_t \<Rightarrow> size_t \<Rightarrow> size_t res" where
  "sectorsToRead bytesToRead sectorSize =
     (if sectorSize = 0 then Inl DivideByZero
      else Inr (bytesToRead div sectorSize + (if bytesToRead mod sectorSize \<noteq> 0 then 1 else 0)))"

text \<open>The contents of an entry's extent, in a fresh buffer of whole sectors; the result of the read is ignored.\<close>

definition read_extent :: "'d AtaOps \<Rightarrow> (nat \<Rightarrow> u8) \<Rightarrow> DirectoryEntry \<Rightarrow> 'd \<Rightarrow> (u8 list \<times> 'd) res" where
  "read_extent ops junk e d =
     rbind (op_sectorSize ops d) (\<lambda>(sectorSize, d1).
     rbind (sectorsToRead (de_extentLength e) sectorSize) (\<lambda>sectorCount.
     rbind (op_read ops (ucast (de_extentLba e)) (map junk [0..<unat (sectorSize * sectorCount)]) sectorCount d1) (\<lambda>(_, buf, d2).
     Inr (buf, d2))))"

section \<open>Lookup\<close>

text \<open>
  The scan of a directory for a name: records follow each other until one of length zero. The
  variable \<open>bytesLeft\<close> of the source never changes; the scan starts only if it is not zero.
\<close>

function find_scan :: "u8 \<Rightarrow> u8 list \<Rightarrow> nat \<Rightarrow> u8 list \<Rightarrow> DirectoryEntry option res" where
  "find_scan g b p elem =
     rbind (aread b p) (\<lambda>len.
     if len = 0 then Inr None
     else rbind (DirectoryEntry_new g b p) (\<lambda>entry.
          rbind (strcmp (bs_data (de_name entry)) elem) (\<lambda>c.
          if c = 0 then Inr (Some entry) else find_scan g b (p + unat len) elem)))"
  by pat_completeness auto
termination
proof (relation "measure (\<lambda>(g, b, p, elem). length b - p)")
  fix g :: u8 and b :: "u8 list" and p and elem :: "u8 list" and len entry and c :: int
  assume "aread b p = Inr len" "len \<noteq> 0"
  moreover have "0 < unat len" using \<open>len \<noteq> 0\<close> by (simp add: unat_gt_0)
  ultimately have "length b - (p + unat len) < length b - p" unfolding aread_Inr_iff by linarith
  then show "((g, b, p + unat len, elem), g, b, p, elem) \<in> measure (\<lambda>(g, b, p, elem). length b - p)" by simp
qed simp

declare find_scan.simps [simp del]

text \<open>\<open>find(tokenizer)\<close>: one directory level for each token; \<open>fuel\<close> bounds the number of levels.\<close>

fun find_tokens :: "nat \<Rightarrow> 'd AtaOps \<Rightarrow> (nat \<Rightarrow> u8) \<Rightarrow> u8 \<Rightarrow> DirectoryEntry \<Rightarrow> StringTokenizer \<Rightarrow> 'd
    \<Rightarrow> (DirectoryEntry option \<times> StringTokenizer \<times> 'd) res" where
  "find_tokens 0 ops junk g e t d = Inl Hang"
| "find_tokens (Suc fuel) ops junk g e t d =
     rbind (nextToken g t) (\<lambda>(elem, t1).
     rbind (read_extent ops junk e d) (\<lambda>(buf, d1).
     rbind (if de_extentLength e > 0 then find_scan g buf 0 (bs_data elem) else Inr None) (\<lambda>r.
     case r of None \<Rightarrow> Inr (None, t1, d1)
     | Some entry \<Rightarrow>
         rbind (hasNextToken t1) (\<lambda>more.
         if more then find_tokens fuel ops junk g entry t1 d1
         else rbind (BasicString_copy g (de_name entry)) (\<lambda>n. Inr (Some (entry\<lparr>de_name := n\<rparr>), t1, d1))))))"

definition DirectoryEntry_find :: "nat \<Rightarrow> 'd AtaOps \<Rightarrow> (nat \<Rightarrow> u8) \<Rightarrow> u8 \<Rightarrow> DirectoryEntry \<Rightarrow> u8 list \<Rightarrow> 'd
    \<Rightarrow> (DirectoryEntry option \<times> 'd) res" where
  "DirectoryEntry_find fuel ops junk g e path d =
     rbind (BasicString_of_cstr g path) (\<lambda>p.
     rbind (BasicString_of_cstr g [47, 0]) (\<lambda>delimiters.
     rbind (StringTokenizer_new g p delimiters) (\<lambda>t.
     rbind (find_tokens fuel ops junk g e t d) (\<lambda>(r, _, d1). Inr (r, d1)))))"

section \<open>Listing\<close>

lemma fixEntryName_keeps:
  assumes "fixEntryName b s len = Inr b1" "0 \<le> len"
  shows "length b1 = length b" "i + 2 < s \<Longrightarrow> b1 ! i = b ! i"
  using assms by (auto simp: fixEntryName_def awrite_Inr_iff aread_Inr_iff nth_list_update split: if_splits)

function readdir_scan :: "nat \<Rightarrow> u8 \<Rightarrow> u8 list \<Rightarrow> nat \<Rightarrow> BasicString heap \<Rightarrow> LinkedList \<Rightarrow> (BasicString heap \<times> LinkedList) res" where
  "readdir_scan fuel g b p h contents =
     rbind (aread b p) (\<lambda>len0.
     if len0 = 0 then Inr (h, contents)
     else rbind (aread b (p + 32)) (\<lambda>nameLength.
          rbind (fixEntryName b (p + 33) (int (unat nameLength))) (\<lambda>b1.
          rbind (aread b1 (p + 33)) (\<lambda>c.
          rbind (if c = 0 then BasicString_of_cstr g [0x2E, 0]
                 else if c = 1 then BasicString_of_cstr g [0x2E, 0x2E, 0]
                 else rbind (DirectoryEntry_new g b1 p) (\<lambda>entry. BasicString_of_cstr g (bs_data (de_name entry)))) (\<lambda>name.
          rbind (LinkedList_push fuel h contents name) (\<lambda>(h1, contents1).
          rbind (aread b1 p) (\<lambda>len.
          readdir_scan fuel g b1 (p + unat len) h1 contents1)))))))"
  by pat_completeness auto
termination
proof (relation "measure (\<lambda>(fuel, g, b, p, h, contents). length b - p)")
  fix fuel :: nat and g :: u8 and b :: "u8 list" and p and h :: "BasicString heap" and contents
    and len0 nameLength b1 c name x h1 contents1 len
  assume a: "aread b p = Inr len0" "\<not> len0 = 0" "fixEntryName b (p + 33) (int (unat nameLength)) = Inr b1" "aread b1 p = Inr len"
  have "length b1 = length b" "b1 ! p = b ! p" using fixEntryName_keeps[OF a(3)] by simp_all
  moreover have "0 < unat len0" using a(2) by (simp add: unat_gt_0)
  ultimately show "((fuel, g, b1, p + unat len, h1, contents1), fuel, g, b, p, h, contents)
      \<in> measure (\<lambda>(fuel, g, b, p, h, contents). length b - p)"
    using a(1,4) by (auto simp: aread_Inr_iff)
qed simp

declare readdir_scan.simps [simp del]

definition readdir :: "nat \<Rightarrow> 'd AtaOps \<Rightarrow> (nat \<Rightarrow> u8) \<Rightarrow> u8 \<Rightarrow> BasicString heap \<Rightarrow> DirectoryEntry \<Rightarrow> 'd
    \<Rightarrow> (LinkedList option \<times> BasicString heap \<times> 'd) res" where
  "readdir fuel ops junk g h e d =
     (if de_type e \<noteq> EntryDirectory then Inr (None, h, d)
      else rbind (read_extent ops junk e d) (\<lambda>(buf, d1).
           rbind (if de_extentLength e > 0 then readdir_scan fuel g buf 0 h LinkedList_new else Inr (h, LinkedList_new)) (\<lambda>(h1, l).
           Inr (Some l, h1, d1))))"

text \<open>The file system is read-only: the operations that would change it return -1.\<close>

definition read_only_result :: int where "read_only_result = - 1"

section \<open>File streams\<close>

record IsoFileStream =
  fs_fileSize :: size_t
  fs_buffer :: "u8 list"
  fs_pos :: size_t
  fs_mark :: size_t
  fs_readsUntilInvalid :: size_t

definition IsoFileStream_new :: "size_t \<Rightarrow> u8 list \<Rightarrow> IsoFileStream" where
  "IsoFileStream_new fileSize buffer =
     \<lparr>fs_fileSize = fileSize, fs_buffer = buffer, fs_pos = 0, fs_mark = 0, fs_readsUntilInvalid = 0\<rparr>"

definition IsoFileStream_available :: "IsoFileStream \<Rightarrow> size_t" where
  "IsoFileStream_available s = fs_fileSize s - fs_pos s"

definition IsoFileStream_read :: "IsoFileStream \<Rightarrow> (u8 option \<times> IsoFileStream) res" where
  "IsoFileStream_read s =
     (if fs_pos s = fs_fileSize s then Inr (None, s)
      else let s1 = (if fs_readsUntilInvalid s \<noteq> 0 then s\<lparr>fs_readsUntilInvalid := fs_readsUntilInvalid s - 1\<rparr> else s) in
           rbind (aread (fs_buffer s1) (unat (fs_pos s1))) (\<lambda>c. Inr (Some c, s1\<lparr>fs_pos := fs_pos s1 + 1\<rparr>)))"

definition IsoFileStream_setmark :: "IsoFileStream \<Rightarrow> size_t \<Rightarrow> IsoFileStream" where
  "IsoFileStream_setmark s readsLeft = s\<lparr>fs_readsUntilInvalid := readsLeft, fs_mark := fs_pos s\<rparr>"

definition IsoFileStream_markSupported :: "IsoFileStream \<Rightarrow> bool" where
  "IsoFileStream_markSupported s = True"

definition IsoFileStream_reset :: "IsoFileStream \<Rightarrow> IsoFileStream" where
  "IsoFileStream_reset s = (if fs_readsUntilInvalid s \<noteq> 0 then s\<lparr>fs_pos := fs_mark s\<rparr> else s)"

definition fileStream :: "'d AtaOps \<Rightarrow> (nat \<Rightarrow> u8) \<Rightarrow> DirectoryEntry \<Rightarrow> 'd \<Rightarrow> (IsoFileStream option \<times> 'd) res" where
  "fileStream ops junk e d =
     (if isDir e then Inr (None, d)
      else rbind (read_extent ops junk e d) (\<lambda>(buf, d1). Inr (Some (IsoFileStream_new (de_extentLength e) buf), d1)))"

section \<open>Volumes\<close>

datatype VolumeDescriptorType = kBootRecord | kPrimaryVolume | kSupplementaryVolume | kUnknown | kSetTerminator

definition getDescriptorType :: "u8 list \<Rightarrow> VolumeDescriptorType res" where
  "getDescriptorType buf = rbind (aread buf 0) (\<lambda>ty.
     Inr (if ty = 0 then kBootRecord else if ty = 1 then kPrimaryVolume else if ty = 2 then kSupplementaryVolume
          else if ty = 255 then kSetTerminator else kUnknown))"

record Volume =
  vol_label :: BasicString
  vol_root :: "DirectoryEntry option"

definition Volume_new :: Volume where
  "Volume_new = \<lparr>vol_label = BasicString_new, vol_root = None\<rparr>"

text \<open>The search for the primary volume descriptor: the result says whether the terminator was met.\<close>

fun descriptor_loop :: "nat \<Rightarrow> 'd AtaOps \<Rightarrow> u64 \<Rightarrow> u8 list \<Rightarrow> 'd \<Rightarrow> (bool \<times> u8 list \<times> 'd) res" where
  "descriptor_loop 0 ops lba buf d = Inl Hang"
| "descriptor_loop (Suc fuel) ops lba buf d =
     rbind (op_read ops lba buf 1 d) (\<lambda>(_, buf1, d1).
     rbind (getDescriptorType buf1) (\<lambda>ty.
     if ty = kPrimaryVolume then Inr (False, buf1, d1)
     else if ty = kSetTerminator then Inr (True, buf1, d1)
     else descriptor_loop fuel ops (lba + 1) buf1 d1))"

text \<open>The volume identifier ends at its first space: \<open>k\<close> characters are left from \<open>i\<close> on.\<close>

fun label_length :: "u8 list \<Rightarrow> nat \<Rightarrow> nat \<Rightarrow> nat res" where
  "label_length b i 0 = Inr 0"
| "label_length b i (Suc k) =
     rbind (aread b i) (\<lambda>c. if c = 0x20 then Inr 0 else rbind (label_length b (Suc i) k) (\<lambda>n. Inr (Suc n)))"

text \<open>Offsets in \<open>PrimaryVolumeDescriptorInfo\<close>: volumeId 40, root 156.\<close>

definition Volume_init :: "nat \<Rightarrow> 'd AtaOps \<Rightarrow> (nat \<Rightarrow> u8) \<Rightarrow> u8 \<Rightarrow> Volume \<Rightarrow> 'd \<Rightarrow> (Volume \<times> 'd) res" where
  "Volume_init fuel ops junk g v d =
     rbind (op_sectorSize ops d) (\<lambda>(sectorSize, d1).
     rbind (descriptor_loop fuel ops 0x10 (map junk [0..<unat sectorSize]) d1) (\<lambda>(reachedEnd, buf, d2).
     if reachedEnd then Inl (KernelPanic ''Failed to find ISO 9660 Primary Volume Descriptor.'')
     else rbind (DirectoryEntry_new g buf 156) (\<lambda>rootEntry.
          rbind (label_length buf 40 32) (\<lambda>n.
          rbind (BasicString_append_n g (vol_label v) (drop 40 buf) (of_nat n)) (\<lambda>label.
          Inr (v\<lparr>vol_root := Some rootEntry, vol_label := label\<rparr>, d2))))))"

definition Volume_find :: "nat \<Rightarrow> 'd AtaOps \<Rightarrow> (nat \<Rightarrow> u8) \<Rightarrow> u8 \<Rightarrow> Volume \<Rightarrow> u8 list \<Rightarrow> 'd \<Rightarrow> (DirectoryEntry option \<times> 'd) res" where
  "Volume_find fuel ops junk g v path d =
     (case vol_root v of None \<Rightarrow> Inl NullPointer | Some r \<Rightarrow> DirectoryEntry_find fuel ops junk g r path d)"

definition hasFileSystem :: "'d AtaOps \<Rightarrow> (nat \<Rightarrow> u8) \<Rightarrow> 'd \<Rightarrow> (bool \<times> 'd) res" where
  "hasFileSystem ops junk d =
     rbind (op_sectorSize ops d) (\<lambda>(sectorSize, d1).
     rbind (op_read ops 0x10 (map junk [0..<unat sectorSize]) 1 d1) (\<lambda>(_, buf, d2).
     rbind (awrite buf 6 0) (\<lambda>buf1.
     rbind (strcmp (drop 1 buf1) [0x43, 0x44, 0x30, 0x30, 0x31, 0]) (\<lambda>c. Inr (c = 0, d2)))))"

definition createVolume :: "nat \<Rightarrow> 'd AtaOps \<Rightarrow> (nat \<Rightarrow> u8) \<Rightarrow> u8 \<Rightarrow> 'd \<Rightarrow> (Volume option \<times> 'd) res" where
  "createVolume fuel ops junk g d =
     rbind (hasFileSystem ops junk d) (\<lambda>(yes, d1).
     if yes then rbind (Volume_init fuel ops junk g Volume_new d1) (\<lambda>(v, d2). Inr (Some v, d2))
     else Inr (None, d1))"

end
