(* ===== verification/Byte_Memory.thy ===== *)
theory Byte_Memory
  imports Prelude
begin

text \<open>
  The memory routines of the C library: \<open>memset\<close> of \<open>libc/src/string/memset.cpp\<close>, which works a
  word at a time, and \<open>memmove\<close> and \<open>memcpy\<close> of \<open>libc/include/bits/string-inl.h\<close>.

  They are written over any memory with operations that load and store a byte at an address,
  each of which may fault. A word is stored as its four bytes, low byte first. The locale
  \<open>byte_memory\<close> says what a memory promises on the addresses that may be accessed: what was
  stored is loaded again, and nothing else changes.
\<close>

section \<open>Routines\<close>

record 'm mem_ops =
  m_ld :: "uintptr \<Rightarrow> 'm \<Rightarrow> u8 res"
  m_st :: "uintptr \<Rightarrow> u8 \<Rightarrow> 'm \<Rightarrow> 'm res"

fun memset_b_affix :: "'m mem_ops \<Rightarrow> uintptr \<Rightarrow> u8 \<Rightarrow> nat \<Rightarrow> 'm \<Rightarrow> (uintptr \<times> 'm) res" where
  "memset_b_affix ops ptr val 0 m = Inr (ptr, m)"
| "memset_b_affix ops ptr val (Suc num) m = rbind (m_st ops ptr val m) (memset_b_affix ops (ptr + 1) val num)"

definition wvalue :: "u32 \<Rightarrow> u32" where
  "wvalue val = (let v = val OR push_bit 8 val in v OR push_bit 16 v)"

definition store_word :: "'m mem_ops \<Rightarrow> uintptr \<Rightarrow> u32 \<Rightarrow> 'm \<Rightarrow> 'm res" where
  "store_word ops ptr w m =
     rbind (m_st ops ptr (ucast w) m) (\<lambda>m1.
     rbind (m_st ops (ptr + 1) (ucast (drop_bit 8 w)) m1) (\<lambda>m2.
     rbind (m_st ops (ptr + 2) (ucast (drop_bit 16 w)) m2) (\<lambda>m3.
     m_st ops (ptr + 3) (ucast (drop_bit 24 w)) m3)))"

fun memset_words :: "'m mem_ops \<Rightarrow> uintptr \<Rightarrow> u32 \<Rightarrow> nat \<Rightarrow> 'm \<Rightarrow> (uintptr \<times> 'm) res" where
  "memset_words ops ptr w 0 m = Inr (ptr, m)"
| "memset_words ops ptr w (Suc num) m = rbind (store_word ops ptr w m) (memset_words ops (ptr + 4) w num)"

definition memset :: "'m mem_ops \<Rightarrow> uintptr \<Rightarrow> u32 \<Rightarrow> size_t \<Rightarrow> 'm \<Rightarrow> (uintptr \<times> 'm) res" where
  "memset ops ptr val num m =
     (let bvalue = ucast (val AND 0xFF);
          head_sz = ptr AND 3;
          body_sz = num - head_sz;
          tail_sz = body_sz AND 3 in
      rbind (memset_b_affix ops ptr bvalue (unat head_sz) m) (\<lambda>(word_ptr, m1).
      rbind (memset_words ops word_ptr (wvalue val) (unat (drop_bit 2 body_sz)) m1) (\<lambda>(word_ptr1, m2).
      rbind (memset_b_affix ops word_ptr1 bvalue (unat tail_sz) m2) (\<lambda>(_, m3).
      Inr (ptr, m3)))))"

text \<open>The byte loop that the source keeps, in a comment, beside the word-wise version.\<close>

fun memset_bytes :: "'m mem_ops \<Rightarrow> uintptr \<Rightarrow> u32 \<Rightarrow> nat \<Rightarrow> 'm \<Rightarrow> 'm res" where
  "memset_bytes ops dst val 0 m = Inr m"
| "memset_bytes ops dst val (Suc num) m = rbind (m_st ops dst (ucast val) m) (memset_bytes ops (dst + 1) val num)"

definition memset_ref :: "'m mem_ops \<Rightarrow> uintptr \<Rightarrow> u32 \<Rightarrow> size_t \<Rightarrow> 'm \<Rightarrow> (uintptr \<times> 'm) res" where
  "memset_ref ops ptr val num m = rbind (memset_bytes ops ptr val (unat num) m) (\<lambda>m1. Inr (ptr, m1))"

text \<open>The two loops of \<open>memmove\<close>: upwards, and downwards from the ends.\<close>

fun move_up :: "'m mem_ops \<Rightarrow> uintptr \<Rightarrow> uintptr \<Rightarrow> nat \<Rightarrow> 'm \<Rightarrow> 'm res" where
  "move_up ops c_dst c_src 0 m = Inr m"
| "move_up ops c_dst c_src (Suc num) m =
     rbind (m_ld ops c_src m) (\<lambda>b. rbind (m_st ops c_dst b m) (move_up ops (c_dst + 1) (c_src + 1) num))"

fun move_down :: "'m mem_ops \<Rightarrow> uintptr \<Rightarrow> uintptr \<Rightarrow> nat \<Rightarrow> 'm \<Rightarrow> 'm res" where
  "move_down ops c_dst c_src 0 m = Inr m"
| "move_down ops c_dst c_src (Suc num) m =
     rbind (m_ld ops (c_src - 1) m) (\<lambda>b. rbind (m_st ops (c_dst - 1) b m) (move_down ops (c_dst - 1) (c_src - 1) num))"

definition memmove :: "'m mem_ops \<Rightarrow> uintptr \<Rightarrow> uintptr \<Rightarrow> size_t \<Rightarrow> 'm \<Rightarrow> (uintptr \<times> 'm) res" where
  "memmove ops dst src num m =
     rbind (if dst > src \<and> dst < src + num then move_down ops (dst + num) (src + num) (unat num) m
            else move_up ops dst src (unat num) m) (\<lambda>m1. Inr (dst, m1))"

definition memcpy :: "'m mem_ops \<Rightarrow> uintptr \<Rightarrow> uintptr \<Rightarrow> size_t \<Rightarrow> 'm \<Rightarrow> (uintptr \<times> 'm) res" where
  "memcpy ops dst src num m = memmove ops dst src num m"

section \<open>The word-wise \<open>memset\<close>\<close>

lemma affix_bytes: "memset_b_affix ops ptr (ucast val) n m = rbind (memset_bytes ops ptr val n m) (\<lambda>m1. Inr (ptr + of_nat n, m1))"
proof (induction n arbitrary: ptr m)
  case (Suc n)
  have "memset_b_affix ops (ptr + 1) (ucast val) n = (\<lambda>m. rbind (memset_bytes ops (ptr + 1) val n m) (\<lambda>m1. Inr (ptr + 1 + of_nat n, m1)))"
    using Suc.IH by (simp add: fun_eq_iff)
  then show ?case by (simp add: algebra_simps)
qed simp

lemma bytes_add: "memset_bytes ops ptr val (a + b) m = rbind (memset_bytes ops ptr val a m) (memset_bytes ops (ptr + of_nat a) val b)"
proof (induction a arbitrary: ptr m)
  case (Suc a)
  have "memset_bytes ops (ptr + 1) val (a + b) = (\<lambda>m. rbind (memset_bytes ops (ptr + 1) val a m) (memset_bytes ops (ptr + 1 + of_nat a) val b))"
    using Suc.IH by (simp add: fun_eq_iff)
  then show ?case by (simp add: algebra_simps)
qed simp

text \<open>A byte repeated in all four places of a word.\<close>

lemma wvalue_bytes:
  assumes "val < 256" "k \<in> {0, 8, 16, 24}"
  shows "(ucast (drop_bit k (wvalue val)) :: u8) = ucast val"
proof (rule bit_word_eqI)
  fix n assume n: "n < LENGTH(8)"
  have "take_bit 8 val = val" using assms(1)
    by (simp add: word32_eq_iff_unat unsigned_take_bit_eq take_bit_nat_eq_self word_less_nat_alt)
  then have hi: "\<not> bit val j" if "8 \<le> j" for j using that by (metis bit_take_bit_iff linorder_not_less)
  show "bit (ucast (drop_bit k (wvalue val)) :: u8) n = bit (ucast val :: u8) n"
    using n assms(2) hi
    by (auto simp: bit_ucast_iff bit_drop_bit_eq wvalue_def Let_def bit_or_iff bit_push_bit_iff)
qed

lemma store_word_bytes:
  assumes "val < 256"
  shows "store_word ops ptr (wvalue val) m = memset_bytes ops ptr val 4 m"
proof -
  have step: "memset_bytes ops p val (Suc n) = (\<lambda>m. rbind (m_st ops p (ucast val) m) (memset_bytes ops (p + 1) val n))"
    "memset_bytes ops p val 0 = Inr" for p n by (simp_all add: fun_eq_iff)
  have "(4 :: nat) = Suc (Suc (Suc (Suc 0)))" by simp
  then have "memset_bytes ops ptr val 4 m = rbind (m_st ops ptr (ucast val) m) (\<lambda>m1. rbind (m_st ops (ptr + 1) (ucast val) m1)
      (\<lambda>m2. rbind (m_st ops (ptr + 2) (ucast val) m2) (\<lambda>m3. rbind (m_st ops (ptr + 3) (ucast val) m3) Inr)))"
    by (simp only: step) (simp add: add.assoc)
  moreover have "rbind r Inr = r" for r :: "'a res" by (cases r) simp_all
  ultimately show ?thesis using wvalue_bytes[OF assms, of 0] wvalue_bytes[OF assms, of 8] wvalue_bytes[OF assms, of 16] wvalue_bytes[OF assms, of 24]
    by (simp add: store_word_def)
qed

lemma memset_words_bytes:
  assumes "val < 256"
  shows "memset_words ops ptr (wvalue val) n m = rbind (memset_bytes ops ptr val (4 * n) m) (\<lambda>m1. Inr (ptr + of_nat (4 * n), m1))"
proof (induction n arbitrary: ptr m)
  case (Suc n)
  have "memset_words ops (ptr + 4) (wvalue val) n =
      (\<lambda>m. rbind (memset_bytes ops (ptr + 4) val (4 * n) m) (\<lambda>m1. Inr (ptr + 4 + of_nat (4 * n), m1)))"
    using Suc.IH by (simp add: fun_eq_iff)
  moreover have "memset_bytes ops ptr val (4 * Suc n) m = rbind (memset_bytes ops ptr val 4 m) (memset_bytes ops (ptr + 4) val (4 * n))"
    using bytes_add[of ops ptr val 4 "4 * n" m] by simp
  ultimately show ?case using assms by (simp add: store_word_bytes algebra_simps)
qed simp

lemma words_and_tail: "4 * unat (drop_bit 2 (x :: u32)) + unat (x AND 3) = unat x"
proof -
  have "x AND 3 = take_bit 2 x" by (simp add: take_bit_eq_mask mask_eq_exp_minus_1)
  then show ?thesis by (simp add: unsigned_take_bit_eq take_bit_eq_mod unat_drop_bit_eq drop_bit_eq_div)
qed

lemma memset_eq_ref:
  assumes "val < 256" "ptr AND 3 \<le> num"
  shows "memset ops ptr val num m = memset_ref ops ptr val num m"
proof -
  let ?h = "ptr AND 3" and ?b = "num - (ptr AND 3)"
  have b: "ucast (val AND 0xFF) = (ucast val :: u8)" proof -
    have "val AND 0xFF = take_bit 8 val" by (simp add: take_bit_eq_mask mask_eq_exp_minus_1)
    then show ?thesis by (auto intro!: bit_word_eqI simp: bit_simps)
  qed
  have n: "unat num = unat ?h + (4 * unat (drop_bit 2 ?b) + unat (?b AND 3))"
    unfolding words_and_tail using assms(2) by (simp add: unat_sub word_le_nat_alt)
  show ?thesis unfolding memset_def memset_ref_def Let_def b n bytes_add memset_words_bytes[OF assms(1)] affix_bytes
    by (simp add: rbind_assoc)
qed

text \<open>
  C26. The word-wise \<open>memset\<close> is equivalent to the byte loop it replaces, on any memory and with
  the same faults, if the value is that of a byte and the range is at least as long as the low
  two bits of the address say.
\<close>

theorem memset_equivalent:
  assumes "val < 256" "ptr AND 3 \<le> num"
  shows "memset ops ptr val num m = memset_ref ops ptr val num m"
  by (rule memset_eq_ref[OF assms])

text \<open>A memory of two bytes at addresses 1 and 2, for examples.\<close>

definition two_bytes :: "(u8 \<times> u8) mem_ops" where
  "two_bytes = \<lparr>m_ld = (\<lambda>a (x, y). if a = 1 then Inr x else if a = 2 then Inr y else Inl OutOfBounds),
     m_st = (\<lambda>a b (x, y). if a = 1 then Inr (b, y) else if a = 2 then Inr (x, b) else Inl OutOfBounds)\<rparr>"

theorem memset_equivalent_witness:
  "memset two_bytes 1 7 2 (0, 0) = memset_ref two_bytes 1 7 2 (0, 0) \<and> memset_ref two_bytes 1 7 2 (0, 0) = Inr (1, 7, 7)"
proof -
  have "memset_ref two_bytes 1 7 2 (0, 0) = Inr (1, 7, 7)" by code_simp
  then show ?thesis using memset_equivalent[of 7 1 2 two_bytes "(0, 0)"] by simp
qed

section \<open>What a memory promises\<close>

text \<open>The contents after a list of bytes is laid down from an address on.\<close>

definition put :: "uintptr \<Rightarrow> u8 list \<Rightarrow> (uintptr \<Rightarrow> u8 option) \<Rightarrow> uintptr \<Rightarrow> u8 option" where
  "put a bs f = (\<lambda>c. if unat (c - a) < length bs then Some (bs ! unat (c - a)) else f c)"

definition accessible :: "(uintptr \<Rightarrow> u8 option) \<Rightarrow> uintptr \<Rightarrow> nat \<Rightarrow> bool" where
  "accessible f a n \<longleftrightarrow> n \<le> 2 ^ 32 \<and> (\<forall>i<n. f (a + of_nat i) \<noteq> None)"

lemma put_nil [simp]: "put a [] f = f"
  by (simp add: put_def)

lemma put_Cons:
  assumes "length bs < 2 ^ 32"
  shows "put (a + 1) bs (f(a \<mapsto> b)) = put a (b # bs) f"
proof
  fix c
  show "put (a + 1) bs (f(a \<mapsto> b)) c = put a (b # bs) f c"
  proof (cases "c = a")
    case True
    have "unat (a - (a + 1)) = 2 ^ 32 - 1" using unat_sub_wrap[of 0 1] by simp
    then show ?thesis using assms True by (simp add: put_def)
  next
    case False
    have "c - (a + 1) = (c - a) - 1" by simp
    moreover have "unat ((c - a) - 1) = unat (c - a) - 1" "0 < unat (c - a)" using False by (simp_all add: unat_minus_one unat_gt_0)
    ultimately have "unat (c - a) = Suc (unat (c - (a + 1)))" by (simp only:)
    then show ?thesis using False by (simp add: put_def)
  qed
qed

lemma accessible_Suc: "accessible f a (Suc n) \<longleftrightarrow> f a \<noteq> None \<and> accessible f (a + 1) n \<and> Suc n \<le> 2 ^ 32"
  unfolding accessible_def by (subst All_less_Suc2) (auto simp: add.assoc)

lemma accessible_upd: "accessible f a n \<Longrightarrow> f' = f(c \<mapsto> b) \<Longrightarrow> accessible f' a n"
  by (simp add: accessible_def)

text \<open>The bytes from an address on.\<close>

definition bytes_at :: "(uintptr \<Rightarrow> u8 option) \<Rightarrow> uintptr \<Rightarrow> nat \<Rightarrow> u8 list" where
  "bytes_at f a n = map (\<lambda>i. the (f (a + of_nat i))) [0..<n]"

lemma bytes_at_Suc: "bytes_at f a (Suc n) = the (f a) # bytes_at f (a + 1) n"
  by (rule nth_equalityI) (auto simp: bytes_at_def nth_Cons' add.assoc simp del: upt_Suc)

lemma bytes_at_snoc: "bytes_at f a (Suc n) = bytes_at f a n @ [the (f (a + of_nat n))]"
  by (simp add: bytes_at_def)

lemma bytes_at_other: "(\<And>i. i < n \<Longrightarrow> a + of_nat i \<noteq> c) \<Longrightarrow> bytes_at (f(c \<mapsto> b)) a n = bytes_at f a n"
  by (simp add: bytes_at_def)

lemma put_snoc:
  assumes "length bs < 2 ^ 32"
  shows "put a bs (f(a + of_nat (length bs) \<mapsto> b)) = put a (bs @ [b]) f"
proof
  fix c
  have "c = a + of_nat (length bs) \<longleftrightarrow> unat (c - a) = length bs"
  proof
    assume "unat (c - a) = length bs"
    then have "c - a = of_nat (length bs)" by (metis unat_eq_nat_uint word_unat_eq_iff unat_of_nat_small assms)
    then show "c = a + of_nat (length bs)" by (simp add: algebra_simps)
  qed (use assms in simp)
  then show "put a bs (f(a + of_nat (length bs) \<mapsto> b)) c = put a (bs @ [b]) f c"
    by (auto simp: put_def nth_append)
qed

text \<open>
  \<open>mem\<close> is the contents of the accessible addresses and \<open>minv\<close> what every store keeps.
\<close>

locale byte_memory =
  fixes ops :: "'m mem_ops" and minv :: "'m \<Rightarrow> bool" and mem :: "'m \<Rightarrow> uintptr \<Rightarrow> u8 option"
  assumes ld_ok: "minv m \<Longrightarrow> mem m a = Some b \<Longrightarrow> m_ld ops a m = Inr b"
    and st_ok: "minv m \<Longrightarrow> mem m a \<noteq> None \<Longrightarrow> \<exists>m'. m_st ops a b m = Inr m' \<and> minv m' \<and> mem m' = (mem m)(a \<mapsto> b)"
begin

lemma memset_bytes_ok:
  "minv m \<Longrightarrow> accessible (mem m) a n \<Longrightarrow>
   \<exists>m'. memset_bytes ops a val n m = Inr m' \<and> minv m' \<and> mem m' = put a (replicate n (ucast val)) (mem m)"
proof (induction n arbitrary: a m)
  case (Suc n)
  have acc: "mem m a \<noteq> None" "accessible (mem m) (a + 1) n" "n < 2 ^ 32" using Suc.prems(2) by (auto simp: accessible_Suc)
  from st_ok[OF Suc.prems(1) acc(1)] obtain m1 where
    m1: "m_st ops a (ucast val) m = Inr m1" "minv m1" "mem m1 = (mem m)(a \<mapsto> ucast val)" by blast
  from Suc.IH[OF m1(2) accessible_upd[OF acc(2) m1(3)]] obtain m' where
    m': "memset_bytes ops (a + 1) val n m1 = Inr m'" "minv m'" "mem m' = put (a + 1) (replicate n (ucast val)) (mem m1)" by blast
  have "mem m' = put a (replicate (Suc n) (ucast val)) (mem m)" unfolding m'(3) m1(3) using acc(3) by (simp add: put_Cons del: fun_upd_apply)
  then show ?case using m1(1) m'(1,2) by simp
qed simp

lemma memset_ref_ok:
  assumes "minv m" "accessible (mem m) ptr (unat num)"
  shows "\<exists>m'. memset_ref ops ptr val num m = Inr (ptr, m') \<and> minv m' \<and> mem m' = put ptr (replicate (unat num) (ucast val)) (mem m)"
proof -
  from memset_bytes_ok[OF assms, of val] obtain m' where "memset_bytes ops ptr val (unat num) m = Inr m'" "minv m'"
    "mem m' = put ptr (replicate (unat num) (ucast val)) (mem m)" by blast
  then show ?thesis by (simp add: memset_ref_def)
qed

text \<open>Moving upwards works if no byte of the source is overwritten before it is read.\<close>

lemma move_up_ok:
  "minv m \<Longrightarrow> accessible (mem m) dst n \<Longrightarrow> accessible (mem m) src n \<Longrightarrow> \<not> (0 < unat (dst - src) \<and> unat (dst - src) < n) \<Longrightarrow>
   \<exists>m'. move_up ops dst src n m = Inr m' \<and> minv m' \<and> mem m' = put dst (bytes_at (mem m) src n) (mem m)"
proof (induction n arbitrary: dst src m)
  case 0
  then show ?case by (simp add: bytes_at_def)
next
  case (Suc n)
  have acc: "mem m dst \<noteq> None" "accessible (mem m) (dst + 1) n" "accessible (mem m) (src + 1) n" "n < 2 ^ 32"
    using Suc.prems(2,3) by (auto simp: accessible_Suc)
  obtain b where b: "mem m src = Some b" using Suc.prems(3) by (auto simp: accessible_Suc)
  from st_ok[OF Suc.prems(1) acc(1), of b] obtain m1 where
    m1: "m_st ops dst b m = Inr m1" "minv m1" "mem m1 = (mem m)(dst \<mapsto> b)" by blast
  have "src + 1 + of_nat i \<noteq> dst" if "i < n" for i
  proof
    assume "src + 1 + of_nat i = dst"
    then have "dst - src = of_nat (Suc i)" by auto
    then have "unat (dst - src) = Suc i" using that acc(4) by (simp only: unat_of_nat_small)
    then show False using Suc.prems(4) that by simp
  qed
  then have same: "bytes_at (mem m1) (src + 1) n = bytes_at (mem m) (src + 1) n" unfolding m1(3) by (rule bytes_at_other)
  have "\<not> (0 < unat (dst + 1 - (src + 1)) \<and> unat (dst + 1 - (src + 1)) < n)" using Suc.prems(4) by auto
  from Suc.IH[OF m1(2) accessible_upd[OF acc(2) m1(3)] accessible_upd[OF acc(3) m1(3)] this] same obtain m' where
    m': "move_up ops (dst + 1) (src + 1) n m1 = Inr m'" "minv m'" "mem m' = put (dst + 1) (bytes_at (mem m) (src + 1) n) (mem m1)" by auto
  have "mem m' = put dst (bytes_at (mem m) src (Suc n)) (mem m)"
    unfolding m'(3) m1(3) bytes_at_Suc using acc(4) b by (simp add: put_Cons bytes_at_def del: fun_upd_apply)
  then show ?case using ld_ok[OF Suc.prems(1) b] m1(1) m'(1,2) by simp
qed

lemma move_down_ok:
  "minv m \<Longrightarrow> accessible (mem m) dst n \<Longrightarrow> accessible (mem m) src n \<Longrightarrow> \<not> (0 < unat (src - dst) \<and> unat (src - dst) < n) \<Longrightarrow>
   \<exists>m'. move_down ops (dst + of_nat n) (src + of_nat n) n m = Inr m' \<and> minv m' \<and> mem m' = put dst (bytes_at (mem m) src n) (mem m)"
proof (induction n arbitrary: m)
  case 0
  then show ?case by (simp add: bytes_at_def)
next
  case (Suc n)
  let ?d = "dst + of_nat n" and ?s = "src + of_nat n"
  have acc: "mem m ?d \<noteq> None" "accessible (mem m) dst n" "accessible (mem m) src n" "n < 2 ^ 32"
    using Suc.prems(2,3) by (auto simp: accessible_def)
  obtain b where b: "mem m ?s = Some b" using Suc.prems(3) by (auto simp: accessible_def)
  from st_ok[OF Suc.prems(1) acc(1), of b] obtain m1 where
    m1: "m_st ops ?d b m = Inr m1" "minv m1" "mem m1 = (mem m)(?d \<mapsto> b)" by blast
  have "src + of_nat i \<noteq> ?d" if "i < n" for i
  proof
    assume "src + of_nat i = ?d"
    then have "src - dst = of_nat n - of_nat i" by (simp add: algebra_simps)
    also have "\<dots> = of_nat (n - i)" using that by (simp add: of_nat_diff)
    finally have "unat (src - dst) = n - i" using acc(4) by (simp add: unat_of_nat_small)
    then show False using Suc.prems(4) that by simp
  qed
  then have same: "bytes_at (mem m1) src n = bytes_at (mem m) src n" unfolding m1(3) by (rule bytes_at_other)
  have "\<not> (0 < unat (src - dst) \<and> unat (src - dst) < n)" using Suc.prems(4) by linarith
  from Suc.IH[OF m1(2) accessible_upd[OF acc(2) m1(3)] accessible_upd[OF acc(3) m1(3)] this] same obtain m' where
    m': "move_down ops ?d ?s n m1 = Inr m'" "minv m'" "mem m' = put dst (bytes_at (mem m) src n) (mem m1)" by auto
  have l: "length (bytes_at (mem m) src n) = n" by (simp add: bytes_at_def)
  have "mem m' = put dst (bytes_at (mem m) src (Suc n)) (mem m)"
    unfolding m'(3) m1(3) bytes_at_snoc using put_snoc[of "bytes_at (mem m) src n" dst "mem m" b] acc(4) b unfolding l by simp
  moreover have "dst + of_nat (Suc n) - 1 = ?d" "src + of_nat (Suc n) - 1 = ?s" by simp_all
  ultimately show ?case using ld_ok[OF Suc.prems(1) b] m1(1) m'(1,2) by (simp only: move_down.simps) simp
qed

lemma memmove_ok:
  assumes "minv m" "accessible (mem m) dst (unat num)" "accessible (mem m) src (unat num)"
    and "unat dst + unat num \<le> 2 ^ 32" "unat src + unat num < 2 ^ 32"
  shows "\<exists>m'. memmove ops dst src num m = Inr (dst, m') \<and> minv m' \<and> mem m' = put dst (bytes_at (mem m) src (unat num)) (mem m)"
proof (cases "src < dst \<and> dst < src + num")
  case True
  have sn: "unat (src + num) = unat src + unat num" using assms(5) by (subst unat_plus_small) simp_all
  have "unat (src - dst) = 2 ^ 32 - (unat dst - unat src)" using True by (intro unat_sub_wrap) simp
  then have "\<not> unat (src - dst) < unat num" using True assms(4) sn by (simp add: word_less_nat_alt)
  from move_down_ok[OF assms(1-3)] this obtain m' where
    "move_down ops (dst + of_nat (unat num)) (src + of_nat (unat num)) (unat num) m = Inr m'" "minv m'"
    "mem m' = put dst (bytes_at (mem m) src (unat num)) (mem m)" by blast
  then show ?thesis using True by (simp add: memmove_def)
next
  case False
  have sn: "unat (src + num) = unat src + unat num" using assms(5) by (subst unat_plus_small) simp_all
  have "\<not> (0 < unat (dst - src) \<and> unat (dst - src) < unat num)"
  proof (cases "src \<le> dst")
    case True
    then have "unat (dst - src) = unat dst - unat src" by (simp add: unat_sub)
    then show ?thesis using False True sn by (auto simp: word_less_nat_alt word_le_nat_alt)
  next
    case f: False
    then have "unat (dst - src) = 2 ^ 32 - (unat src - unat dst)" by (intro unat_sub_wrap) simp
    then show ?thesis using assms(5) by linarith
  qed
  from move_up_ok[OF assms(1-3) this] obtain m' where "move_up ops dst src (unat num) m = Inr m'" "minv m'"
    "mem m' = put dst (bytes_at (mem m) src (unat num)) (mem m)" by blast
  then show ?thesis using False by (auto simp: memmove_def)
qed

end

section \<open>Buffers\<close>

text \<open>A buffer at an address: the bytes of an object, as the routines see them.\<close>

definition buffer_ops :: "uintptr \<Rightarrow> u8 list mem_ops" where
  "buffer_ops base =
     \<lparr>m_ld = (\<lambda>a b. aread b (unat (a - base))), m_st = (\<lambda>a x b. awrite b (unat (a - base)) x)\<rparr>"

definition buffer_mem :: "uintptr \<Rightarrow> u8 list \<Rightarrow> uintptr \<Rightarrow> u8 option" where
  "buffer_mem base b a = (if unat (a - base) < length b then Some (b ! unat (a - base)) else None)"

interpretation buf: byte_memory "buffer_ops base" "\<lambda>b. True" "buffer_mem base" for base
proof
  fix m a and b :: u8
  assume "buffer_mem base m a \<noteq> None"
  then show "\<exists>m'. m_st (buffer_ops base) a b m = Inr m' \<and> True \<and> buffer_mem base m' = (buffer_mem base m)(a \<mapsto> b)"
    by (auto simp: buffer_ops_def buffer_mem_def fun_eq_iff nth_list_update word_unat_eq_iff[symmetric] split: if_splits)
qed (auto simp: buffer_ops_def buffer_mem_def split: if_splits)

lemma buffer_accessible:
  assumes "unat (a - base) + n \<le> length b" "length b < 2 ^ 32"
  shows "accessible (buffer_mem base b) a n"
proof -
  have "unat (a + of_nat i - base) = unat (a - base) + i" if "i < n" for i
  proof -
    have "a + of_nat i - base = (a - base) + of_nat i" by (simp add: algebra_simps)
    moreover have "unat (a - base) + i < 4294967296" using assms that by simp
    ultimately show ?thesis by (simp only: unat_plus_small unat_of_nat_small) (simp add: unat_plus_small)
  qed
  then show ?thesis using assms by (auto simp: accessible_def buffer_mem_def)
qed

section \<open>Properties\<close>

text \<open>
  C27. \<open>memmove\<close> moves a range of accessible memory as a whole, also when source and destination
  overlap: afterwards the destination holds the bytes the source held before, and every other
  byte is unchanged.
\<close>

theorem memmove_correct:
  assumes "byte_memory ops minv mem" "minv m"
    and "accessible (mem m) dst (unat num)" "accessible (mem m) src (unat num)"
    and "unat dst + unat num \<le> 2 ^ 32" "unat src + unat num < 2 ^ 32"
  shows "\<exists>m'. memmove ops dst src num m = Inr (dst, m') \<and> minv m'
    \<and> (\<forall>a. mem m' a = (if unat (a - dst) < unat num then mem m (src + (a - dst)) else mem m a))"
proof -
  from byte_memory.memmove_ok[OF assms] obtain m' where
    m': "memmove ops dst src num m = Inr (dst, m')" "minv m'" "mem m' = put dst (bytes_at (mem m) src (unat num)) (mem m)" by blast
  moreover have "mem m (src + x) \<noteq> None" if "unat x < unat num" for x
    using assms(4) that unfolding accessible_def by (auto dest!: spec[of _ "unat x"])
  ultimately show ?thesis by (auto simp: put_def bytes_at_def)
qed

theorem memmove_correct_witness:
  "\<exists>m'. memmove (buffer_ops 100) 101 100 3 [1, 2, 3, 4, 5] = Inr (101, m') \<and> buffer_mem 100 m' 103 = Some 3"
proof -
  have acc: "accessible (buffer_mem 100 [1, 2, 3, 4, 5]) 101 (unat (3 :: size_t))" "accessible (buffer_mem 100 [1, 2, 3, 4, 5]) 100 (unat (3 :: size_t))"
    by (rule buffer_accessible; simp)+
  from memmove_correct[OF buf.byte_memory_axioms[of 100] TrueI acc] obtain m' where
    m': "memmove (buffer_ops 100) 101 100 3 [1, 2, 3, 4, 5] = Inr (101, m')"
    "\<forall>a. buffer_mem 100 m' a = (if unat (a - 101) < unat (3 :: size_t) then buffer_mem 100 [1, 2, 3, 4, 5] (100 + (a - 101)) else buffer_mem 100 [1, 2, 3, 4, 5] a)"
    by auto
  have "buffer_mem 100 m' 103 = buffer_mem 100 [1, 2, 3, 4, 5] (100 + (103 - 101))" using spec[OF m'(2), of 103] by simp
  then show ?thesis using m'(1) by (simp add: buffer_mem_def)
qed

text \<open>
  A range shorter than the low two bits of its address say is overrun: the byte behind it is
  stored to, so \<open>memset\<close> faults if that byte may not be accessed.
\<close>

theorem memset_short_overruns:
  assumes "num < ptr AND 3" and "\<And>b m. \<exists>e. m_st ops (ptr + num) b m = Inl e"
  shows "\<exists>e. memset ops ptr val num m = Inl e"
proof -
  define v where "v = val AND 0xFF"
  from assms(1) obtain k where k: "unat (ptr AND 3) = unat num + Suc k"
    by (metis less_iff_Suc_add word_less_nat_alt add_Suc_right)
  have "\<exists>e. memset_bytes ops ptr v (unat num + Suc k) m = Inl e"
  proof (cases "memset_bytes ops ptr v (unat num) m")
    case (Inr m1)
    obtain e where "m_st ops (ptr + num) (ucast v) m1 = Inl e" using assms(2) by blast
    then show ?thesis using Inr unfolding bytes_add by simp
  qed (unfold bytes_add, simp)
  then show ?thesis unfolding memset_def Let_def v_def[symmetric] k affix_bytes by (auto simp: rbind_Inl_iff)
qed

end
