(* ===== verification/User_Memory.thy ===== *)
theory User_Memory
  imports Mmu_Props Byte_Memory
begin

text \<open>
  Byte access to virtual memory through the page walk, and the memory that the owner of mapped
  pages sees: pages with frames of their own are a memory in the sense of \<open>byte_memory\<close>, stores
  to them leave the page tables alone, and further allocations keep their contents.
\<close>

section \<open>Bytes of virtual memory\<close>

definition get_byte :: "nat \<Rightarrow> u32 \<Rightarrow> u8" where
  "get_byte k w = ucast (drop_bit (8 * k) w)"

definition set_byte :: "nat \<Rightarrow> u8 \<Rightarrow> u32 \<Rightarrow> u32" where
  "set_byte k b w = (w AND NOT (push_bit (8 * k) 0xFF)) OR push_bit (8 * k) (ucast b)"

definition vload8 :: "machine \<Rightarrow> uintptr \<Rightarrow> u8 res" where
  "vload8 m a = rbind (translate m a) (\<lambda>f. Inr (get_byte (unat a mod 4) (phys m f (word_index a))))"

definition vstore8 :: "machine \<Rightarrow> uintptr \<Rightarrow> u8 \<Rightarrow> machine res" where
  "vstore8 m a b = rbind (translate m a) (\<lambda>f.
     Inr (phys_upd m f (word_index a) (set_byte (unat a mod 4) b (phys m f (word_index a)))))"

definition vmem_ops :: "MMU mem_ops" where
  "vmem_ops = \<lparr>m_ld = (\<lambda>a st. vload8 (hw st) a),
     m_st = (\<lambda>a b st. rbind (vstore8 (hw st) a b) (\<lambda>m. Inr (st\<lparr>hw := m\<rparr>)))\<rparr>"

lemma get_set_byte:
  assumes "j < 4" "k < 4"
  shows "get_byte j (set_byte k b w) = (if j = k then b else get_byte j w)"
proof (rule bit_word_eqI)
  fix n assume "n < LENGTH(8)"
  then have n: "n < 8" by simp
  have "8 * k \<le> 8 * j + n \<and> 8 * j + n - 8 * k < 8 \<longleftrightarrow> j = k" using n by auto
  then show "bit (get_byte j (set_byte k b w)) n = bit (if j = k then b else get_byte j w) n"
    using n assms by (auto simp: get_byte_def set_byte_def bit_simps bit_255 dest: bit_imp_le_length)
qed

lemma addr_eqI:
  assumes "frame_number a = frame_number b" "word_index a = word_index b" "unat a mod 4 = unat b mod 4"
  shows "a = b"
proof -
  have split: "unat x = 4096 * frame_number x + (4 * word_index x + unat x mod 4)" for x :: uintptr
  proof -
    have "unat x mod 4096 mod 4 = unat x mod 4" by (simp add: mod_mod_cancel)
    then show ?thesis unfolding frame_number_def word_index_def
      using mult_div_mod_eq[of 4096 "unat x"] mult_div_mod_eq[of 4 "unat x mod 4096"] by linarith
  qed
  show ?thesis unfolding word32_eq_iff_unat using split[of a] split[of b] assms by simp
qed

section \<open>Memory of the owner of pages\<close>

definition byte_at :: "MMU \<Rightarrow> uintptr \<Rightarrow> u8" where
  "byte_at st a = get_byte (unat a mod 4) (phys (hw st) (frame_number (pte_of st (frame_number a))) (word_index a))"

definition vmem :: "nat set \<Rightarrow> MMU \<Rightarrow> uintptr \<Rightarrow> u8 option" where
  "vmem V st a = (if frame_number a \<in> V then Some (byte_at st a) else None)"

definition owns :: "AddressSpace \<Rightarrow> nat set \<Rightarrow> MMU \<Rightarrow> bool" where
  "owns as V st \<longleftrightarrow> mmu_inv st as \<and> (\<forall>v\<in>V. exclusive st v)"

lemma exclusive_page:
  assumes "exclusive st v"
  shows "v < kUserPages" "page_map st v = Some (pte_of st v)" "present (pde_of st (v div 1024))" "present (pte_of st v)"
    "frame_number (pte_of st v) \<noteq> dir_frame st"
    "i < 1023 \<Longrightarrow> present (pde_of st i) \<Longrightarrow> frame_number (pde_of st i) \<noteq> frame_number (pte_of st v)"
    "u < kUserPages \<Longrightarrow> u \<noteq> v \<Longrightarrow> page_map st u = Some e \<Longrightarrow> frame_number e \<noteq> frame_number (pte_of st v)"
  using assms by (auto simp: exclusive_def page_map_def split: if_splits)

lemma translate_exclusive:
  assumes "mmu_inv st as" "exclusive st (frame_number a)"
  shows "translate (hw st) a = Inr (frame_number (pte_of st (frame_number a)))"
  using assms exclusive_page[OF assms(2)]
  by (simp add: translate_def mmu_inv_def self_mapped_def pde_of_def pte_of_def dir_frame_def)

text \<open>A store into an owned page changes no page table.\<close>

lemma write_owned:
  fixes i :: nat and w :: u32
  assumes inv: "mmu_inv st as" and ex: "exclusive st v"
  defines "st' \<equiv> write_phys st (frame_number (pte_of st v)) i w"
  shows "pde_of st' = pde_of st" "u < kUserPages \<Longrightarrow> page_map st' u = page_map st u"
    "u < kUserPages \<Longrightarrow> present (pde_of st (u div 1024)) \<Longrightarrow> pte_of st' u = pte_of st u" "mmu_inv st' as"
proof -
  note e = exclusive_page[OF ex]
  show pd: "pde_of st' = pde_of st" using e(5) by (auto simp: st'_def fun_eq_iff)
  show pt: "pte_of st' u = pte_of st u" if "u < kUserPages" "present (pde_of st (u div 1024))" for u
    using e(6)[OF page_index[OF that(1)] that(2)] unfolding pte_of_def[of st'] pd by (simp add: st'_def) (simp add: pte_of_def)
  show pm: "page_map st' u = page_map st u" if "u < kUserPages" for u
    using pt[OF that] by (auto simp: page_map_def pd)
  have s: "pfa st' = pfa st" "dir_frame st' = dir_frame st" "mmu_free st' = mmu_free st" "paging (hw st') = paging (hw st)"
    by (simp_all add: st'_def)
  show "mmu_inv st' as" using inv pm unfolding mmu_inv_defs pd s by auto
qed

lemma exclusive_cong:
  assumes "exclusive st v" "pde_of st' = pde_of st" "dir_frame st' = dir_frame st"
    and "\<And>u. u < kUserPages \<Longrightarrow> page_map st' u = page_map st u"
  shows "exclusive st' v"
  using assms unfolding exclusive_def by auto

definition same_pages :: "MMU \<Rightarrow> MMU \<Rightarrow> bool" where
  "same_pages st0 st \<longleftrightarrow> pfa st = pfa st0 \<and> (\<forall>u<kUserPages. page_map st u = page_map st0 u)"

lemma store_owned:
  assumes o: "owns as V st" and a: "frame_number a \<in> V"
  shows "\<exists>st'. m_st vmem_ops a b st = Inr st' \<and> owns as V st' \<and> same_pages st st' \<and> vmem V st' = (vmem V st)(a \<mapsto> b)"
proof -
  let ?v = "frame_number a" and ?k = "unat a mod 4" and ?i = "word_index a"
  have inv: "mmu_inv st as" and ex: "exclusive st ?v" using o a by (auto simp: owns_def)
  let ?f = "frame_number (pte_of st ?v)"
  define st' where "st' = write_phys st ?f ?i (set_byte ?k b (phys (hw st) ?f ?i))"
  note w = write_owned[OF inv ex, where i = ?i and w = "set_byte ?k b (phys (hw st) ?f ?i)", folded st'_def]
  have st: "m_st vmem_ops a b st = Inr st'"
    using translate_exclusive[OF inv ex] by (simp add: vmem_ops_def vstore8_def st'_def write_phys_def)
  have ow: "owns as V st'" using o w unfolding owns_def by (auto intro: exclusive_cong simp: st'_def)
  have "vmem V st' c = ((vmem V st)(a \<mapsto> b)) c" for c
  proof (cases "frame_number c \<in> V")
    case False
    then show ?thesis using a by (auto simp: vmem_def)
  next
    case True
    have exc: "exclusive st (frame_number c)" using o True by (simp add: owns_def)
    note ec = exclusive_page[OF exc]
    have pt: "pte_of st' (frame_number c) = pte_of st (frame_number c)" by (rule w(3)[OF ec(1,3)])
    show ?thesis
    proof (cases "frame_number c = ?v \<and> word_index c = ?i")
      case True
      have "c = a \<longleftrightarrow> unat c mod 4 = ?k" using addr_eqI[of c a] True by auto
      then show ?thesis using True a pt by (auto simp: vmem_def byte_at_def st'_def get_set_byte)
    next
      case False
      have "frame_number (pte_of st (frame_number c)) \<noteq> ?f" if "frame_number c \<noteq> ?v"
        using exclusive_page(7)[OF ex ec(1) that ec(2)] by simp
      moreover have "c \<noteq> a" using False by auto
      ultimately show ?thesis using False pt by (auto simp: vmem_def byte_at_def st'_def)
    qed
  qed
  then show ?thesis using st ow w(2) unfolding same_pages_def by (auto simp: st'_def fun_eq_iff)
qed

interpretation vm: byte_memory vmem_ops "\<lambda>st. owns as V st \<and> same_pages st0 st" "vmem V" for as V st0
proof
  fix st a b
  assume "owns as V st \<and> same_pages st0 st" "vmem V st a = Some b"
  then show "m_ld vmem_ops a st = Inr b"
    using translate_exclusive[of st as a] by (auto simp: vmem_ops_def vload8_def vmem_def owns_def byte_at_def split: if_splits)
next
  fix st a b
  assume "owns as V st \<and> same_pages st0 st" "vmem V st a \<noteq> None"
  then show "\<exists>st'. m_st vmem_ops a b st = Inr st' \<and> (owns as V st' \<and> same_pages st0 st') \<and> vmem V st' = (vmem V st)(a \<mapsto> b)"
    using store_owned[of as V st a b] by (auto simp: vmem_def same_pages_def split: if_splits)
qed

section \<open>Allocation keeps the contents of owned pages\<close>

text \<open>Frames that are neither free nor used for the directory or a page table.\<close>

definition data_frame :: "MMU \<Rightarrow> nat \<Rightarrow> bool" where
  "data_frame st f \<longleftrightarrow> f \<notin> mmu_free st \<and> f \<noteq> dir_frame st
     \<and> (\<forall>i<1023. present (pde_of st i) \<longrightarrow> frame_number (pde_of st i) \<noteq> f)"

definition keeps_data :: "MMU \<Rightarrow> MMU \<Rightarrow> bool" where
  "keeps_data st st' \<longleftrightarrow> (\<forall>f. data_frame st f \<longrightarrow> data_frame st' f \<and> phys (hw st') f = phys (hw st) f)"

lemma keeps_data_refl [simp]: "keeps_data st st"
  by (simp add: keeps_data_def)

lemma keeps_data_trans: "keeps_data a b \<Longrightarrow> keeps_data b c \<Longrightarrow> keeps_data a c"
  by (auto simp: keeps_data_def)

lemma keeps_data_alloc:
  assumes "frames_inv (pfa st)" "alloc_frame st = Inr (f, st1)"
  shows "keeps_data st st1"
  using alloc_frame_Inr[OF assms] hw_cong[OF alloc_frame_Inr(4)[OF assms]] by (auto simp: keeps_data_def data_frame_def)

lemma keeps_data_write:
  assumes "d < 1023" "present (pde_of st d)" "frame_number (pde_of st d) \<noteq> dir_frame st"
  shows "keeps_data st (write_phys st (frame_number (pde_of st d)) i e)"
  using assms by (auto simp: keeps_data_def data_frame_def fun_eq_iff)

lemma keeps_data_with_table:
  assumes "d < 1023" "frame_number f \<in> mmu_free st0" "keeps_data st0 st" "frame_number f \<noteq> dir_frame st"
  shows "keeps_data st0 (with_table st d f)"
proof -
  have "data_frame (with_table st d f) g \<and> phys (hw (with_table st d f)) g = phys (hw st0) g" if g: "data_frame st0 g" for g
  proof -
    have k: "data_frame st g" "phys (hw st) g = phys (hw st0) g" "g \<noteq> frame_number f"
      using assms(2,3) g by (auto simp: keeps_data_def data_frame_def)
    have "phys (hw (with_table st d f)) g = phys (hw st) g" using k(1,3) by (auto simp: with_table_def data_frame_def fun_eq_iff)
    then show ?thesis using k assms(4) by (auto simp: data_frame_def with_table_facts split: if_splits)
  qed
  then show ?thesis by (simp add: keeps_data_def)
qed

lemma getOrCreateTable_keeps:
  assumes inv: "mmu_inv st as" and d: "d < 1024" and ok: "getOrCreateTable st as (of_nat d) = Inr (t, st')"
  shows "keeps_data st st'"
proof (cases "present (pde_of st d)")
  case True
  then show ?thesis using ok inv d by (simp add: getOrCreateTable_eq)
next
  case False
  with ok inv d obtain f st1 where al: "alloc_frame st = Inr (f, st1)" and r: "st' = with_table st1 d f"
    by (auto simp: getOrCreateTable_eq)
  have fr: "frames_inv (pfa st)" "tables_inv st" "self_mapped st" using inv by (auto simp: mmu_inv_def)
  note a = alloc_frame_Inr[OF fr(1) al]
  have d': "d < 1023" using False fr(3) d by (cases "d = 1023") (auto simp: self_mapped_def)
  have "frame_number f \<noteq> dir_frame st1" using a(1) fr(2) hw_cong[OF a(4)] by (auto simp: tables_inv_def)
  then show ?thesis unfolding r by (intro keeps_data_with_table[OF d' a(1) keeps_data_alloc[OF fr(1) al]])
qed

lemma pageForAddress_keeps:
  assumes inv: "mmu_inv st as" and v: "v < kUserPages" and ok: "pageForAddress st as (page_addr v) = Inr (e, st1)"
  shows "keeps_data st st1"
proof -
  have v': "v < 1048576" "v div 1024 < 1023" using v page_index by (auto simp: kUserPages_def)
  have uc: "(ucast (of_nat (v div 1024) :: u32) :: u16) = of_nat (v div 1024)"
    using v'(2) by (simp add: word_unat_eq_iff unsigned_ucast_eq unat_of_nat take_bit_nat_eq_self)
  from ok obtain t where "getOrCreateTable st as (of_nat (v div 1024)) = Inr (t, st1)"
    unfolding pageForAddress_def tableForAddress_def page_addr_indices[OF v'(1)] uc by auto
  from getOrCreateTable_keeps[OF inv _ this] show ?thesis using v'(2) by simp
qed

lemma palloc_probe_keeps:
  assumes "mmu_inv st as" "v + k \<le> kUserPages" "palloc_probe st as (page_addr v) k = Inr (ok, st')"
  shows "keeps_data st st'"
  using assms
proof (induction k arbitrary: st v)
  case (Suc k)
  have v: "v < kUserPages" using Suc.prems(2) by simp
  from Suc.prems(3) obtain e st1 where p: "pageForAddress st as (page_addr v) = Inr (e, st1)"
    and rest: "(if present e then Inr (False, st1) else palloc_probe st1 as (page_addr (Suc v)) k) = Inr (ok, st')"
    unfolding palloc_probe.simps page_addr_Suc by auto
  note k = pageForAddress_keeps[OF Suc.prems(1) v p]
  show ?case
  proof (cases "present e")
    case True
    then show ?thesis using rest k by simp
  next
    case False
    then have "palloc_probe st1 as (page_addr (Suc v)) k = Inr (ok, st')" using rest by simp
    from Suc.IH[OF pageForAddress_Inr(1)[OF Suc.prems(1) v p] _ this] show ?thesis
      using keeps_data_trans[OF k] Suc.prems(2) by simp
  qed
qed simp

lemma allocatePages_loop_keeps:
  assumes "mmu_inv st as" "run_unmapped st v k" "run_tables st v k"
    and "allocatePages_loop k st (of_nat (v div 1024)) (of_nat (v mod 1024)) = Inr st'"
  shows "keeps_data st st'"
  using assms
proof (induction k arbitrary: st v)
  case (Suc k)
  then have v: "v < kUserPages" "present (pde_of st (v div 1024))" "page_map st v = None"
    by (auto simp: run_unmapped_def run_tables_def)
  from Suc.prems(4) obtain f st1 where f: "alloc_frame st = Inr (f, st1)"
    and rest: "rbind (set_entry st1 (PageTableForDirectoryIndex (of_nat (v div 1024))) (of_nat (v mod 1024)) (rw_entry f))
      (\<lambda>st2. allocatePages_loop k st2 (of_nat (Suc v div 1024)) (of_nat (Suc v mod 1024))) = Inr st'"
    unfolding allocatePages_loop_step[OF v(1) refl refl] by auto
  from map_one_page[OF Suc.prems(1) v f] obtain st2 where
    st2: "set_entry st1 (PageTableForDirectoryIndex (of_nat (v div 1024))) (of_nat (v mod 1024)) (rw_entry f) = Inr st2"
      "mmu_inv st2 as" "pde_of st2 = pde_of st"
      "\<And>u. u < kUserPages \<Longrightarrow> page_map st2 u = (if u = v then Some (rw_entry f) else page_map st u)"
    by auto
  have fi: "frames_inv (pfa st)" using Suc.prems(1) by (simp add: mmu_inv_def)
  note a = alloc_frame_Inr[OF fi f]
  note c = hw_cong[OF a(4)]
  have d: "v div 1024 < 1023" using v(1) by (rule page_index)
  have "self_mapped st1" using Suc.prems(1) c by (simp add: mmu_inv_def)
  then have w: "st2 = write_phys st1 (frame_number (pde_of st1 (v div 1024))) (v mod 1024) (rw_entry f)"
    using st2(1) set_entry_table[of st1 "v div 1024" "v mod 1024" "rw_entry f"] d v(2) c by simp
  have "frame_number (pde_of st1 (v div 1024)) \<noteq> dir_frame st1"
    using Suc.prems(1) v d by (auto simp: mmu_inv_def tables_inv_def c)
  moreover have "present (pde_of st1 (v div 1024))" using v(2) c by simp
  ultimately have "keeps_data st1 st2" unfolding w using keeps_data_write[OF d] by blast
  then have "keeps_data st st2" using keeps_data_trans[OF keeps_data_alloc[OF fi f]] by simp
  moreover have "run_unmapped st2 (Suc v) k" "run_tables st2 (Suc v) k"
    using Suc.prems(2,3) st2(3,4) by (auto simp: run_unmapped_def run_tables_def)
  ultimately show ?case using Suc.IH[OF st2(2)] rest st2(1) keeps_data_trans by auto
qed simp

lemma owned_data_frame:
  assumes inv: "mmu_inv st as" and ex: "exclusive st u"
  shows "data_frame st (frame_number (pte_of st u))"
  using inv exclusive_page[OF ex] by (auto simp: data_frame_def mmu_inv_def mapped_inv_def)

text \<open>
  \<open>palloc\<close> at an address either maps the whole unmapped range to frames the caller then owns,
  without touching pages owned before, or runs out of memory.
\<close>

lemma owned_after:
  assumes o: "owns as V st" and inv: "mmu_inv st' as" and k: "keeps_data st st'"
    and m: "maps_run st v fs st'" and u: "u \<in> V" and le: "v + length fs \<le> kUserPages" and un: "run_unmapped st v (length fs)"
  shows "exclusive st' u" "pte_of st' u = pte_of st u"
proof -
  have ex: "exclusive st u" "mmu_inv st as" using o u by (auto simp: owns_def)
  note e = exclusive_page[OF ex(1)]
  let ?f = "frame_number (pte_of st u)"
  have "data_frame st ?f" by (rule owned_data_frame[OF ex(2,1)])
  then have df: "data_frame st' ?f" using k by (simp add: keeps_data_def)
  have nin: "\<not> (v \<le> u \<and> u < v + length fs)" using un e(2) by (auto simp: run_unmapped_def)
  have pm: "page_map st' w = (if v \<le> w \<and> w < v + length fs then Some (rw_entry (fs ! (w - v))) else page_map st w)" if "w < kUserPages" for w
    using m that by (simp add: maps_run_def)
  have pu: "page_map st' u = Some (pte_of st u)" using pm[OF e(1)] nin e(2) by simp
  then show "pte_of st' u = pte_of st u" by (auto simp: page_map_def split: if_splits)
  have "frame_number e' \<noteq> ?f" if w: "w < kUserPages" "w \<noteq> u" "page_map st' w = Some e'" for w e'
  proof (cases "v \<le> w \<and> w < v + length fs")
    case True
    then have "frame_number e' \<in> mmu_free st" using pm[OF w(1)] w(3) m by (auto simp: maps_run_def)
    then show ?thesis using owned_data_frame[OF ex(2,1)] by (auto simp: data_frame_def)
  next
    case False
    then have "page_map st w = Some e'" using pm[OF w(1)] w(3) by (auto split: if_splits)
    then show ?thesis by (rule e(7)[OF w(1,2)])
  qed
  then show "exclusive st' u" using e(1) pu df unfolding exclusive_def data_frame_def by auto
qed

lemma getOrCreateTable_result:
  assumes "mmu_inv st as" "d < 1024"
  shows "getOrCreateTable st as (of_nat d) = Inl out_of_memory \<or> (\<exists>t st'. getOrCreateTable st as (of_nat d) = Inr (t, st'))"
  using getOrCreateTable_Inl[OF assms] by (cases "getOrCreateTable st as (of_nat d)") auto

lemma pageForAddress_result:
  assumes inv: "mmu_inv st as" and v: "v < kUserPages"
  shows "pageForAddress st as (page_addr v) = Inl out_of_memory \<or> (\<exists>e st1. pageForAddress st as (page_addr v) = Inr (e, st1))"
proof -
  have v': "v < 1048576" "v div 1024 < 1023" using v page_index by (auto simp: kUserPages_def)
  have uc: "(ucast (of_nat (v div 1024) :: u32) :: u16) = of_nat (v div 1024)"
    using v'(2) by (simp add: word_unat_eq_iff unsigned_ucast_eq unat_of_nat take_bit_nat_eq_self)
  have d: "v div 1024 < 1024" using v'(2) by simp
  have eq: "pageForAddress st as (page_addr v) = rbind (getOrCreateTable st as (of_nat (v div 1024))) (\<lambda>(table, st1).
      rbind (PageTable_entryAtIndex (hw st1) table (of_nat (v mod 1024))) (\<lambda>e. Inr (e, st1)))"
    unfolding pageForAddress_def tableForAddress_def page_addr_indices[OF v'(1)] uc ..
  from getOrCreateTable_result[OF inv d] show ?thesis
  proof
    assume "\<exists>t st'. getOrCreateTable st as (of_nat (v div 1024)) = Inr (t, st')"
    then obtain t st' where g: "getOrCreateTable st as (of_nat (v div 1024)) = Inr (t, st')" by blast
    note r = getOrCreateTable_Inr[OF inv d g]
    then show ?thesis using eq g entry_in_table[of st' "v div 1024" "v mod 1024"] v'(2) by (simp add: mmu_inv_def)
  qed (simp add: eq)
qed

lemma palloc_probe_result:
  assumes "mmu_inv st as" "v + k \<le> kUserPages"
  shows "palloc_probe st as (page_addr v) k = Inl out_of_memory \<or> (\<exists>ok st'. palloc_probe st as (page_addr v) k = Inr (ok, st'))"
  using assms
proof (induction k arbitrary: st v)
  case (Suc k)
  have v: "v < kUserPages" using Suc.prems(2) by simp
  from pageForAddress_result[OF Suc.prems(1) v] show ?case
  proof
    assume "\<exists>e st1. pageForAddress st as (page_addr v) = Inr (e, st1)"
    then obtain e st1 where p: "pageForAddress st as (page_addr v) = Inr (e, st1)" by blast
    show ?thesis using Suc.IH[OF pageForAddress_Inr(1)[OF Suc.prems(1) v p], of "Suc v"] Suc.prems(2) p
      by (auto simp: page_addr_Suc)
  qed simp
qed auto

lemma palloc_at_owned:
  assumes o: "owns as V st" and v: "0 < v" "v + unat n \<le> kUserPages" and un: "run_unmapped st v (unat n)"
  shows "MMU_palloc_at st as (page_addr v) n = Inl out_of_memory
    \<or> (\<exists>st'. MMU_palloc_at st as (page_addr v) n = Inr (page_addr v, st') \<and> owns as (V \<union> {v..<v + unat n}) st'
        \<and> (\<forall>a. frame_number a \<in> V \<longrightarrow> byte_at st' a = byte_at st a)
        \<and> (\<forall>u<kUserPages. u \<notin> {v..<v + unat n} \<longrightarrow> page_map st' u = page_map st u))"
proof -
  have inv: "mmu_inv st as" using o by (simp add: owns_def)
  have lt: "v < 1048576" using v by (simp add: kUserPages_def)
  have "unat (page_addr v) \<noteq> 0" using v(1) unat_page_addr[OF lt] by simp
  then have nz: "page_addr v \<noteq> 0" by auto
  consider "palloc_probe st as (page_addr v) (unat n) = Inl out_of_memory"
    | b st1 where "palloc_probe st as (page_addr v) (unat n) = Inr (b, st1)" using palloc_probe_result[OF inv v(2)] by blast
  then show ?thesis
  proof cases
    case 1
    then show ?thesis by (simp add: MMU_palloc_at_def page_addr_aligned)
  next
    case (2 b st1)
    from palloc_probe_Inr[OF inv v(2) 2] un have r: "mmu_inv st1 as" "extends_tables st st1" b "run_tables st1 v (unat n)" by auto
    have un1: "run_unmapped st1 v (unat n)" using r(2) un run_unmapped_extension by blast
    have eq: "MMU_palloc_at st as (page_addr v) n = rbind (allocatePages_loop (unat n) st1 (of_nat (v div 1024)) (of_nat (v mod 1024))) (\<lambda>st2. Inr (page_addr v, st2))"
      using 2 r(3) nz by (simp add: MMU_palloc_at_def page_addr_aligned allocatePages_at[OF lt])
    show ?thesis
    proof (cases "allocatePages_loop (unat n) st1 (of_nat (v div 1024)) (of_nat (v mod 1024))")
      case (Inl e)
      then show ?thesis using allocatePages_loop_Inl[OF r(1) un1 r(4) Inl] eq by simp
    next
      case (Inr st')
      from allocatePages_loop_Inr[OF r(1) un1 r(4) Inr] obtain fs where
        al: "mmu_inv st' as" "pde_of st' = pde_of st1" "dir_frame st' = dir_frame st1" "length fs = unat n" "maps_run st1 v fs st'" by blast
      have k: "keeps_data st st'"
        using keeps_data_trans[OF palloc_probe_keeps[OF inv v(2) 2] allocatePages_loop_keeps[OF r(1) un1 r(4) Inr]] .
      have m: "maps_run st v fs st'" using maps_run_after_extension[OF r(2) al(5)] .
      have un': "run_unmapped st v (length fs)" and le: "v + length fs \<le> kUserPages" using un v(2) al(4) by simp_all
      have old: "exclusive st' u" "pte_of st' u = pte_of st u" if "u \<in> V" for u
        using owned_after[OF o al(1) k m that le un'] by simp_all
      have new: "exclusive st' u" if "u \<in> {v..<v + unat n}" for u
        using maps_run_exclusive[OF r(1) al(5,2,3)] that al(4) v(2) by simp
      have "owns as (V \<union> {v..<v + unat n}) st'" using old(1) new al(1) by (auto simp: owns_def)
      moreover have "byte_at st' a = byte_at st a" if a: "frame_number a \<in> V" for a
      proof -
        have ex: "exclusive st (frame_number a)" using o a by (simp add: owns_def)
        have "data_frame st (frame_number (pte_of st (frame_number a)))" by (rule owned_data_frame[OF inv ex])
        then show ?thesis using k old(2)[OF a] by (simp add: byte_at_def keeps_data_def)
      qed
      moreover have "page_map st' u = page_map st u" if "u < kUserPages" "u \<notin> {v..<v + unat n}" for u
        using m that al(4) by (auto simp: maps_run_def)
      ultimately show ?thesis using eq Inr by auto
    qed
  qed
qed

end
