(* ===== verification/Elf.thy ===== *)
theory Elf
  imports Iso9660 User_Memory
begin

text \<open>
  The ELF loader: \<open>kernel/include/proc/elf/DataStructures.hpp\<close>,
  \<open>kernel/include/proc/elf/Executable.hpp\<close> and \<open>kernel/src/proc/elf/Executable.cpp\<close>.

  The packed headers are records decoded from the bytes read. A pointer into the cached file is
  an index into the cache, which does not move after \<open>readAll\<close>; copying from outside the cache is
  \<open>OutOfBounds\<close>. \<open>_nameTable\<close> points into the block of the section list: the model counts the
  blocks the list has had, and following a pointer into an earlier one is \<open>UseAfterFree\<close>. The
  list of pages to release when loading fails is only appended to and destroyed, and is a plain
  list; its nodes are destroyed from the last to the first. \<open>junk\<close> is what an uninitialised
  header holds, \<open>g\<close> and \<open>dflt\<close> what fresh blocks of strings and of the file cache hold. Section
  names are values; the ownership of their blocks when sections are moved is that of
  \<open>DynamicArray_move_assign\<close>.
\<close>

section \<open>Headers\<close>

definition load16 :: "u8 list \<Rightarrow> nat \<Rightarrow> u16" where
  "load16 b i = ucast (b ! i) OR push_bit 8 (ucast (b ! (i + 1)))"

record ElfHeader32 =
  eh_magic :: u8
  eh_elf :: "u8 list"
  eh_bitness :: u8
  eh_endianness :: u8
  eh_version8 :: u8
  eh_abi :: u8
  eh_type :: u16
  eh_instructionSet :: u16
  eh_version32 :: u32
  eh_entry :: u32
  eh_programHeaderOffset :: u32
  eh_sectionHeaderOffset :: u32
  eh_flags :: u32
  eh_size :: u16
  eh_programEntrySize :: u16
  eh_programEntryCount :: u16
  eh_sectionEntrySize :: u16
  eh_sectionEntryCount :: u16
  eh_sectionNameEntryIndex :: u16

definition decode_ElfHeader32 :: "u8 list \<Rightarrow> ElfHeader32" where
  "decode_ElfHeader32 b =
     \<lparr>eh_magic = b ! 0, eh_elf = [b ! 1, b ! 2, b ! 3], eh_bitness = b ! 4, eh_endianness = b ! 5,
      eh_version8 = b ! 6, eh_abi = b ! 7, eh_type = load16 b 16, eh_instructionSet = load16 b 18,
      eh_version32 = load32 b 20, eh_entry = load32 b 24, eh_programHeaderOffset = load32 b 28,
      eh_sectionHeaderOffset = load32 b 32, eh_flags = load32 b 36, eh_size = load16 b 40,
      eh_programEntrySize = load16 b 42, eh_programEntryCount = load16 b 44,
      eh_sectionEntrySize = load16 b 46, eh_sectionEntryCount = load16 b 48,
      eh_sectionNameEntryIndex = load16 b 50\<rparr>"

definition checkMagic :: "ElfHeader32 \<Rightarrow> bool" where
  "checkMagic h \<longleftrightarrow> eh_magic h = 0x7F \<and> eh_elf h = [0x45, 0x4C, 0x46]"

record ProgramHeader32 =
  ph_type :: u32
  ph_offset :: u32
  ph_virtAddress :: u32
  ph_physAddress :: u32
  ph_sizeInFile :: u32
  ph_sizeInMemory :: u32
  ph_flags :: u32
  ph_alignment :: u32

definition decode_ProgramHeader32 :: "u8 list \<Rightarrow> ProgramHeader32" where
  "decode_ProgramHeader32 b =
     \<lparr>ph_type = load32 b 0, ph_offset = load32 b 4, ph_virtAddress = load32 b 8, ph_physAddress = load32 b 12,
      ph_sizeInFile = load32 b 16, ph_sizeInMemory = load32 b 20, ph_flags = load32 b 24, ph_alignment = load32 b 28\<rparr>"

definition program_types :: "u32 list" where
  "program_types = [0, 1, 2, 3, 4, 5, 6, 0x70000000, 0x7fffffff]"

record SectionHeader32 =
  sh_nameIndex :: u32
  sh_type :: u32
  sh_flags :: u32
  sh_address :: u32
  sh_offset :: u32
  sh_size :: u32
  sh_link :: u32
  sh_info :: u32
  sh_alignment :: u32
  sh_entrySize :: u32

definition decode_SectionHeader32 :: "u8 list \<Rightarrow> SectionHeader32" where
  "decode_SectionHeader32 b =
     \<lparr>sh_nameIndex = load32 b 0, sh_type = load32 b 4, sh_flags = load32 b 8, sh_address = load32 b 12,
      sh_offset = load32 b 16, sh_size = load32 b 20, sh_link = load32 b 24, sh_info = load32 b 28,
      sh_alignment = load32 b 32, sh_entrySize = load32 b 36\<rparr>"

definition section_types :: "u32 list" where
  "section_types = [0, 1, 2, 3, 4, 5, 6, 7, 8, 9, 10, 11, 0x70000000, 0x7fffffff, 0x80000000, 0xffffffff]"

definition kNoBits :: u32 where "kNoBits = 8"

section \<open>Reading\<close>

text \<open>\<open>readObject<T>\<close> for an object of \<open>n\<close> bytes: its bytes and how many of them were read.\<close>

definition readObject :: "('s \<Rightarrow> (u8 option \<times> 's) res) \<Rightarrow> u8 \<Rightarrow> (nat \<Rightarrow> u8) \<Rightarrow> 's FileReader \<Rightarrow> nat \<Rightarrow> size_t
    \<Rightarrow> (u8 list \<times> size_t \<times> 's FileReader) res" where
  "readObject rd dflt junk r n offset =
     rbind (FileReader_read_range rd dflt r (map junk [0..<n]) offset (of_nat n)) (\<lambda>(count, obj, r1). Inr (obj, count, r1))"

definition checkHeader :: "ElfHeader32 \<Rightarrow> bool" where
  "checkHeader h \<longleftrightarrow> checkMagic h \<and> eh_bitness h = 1 \<and> eh_endianness h = 1 \<and> eh_instructionSet h = 3
     \<and> eh_version32 h = 1 \<and> (eh_type h = 1 \<or> eh_type h = 2)"

definition isElf :: "'d AtaOps \<Rightarrow> (nat \<Rightarrow> u8) \<Rightarrow> u8 \<Rightarrow> DirectoryEntry \<Rightarrow> 'd \<Rightarrow> (bool \<times> 'd) res" where
  "isElf ops junk dflt entry d =
     (if \<not> isFile entry then Inr (False, d)
      else rbind (fileStream ops junk entry d) (\<lambda>(stream, d1).
           rbind (readObject IsoFileStream_read dflt junk (FileReader_new dflt stream) 52 0) (\<lambda>(obj, bytesRead, _).
           Inr (bytesRead = 52 \<and> checkHeader (decode_ElfHeader32 obj), d1))))"

section \<open>Executables\<close>

record Section =
  sec_name :: BasicString
  sec_data :: "nat option"
  sec_vaddress :: uintptr
  sec_size :: u32

definition Section_new :: Section where
  "Section_new = \<lparr>sec_name = BasicString_new, sec_data = None, sec_vaddress = 0, sec_size = 0\<rparr>"

record Segment =
  seg_data :: "nat option"
  seg_vaddress :: uintptr
  seg_alignment :: u32
  seg_dataSize :: u32
  seg_memorySize :: u32

definition Segment_new :: Segment where
  "Segment_new = \<lparr>seg_data = None, seg_vaddress = 0, seg_alignment = 0, seg_dataSize = 0, seg_memorySize = 0\<rparr>"

record 's Executable =
  ex_file :: "'s FileReader"
  ex_sections :: "Section ArrayList"
  ex_block :: nat
  ex_segments :: "Segment ArrayList"
  ex_nameTable :: "(nat \<times> nat) option"
  ex_entry :: u32
  ex_isLoaded :: bool

text \<open>\<open>section.name = str\<close>: the assignment from a C string.\<close>

definition assign_cstr :: "u8 \<Rightarrow> BasicString \<Rightarrow> u8 list \<Rightarrow> BasicString res" where
  "assign_cstr g s str = BasicString_append_cstr g (s\<lparr>bs_size := 0\<rparr>) str"

definition enqueue_section :: "'s Executable \<Rightarrow> Section \<Rightarrow> 's Executable res" where
  "enqueue_section x sec =
     (let grows = (al_size (ex_sections x) = ArrayList_capacity (ex_sections x)) in
      rbind (ArrayList_enqueue Section_new (ex_sections x) sec) (\<lambda>l.
      Inr (x\<lparr>ex_sections := l, ex_block := (if grows then Suc (ex_block x) else ex_block x)\<rparr>)))"

definition deref_section :: "'s Executable \<Rightarrow> nat \<times> nat \<Rightarrow> Section res" where
  "deref_section x p = (if fst p = ex_block x then aread (al_data (ex_sections x)) (snd p) else Inl UseAfterFree)"

definition loadNameTable :: "('s \<Rightarrow> (u8 option \<times> 's) res) \<Rightarrow> u8 \<Rightarrow> u8 \<Rightarrow> (nat \<Rightarrow> u8) \<Rightarrow> size_t \<Rightarrow> size_t \<Rightarrow> 's Executable
    \<Rightarrow> 's Executable res" where
  "loadNameTable rd dflt g junk offset entryIndex x =
     (let tableOffset = offset + 40 * entryIndex in
      rbind (readObject rd dflt junk (ex_file x) 40 tableOffset) (\<lambda>(obj, bytesRead, r).
      let x1 = x\<lparr>ex_file := r\<rparr>; header = decode_SectionHeader32 obj in
      if bytesRead \<noteq> 40 then Inr x1
      else let data = unat (sh_offset header) in
           rbind (assign_cstr g BasicString_new (drop (data + unat (sh_nameIndex header)) (fr_bytes r))) (\<lambda>name.
           rbind (enqueue_section x1 (Section_new\<lparr>sec_vaddress := sh_address header, sec_data := Some data, sec_name := name\<rparr>)) (\<lambda>x2.
           Inr (x2\<lparr>ex_nameTable := Some (ex_block x2, unat (al_size (ex_sections x2) - 1))\<rparr>)))))"

text \<open>The body and the loop of \<open>loadSections\<close>: \<open>k\<close> entries are left.\<close>

definition load_section :: "('s \<Rightarrow> (u8 option \<times> 's) res) \<Rightarrow> u8 \<Rightarrow> u8 \<Rightarrow> (nat \<Rightarrow> u8) \<Rightarrow> size_t \<Rightarrow> 's Executable
    \<Rightarrow> (size_t \<times> 's Executable) res" where
  "load_section rd dflt g junk offset x =
     rbind (readObject rd dflt junk (ex_file x) 40 offset) (\<lambda>(obj, bytesRead, r).
     let x1 = x\<lparr>ex_file := r\<rparr>; header = decode_SectionHeader32 obj in
     if sh_type header \<notin> set section_types then Inl (KernelPanic ''Unexpected section header type while reading ELF'')
     else rbind (case ex_nameTable x1 of None \<Rightarrow> Inr (sec_name Section_new)
                 | Some p \<Rightarrow> rbind (deref_section x1 p) (\<lambda>nt.
                     case sec_data nt of None \<Rightarrow> Inl NullPointer
                     | Some data \<Rightarrow> assign_cstr g (sec_name Section_new) (drop (data + unat (sh_nameIndex header)) (fr_bytes r)))) (\<lambda>name.
          rbind (enqueue_section x1 \<lparr>sec_name = name,
                   sec_data = (if sh_type header \<noteq> kNoBits then Some (unat (sh_offset header)) else None),
                   sec_vaddress = sh_address header, sec_size = sh_size header\<rparr>) (\<lambda>x2.
          Inr (bytesRead, x2))))"

fun loadSections_loop :: "nat \<Rightarrow> ('s \<Rightarrow> (u8 option \<times> 's) res) \<Rightarrow> u8 \<Rightarrow> u8 \<Rightarrow> (nat \<Rightarrow> u8) \<Rightarrow> size_t \<Rightarrow> size_t \<Rightarrow> 's Executable
    \<Rightarrow> (size_t \<times> 's Executable) res" where
  "loadSections_loop 0 rd dflt g junk offset sofar x = Inr (sofar, x)"
| "loadSections_loop (Suc k) rd dflt g junk offset sofar x =
     rbind (load_section rd dflt g junk offset x) (\<lambda>(bytesRead, x1).
     loadSections_loop k rd dflt g junk (offset + bytesRead) (sofar + bytesRead) x1)"

definition loadSections :: "('s \<Rightarrow> (u8 option \<times> 's) res) \<Rightarrow> u8 \<Rightarrow> u8 \<Rightarrow> (nat \<Rightarrow> u8) \<Rightarrow> size_t \<Rightarrow> size_t \<Rightarrow> size_t \<Rightarrow> 's Executable
    \<Rightarrow> (size_t \<times> 's Executable) res" where
  "loadSections rd dflt g junk offset entryCount nameTableIndex x =
     rbind (if ex_nameTable x = None then loadNameTable rd dflt g junk offset nameTableIndex x else Inr x) (\<lambda>x1.
     loadSections_loop (unat entryCount) rd dflt g junk offset 0 x1)"

definition load_program_header :: "('s \<Rightarrow> (u8 option \<times> 's) res) \<Rightarrow> u8 \<Rightarrow> (nat \<Rightarrow> u8) \<Rightarrow> size_t \<Rightarrow> 's Executable
    \<Rightarrow> (size_t \<times> 's Executable) res" where
  "load_program_header rd dflt junk offset x =
     rbind (readObject rd dflt junk (ex_file x) 32 offset) (\<lambda>(obj, bytesRead, r).
     let x1 = x\<lparr>ex_file := r\<rparr>; header = decode_ProgramHeader32 obj in
     if ph_type header \<notin> set program_types then Inl (KernelPanic ''Unexpected section header type while reading ELF'')
     else rbind (ArrayList_enqueue Segment_new (ex_segments x1)
            \<lparr>seg_data = Some (unat (ph_offset header)), seg_vaddress = ph_virtAddress header, seg_alignment = ph_alignment header,
             seg_dataSize = ph_sizeInFile header, seg_memorySize = ph_sizeInMemory header\<rparr>) (\<lambda>l.
          Inr (bytesRead, x1\<lparr>ex_segments := l\<rparr>)))"

fun loadProgramSegments_loop :: "nat \<Rightarrow> ('s \<Rightarrow> (u8 option \<times> 's) res) \<Rightarrow> u8 \<Rightarrow> (nat \<Rightarrow> u8) \<Rightarrow> size_t \<Rightarrow> size_t \<Rightarrow> 's Executable
    \<Rightarrow> (size_t \<times> 's Executable) res" where
  "loadProgramSegments_loop 0 rd dflt junk offset sofar x = Inr (sofar, x)"
| "loadProgramSegments_loop (Suc k) rd dflt junk offset sofar x =
     rbind (load_program_header rd dflt junk offset x) (\<lambda>(bytesRead, x1).
     loadProgramSegments_loop k rd dflt junk (offset + bytesRead) (sofar + bytesRead) x1)"

definition loadProgramSegments :: "('s \<Rightarrow> (u8 option \<times> 's) res) \<Rightarrow> u8 \<Rightarrow> (nat \<Rightarrow> u8) \<Rightarrow> size_t \<Rightarrow> size_t \<Rightarrow> 's Executable
    \<Rightarrow> (size_t \<times> 's Executable) res" where
  "loadProgramSegments rd dflt junk offset entryCount x =
     loadProgramSegments_loop (unat entryCount) rd dflt junk offset 0 x"

text \<open>Construction from a stream; \<open>fuel\<close> bounds the number of bytes \<open>readAll\<close> reads.\<close>

definition Executable_new :: "nat \<Rightarrow> ('s \<Rightarrow> (u8 option \<times> 's) res) \<Rightarrow> u8 \<Rightarrow> u8 \<Rightarrow> (nat \<Rightarrow> u8) \<Rightarrow> 's option \<Rightarrow> 's Executable res" where
  "Executable_new fuel rd dflt g junk data =
     rbind (FileReader_readAll fuel rd dflt (FileReader_new dflt data)) (\<lambda>r0.
     rbind (readObject rd dflt junk r0 52 0) (\<lambda>(obj, _, r).
     let header = decode_ElfHeader32 obj in
     rbind (ArrayList_reserve Section_new (ArrayList_new Section_new 8) (ucast (eh_sectionEntryCount header))) (\<lambda>sections.
     rbind (ArrayList_reserve Segment_new (ArrayList_new Segment_new 8) (ucast (eh_programEntryCount header))) (\<lambda>segments.
     let x = \<lparr>ex_file = r, ex_sections = sections, ex_block = 0, ex_segments = segments, ex_nameTable = None, ex_entry = 0,
              ex_isLoaded = False\<rparr> in
     rbind (loadSections rd dflt g junk (eh_sectionHeaderOffset header) (ucast (eh_sectionEntryCount header))
              (ucast (eh_sectionNameEntryIndex header)) x) (\<lambda>(_, x1).
     rbind (loadProgramSegments rd dflt junk (eh_programHeaderOffset header) (ucast (eh_programEntryCount header)) x1) (\<lambda>(_, x2).
     Inr (x2\<lparr>ex_entry := eh_entry header\<rparr>)))))))"

section \<open>Loading into memory\<close>

definition segment_pages :: "Segment \<Rightarrow> size_t" where
  "segment_pages ps = seg_memorySize ps div 0x1000 + (if seg_memorySize ps mod 0x1000 \<noteq> 0 then 1 else 0)"

text \<open>\<open>memcpy\<close> from the cache into memory that does not overlap it: \<open>num\<close> bytes from index \<open>i\<close> on.\<close>

fun copy_in :: "u8 list \<Rightarrow> nat \<Rightarrow> uintptr \<Rightarrow> nat \<Rightarrow> MMU \<Rightarrow> MMU res" where
  "copy_in src i dst 0 st = Inr st"
| "copy_in src i dst (Suc num) st =
     rbind (aread src i) (\<lambda>b. rbind (m_st vmem_ops dst b st) (copy_in src (Suc i) (dst + 1) num))"

text \<open>The destructor of \<open>SegmentRAII\<close>: \<open>pfree\<close> of what is still armed, ignoring its result.\<close>

record SegmentRAII =
  sr_addr :: uintptr
  sr_pages :: size_t
  sr_armed :: bool

definition SegmentRAII_destroy :: "AddressSpace \<Rightarrow> SegmentRAII \<Rightarrow> MMU \<Rightarrow> MMU res" where
  "SegmentRAII_destroy as s st =
     (if sr_armed s \<and> sr_addr s \<noteq> 0 \<and> sr_pages s \<noteq> 0
      then rbind (MMU_pfree st as (sr_addr s) (sr_pages s)) (\<lambda>(_, st1). Inr st1) else Inr st)"

fun destroy_all :: "AddressSpace \<Rightarrow> SegmentRAII list \<Rightarrow> MMU \<Rightarrow> MMU res" where
  "destroy_all as [] st = Inr st"
| "destroy_all as (s # ss) st = rbind (SegmentRAII_destroy as s st) (destroy_all as ss)"

fun load_loop :: "AddressSpace \<Rightarrow> u8 list \<Rightarrow> Segment list \<Rightarrow> SegmentRAII list \<Rightarrow> MMU \<Rightarrow> (bool \<times> SegmentRAII list \<times> MMU) res" where
  "load_loop as file [] cleanup st = Inr (True, cleanup, st)"
| "load_loop as file (ps # pss) cleanup st =
     (if seg_alignment ps = 0x1000
      then let pages = segment_pages ps in
           rbind (MMU_palloc_at st as (seg_vaddress ps) pages) (\<lambda>(mem, st1).
           if mem = 0 then Inr (False, cleanup, st1)
           else rbind (memset vmem_ops mem 0 (seg_memorySize ps) st1) (\<lambda>(_, st2).
                rbind (if seg_dataSize ps \<noteq> 0
                       then case seg_data ps of None \<Rightarrow> Inl NullPointer
                            | Some i \<Rightarrow> copy_in file i mem (unat (seg_dataSize ps)) st2
                       else Inr st2) (\<lambda>st3.
                load_loop as file pss (cleanup @ [\<lparr>sr_addr = mem, sr_pages = pages, sr_armed = True\<rparr>]) st3)))
      else load_loop as file pss cleanup st)"

definition disarm :: "SegmentRAII \<Rightarrow> SegmentRAII" where
  "disarm s = s\<lparr>sr_armed := False\<rparr>"

definition loadSegments :: "AddressSpace \<Rightarrow> 's Executable \<Rightarrow> MMU \<Rightarrow> (bool \<times> 's Executable \<times> MMU) res" where
  "loadSegments as x st =
     (if ex_isLoaded x then Inr (True, x, st)
      else rbind (load_loop as (fr_bytes (ex_file x)) (al_elems (ex_segments x)) [] st) (\<lambda>(ok, cleanup, st1).
           if \<not> ok then rbind (destroy_all as (rev cleanup) st1) (\<lambda>st2. Inr (False, x, st2))
           else rbind (destroy_all as (rev (map disarm cleanup)) st1) (\<lambda>st2. Inr (True, x\<lparr>ex_isLoaded := True\<rparr>, st2))))"

fun unload_loop :: "AddressSpace \<Rightarrow> Segment list \<Rightarrow> MMU \<Rightarrow> MMU res" where
  "unload_loop as [] st = Inr st"
| "unload_loop as (ps # pss) st =
     rbind (MMU_pfree st as (seg_vaddress ps) (segment_pages ps)) (\<lambda>(r, st1).
     if r \<noteq> 0 then Inl (KernelPanic ''Error freeing loaded ELF segment memory.'') else unload_loop as pss st1)"

definition unloadSegments :: "AddressSpace \<Rightarrow> 's Executable \<Rightarrow> MMU \<Rightarrow> (bool \<times> 's Executable \<times> MMU) res" where
  "unloadSegments as x st =
     (if \<not> ex_isLoaded x then Inr (True, x, st)
      else rbind (unload_loop as (al_elems (ex_segments x)) st) (\<lambda>st1. Inr (True, x\<lparr>ex_isLoaded := False\<rparr>, st1)))"

definition Executable_destroy :: "AddressSpace \<Rightarrow> 's Executable \<Rightarrow> MMU \<Rightarrow> MMU res" where
  "Executable_destroy as x st = rbind (unloadSegments as x st) (\<lambda>(_, _, st1). Inr st1)"

text \<open>Running the program: \<open>run\<close> is the call of its entry point, which acts on the memory and on everything else, \<open>e\<close>.\<close>

definition exec :: "(u32 \<Rightarrow> MMU \<Rightarrow> 'e \<Rightarrow> (int \<times> MMU \<times> 'e) res) \<Rightarrow> AddressSpace \<Rightarrow> 's Executable \<Rightarrow> MMU \<Rightarrow> 'e
    \<Rightarrow> (int \<times> 's Executable \<times> MMU \<times> 'e) res" where
  "exec run as x st e =
     rbind (loadSegments as x st) (\<lambda>(ok, x1, st1).
     if ok then rbind (run (ex_entry x1) st1 e) (\<lambda>(r, st2, e1). Inr (r, x1, st2, e1)) else Inr (- 1, x1, st1, e))"

end
