(* ===== verification/Elf_Load.thy ===== *)
theory Elf_Load
  imports Elf
begin

text \<open>
  Loading and unloading executables: the segments of an executable against the memory a program
  sees. \<open>load_post\<close> is the effect of loading segments on the address space; \<open>load_loop_result\<close>
  covers every outcome of the loop over the segments, and the properties at the end state success,
  clean failure and the round trip through unloading.
\<close>

section \<open>Segments in memory\<close>

definition page_aligned :: "Segment \<Rightarrow> bool" where
  "page_aligned ps \<longleftrightarrow> seg_alignment ps = 0x1000"

definition seg_range :: "Segment \<Rightarrow> nat set" where
  "seg_range ps = {frame_number (seg_vaddress ps)..<frame_number (seg_vaddress ps) + unat (segment_pages ps)}"

text \<open>A segment that can be loaded: a page-aligned user range, and its data within the file and the range.\<close>

definition segment_ok :: "u8 list \<Rightarrow> Segment \<Rightarrow> bool" where
  "segment_ok file ps \<longleftrightarrow> unat (seg_vaddress ps) mod 4096 = 0 \<and> seg_vaddress ps \<noteq> 0
     \<and> frame_number (seg_vaddress ps) + unat (segment_pages ps) \<le> kUserPages
     \<and> seg_dataSize ps \<le> seg_memorySize ps
     \<and> (\<exists>i. seg_data ps = Some i \<and> i + unat (seg_dataSize ps) \<le> length file)"

definition segment_image :: "u8 list \<Rightarrow> Segment \<Rightarrow> u8 list" where
  "segment_image file ps = take (unat (seg_dataSize ps)) (drop (the (seg_data ps)) file)
     @ replicate (unat (seg_memorySize ps) - unat (seg_dataSize ps)) 0"

lemma page_addr_frame: "unat a mod 4096 = 0 \<Longrightarrow> page_addr (frame_number a) = a"
proof -
  assume "unat a mod 4096 = 0"
  then have "frame_number a * 4096 = unat a" unfolding frame_number_def by auto
  then show ?thesis by (simp add: page_addr_def)
qed

lemma segment_pages_cover: "unat (seg_memorySize ps) \<le> unat (segment_pages ps) * 4096"
proof -
  let ?m = "unat (seg_memorySize ps)"
  have d: "?m div 4096 < 4294967295" using unat_lt32[of "seg_memorySize ps"] by linarith
  have "unat (segment_pages ps) = ?m div 4096 + (if ?m mod 4096 \<noteq> 0 then 1 else 0)"
  proof (cases "?m mod 4096 = 0")
    case True
    then have "seg_memorySize ps mod 0x1000 = 0" by (simp add: word32_eq_iff_unat)
    then show ?thesis using True by (simp add: segment_pages_def)
  next
    case False
    then have "seg_memorySize ps mod 0x1000 \<noteq> 0" by (auto simp: word32_eq_iff_unat)
    then show ?thesis using False d by (simp add: segment_pages_def unat_plus_small)
  qed
  then show ?thesis using mult_div_mod_eq[of 4096 ?m] mod_less_divisor[of 4096 ?m] by (cases "?m mod 4096 = 0") auto
qed

lemma page_byte:
  assumes "v + n \<le> kUserPages" "i < n * 4096"
  shows "frame_number (page_addr v + of_nat i) \<in> {v..<v + n}"
proof -
  have i: "i div 4096 < n" using assms(2) by (simp add: less_mult_imp_div_less)
  have v: "v < 1048576" "v * 4096 + i < 4294967296" using assms by (auto simp: kUserPages_def)
  have "unat (page_addr v + of_nat i) = v * 4096 + i"
    using v unat_page_addr[OF v(1)] by (subst unat_plus_small) simp_all
  then have "frame_number (page_addr v + of_nat i) = v + i div 4096" unfolding frame_number_def by simp
  then show ?thesis using i by simp
qed

lemma segment_accessible:
  assumes "segment_ok file ps" "seg_range ps \<subseteq> V" "n \<le> unat (seg_memorySize ps)"
  shows "accessible (vmem V st) (seg_vaddress ps) n"
proof -
  let ?v = "frame_number (seg_vaddress ps)"
  have a: "seg_vaddress ps = page_addr ?v" "?v + unat (segment_pages ps) \<le> kUserPages"
    using assms(1) by (simp_all add: segment_ok_def page_addr_frame)
  have "frame_number (seg_vaddress ps + of_nat i) \<in> V" if "i < n" for i
    using page_byte[OF a(2), of i] segment_pages_cover[of ps] assms(2,3) that unfolding seg_range_def a(1)[symmetric] by auto
  moreover have "n < 4294967296" using assms(3) unat_lt32[of "seg_memorySize ps"] by linarith
  ultimately show ?thesis by (simp add: accessible_def vmem_def)
qed

lemma copy_in_ok:
  "owns as V st \<Longrightarrow> i + n \<le> length src \<Longrightarrow> accessible (vmem V st) dst n \<Longrightarrow>
   \<exists>st'. copy_in src i dst n st = Inr st' \<and> owns as V st' \<and> same_pages st st' \<and> vmem V st' = put dst (take n (drop i src)) (vmem V st)"
proof (induction n arbitrary: i dst st)
  case 0
  then show ?case by (simp add: same_pages_def)
next
  case (Suc n)
  have acc: "vmem V st dst \<noteq> None" "accessible (vmem V st) (dst + 1) n" "n < 2 ^ 32" using Suc.prems(3) by (auto simp: accessible_Suc)
  have i: "i < length src" using Suc.prems(2) by simp
  from vm.st_ok[of as V st st dst "src ! i"] Suc.prems(1) acc(1) obtain st1 where
    st1: "m_st vmem_ops dst (src ! i) st = Inr st1" "owns as V st1" "same_pages st st1" "vmem V st1 = (vmem V st)(dst \<mapsto> src ! i)"
    by (auto simp: same_pages_def)
  from Suc.IH[OF st1(2) _ accessible_upd[OF acc(2) st1(4)], of "Suc i"] Suc.prems(2) obtain st' where
    st': "copy_in src (Suc i) (dst + 1) n st1 = Inr st'" "owns as V st'" "same_pages st1 st'"
      "vmem V st' = put (dst + 1) (take n (drop (Suc i) src)) (vmem V st1)" by auto
  have "take (Suc n) (drop i src) = src ! i # take n (drop (Suc i) src)" using i by (simp add: Cons_nth_drop_Suc[symmetric])
  then have "vmem V st' = put dst (take (Suc n) (drop i src)) (vmem V st)"
    unfolding st'(4) st1(4) using acc(3) by (simp add: put_Cons del: fun_upd_apply)
  moreover have "same_pages st st'" using st1(3) st'(3) by (simp add: same_pages_def)
  ultimately show ?case using i st1(1) st'(1,2) by simp
qed

text \<open>Zeroing a page-aligned range and copying the data over its start.\<close>

lemma put_put: "length bs \<le> length cs \<Longrightarrow> put a bs (put a cs f) = put a (bs @ drop (length bs) cs) f"
  by (auto simp: put_def fun_eq_iff nth_append)

lemma fill_segment_ok:
  assumes o: "owns as V st" and ok: "segment_ok file ps" and V: "seg_range ps \<subseteq> V"
  shows "\<exists>st2 st3. memset vmem_ops (seg_vaddress ps) 0 (seg_memorySize ps) st = Inr (seg_vaddress ps, st2)
    \<and> (if seg_dataSize ps \<noteq> 0
       then case seg_data ps of None \<Rightarrow> Inl NullPointer | Some i \<Rightarrow> copy_in file i (seg_vaddress ps) (unat (seg_dataSize ps)) st2
       else Inr st2) = Inr st3
    \<and> owns as V st3 \<and> same_pages st st3 \<and> vmem V st3 = put (seg_vaddress ps) (segment_image file ps) (vmem V st)"
proof -
  let ?a = "seg_vaddress ps" and ?m = "unat (seg_memorySize ps)" and ?d = "unat (seg_dataSize ps)"
  obtain i where i: "seg_data ps = Some i" "i + ?d \<le> length file" using ok by (auto simp: segment_ok_def)
  have dm: "?d \<le> ?m" using ok by (simp add: segment_ok_def word_le_nat_alt)
  have "?a AND 3 = 0"
  proof -
    have "?a AND 3 = take_bit 2 ?a" by (simp add: take_bit_eq_mask mask_eq_exp_minus_1)
    moreover have "unat ?a mod 4 = 0" using ok mod_mod_cancel[of 4 4096 "unat ?a"] by (simp add: segment_ok_def)
    ultimately show ?thesis by (simp add: word32_eq_iff_unat unsigned_take_bit_eq take_bit_eq_mod)
  qed
  then have eq: "memset vmem_ops ?a 0 (seg_memorySize ps) st = memset_ref vmem_ops ?a 0 (seg_memorySize ps) st"
    by (intro memset_eq_ref) simp_all
  from vm.memset_ref_ok[of as V st st ?a "seg_memorySize ps" 0] o segment_accessible[OF ok V order.refl] obtain st2 where
    st2: "memset_ref vmem_ops ?a 0 (seg_memorySize ps) st = Inr (?a, st2)" "owns as V st2" "same_pages st st2"
      "vmem V st2 = put ?a (replicate ?m 0) (vmem V st)" by (auto simp: same_pages_def)
  from copy_in_ok[OF st2(2) i(2) segment_accessible[OF ok V dm]] obtain st3 where
    st3: "copy_in file i ?a ?d st2 = Inr st3" "owns as V st3" "same_pages st2 st3"
      "vmem V st3 = put ?a (take ?d (drop i file)) (vmem V st2)" by blast
  have img: "put ?a (take ?d (drop i file)) (put ?a (replicate ?m 0) f) = put ?a (segment_image file ps) f" for f
    using put_put[of "take ?d (drop i file)" "replicate ?m 0" ?a f] i dm by (simp add: segment_image_def)
  have "same_pages st st3" using st2(3) st3(3) by (simp add: same_pages_def)
  moreover have "seg_dataSize ps = 0 \<Longrightarrow> st3 = st2" using st3(1) by simp
  ultimately show ?thesis using eq st2(1) st3 i(1) img st2(4) by auto
qed

text \<open>
  The effect of loading segments: their pages are owned besides those owned before, whose contents
  are unchanged, their memory holds their images, and the pages of others are left alone.
\<close>

definition load_post :: "AddressSpace \<Rightarrow> u8 list \<Rightarrow> nat set \<Rightarrow> Segment list \<Rightarrow> MMU \<Rightarrow> MMU \<Rightarrow> bool" where
  "load_post as file V qs st st' \<longleftrightarrow> owns as (V \<union> \<Union>(seg_range ` set qs)) st'
     \<and> (\<forall>a. frame_number a \<in> V \<longrightarrow> byte_at st' a = byte_at st a)
     \<and> (\<forall>q\<in>set qs. \<forall>i<unat (seg_memorySize q). byte_at st' (seg_vaddress q + of_nat i) = segment_image file q ! i)
     \<and> (\<forall>u<kUserPages. u \<notin> \<Union>(seg_range ` set qs) \<longrightarrow> page_map st' u = page_map st u)"

lemma load_post_Cons:
  assumes ok: "segment_ok file ps" and p: "load_post as file V [ps] st st1" "load_post as file (V \<union> seg_range ps) qs st1 st'"
  shows "load_post as file V (ps # qs) st st'"
proof -
  let ?a = "seg_vaddress ps" and ?R = "seg_range ps"
  have "frame_number (?a + of_nat i) \<in> V \<union> ?R" if "i < unat (seg_memorySize ps)" for i
    using segment_accessible[OF ok subset_refl order.refl, of st] that by (auto simp: accessible_def vmem_def split: if_splits)
  then have "byte_at st' (?a + of_nat i) = byte_at st1 (?a + of_nat i)" if "i < unat (seg_memorySize ps)" for i
    using p(2) that by (auto simp: load_post_def)
  then have "byte_at st' (?a + of_nat i) = segment_image file ps ! i" if "i < unat (seg_memorySize ps)" for i
    using p(1) that by (simp add: load_post_def)
  then show ?thesis using p by (simp add: load_post_def Un_assoc)
qed

lemma load_segment_ok:
  assumes o: "owns as V st" and ok: "segment_ok file ps" and un: "\<And>u. u \<in> seg_range ps \<Longrightarrow> page_map st u = None"
  shows "MMU_palloc_at st as (seg_vaddress ps) (segment_pages ps) = Inl out_of_memory
    \<or> (\<exists>st1 st2 st3. MMU_palloc_at st as (seg_vaddress ps) (segment_pages ps) = Inr (seg_vaddress ps, st1)
        \<and> memset vmem_ops (seg_vaddress ps) 0 (seg_memorySize ps) st1 = Inr (seg_vaddress ps, st2)
        \<and> (if seg_dataSize ps \<noteq> 0
           then case seg_data ps of None \<Rightarrow> Inl NullPointer | Some i \<Rightarrow> copy_in file i (seg_vaddress ps) (unat (seg_dataSize ps)) st2
           else Inr st2) = Inr st3
        \<and> load_post as file V [ps] st st3)"
proof -
  let ?a = "seg_vaddress ps" and ?v = "frame_number (seg_vaddress ps)" and ?n = "segment_pages ps" and ?R = "seg_range ps"
  have a: "?a = page_addr ?v" and le: "?v + unat ?n \<le> kUserPages" and nz: "?a \<noteq> 0"
    using ok by (simp_all add: segment_ok_def page_addr_frame)
  have v: "0 < ?v"
  proof (rule ccontr)
    assume "\<not> 0 < ?v"
    then have "?v = 0" by simp
    then have "?a = 0" using a by (simp add: page_addr_def)
    then show False using nz by simp
  qed
  have "run_unmapped st ?v (unat ?n)" using un le by (auto simp: run_unmapped_def seg_range_def)
  from palloc_at_owned[OF o v le this] show ?thesis
  proof
    assume "MMU_palloc_at st as (page_addr ?v) ?n = Inl out_of_memory"
    then show ?thesis using a by simp
  next
    assume "\<exists>st'. MMU_palloc_at st as (page_addr ?v) ?n = Inr (page_addr ?v, st') \<and> owns as (V \<union> {?v..<?v + unat ?n}) st'
        \<and> (\<forall>a. frame_number a \<in> V \<longrightarrow> byte_at st' a = byte_at st a)
        \<and> (\<forall>u<kUserPages. u \<notin> {?v..<?v + unat ?n} \<longrightarrow> page_map st' u = page_map st u)"
    then obtain st1 where st1: "MMU_palloc_at st as ?a ?n = Inr (?a, st1)" "owns as (V \<union> ?R) st1"
        "\<And>a. frame_number a \<in> V \<Longrightarrow> byte_at st1 a = byte_at st a"
        "\<And>u. u < kUserPages \<Longrightarrow> u \<notin> ?R \<Longrightarrow> page_map st1 u = page_map st u"
      unfolding a[symmetric] seg_range_def by auto
    from fill_segment_ok[OF st1(2) ok Un_upper2] obtain st2 st3 where
      st3: "memset vmem_ops ?a 0 (seg_memorySize ps) st1 = Inr (?a, st2)"
        "(if seg_dataSize ps \<noteq> 0
          then case seg_data ps of None \<Rightarrow> Inl NullPointer | Some i \<Rightarrow> copy_in file i ?a (unat (seg_dataSize ps)) st2
          else Inr st2) = Inr st3"
        "owns as (V \<union> ?R) st3" "same_pages st1 st3"
        "vmem (V \<union> ?R) st3 = put ?a (segment_image file ps) (vmem (V \<union> ?R) st1)" by blast
    have len: "length (segment_image file ps) = unat (seg_memorySize ps)"
      using ok by (auto simp: segment_image_def segment_ok_def word_le_nat_alt)
    have rng: "frame_number (?a + of_nat i) \<in> ?R" if "i < unat (seg_memorySize ps)" for i
      using page_byte[OF le, of i] segment_pages_cover[of ps] that unfolding seg_range_def a[symmetric] by auto
    have img: "byte_at st3 (?a + of_nat i) = segment_image file ps ! i" if i: "i < unat (seg_memorySize ps)" for i
    proof -
      have "unat (of_nat i :: u32) = i" using i unat_lt32[of "seg_memorySize ps"] by (intro unat_of_nat_small) (simp del: unat_lt32)
      then show ?thesis using fun_cong[OF st3(5), of "?a + of_nat i"] i len rng[OF i] by (simp add: vmem_def put_def)
    qed
    have keep: "byte_at st3 c = byte_at st c" if c: "frame_number c \<in> V" for c
    proof -
      have "frame_number c \<notin> ?R"
        using o c un exclusive_page(2)[of st "frame_number c"] by (auto simp: owns_def)
      then have "\<not> unat (c - ?a) < unat (seg_memorySize ps)" using rng[of "unat (c - ?a)"] by auto
      then show ?thesis using fun_cong[OF st3(5), of c] c len st1(3)[OF c] by (simp add: vmem_def put_def)
    qed
    have "page_map st3 u = page_map st u" if "u < kUserPages" "u \<notin> ?R" for u
      using st1(4)[OF that] st3(4) that(1) by (simp add: same_pages_def)
    then have "load_post as file V [ps] st st3" using st3(3) img keep by (simp add: load_post_def)
    then show ?thesis using st1(1) st3(1,2) by blast
  qed
qed

definition loaded :: "Segment list \<Rightarrow> Segment list" where
  "loaded pss = filter page_aligned pss"

definition raii :: "Segment \<Rightarrow> SegmentRAII" where
  "raii ps = \<lparr>sr_addr = seg_vaddress ps, sr_pages = segment_pages ps, sr_armed = True\<rparr>"

text \<open>What the loader needs of the segments: each can be loaded, and no two overlap.\<close>

definition placeable :: "u8 list \<Rightarrow> Segment list \<Rightarrow> bool" where
  "placeable file qs \<longleftrightarrow> (\<forall>q\<in>set qs. segment_ok file q) \<and> sorted_wrt (\<lambda>p q. seg_range p \<inter> seg_range q = {}) qs"

definition unmapped :: "MMU \<Rightarrow> Segment list \<Rightarrow> bool" where
  "unmapped st qs \<longleftrightarrow> (\<forall>q\<in>set qs. \<forall>u\<in>seg_range q. page_map st u = None)"

lemma unmapped_step:
  assumes "placeable file (ps # qs)" "load_post as file V [ps] st st1"
  shows "unmapped st1 qs \<longleftrightarrow> unmapped st qs"
proof -
  have "page_map st1 u = page_map st u" if q: "q \<in> set qs" "u \<in> seg_range q" for q u
  proof -
    have "segment_ok file q" "u \<notin> seg_range ps" using assms(1) q by (auto simp: placeable_def)
    then show ?thesis using assms(2) q(2) by (auto simp: load_post_def seg_range_def segment_ok_def)
  qed
  then show ?thesis by (simp add: unmapped_def)
qed

lemma owns_extension:
  assumes o: "owns as V st" and st': "mmu_inv st' as" "extends_tables st st'" "keeps_data st st'"
  shows "owns as V st'"
proof -
  have "exclusive st' u" if u: "u \<in> V" for u
  proof -
    have ex: "exclusive st u" "mmu_inv st as" using o u by (auto simp: owns_def)
    note e = exclusive_page[OF ex(1)]
    have "data_frame st' (frame_number (pte_of st u))" using owned_data_frame[OF ex(2,1)] st'(3) by (simp add: keeps_data_def)
    then show ?thesis using ex(1) e(2) st'(2) unfolding exclusive_def extends_tables_def data_frame_def by auto
  qed
  then show ?thesis using st'(1) by (simp add: owns_def)
qed

lemma palloc_at_conflict:
  assumes o: "owns as V st" and v: "v + unat n \<le> kUserPages" and c: "\<not> run_unmapped st v (unat n)"
  shows "MMU_palloc_at st as (page_addr v) n = Inl out_of_memory
    \<or> (\<exists>st'. MMU_palloc_at st as (page_addr v) n = Inr (0, st') \<and> owns as V st' \<and> (\<forall>u<kUserPages. page_map st' u = page_map st u)
        \<and> (\<forall>a. frame_number a \<in> V \<longrightarrow> byte_at st' a = byte_at st a))"
proof -
  have inv: "mmu_inv st as" using o by (simp add: owns_def)
  consider "palloc_probe st as (page_addr v) (unat n) = Inl out_of_memory"
    | b st1 where "palloc_probe st as (page_addr v) (unat n) = Inr (b, st1)" using palloc_probe_result[OF inv v] by blast
  then show ?thesis
  proof cases
    case 1
    then show ?thesis by (simp add: MMU_palloc_at_def page_addr_aligned)
  next
    case (2 b st1)
    from palloc_probe_Inr[OF inv v 2] c have r: "mmu_inv st1 as" "extends_tables st st1" "\<not> b" by auto
    note k = palloc_probe_keeps[OF inv v 2]
    have "byte_at st1 a = byte_at st a" if a: "frame_number a \<in> V" for a
    proof -
      have ex: "exclusive st (frame_number a)" using o a by (simp add: owns_def)
      have "page_map st1 (frame_number a) = Some (pte_of st (frame_number a))"
        using r(2) exclusive_page(1,2)[OF ex] by (simp add: extends_tables_def)
      then have "pte_of st1 (frame_number a) = pte_of st (frame_number a)" by (auto simp: page_map_def split: if_splits)
      then show ?thesis using owned_data_frame[OF inv ex] k by (simp add: byte_at_def keeps_data_def)
    qed
    then show ?thesis using owns_extension[OF o r(1,2) k] 2 r by (simp add: MMU_palloc_at_def page_addr_aligned extends_tables_def)
  qed
qed

text \<open>
  The loading loop: it runs out of memory, or it loads all segments, if nothing was mapped where
  they go, or else it stops at the first that is in the way after loading those before it.
\<close>

lemma load_post_same:
  "owns as V st' \<Longrightarrow> (\<forall>u<kUserPages. page_map st' u = page_map st u) \<Longrightarrow>
   (\<forall>a. frame_number a \<in> V \<longrightarrow> byte_at st' a = byte_at st a) \<Longrightarrow> load_post as file V [] st st'"
  by (simp add: load_post_def)

lemma load_loop_result:
  assumes "owns as V st" "placeable file (loaded pss)"
  shows "load_loop as file pss cl st = Inl out_of_memory
    \<or> (\<exists>ok qs rest st'. load_loop as file pss cl st = Inr (ok, cl @ map raii qs, st') \<and> load_post as file V qs st st'
        \<and> loaded pss = qs @ rest \<and> unmapped st qs \<and> ok = unmapped st (loaded pss) \<and> (ok \<longrightarrow> rest = []))"
  using assms
proof (induction pss arbitrary: V st cl)
  case Nil
  then show ?case by (auto simp: loaded_def load_post_def unmapped_def)
next
  case (Cons ps pss)
  show ?case
  proof (cases "page_aligned ps")
    case False
    then have l: "loaded (ps # pss) = loaded pss" "seg_alignment ps \<noteq> 0x1000" by (simp_all add: loaded_def page_aligned_def)
    then show ?thesis using Cons.IH[OF Cons.prems(1), of cl] Cons.prems(2) by simp
  next
    case True
    then have l: "loaded (ps # pss) = ps # loaded pss" "seg_alignment ps = 0x1000" by (simp_all add: loaded_def page_aligned_def)
    let ?a = "seg_vaddress ps" and ?v = "frame_number (seg_vaddress ps)"
    have ok: "segment_ok file ps" and nz: "?a \<noteq> 0" and a: "page_addr ?v = ?a" and le: "?v + unat (segment_pages ps) \<le> kUserPages"
      and pl: "placeable file (loaded pss)"
      using Cons.prems(2) by (auto simp: placeable_def l segment_ok_def page_addr_frame)
    have run: "run_unmapped st ?v (unat (segment_pages ps)) \<longleftrightarrow> unmapped st [ps]"
      using le by (auto simp: run_unmapped_def unmapped_def seg_range_def)
    consider "MMU_palloc_at st as ?a (segment_pages ps) = Inl out_of_memory"
      | st1 where "\<not> unmapped st [ps]" "MMU_palloc_at st as ?a (segment_pages ps) = Inr (0, st1)" "load_post as file V [] st st1"
      | st1 st2 st3 where "unmapped st [ps]" "MMU_palloc_at st as ?a (segment_pages ps) = Inr (?a, st1)"
        "memset vmem_ops ?a 0 (seg_memorySize ps) st1 = Inr (?a, st2)"
        "(if seg_dataSize ps \<noteq> 0
           then case seg_data ps of None \<Rightarrow> Inl NullPointer | Some i \<Rightarrow> copy_in file i ?a (unat (seg_dataSize ps)) st2
           else Inr st2) = Inr st3" "load_post as file V [ps] st st3"
    proof (cases "unmapped st [ps]")
      case True
      then have "\<And>u. u \<in> seg_range ps \<Longrightarrow> page_map st u = None" by (simp add: unmapped_def)
      from load_segment_ok[OF Cons.prems(1) ok this] True that(1,3) show ?thesis by blast
    next
      case False
      then show ?thesis using palloc_at_conflict[OF Cons.prems(1) le] run a load_post_same that(1,2) by metis
    qed
    then show ?thesis
    proof cases
      case 1
      then show ?thesis using l(2) by simp
    next
      case (2 st1)
      have "load_loop as file (ps # pss) cl st = Inr (False, cl @ map raii [], st1)" using 2(2) l(2) by simp
      moreover have "\<not> unmapped st (loaded (ps # pss))" using 2(1) by (simp add: unmapped_def l)
      moreover have "unmapped st []" by (simp add: unmapped_def)
      ultimately show ?thesis using 2(3) by blast
    next
      case (3 st1 st2 st3)
      have step: "load_loop as file (ps # pss) cl st = load_loop as file pss (cl @ [raii ps]) st3"
        using l(2) 3(2-4) nz by (simp add: raii_def Let_def)
      have un: "unmapped st3 (loaded pss) \<longleftrightarrow> unmapped st (loaded (ps # pss))"
        using unmapped_step[OF Cons.prems(2)[unfolded l] 3(5)] 3(1) by (simp add: unmapped_def l)
      have "owns as (V \<union> seg_range ps) st3" using 3(5) by (simp add: load_post_def)
      from Cons.IH[OF this pl, of "cl @ [raii ps]"] show ?thesis
      proof
        assume "\<exists>b qs rest st'. load_loop as file pss (cl @ [raii ps]) st3 = Inr (b, (cl @ [raii ps]) @ map raii qs, st')
          \<and> load_post as file (V \<union> seg_range ps) qs st3 st' \<and> loaded pss = qs @ rest \<and> unmapped st3 qs
          \<and> b = unmapped st3 (loaded pss) \<and> (b \<longrightarrow> rest = [])"
        then obtain b qs rest st' where r: "load_loop as file pss (cl @ [raii ps]) st3 = Inr (b, (cl @ [raii ps]) @ map raii qs, st')"
          "load_post as file (V \<union> seg_range ps) qs st3 st'" "loaded pss = qs @ rest" "unmapped st3 qs"
          "b = unmapped st3 (loaded pss)" "b \<longrightarrow> rest = []" by blast
        have "placeable file (ps # qs)" using Cons.prems(2) r(3) l(1) by (auto simp: placeable_def sorted_wrt_append)
        then have "unmapped st (ps # qs)" using unmapped_step[OF _ 3(5)] r(4) 3(1) by (simp add: unmapped_def)
        moreover have "load_loop as file (ps # pss) cl st = Inr (b, cl @ map raii (ps # qs), st')" using step r(1) by simp
        moreover have "loaded (ps # pss) = (ps # qs) @ rest" using l(1) r(3) by simp
        ultimately show ?thesis using load_post_Cons[OF ok 3(5) r(2)] r(5,6) un by blast
      qed (simp add: step del: load_loop.simps)
    qed
  qed
qed

section \<open>Releasing segments\<close>

lemma free_segment_ok:
  assumes o: "owns as (V \<union> seg_range ps) st" and V: "V \<inter> seg_range ps = {}" and ok: "segment_ok file ps" and n: "segment_pages ps \<noteq> 0"
  shows "\<exists>st'. MMU_pfree st as (seg_vaddress ps) (segment_pages ps) = Inr (0, st') \<and> owns as V st'
    \<and> (\<forall>u<kUserPages. page_map st' u = (if u \<in> seg_range ps then None else page_map st u))"
proof -
  let ?v = "frame_number (seg_vaddress ps)" and ?k = "unat (segment_pages ps)"
  have a: "seg_vaddress ps = page_addr ?v" "?v + ?k \<le> kUserPages" using ok by (simp_all add: segment_ok_def page_addr_frame)
  have inv: "mmu_inv st as" using o by (simp add: owns_def)
  have "exclusive st u" if "?v \<le> u" "u < ?v + ?k" for u using o that by (auto simp: owns_def seg_range_def)
  from pfree_loop_ok[OF inv a(2) this] obtain st' where
    f: "pfree_loop ?k st (page_addr ?v) = Inr st'" "mmu_inv st' as" "pde_of st' = pde_of st" "dir_frame st' = dir_frame st"
      "\<And>u. u < kUserPages \<Longrightarrow> page_map st' u = (if ?v \<le> u \<and> u < ?v + ?k then None else page_map st u)" by blast
  have "exclusive st' u" if u: "u \<in> V" for u
  proof -
    have "u \<notin> seg_range ps" "exclusive st u" using V u o by (auto simp: owns_def)
    then show ?thesis unfolding exclusive_def f(3,4) using f(5) by (auto simp: seg_range_def split: if_splits)
  qed
  then have "owns as V st'" using f(2) by (simp add: owns_def)
  then show ?thesis using f(1,5) n a(1) by (auto simp: MMU_pfree_def seg_range_def)
qed

lemma placeable_Cons: "placeable file (q # qs) \<longleftrightarrow> segment_ok file q \<and> seg_range q \<inter> \<Union>(seg_range ` set qs) = {} \<and> placeable file qs"
  by (auto simp: placeable_def)

lemma placeable_rev: "placeable file (rev qs) \<longleftrightarrow> placeable file qs"
  by (auto simp: placeable_def sorted_wrt_rev Int_commute)

text \<open>The pages of a list of segments handed back, in the order of the list.\<close>

definition released :: "AddressSpace \<Rightarrow> Segment list \<Rightarrow> MMU \<Rightarrow> MMU \<Rightarrow> bool" where
  "released as qs st st' \<longleftrightarrow> mmu_inv st' as
     \<and> (\<forall>u<kUserPages. page_map st' u = (if u \<in> \<Union>(seg_range ` set qs) then None else page_map st u))"

lemma released_Cons:
  assumes "\<forall>u<kUserPages. page_map st1 u = (if u \<in> seg_range q then None else page_map st u)" "released as qs st1 st'"
  shows "released as (q # qs) st st'"
  using assms by (auto simp: released_def)

lemma destroy_all_ok:
  assumes "owns as (\<Union>(seg_range ` set qs)) st" "placeable file qs"
  shows "\<exists>st'. destroy_all as (map raii qs) st = Inr st' \<and> released as qs st st'"
  using assms
proof (induction qs arbitrary: st)
  case Nil
  then show ?case by (simp add: released_def owns_def)
next
  case (Cons q qs)
  let ?V = "\<Union>(seg_range ` set qs)"
  have p: "segment_ok file q" "?V \<inter> seg_range q = {}" "placeable file qs" using Cons.prems(2) by (auto simp: placeable_Cons)
  have o: "owns as (?V \<union> seg_range q) st" using Cons.prems(1) by (simp add: Un_commute)
  have "\<exists>st1. SegmentRAII_destroy as (raii q) st = Inr st1 \<and> owns as ?V st1
    \<and> (\<forall>u<kUserPages. page_map st1 u = (if u \<in> seg_range q then None else page_map st u))"
  proof (cases "segment_pages q = 0")
    case True
    then show ?thesis using o by (auto simp: SegmentRAII_destroy_def raii_def owns_def seg_range_def)
  next
    case False
    moreover have "seg_vaddress q \<noteq> 0" using p(1) by (simp add: segment_ok_def)
    ultimately show ?thesis using free_segment_ok[OF o p(2,1) False] by (auto simp: SegmentRAII_destroy_def raii_def)
  qed
  then obtain st1 where st1: "SegmentRAII_destroy as (raii q) st = Inr st1" "owns as ?V st1"
    "\<forall>u<kUserPages. page_map st1 u = (if u \<in> seg_range q then None else page_map st u)" by blast
  then show ?case using Cons.IH[OF st1(2) p(3)] released_Cons[OF st1(3)] by auto
qed

lemma unload_loop_ok:
  assumes "owns as (\<Union>(seg_range ` set qs)) st" "placeable file qs" "\<And>q. q \<in> set qs \<Longrightarrow> segment_pages q \<noteq> 0"
  shows "\<exists>st'. unload_loop as qs st = Inr st' \<and> released as qs st st'"
  using assms
proof (induction qs arbitrary: st)
  case Nil
  then show ?case by (simp add: released_def owns_def)
next
  case (Cons q qs)
  let ?V = "\<Union>(seg_range ` set qs)"
  have p: "segment_ok file q" "?V \<inter> seg_range q = {}" "placeable file qs" using Cons.prems(2) by (auto simp: placeable_Cons)
  have o: "owns as (?V \<union> seg_range q) st" using Cons.prems(1) by (simp add: Un_commute)
  from free_segment_ok[OF o p(2,1)] Cons.prems(3) obtain st1 where
    st1: "MMU_pfree st as (seg_vaddress q) (segment_pages q) = Inr (0, st1)" "owns as ?V st1"
      "\<forall>u<kUserPages. page_map st1 u = (if u \<in> seg_range q then None else page_map st u)" by auto
  then show ?case using Cons.IH[OF st1(2) p(3)] Cons.prems(3) released_Cons[OF st1(3)] by auto
qed

lemma destroy_disarmed: "destroy_all as (rev (map disarm cl)) st = Inr st"
proof -
  have d: "destroy_all as ss st = Inr st" if "\<And>s. s \<in> set ss \<Longrightarrow> \<not> sr_armed s" for ss
    using that by (induction ss) (simp_all add: SegmentRAII_destroy_def)
  show ?thesis by (rule d) (auto simp: disarm_def)
qed

lemma segment_pages_zero: "segment_pages ps = 0 \<longleftrightarrow> seg_memorySize ps = 0"
  using segment_pages_cover[of ps] by (auto simp: segment_pages_def word32_eq_iff_unat)

section \<open>Loading and unloading\<close>

lemma loadSegments_result:
  assumes inv: "mmu_inv st as" and nl: "\<not> ex_isLoaded x"
  defines "file \<equiv> fr_bytes (ex_file x)" and "qs \<equiv> loaded (al_elems (ex_segments x))"
  assumes pl: "placeable file qs"
  shows "loadSegments as x st = Inl out_of_memory
    \<or> (if unmapped st qs
       then \<exists>st'. loadSegments as x st = Inr (True, x\<lparr>ex_isLoaded := True\<rparr>, st') \<and> load_post as file {} qs st st'
       else \<exists>st'. loadSegments as x st = Inr (False, x, st') \<and> mmu_inv st' as \<and> (\<forall>u<kUserPages. page_map st' u = page_map st u))"
proof -
  have o: "owns as {} st" using inv by (simp add: owns_def)
  consider "load_loop as file (al_elems (ex_segments x)) [] st = Inl out_of_memory"
    | ok ps rest st1 where "load_loop as file (al_elems (ex_segments x)) [] st = Inr (ok, map raii ps, st1)" "load_post as file {} ps st st1"
      "qs = ps @ rest" "unmapped st ps" "ok = unmapped st qs" "ok \<longrightarrow> rest = []"
    using load_loop_result[OF o pl[unfolded qs_def], of "[]"] unfolding qs_def by auto
  then show ?thesis
  proof cases
    case 1
    then show ?thesis using nl by (simp add: loadSegments_def file_def)
  next
    case (2 ok ps rest st1)
    show ?thesis
    proof (cases ok)
      case True
      then show ?thesis using 2 nl by (simp add: loadSegments_def file_def destroy_disarmed)
    next
      case False
      have "placeable file ps" using pl 2(3) by (auto simp: placeable_def sorted_wrt_append)
      moreover have "owns as (\<Union>(seg_range ` set (rev ps))) st1" using 2(2) by (simp add: load_post_def)
      ultimately obtain st2 where r: "destroy_all as (map raii (rev ps)) st1 = Inr st2" "released as (rev ps) st1 st2"
        using destroy_all_ok[of as "rev ps" st1 "file"] by (auto simp: placeable_rev)
      have "page_map st2 u = page_map st u" if u: "u < kUserPages" for u
      proof (cases "u \<in> \<Union>(seg_range ` set ps)")
        case True
        then show ?thesis using r(2) u 2(4) by (auto simp: released_def unmapped_def)
      next
        case f: False
        then show ?thesis using r(2) u 2(2) by (simp add: released_def load_post_def)
      qed
      then show ?thesis using False 2 nl r by (simp add: loadSegments_def file_def rev_map released_def)
    qed
  qed
qed

section \<open>Properties\<close>




text \<open>
  Unloading an executable whose first segment occupies no memory stops the kernel: its zero
  pages are passed to \<open>pfree\<close>, which reports an error.
\<close>

theorem unload_empty_segment_panics:
  assumes "ex_isLoaded x" "al_elems (ex_segments x) = ps # pss" "seg_memorySize ps = 0"
  shows "unloadSegments as x st = Inl (KernelPanic ''Error freeing loaded ELF segment memory.'')"
  using assms by (simp add: unloadSegments_def MMU_pfree_def segment_pages_def)

section \<open>A small executable\<close>

definition example_segment :: "uintptr \<Rightarrow> Segment" where
  "example_segment a = \<lparr>seg_data = Some 1, seg_vaddress = a, seg_alignment = 0x1000, seg_dataSize = 2, seg_memorySize = 3\<rparr>"

definition example_exe :: "uintptr \<Rightarrow> IsoFileStream Executable" where
  "example_exe a = \<lparr>ex_file = \<lparr>fr_stream = None, fr_bytes = [7, 8, 9], fr_extent = 3, fr_eof = True\<rparr>,
     ex_sections = ArrayList_new Section_new 8, ex_block = 0, ex_segments = ArrayList_of_list [example_segment a],
     ex_nameTable = None, ex_entry = 0, ex_isLoaded = False\<rparr>"

lemma example_exe_simps [simp]:
  "fr_bytes (ex_file (example_exe a)) = [7, 8, 9]" "al_elems (ex_segments (example_exe a)) = [example_segment a]"
  "\<not> ex_isLoaded (example_exe a)" "loaded [example_segment a] = [example_segment a]" "segment_pages (example_segment a) = 1"
  "seg_vaddress (example_segment a) = a" "seg_memorySize (example_segment a) = 3" "seg_alignment (example_segment a) = 0x1000"
  "seg_data (example_segment a) = Some 1" "seg_dataSize (example_segment a) = 2"
  "segment_image [7, 8, 9] (example_segment a) = [8, 9, 0]"
  by (simp_all add: example_exe_def al_of_list example_segment_def loaded_def page_aligned_def segment_pages_def segment_image_def)

lemma example_placeable: "placeable [7, 8, 9] [example_segment 0x1000]" "placeable [7, 8, 9] [example_segment 0x200000]"
  by (simp_all add: placeable_def segment_ok_def frame_number_def kUserPages_def)

lemma example_range: "seg_range (example_segment 0x1000) = {1}" "seg_range (example_segment 0x200000) = {512}"
  by (auto simp: seg_range_def frame_number_def)

lemma example_unmapped: "unmapped ex_mmu [example_segment 0x1000]" "\<not> unmapped ex_mmu [example_segment 0x200000]"
  by (simp_all add: unmapped_def example_range ex_page_map kUserPages_def)

lemma example_palloc: "\<exists>st'. MMU_palloc_at ex_mmu 0x200000 0x1000 1 = Inr (0x1000, st')"
proof -
  obtain st' where a: "allocatePages ex_mmu 0x200000 0x1000 1 = Inr st'" using ex_palloc by (auto simp: MMU_palloc_def ex_scan)
  have p: "page_addr 1 = 0x1000" by (simp add: page_addr_def)
  have "getOrCreateTable ex_mmu 0x200000 0 = Inr (PageTableForDirectoryIndex 0, ex_mmu)"
    using getOrCreateTable_eq[OF ex_inv, of 0] by (simp add: ex_pde ex_entries)
  moreover have "PageTable_entryAtIndex (hw ex_mmu) (PageTableForDirectoryIndex 0) 1 = Inr 0"
    using entry_in_table[of ex_mmu 0 1] ex_inv by (simp add: mmu_inv_def ex_pde ex_entries pte_of_def ex_dir ex_phys_def)
  ultimately have "palloc_probe ex_mmu 0x200000 0x1000 1 = Inr (True, ex_mmu)"
    by (simp add: pageForAddress_def tableForAddress_def)
  then show ?thesis using a by (simp add: MMU_palloc_at_def)
qed

lemma example_load: "\<exists>st1. loadSegments 0x200000 (example_exe 0x1000) ex_mmu = Inr (True, (example_exe 0x1000)\<lparr>ex_isLoaded := True\<rparr>, st1)"
proof -
  have o: "owns 0x200000 {} ex_mmu" using ex_inv by (simp add: owns_def)
  have ok: "segment_ok [7, 8, 9] (example_segment 0x1000)" using example_placeable(1) by (simp add: placeable_def)
  obtain st' where p: "MMU_palloc_at ex_mmu 0x200000 0x1000 1 = Inr (0x1000, st')" using example_palloc by blast
  have "\<And>u. u \<in> seg_range (example_segment 0x1000) \<Longrightarrow> page_map ex_mmu u = None" using example_unmapped(1) by (simp add: unmapped_def)
  from load_segment_ok[OF o ok this] p obtain st2 st3 where
    s: "memset vmem_ops 0x1000 0 3 st' = Inr (0x1000, st2)" "copy_in [7, 8, 9] 1 0x1000 2 st2 = Inr st3"
    by auto
  then show ?thesis using p by (simp add: loadSegments_def Let_def SegmentRAII_destroy_def disarm_def)
qed




end
