(* ===== verification/Ata_Props.thy ===== *)
theory Ata_Props
  imports Ata
begin

text \<open>
  Correctness of the ATAPI driver. The byte layouts come first: packets and identity strings.
  Then what the driver relies on of the hardware: the packet protocol of an ATAPI device, as seen
  through its ports, is the locale \<open>atapi_bus\<close>. A device state has a protocol phase and a byte
  count limit (\<open>view\<close>) and stays busy for a bounded number of status reads (\<open>delay\<close>). The
  driver's lemmas are proved in the locale; \<open>sim_bus\<close> is a device that satisfies the laws, and
  the properties are stated for every device that does.
\<close>

section \<open>Byte layouts\<close>

definition be32 :: "u8 list \<Rightarrow> nat \<Rightarrow> u32" where
  "be32 b i = push_bit 24 (ucast (b ! i)) OR push_bit 16 (ucast (b ! (i + 1)))
     OR push_bit 8 (ucast (b ! (i + 2))) OR ucast (b ! (i + 3))"

lemma bit_byte_high [simp]: "8 \<le> n \<Longrightarrow> \<not> bit (b :: u8) n"
  by (auto dest: bit_imp_le_length)

lemma word32_byte_eqI:
  assumes "\<And>k. k < 8 \<Longrightarrow> bit x k = bit y k" "\<And>k. k < 8 \<Longrightarrow> bit x (8 + k) = bit y (8 + k)"
    "\<And>k. k < 8 \<Longrightarrow> bit x (16 + k) = bit y (16 + k)" "\<And>k. k < 8 \<Longrightarrow> bit x (24 + k) = bit y (24 + k)"
  shows "x = (y :: u32)"
proof (rule bit_word_eqI)
  fix n assume "n < LENGTH(32)"
  then have "n < 32" by simp
  then consider "n < 8" | "8 \<le> n" "n < 16" | "16 \<le> n" "n < 24" | "24 \<le> n" by linarith
  then show "bit x n = bit y n"
  proof cases
    case 1 then show ?thesis using assms(1)[of n] by simp
  next
    case 2 then show ?thesis using assms(2)[of "n - 8"] by simp
  next
    case 3 then show ?thesis using assms(3)[of "n - 16"] by simp
  next
    case 4 then show ?thesis using assms(4)[of "n - 24"] \<open>n < 32\<close> by simp
  qed
qed

lemma byte_masks: "(0xFF :: u32) = mask 8" "(0xFF00 :: u32) = push_bit 8 (mask 8)"
    "(0xFF0000 :: u32) = push_bit 16 (mask 8)" "(0xFF000000 :: u32) = push_bit 24 (mask 8)"
  by (simp_all add: mask_eq_exp_minus_1 push_bit_eq_mult)

lemma ucast_low_byte: "ucast (x AND 0xFF :: u32) = (ucast x :: u8)"
  unfolding byte_masks by (rule bit_word_eqI) (simp add: bit_simps)

lemma be_bytes: "push_bit 24 (ucast (ucast (drop_bit 24 x) :: u8)) OR push_bit 16 (ucast (ucast (drop_bit 16 x) :: u8))
    OR push_bit 8 (ucast (ucast (drop_bit 8 x) :: u8)) OR ucast (ucast x :: u8) = (x :: u32)"
  by (rule word32_byte_eqI) (simp_all add: bit_simps)

lemma word_bytes: "ucast (ucast lo OR push_bit 8 (ucast hi) :: u16) = (lo :: u8)"
    "ucast (drop_bit 8 (ucast lo OR push_bit 8 (ucast hi) :: u16)) = (hi :: u8)"
  by (rule bit_word_eqI; simp add: bit_simps)+

lemma bytes_words: "even (length bs) \<Longrightarrow> bytes_of_words (words_of_bytes bs) = bs"
proof (induction bs rule: words_of_bytes.induct)
  case (1 lo hi bs)
  then have "bytes_of_words (words_of_bytes bs) = bs" by simp
  then show ?case unfolding words_of_bytes.simps bytes_of_words.simps word_bytes by simp
qed simp_all

lemma word_of_bytes: "ucast (ucast (w :: u16) :: u8) OR push_bit 8 (ucast (ucast (drop_bit 8 w) :: u8)) = w"
  by (rule bit_word_eqI) (auto simp: bit_simps)

lemma words_bytes: "words_of_bytes (bytes_of_words ws) = ws"
  by (induction ws) (simp_all add: word_of_bytes)

lemma length_bytes_of_words [simp]: "length (bytes_of_words ws) = 2 * length ws"
  by (induction ws) auto

lemma read12_fields: "be32 (read12Command lba n) 2 = lba" "be32 (read12Command lba n) 6 = n"
  by (simp_all add: be32_def read12Command_def ucast_low_byte be_bytes nth_Cons')

lemma endianSwap_load: "endianSwap (load32 b i) = be32 b i"
  unfolding endianSwap_def load32_def be32_def byte_masks
  by (rule word32_byte_eqI) (simp_all add: bit_simps)

lemma swap_loop:
  assumes "off + 2 * n \<le> length b"
  shows "\<exists>s. rfor (swap_at off) 0 n b = Inr s \<and> length s = length b
    \<and> (\<forall>i<length b. s ! i = (if off \<le> i \<and> i < off + 2 * n then b ! (if even (i - off) then i + 1 else i - 1) else b ! i))"
proof -
  let ?P = "\<lambda>k s. length s = length b
    \<and> (\<forall>i<length b. s ! i = (if off \<le> i \<and> i < off + 2 * k then b ! (if even (i - off) then i + 1 else i - 1) else b ! i))"
  have "\<exists>s. rfor (swap_at off) 0 n b = Inr s \<and> ?P (0 + n) s"
  proof (rule rfor_invariant)
    fix j s assume j: "j < 0 + n" and P: "?P j s"
    have l: "off + 2 * j + 1 < length b" using j assms by linarith
    then have e: "s ! (off + 2 * j) = b ! (off + 2 * j)" "s ! (off + 2 * j + 1) = b ! (off + 2 * j + 1)" using P by auto
    have "swap_at off j s = Inr (s[off + 2 * j + 1 := b ! (off + 2 * j), off + 2 * j := b ! (off + 2 * j + 1)])"
      using l P e by (simp add: swap_at_def)
    moreover have "?P (Suc j) (s[off + 2 * j + 1 := b ! (off + 2 * j), off + 2 * j := b ! (off + 2 * j + 1)])"
    proof (intro conjI allI impI)
      fix i assume i: "i < length b"
      consider "i = off + 2 * j" | "i = off + 2 * j + 1" | "i \<noteq> off + 2 * j" "i \<noteq> off + 2 * j + 1" by blast
      then show "s[off + 2 * j + 1 := b ! (off + 2 * j), off + 2 * j := b ! (off + 2 * j + 1)] ! i =
        (if off \<le> i \<and> i < off + 2 * Suc j then b ! (if even (i - off) then i + 1 else i - 1) else b ! i)"
      proof cases
        case 3
        then have "i < off + 2 * Suc j \<longleftrightarrow> i < off + 2 * j" by auto
        then show ?thesis using 3 i P by simp
      qed (use P l in \<open>simp_all\<close>)
    qed (use P in simp)
    ultimately show "\<exists>s'. swap_at off j s = Inr s' \<and> ?P (Suc j) s'" by blast
  qed auto
  then show ?thesis by simp
qed

fun swap_pairs :: "'a list \<Rightarrow> 'a list" where
  "swap_pairs (x # y # zs) = y # x # swap_pairs zs"
| "swap_pairs zs = zs"

lemma length_swap_pairs [simp]: "length (swap_pairs xs) = length xs"
  by (induction xs rule: swap_pairs.induct) auto

lemma nth_swap_pairs: "even (length xs) \<Longrightarrow> i < length xs \<Longrightarrow> swap_pairs xs ! i = xs ! (if even i then i + 1 else i - 1)"
proof (induction xs arbitrary: i rule: swap_pairs.induct)
  case (1 x y zs)
  show ?case
  proof (cases "i < 2")
    case True
    then show ?thesis by (cases i) (auto simp: less_Suc_eq)
  next
    case False
    then obtain j where "i = Suc (Suc j)" by (metis add_2_eq_Suc le_add_diff_inverse not_less)
    moreover have "odd j \<Longrightarrow> 0 < j" by (cases j) auto
    ultimately show ?thesis using 1 by (auto simp: nth_Cons')
  qed
qed auto

lemma fixAtaWordString_ok:
  assumes "off + len \<le> length b" "even len"
  shows "fixAtaWordString b off len = Inr (patch off (swap_pairs (take len (drop off b))) b)"
proof -
  have "(len + 1) div 2 = len div 2" "2 * (len div 2) = len" using assms(2) by auto
  with swap_loop[of off "len div 2" b] assms(1) obtain s where
    s: "rfor (swap_at off) 0 ((len + 1) div 2) b = Inr s" "length s = length b"
    "\<forall>i<length b. s ! i = (if off \<le> i \<and> i < off + len then b ! (if even (i - off) then i + 1 else i - 1) else b ! i)" by auto
  let ?xs = "take len (drop off b)"
  have xs: "length ?xs = len" using assms(1) by simp
  have "s = patch off (swap_pairs ?xs) b"
  proof (rule nth_equalityI)
    fix i assume "i < length s"
    then have i: "i < length b" using s(2) by simp
    show "s ! i = patch off (swap_pairs ?xs) b ! i"
    proof (cases "off \<le> i \<and> i < off + len")
      case True
      define j where "j = i - off"
      have j: "i = off + j" "j < len" using True unfolding j_def by linarith+
      have j1: "j + 1 < len" if "even j" using that j(2) assms(2) by (cases "j + 1 = len") auto
      have "patch off (swap_pairs ?xs) b ! i = swap_pairs ?xs ! j"
        using j i xs by (simp add: patch_def nth_append)
      also have "\<dots> = ?xs ! (if even j then j + 1 else j - 1)" using nth_swap_pairs[of ?xs j] xs assms(2) j(2) by simp
      also have "\<dots> = b ! (if even j then i + 1 else i - 1)"
        using j j1 assms(1) by (cases j) auto
      finally show ?thesis using s(3) True i by (simp add: j_def)
    next
      case False
      then have "patch off (swap_pairs ?xs) b ! i = b ! i"
        using xs i assms(1) by (cases "i < off") (auto simp: patch_def nth_append)
      then show ?thesis unfolding s(3)[rule_format, OF i] if_not_P[OF False] by simp
    qed
  qed (use s(2) assms xs in \<open>simp add: patch_def\<close>)
  then show ?thesis using s(1) by (simp add: fixAtaWordString_def)
qed

lemma limit_bytes: "push_bit 8 (ucast (ucast (drop_bit 8 x) :: u8)) OR ucast (ucast (x AND 0xFF :: u32) :: u8) = (ucast x :: u16)"
  unfolding byte_masks by (rule bit_word_eqI) (auto simp: bit_simps)

lemma count_bytes: "push_bit 8 (ucast (ucast (drop_bit 8 c) :: u8)) OR ucast (ucast c :: u8) = (c :: u16)"
  by (rule bit_word_eqI) (auto simp: bit_simps)

lemma unat_ucast_small16: "unat x < 65536 \<Longrightarrow> unat (ucast (x :: u32) :: u16) = unat x"
  by (simp add: unsigned_ucast_eq take_bit_nat_eq_self)

lemma unat_ucast_wide: "unat (ucast (c :: u16) :: u32) = unat c"
proof -
  have "unat c < 2 ^ 16" using unsigned_less[of c, where 'a = nat] by simp
  then show ?thesis by (simp add: unsigned_ucast_eq take_bit_nat_eq_self)
qed

lemma length_words_of_bytes: "length (words_of_bytes bs) = length bs div 2"
  by (induction bs rule: words_of_bytes.induct) auto

lemma unat_mult_small: "unat (x :: u32) * unat y < 4294967296 \<Longrightarrow> unat (x * y) = unat x * unat y"
  by (simp add: unat_word_ariths)

lemma list6_cases: "length ws = 6 \<Longrightarrow> \<exists>a b c d e f. ws = [a, b, c, d, e, f]"
  by (auto simp: numeral_eq_Suc length_Suc_conv)

lemma send_packet_fold:
  assumes "length cmd = 12"
  shows "send_packet bus dev cmd d = Inr (fold (bus_outw bus (ata_ioPort dev)) (packet_words cmd) d)"
proof -
  have "length (packet_words cmd) = 6" using assms by (simp add: packet_words_def length_words_of_bytes)
  from list6_cases[OF this] show ?thesis by (auto simp: send_packet_def numeral_eq_Suc)
qed

section \<open>The packet protocol\<close>

datatype atapi_phase =
    Resetting
  | Signature
  | Idle
  | Packet "u16 list"
  | Data u16 "u16 list"

record atapi =
  at_phase :: atapi_phase
  at_lo :: u8
  at_hi :: u8

definition byte_limit :: "atapi \<Rightarrow> u16" where
  "byte_limit a = push_bit 8 (ucast (at_hi a)) OR ucast (at_lo a)"

text \<open>What a command packet asks for: READ (12) the sectors, READ CAPACITY eight bytes.\<close>

definition scsi_reply :: "(nat \<Rightarrow> u16 list) \<Rightarrow> u16 list \<Rightarrow> u16 list \<Rightarrow> u16 list" where
  "scsi_reply disk capacity ws =
     (let bs = bytes_of_words ws in
      if bs ! 0 = 0xA8 then concat (map (\<lambda>k. disk (unat (be32 bs 2) + k)) [0..<unat (be32 bs 6)])
      else if bs ! 0 = 0x25 then capacity else [])"

text \<open>Status bytes: busy, or waiting for the host to transfer data; never an error.\<close>

definition is_busy :: "u8 \<Rightarrow> bool" where
  "is_busy s \<longleftrightarrow> s AND 0x80 \<noteq> 0 \<and> s AND 0x01 = 0 \<and> s AND 0x08 = 0"

definition is_ready :: "u8 \<Rightarrow> bool" where
  "is_ready s \<longleftrightarrow> s AND 0x80 = 0 \<and> s AND 0x01 = 0 \<and> s AND 0x40 \<noteq> 0 \<and> s AND 0x08 \<noteq> 0"

definition on_bus :: "u16 \<Rightarrow> u16 \<Rightarrow> u8 \<Rightarrow> X86AtaDevice \<Rightarrow> bool" where
  "on_bus io ctl sel dev \<longleftrightarrow> ata_ioPort dev = io \<and> ata_controlPort dev = ctl \<and> drive_select dev = sel"

text \<open>An identity string: the high byte of a word comes first.\<close>

definition ata_string :: "u16 list \<Rightarrow> nat \<Rightarrow> nat \<Rightarrow> u8 list" where
  "ata_string ws off n = concat (map (\<lambda>w. [ucast (drop_bit 8 w), ucast w]) (take n (drop off ws)))"

lemma take_bytes: "take (2 * n) (bytes_of_words ws) = bytes_of_words (take n ws)"
  by (induction ws arbitrary: n) (auto simp: take_Cons split: nat.splits)

lemma drop_bytes: "drop (2 * n) (bytes_of_words ws) = bytes_of_words (drop n ws)"
  by (induction ws arbitrary: n) (auto simp: drop_Cons split: nat.splits)

lemma swap_pairs_bytes: "swap_pairs (bytes_of_words ws) = concat (map (\<lambda>w. [ucast (drop_bit 8 w), ucast w]) ws)"
  by (induction ws) auto

lemma swap_string: "swap_pairs (take (2 * n) (drop (2 * off) (bytes_of_words ws))) = ata_string ws off n"
  by (simp add: take_bytes drop_bytes swap_pairs_bytes ata_string_def)

lemma length_ata_string: "off + n \<le> length ws \<Longrightarrow> length (ata_string ws off n) = 2 * n"
  by (simp add: ata_string_def length_concat comp_def sum_list_triv)

lemma strncpy_field:
  assumes "length dst = Suc n" "length src \<ge> n" "0 \<notin> set (take n src)"
  shows "strncpy_loop (dst[n := 0]) src 0 n = Inr (take n src @ [0])"
proof -
  have "drop n (dst[n := 0]) = [0]" using assms(1) by (intro nth_equalityI) simp_all
  then show ?thesis using strncpy_loop_ok[of 0 n src "dst[n := 0]"] assms by simp
qed

lemma readIdentity_ok:
  assumes le: "ad_littleEndian desc" and len: "length (ad_serial desc) = 21" "length (ad_firmware desc) = 9" "length (ad_model desc) = 41"
    and ws: "length ws = 256" "0 \<notin> set (ata_string ws 10 10)" "0 \<notin> set (ata_string ws 23 4)" "0 \<notin> set (ata_string ws 27 20)"
  shows "\<exists>b. readIdentity desc (Some (bytes_of_words ws)) =
    Inr (desc\<lparr>ad_serial := ata_string ws 10 10 @ [0], ad_firmware := ata_string ws 23 4 @ [0], ad_model := ata_string ws 27 20 @ [0],
      ad_lba28bitSectorCount := load32 (bytes_of_words ws) 120, ad_lba48bitSectorCount := load64 (bytes_of_words ws) 200,
      ad_sectorSize := (if load64 (bytes_of_words ws) 200 \<noteq> 0 then 512 else ad_sectorSize desc)\<rparr>, Some b)"
proof -
  let ?b = "bytes_of_words ws"
  let ?s = "ata_string ws 10 10" and ?f = "ata_string ws 23 4" and ?m = "ata_string ws 27 20"
  have l: "length ?s = 20" "length ?f = 8" "length ?m = 40" "length ?b = 512" using ws(1) by (simp_all add: length_ata_string)
  define b1 where "b1 = patch 20 ?s ?b"
  define b2 where "b2 = patch 46 ?f b1"
  define b3 where "b3 = patch 54 ?m b2"
  have lb: "length b1 = 512" "length b2 = 512" "length b3 = 512" using l by (simp_all add: b1_def b2_def b3_def)
  have f1: "fixAtaWordString ?b 20 20 = Inr b1"
    using fixAtaWordString_ok[of 20 20 ?b] l swap_string[of 10 10 ws] by (simp add: b1_def)
  have "take 8 (drop 46 b1) = take 8 (drop 46 ?b)" using l unfolding b1_def by (intro slice_patch_other) simp_all
  then have f2: "fixAtaWordString b1 46 8 = Inr b2"
    using fixAtaWordString_ok[of 46 8 b1] lb swap_string[of 4 23 ws] by (simp add: b2_def)
  have "take 40 (drop 54 b2) = take 40 (drop 54 b1)" using l lb unfolding b2_def by (intro slice_patch_other) simp_all
  also have "\<dots> = take 40 (drop 54 ?b)" using l unfolding b1_def by (intro slice_patch_other) simp_all
  finally have f3: "fixAtaWordString b2 54 40 = Inr b3"
    using fixAtaWordString_ok[of 54 40 b2] lb swap_string[of 20 27 ws] by (simp add: b3_def)
  have "take 20 (drop 20 b1) = ?s" using l unfolding b1_def by (intro slice_patch_same) simp_all
  moreover have "take 20 (drop 20 b3) = take 20 (drop 20 b2)" using l lb unfolding b3_def by (intro slice_patch_other) simp_all
  moreover have "take 20 (drop 20 b2) = take 20 (drop 20 b1)" using l lb unfolding b2_def by (intro slice_patch_other) simp_all
  ultimately have s3: "take 20 (drop 20 b3) = ?s" by simp
  have "take 8 (drop 46 b2) = ?f" using l lb unfolding b2_def by (intro slice_patch_same) simp_all
  moreover have "take 8 (drop 46 b3) = take 8 (drop 46 b2)" using l lb unfolding b3_def by (intro slice_patch_other) simp_all
  ultimately have g3: "take 8 (drop 46 b3) = ?f" by simp
  have m3: "take 40 (drop 54 b3) = ?m" using l lb unfolding b3_def by (intro slice_patch_same) simp_all
  have n: "b3 ! i = ?b ! i" if "94 \<le> i" "i < 512" for i
    using that l lb by (simp add: b3_def b2_def b1_def nth_patch_other)
  have "load32 b3 120 = load32 ?b 120" "load64 b3 200 = load64 ?b 200" by (simp_all add: load64_def load32_def n)
  moreover have "strncpy_loop ((ad_serial desc)[20 := 0]) (drop 20 b3) 0 20 = Inr (?s @ [0])"
    using strncpy_field[of "ad_serial desc" 20 "drop 20 b3"] len lb ws s3 by simp
  moreover have "strncpy_loop ((ad_firmware desc)[8 := 0]) (drop 46 b3) 0 8 = Inr (?f @ [0])"
    using strncpy_field[of "ad_firmware desc" 8 "drop 46 b3"] len lb ws g3 by simp
  moreover have "strncpy_loop ((ad_model desc)[40 := 0]) (drop 54 b3) 0 40 = Inr (?m @ [0])"
    using strncpy_field[of "ad_model desc" 40 "drop 54 b3"] len lb ws m3 by simp
  ultimately show ?thesis using le len l f1 f2 f3
    by (simp add: readIdentity_def Let_def)
qed

locale atapi_bus =
  fixes bus :: "'d bus" and io ctl :: u16 and sel :: u8
    and view :: "'d \<Rightarrow> atapi" and delay :: "'d \<Rightarrow> nat" and bound :: nat
    and disk :: "nat \<Rightarrow> u16 list" and capacity ident :: "u16 list"
  assumes inb_view: "view (snd (bus_inb bus p d)) = view d"
    and delay_bound: "delay d \<le> bound"
    and status_delay: "0 < delay d \<Longrightarrow> delay (snd (bus_inb bus (io + 7) d)) < delay d"
    and status_busy: "0 < delay d \<Longrightarrow> is_busy (fst (bus_inb bus (io + 7) d))"
    and status_packet: "delay d = 0 \<Longrightarrow> at_phase (view d) = Packet ws \<Longrightarrow> is_ready (fst (bus_inb bus (io + 7) d))"
    and status_data: "delay d = 0 \<Longrightarrow> at_phase (view d) = Data c ws \<Longrightarrow> is_ready (fst (bus_inb bus (io + 7) d))"
    and signature: "at_phase (view d) = Signature \<Longrightarrow>
          fst (bus_inb bus (io + 4) d) = 0x14 \<and> fst (bus_inb bus (io + 5) d) = 0xEB"
    and byte_count: "at_phase (view d) = Data c ws \<Longrightarrow>
          fst (bus_inb bus (io + 4) d) = ucast c \<and> fst (bus_inb bus (io + 5) d) = ucast (drop_bit 8 c)"
    and reset_on: "at_phase (view (bus_outb bus ctl 4 d)) = Resetting"
    and reset_off: "at_phase (view d) = Resetting \<Longrightarrow> at_phase (view (bus_outb bus ctl 0 d)) = Signature"
    and select: "at_phase (view d) = Signature \<Longrightarrow> at_phase (view (bus_outb bus (io + 6) sel d)) = Signature"
    and feature: "at_phase (view d) = Signature \<Longrightarrow> at_phase (view (bus_outb bus (io + 1) 0 d)) = Signature"
    and limit_lo: "at_phase (view d) = Signature \<Longrightarrow>
          at_phase (view (bus_outb bus (io + 4) v d)) = Idle \<and> at_lo (view (bus_outb bus (io + 4) v d)) = v"
    and limit_hi: "at_phase (view d) = Idle \<Longrightarrow>
          view (bus_outb bus (io + 5) v d) = (view d)\<lparr>at_hi := v\<rparr>"
    and packet: "at_phase (view d) = Idle \<Longrightarrow> view (bus_outb bus (io + 7) 0xA0 d) = (view d)\<lparr>at_phase := Packet []\<rparr>"
    and identify_packet: "at_phase (view d) = Signature \<Longrightarrow> at_phase (view (bus_outb bus (io + 7) 0xA1 d)) = Data 512 ident"
    and packet_word: "at_phase (view d) = Packet ws \<Longrightarrow> length ws < 5 \<Longrightarrow>
          view (bus_outw bus io w d) = (view d)\<lparr>at_phase := Packet (ws @ [w])\<rparr>"
    and packet_end: "at_phase (view d) = Packet ws \<Longrightarrow> length ws = 5 \<Longrightarrow>
          2 * length (scsi_reply disk capacity (ws @ [w])) \<le> unat (byte_limit (view d)) \<Longrightarrow>
          at_phase (view (bus_outw bus io w d)) =
            Data (of_nat (2 * length (scsi_reply disk capacity (ws @ [w])))) (scsi_reply disk capacity (ws @ [w]))"
    and data_word: "at_phase (view d) = Data c (w # ws) \<Longrightarrow>
          fst (bus_inw bus io d) = w \<and> at_phase (view (snd (bus_inw bus io d))) = Data c ws"
begin

lemma ioWait_view [simp]: "view (ioWait bus dev d) = view d"
  by (simp add: ioWait_def eval_nat_numeral inb_view)

lemma reset_signature: "on_bus io ctl sel dev \<Longrightarrow> at_phase (view (softReset bus dev d)) = Signature"
  by (simp add: softReset_def on_bus_def reset_off reset_on)

lemma type_patapi:
  assumes "on_bus io ctl sel dev"
  shows "\<exists>d'. AtaDevice_type bus dev d = (PATAPI, d') \<and> at_phase (view d') = Signature"
proof -
  let ?d2 = "bus_outb bus (io + 6) sel (softReset bus dev d)"
  have "at_phase (view (ioWait bus dev ?d2)) = Signature" using select[OF reset_signature[OF assms]] by simp
  then show ?thesis using assms signature[of "ioWait bus dev ?d2"] signature[of "snd (bus_inb bus (io + 4) (ioWait bus dev ?d2))"]
    by (auto simp: AtaDevice_type_def on_bus_def ata_regs inb_view case_prod_beta Let_def)
qed

lemma wait_ready:
  assumes "delay d < fuel" "at_phase (view d) = Data c ws"
  shows "\<exists>s d'. wait_forever fuel bus (io + 7) d = Inr (s, d') \<and> view d' = view d"
  using assms
proof (induction fuel arbitrary: d)
  case (Suc fuel)
  let ?d1 = "snd (bus_inb bus (io + 7) d)"
  show ?case
  proof (cases "delay d = 0")
    case True
    then show ?thesis using status_data[OF True Suc.prems(2)] inb_view[of "io + 7" d]
      by (cases "bus_inb bus (io + 7) d") (auto simp: case_prod_beta Let_def ata_bits is_busy_def is_ready_def)
  next
    case False
    then have "delay ?d1 < fuel" using status_delay[of d] Suc.prems(1) by linarith
    then obtain s d' where "wait_forever fuel bus (io + 7) ?d1 = Inr (s, d')" "view d' = view ?d1"
      using Suc.IH[of ?d1] Suc.prems(2) inb_view[of "io + 7" d] by auto
    then show ?thesis using False status_busy[of d] inb_view[of "io + 7" d]
      by (simp add: case_prod_beta Let_def ata_bits is_busy_def is_ready_def)
  qed
qed simp

lemma poll_packet_ready:
  assumes "delay d < fuel" "at_phase (view d) = Packet ws"
  shows "\<exists>s d'. poll_packet fuel bus (io + 7) d = Inr (Some s, d') \<and> is_ready s \<and> view d' = view d"
  using assms
proof (induction fuel arbitrary: d)
  case (Suc fuel)
  let ?d1 = "snd (bus_inb bus (io + 7) d)"
  show ?case
  proof (cases "delay d = 0")
    case True
    then show ?thesis using status_packet[OF True Suc.prems(2)] inb_view[of "io + 7" d]
      by (auto simp: case_prod_beta Let_def ata_bits is_busy_def is_ready_def)
  next
    case False
    then have "delay ?d1 < fuel" using status_delay[of d] Suc.prems(1) by linarith
    then obtain s d' where "poll_packet fuel bus (io + 7) ?d1 = Inr (Some s, d')" "is_ready s" "view d' = view ?d1"
      using Suc.IH[of ?d1] Suc.prems(2) inb_view[of "io + 7" d] by auto
    then show ?thesis using False status_busy[of d] inb_view[of "io + 7" d]
      by (simp add: case_prod_beta Let_def ata_bits is_busy_def is_ready_def)
  qed
qed simp

lemma poll_data_ready:
  assumes "delay d < fuel" "at_phase (view d) = Data c ws"
  shows "\<exists>s d'. poll_data fuel bus (io + 7) d = Inr (Some s, d') \<and> is_ready s \<and> view d' = view d"
  using assms
proof (induction fuel arbitrary: d)
  case (Suc fuel)
  let ?d1 = "snd (bus_inb bus (io + 7) d)"
  show ?case
  proof (cases "delay d = 0")
    case True
    then show ?thesis using status_data[OF True Suc.prems(2)] inb_view[of "io + 7" d]
      by (auto simp: case_prod_beta Let_def ata_bits is_busy_def is_ready_def)
  next
    case False
    then have "delay ?d1 < fuel" using status_delay[of d] Suc.prems(1) by linarith
    then obtain s d' where "poll_data fuel bus (io + 7) ?d1 = Inr (Some s, d')" "is_ready s" "view d' = view ?d1"
      using Suc.IH[of ?d1] Suc.prems(2) inb_view[of "io + 7" d] by auto
    then show ?thesis using False status_busy[of d] inb_view[of "io + 7" d]
      by (simp add: case_prod_beta Let_def ata_bits is_busy_def is_ready_def)
  qed
qed simp

lemma bus_outw_words:
  assumes "at_phase (view d) = Packet ws" "length ws + length us \<le> 5"
  shows "view (fold (bus_outw bus io) us d) = (view d)\<lparr>at_phase := Packet (ws @ us)\<rparr>"
  using assms
proof (induction us arbitrary: ws d)
  case (Cons u us)
  have "view (bus_outw bus io u d) = (view d)\<lparr>at_phase := Packet (ws @ [u])\<rparr>" using packet_word Cons.prems by simp
  then show ?case using Cons.IH[of "bus_outw bus io u d" "ws @ [u]"] Cons.prems(2) by simp
qed (cases "view d", simp)

lemma pioRead_data:
  assumes "ata_ioPort dev = io" "at_phase (view d) = Data c ws" "unat bytes div 2 \<le> length ws" "base + unat bytes div 2 \<le> length buf"
  shows "\<exists>d'. pioRead bus dev buf base bytes d = Inr (patch base (take (unat bytes div 2) ws) buf, d')
    \<and> at_phase (view d') = Data c (drop (unat bytes div 2) ws)"
proof -
  let ?n = "unat bytes div 2"
  let ?P = "\<lambda>k (b, e). b = patch base (take k ws) buf \<and> at_phase (view e) = Data c (drop k ws)"
  have "\<exists>t. rfor (\<lambda>i (buf, d). let (w, d1) = bus_inw bus (ata_ioPort dev) d in
             rbind (awrite buf (base + i) w) (\<lambda>buf1. Inr (buf1, d1))) 0 ?n (buf, d) = Inr t \<and> ?P (0 + ?n) t"
  proof (rule rfor_invariant)
    fix j t assume j: "j < 0 + ?n" and P: "?P j t"
    obtain b e where t: "t = (b, e)" by (cases t)
    have l: "j < length ws" "base + j < length buf" using j assms(3,4) by linarith+
    then have "drop j ws = ws ! j # drop (Suc j) ws" by (simp add: Cons_nth_drop_Suc)
    with data_word[of e c "ws ! j" "drop (Suc j) ws"] P t have w: "fst (bus_inw bus io e) = ws ! j"
      "at_phase (view (snd (bus_inw bus io e))) = Data c (drop (Suc j) ws)" by simp_all
    have "length b = length buf" using P t l by (auto simp: patch_def)
    moreover have "b[base + j := ws ! j] = patch base (take (Suc j) ws) buf"
      using P t l by (auto simp: patch_def list_update_append take_Suc_conv_app_nth min_def drop_update_cancel
          Cons_nth_drop_Suc[symmetric, of "base + j" buf])
    ultimately show "\<exists>t'. (case t of (buf, d) \<Rightarrow> let (w, d1) = bus_inw bus (ata_ioPort dev) d in
             rbind (awrite buf (base + j) w) (\<lambda>buf1. Inr (buf1, d1))) = Inr t' \<and> ?P (Suc j) t'"
      using t w l assms(1) by (simp add: case_prod_beta Let_def)
  qed (use assms(2) in \<open>simp add: patch_def\<close>)
  then show ?thesis by (auto simp: pioRead_def)
qed

lemma perform_ok:
  assumes dev: "on_bus io ctl sel dev" and fuel: "bound < fuel" and sig: "at_phase (view d) = Signature" and cmd: "length cmd = 12"
    and size: "2 * length (scsi_reply disk capacity (packet_words cmd)) \<le> unat bufSize" "unat bufSize < 65536"
    and room: "base + length (scsi_reply disk capacity (packet_words cmd)) \<le> length buf"
  shows "\<exists>d'. performPioAtapiOperation fuel bus dev cmd buf base bufSize d
    = Inr (True, patch base (scsi_reply disk capacity (packet_words cmd)) buf, d')"
proof -
  let ?r = "scsi_reply disk capacity (packet_words cmd)" and ?c = "of_nat (2 * length (scsi_reply disk capacity (packet_words cmd))) :: u16"
  define d1 where "d1 = bus_outb bus (io + 1) 0 d"
  define d2 where "d2 = bus_outb bus (io + 4) (ucast (bufSize AND 0xFF)) d1"
  define d3 where "d3 = bus_outb bus (io + 5) (ucast (drop_bit 8 bufSize)) d2"
  define d4 where "d4 = bus_outb bus (io + 7) 0xA0 d3"
  have io: "ata_ioPort dev = io" using dev by (simp add: on_bus_def)
  have f: "delay e < fuel" for e using delay_bound[of e] fuel by linarith
  have v2: "at_phase (view d2) = Idle" "at_lo (view d2) = ucast (bufSize AND 0xFF)"
    using limit_lo[OF feature[OF sig]] by (simp_all add: d2_def d1_def)
  have v3: "view d3 = (view d2)\<lparr>at_hi := ucast (drop_bit 8 bufSize)\<rparr>" using limit_hi[OF v2(1)] by (simp add: d3_def)
  have v4: "at_phase (view d4) = Packet []" "byte_limit (view d4) = ucast bufSize"
    using packet[of d3] v2 v3 limit_bytes[of bufSize] by (simp_all add: d4_def byte_limit_def)
  obtain s d5 where p5: "poll_packet fuel bus (io + 7) d4 = Inr (Some s, d5)" "view d5 = view d4"
    using poll_packet_ready[OF f v4(1)] by blast
  have len6: "length (packet_words cmd) = 6" using cmd by (simp add: packet_words_def length_words_of_bytes)
  define us where "us = take 5 (packet_words cmd)"
  have us: "packet_words cmd = us @ [packet_words cmd ! 5]" "length us = 5"
    using len6 take_Suc_conv_app_nth[of 5 "packet_words cmd"] by (simp_all add: us_def)
  let ?d6 = "fold (bus_outw bus io) (packet_words cmd) d5"
  have "view (fold (bus_outw bus io) us d5) = (view d5)\<lparr>at_phase := Packet us\<rparr>"
    using bus_outw_words[of d5 "[]" us] p5(2) v4(1) us(2) by simp
  moreover have d6: "?d6 = bus_outw bus io (packet_words cmd ! 5) (fold (bus_outw bus io) us d5)"
    using arg_cong[OF us(1), of "\<lambda>ws. fold (bus_outw bus io) ws d5"] by simp
  ultimately have v6: "at_phase (view ?d6) = Data ?c ?r"
    using packet_end[of "fold (bus_outw bus io) us d5" us "packet_words cmd ! 5"] us p5(2) v4(2) size unat_ucast_small16[of bufSize]
    unfolding d6 us(1)[symmetric] by (simp add: byte_limit_def)
  obtain s7 d7 where p7: "poll_data fuel bus (io + 7) ?d6 = Inr (Some s7, d7)" "is_ready s7" "view d7 = view ?d6"
    using poll_data_ready[OF f v6] by blast
  define d8 where "d8 = snd (bus_inb bus (io + 5) d7)"
  define d9 where "d9 = snd (bus_inb bus (io + 4) d8)"
  have v9: "view d8 = view d7" "at_phase (view d9) = Data ?c ?r" by (simp_all add: d9_def d8_def inb_view p7(3) v6)
  have hi: "fst (bus_inb bus (io + 5) d7) = ucast (drop_bit 8 ?c)" "fst (bus_inb bus (io + 4) d8) = ucast ?c"
    using byte_count[of d7 ?c ?r] byte_count[of d8 ?c ?r] v9(1) p7(3) v6 by simp_all
  have u: "unat (ucast ?c :: u32) div 2 = length ?r" using size unat_of_nat16[of "2 * length ?r"] by (simp add: unat_ucast_wide)
  obtain d10 where p10: "pioRead bus dev buf base (ucast ?c) d9 = Inr (patch base ?r buf, d10)"
    using pioRead_data[OF io v9(2), of "ucast ?c" base buf] u room by auto
  have drq: "s7 AND 8 \<noteq> 0" using p7(2) by (simp add: is_ready_def)
  show ?thesis
    using p5(1) p7(1) p10 hi drq send_packet_fold[OF cmd, of bus dev d5]
    by (simp add: performPioAtapiOperation_def io ata_regs ata_bits count_bytes Let_def case_prod_beta
        flip: d1_def d2_def d3_def d4_def d8_def d9_def)
qed

lemma scsi_read12: "scsi_reply disk capacity (packet_words (read12Command lba n)) = concat (map disk [unat lba..<unat lba + unat n])"
proof -
  have "bytes_of_words (packet_words (read12Command lba n)) = read12Command lba n"
    unfolding packet_words_def by (rule bytes_words) (simp add: read12Command_def)
  moreover have "read12Command lba n ! 0 = 0xA8" by (simp add: read12Command_def kRead12_def)
  moreover have "map (\<lambda>k. disk (unat lba + k)) [0..<unat n] = map disk [unat lba..<unat lba + unat n]"
    by (rule nth_equalityI) simp_all
  ultimately show ?thesis by (simp add: scsi_reply_def read12_fields)
qed

lemma sectors_length: "(\<And>k. length (disk k) = w) \<Longrightarrow> length (concat (map disk [a..<a + n])) = n * w"
  by (induction n) auto

lemma sectors_append: "concat (map disk [a..<a + i]) @ concat (map disk [a + i..<a + i + j]) = concat (map disk [a..<a + (i + j)])"
  using upt_add_eq_append[of a "a + i" j] by (simp add: add.assoc)

lemma readInternal_ok:
  assumes dev: "on_bus io ctl sel dev" "ata_identified dev" and fuel: "bound < fuel"
    and ss: "unat (ad_sectorSize (ata_descriptor dev)) = 2 * w" "20 * w < 65536" "\<And>k. length (disk k) = w"
    and n: "0 < unat n" "unat n \<le> 10" "unat address + unat n \<le> 2 ^ 32" and room: "base + unat n * w \<le> length buf"
  shows "\<exists>d'. readInternal fuel bus junk dev address buf base n d =
    Inr (True, patch base (concat (map disk [unat address..<unat address + unat n])) buf, dev, d')"
proof -
  have a: "unat (ucast address :: u32) = unat address"
    using n(1,3) by (simp add: unsigned_ucast_eq take_bit_nat_eq_self)
  let ?cmd = "read12Command (ucast address) n" and ?size = "ad_sectorSize (ata_descriptor dev) * n"
  have r: "scsi_reply disk capacity (packet_words ?cmd) = concat (map disk [unat address..<unat address + unat n])"
    by (simp add: scsi_read12 a)
  have "unat (ad_sectorSize (ata_descriptor dev)) * unat n \<le> 20 * w" using ss(1) n(2) by (simp add: mult.commute)
  then have "unat (ad_sectorSize (ata_descriptor dev)) * unat n < 4294967296" using ss(2) by linarith
  then have size: "unat ?size = 2 * (unat n * w)" using ss(1) by (simp add: unat_mult_small)
  obtain d3 where d3: "AtaDevice_type bus dev (ioWait bus dev (bus_outb bus (ata_ioPort dev + kAtaRegisterDriveSelect) (drive_select dev) d)) = (PATAPI, d3)"
    "at_phase (view d3) = Signature" using type_patapi[OF dev(1)] by blast
  have l: "length (concat (map disk [unat address..<unat address + unat n])) = unat n * w" using sectors_length ss(3) by blast
  have "length ?cmd = 12" by (simp add: read12Command_def)
  moreover have "unat n * w \<le> 10 * w" using n(2) by simp
  then have "unat ?size < 65536" using size ss(2) by linarith
  ultimately obtain d4 where "performPioAtapiOperation fuel bus dev ?cmd buf base ?size d3 =
      Inr (True, patch base (concat (map disk [unat address..<unat address + unat n])) buf, d4)"
    using perform_ok[OF dev(1) fuel d3(2), of ?cmd ?size base buf] r l size room by auto
  then show ?thesis using dev(2) d3(1)
    by (simp add: readInternal_def AtaDevice_sectorSize_def AtaDevice_descriptor_def)
qed

lemma read_chunks_ok:
  assumes dev: "on_bus io ctl sel dev" "ata_identified dev" and fuel: "bound < fuel"
    and ss: "unat (ad_sectorSize (ata_descriptor dev)) = 2 * w" "20 * w < 65536" "\<And>k. length (disk k) = w"
    and n: "unat address + unat n \<le> 2 ^ 32" "unat n * w < 2 ^ 31" "unat n + 10 < 2 ^ 32"
    and room: "base + unat n * w \<le> length buf" and incr: "unat bufIncr = w"
    and k: "unat n \<le> unat offset + 10 * k"
  shows "\<exists>d'. read_chunks (Suc k) fuel bus junk dev address
      (patch base (concat (map disk [unat address..<unat address + min (unat offset) (unat n)])) buf) base bufIncr n offset d =
    Inr (True, patch base (concat (map disk [unat address..<unat address + unat n])) buf, dev, d')"
  using k
proof (induction k arbitrary: offset d)
  case 0
  then have "\<not> offset < n" "min (unat offset) (unat n) = unat n" by (simp_all add: word_less_nat_alt)
  then show ?case by simp
next
  case (Suc k)
  show ?case
  proof (cases "offset < n")
    case False
    then have "min (unat offset) (unat n) = unat n" by (simp add: word_less_nat_alt)
    then show ?thesis using False by simp
  next
    case True
    let ?a = "unat address" and ?o = "unat offset"
    let ?m = "if n - offset < 10 then n - offset else 10"
    have lt: "?o < unat n" using True by (simp add: word_less_nat_alt)
    have sub: "unat (n - offset) = unat n - ?o" using True by (simp add: unat_sub word_less_nat_alt word_le_nat_alt)
    have m: "unat ?m = min 10 (unat n - ?o)" "0 < unat ?m" "unat ?m \<le> 10" using sub lt by (auto simp: word_less_nat_alt)
    have o10: "unat (offset + 10) = ?o + 10" using lt n(3) by (simp add: unat_word_ariths)
    have next_min: "min (unat (offset + 10)) (unat n) = ?o + unat ?m" using m(1) o10 lt by simp
    have om: "?o + unat ?m \<le> unat n" using m(1) lt by simp
    have addr: "unat (address + ucast offset) = ?a + ?o"
      using n(1) lt by (simp add: unat_word_ariths unsigned_ucast_eq take_bit_nat_eq_self)
    have le: "?o * w \<le> unat n * w" using lt by simp
    then have "?o * w < 2 ^ 31" using n(2) by (rule le_less_trans)
    then have "unat bufIncr * ?o < 4294967296" using incr by (simp add: mult.commute)
    then have off: "unat (bufIncr * offset) = ?o * w" using incr by (simp add: unat_mult_small)
    let ?ws = "concat (map disk [?a..<?a + ?o])" and ?vs = "concat (map disk [?a + ?o..<?a + ?o + unat ?m])"
    have l: "length ?ws = ?o * w" "length ?vs = unat ?m * w" using sectors_length ss(3) by blast+
    have sum: "?o * w + unat ?m * w \<le> unat n * w" using om by (metis add_mult_distrib mult_le_mono1)
    then have r2: "(base + ?o * w) + unat ?m * w \<le> length buf" using room by linarith
    have "base + length ?ws \<le> length buf" using le room unfolding l(1) by linarith
    then have "length (patch base ?ws buf) = length buf" by (rule length_patch)
    then obtain d1 where d1: "readInternal fuel bus junk dev (address + ucast offset) (patch base ?ws buf) (base + unat (bufIncr * offset)) ?m d =
        Inr (True, patch (base + ?o * w) ?vs (patch base ?ws buf), dev, d1)"
      using readInternal_ok[OF dev fuel ss m(2,3), of "address + ucast offset" "base + ?o * w" "patch base ?ws buf" junk d]
        addr off r2 om n(1) by auto
    have "patch (base + ?o * w) ?vs (patch base ?ws buf) = patch base (?ws @ ?vs) buf"
      using patch_append[of base ?ws ?vs buf] l r2 by simp
    also have "?ws @ ?vs = concat (map disk [?a..<?a + (?o + unat ?m)])"
      by (rule sectors_append)
    finally have p: "patch (base + ?o * w) ?vs (patch base ?ws buf) = patch base (concat (map disk [?a..<?a + (?o + unat ?m)])) buf" .
    have "unat n \<le> unat (offset + 10) + 10 * k" using Suc.prems o10 by simp
    from Suc.IH[OF this, of d1] next_min obtain d2 where "read_chunks (Suc k) fuel bus junk dev address
        (patch base (concat (map disk [?a..<?a + (?o + unat ?m)])) buf) base bufIncr n (offset + 10) d1 =
      Inr (True, patch base (concat (map disk [?a..<?a + unat n])) buf, dev, d2)" by auto
    then show ?thesis using True d1 p lt by (simp add: read_chunks.simps(2)[of "Suc k"] Let_def min_absorb1 del: read_chunks.simps)
  qed
qed

lemma read_ok:
  assumes dev: "on_bus io ctl sel dev" "ata_identified dev" and fuel: "bound < fuel" "unat n < fuel"
    and ss: "unat (ad_sectorSize (ata_descriptor dev)) = 2 * w" "20 * w < 65536" "\<And>k. length (disk k) = w"
    and n: "0 < unat n" "unat address + unat n \<le> 2 ^ 32" "unat n * w < 2 ^ 31" "unat n < 2 ^ 31"
    and room: "base + unat n * w \<le> length buf"
  shows "\<exists>d'. AtaDevice_read fuel bus junk dev address buf base n d =
    Inr (True, patch base (concat (map disk [unat address..<unat address + unat n])) buf, dev, d')"
proof (cases "n > 10")
  case False
  then have "unat n \<le> 10" by (simp add: word_less_nat_alt)
  moreover have "n \<noteq> 0" using n(1) by auto
  ultimately show ?thesis using readInternal_ok[OF dev fuel(1) ss n(1)] n(2) room False by (simp add: AtaDevice_read_def)
next
  case True
  obtain k where k: "fuel = Suc k" using fuel(2) by (cases fuel) auto
  have "unat (ad_sectorSize (ata_descriptor dev) div 2) = w" using ss(1) by simp
  from read_chunks_ok[OF dev fuel(1) ss n(2,3) _ room this, where offset = 0 and k = k and junk = junk and d = d] n(4) k fuel(2)
  obtain d' where "read_chunks fuel fuel bus junk dev address buf base (ad_sectorSize (ata_descriptor dev) div 2) n 0 d =
    Inr (True, patch base (concat (map disk [unat address..<unat address + unat n])) buf, dev, d')" by auto
  then show ?thesis using True dev(2) n(1) by (auto simp: AtaDevice_read_def AtaDevice_sectorSize_def AtaDevice_descriptor_def)
qed

lemma scsi_capacity: "scsi_reply disk capacity (packet_words readCapacityCommand) = capacity"
proof -
  have "bytes_of_words (packet_words readCapacityCommand) = readCapacityCommand"
    unfolding packet_words_def by (rule bytes_words) (simp add: readCapacityCommand_def)
  then show ?thesis by (simp add: scsi_reply_def readCapacityCommand_def kReadCapacity_def)
qed

lemma identify_ok:
  assumes dev: "on_bus io ctl sel dev" and fuel: "bound < fuel" and cap: "length capacity = 4"
    and ident_length: "length ident = 256" and desc: "ad_littleEndian (ata_descriptor dev)" "length (ad_serial (ata_descriptor dev)) = 21"
      "length (ad_firmware (ata_descriptor dev)) = 9" "length (ad_model (ata_descriptor dev)) = 41"
    and str: "0 \<notin> set (ata_string ident 10 10)" "0 \<notin> set (ata_string ident 23 4)" "0 \<notin> set (ata_string ident 27 20)"
  shows "\<exists>desc1 d'. identify fuel bus junk dev d = Inr (dev\<lparr>ata_identified := True, ata_descriptor := desc1\<rparr>, d')
    \<and> ad_littleEndian desc1
    \<and> ad_serial desc1 = ata_string ident 10 10 @ [0] \<and> ad_firmware desc1 = ata_string ident 23 4 @ [0]
    \<and> ad_model desc1 = ata_string ident 27 20 @ [0]
    \<and> ad_lba28bitSectorCount desc1 = load32 (bytes_of_words ident) 120
    \<and> ad_lba48bitSectorCount desc1 = load64 (bytes_of_words ident) 200
    \<and> ad_atapiEndLba desc1 = be32 (bytes_of_words capacity) 0 \<and> ad_sectorSize desc1 = be32 (bytes_of_words capacity) 4"
proof -
  have io: "ata_ioPort dev = io" "ata_controlPort dev = ctl" "drive_select dev = sel" using dev by (simp_all add: on_bus_def)
  have f: "delay e < fuel" for e using delay_bound[of e] fuel by linarith
  let ?d3 = "bus_outb bus (io + 6) sel (bus_outb bus ctl 0 (bus_outb bus (io + 1) 0 d))"
  obtain d4 where d4: "AtaDevice_type bus dev (ioWait bus dev ?d3) = (PATAPI, d4)" "at_phase (view d4) = Signature"
    using type_patapi[OF dev] by blast
  let ?d6 = "ioWait bus dev (ioWait bus dev (bus_outb bus (io + 7) 0xA1 d4))"
  have "at_phase (view ?d6) = Data 512 ident" using identify_packet[OF d4(2)] by simp
  with wait_ready[OF f, of ?d6] obtain s d7 where d7: "wait_forever fuel bus (io + 7) ?d6 = Inr (s, d7)"
    "at_phase (view d7) = Data 512 ident" by force
  let ?ws = "patch 0 (take 128 ident) (map junk [0..<256])"
  obtain d8 where d8: "pioRead bus dev (map junk [0..<256]) 0 256 d7 = Inr (?ws, d8)"
    using pioRead_data[OF io(1) d7(2), of 256 0 "map junk [0..<256]"] ident_length by auto
  have pre: "take 128 ?ws = take 128 ident" "length ?ws = 256" using ident_length by (simp_all add: patch_def)
  have str_pre: "ata_string ?ws off n = ata_string ident off n" if "off + n \<le> 128" for off n
  proof -
    have "take n (drop off ?ws) = take n (drop off (take 128 ?ws))" using that by (simp add: drop_take)
    also have "\<dots> = take n (drop off ident)" unfolding pre(1) using that by (simp add: drop_take)
    finally show ?thesis by (simp add: ata_string_def)
  qed
  have byte_pre: "bytes_of_words ?ws ! i = bytes_of_words ident ! i" if "i < 256" for i
  proof -
    have "bytes_of_words ?ws ! i = take (2 * 128) (bytes_of_words ?ws) ! i" using that by simp
    also have "\<dots> = take (2 * 128) (bytes_of_words ident) ! i" unfolding take_bytes pre(1) ..
    finally show ?thesis using that by simp
  qed
  have loads: "load32 (bytes_of_words ?ws) 120 = load32 (bytes_of_words ident) 120"
    "load64 (bytes_of_words ?ws) 200 = load64 (bytes_of_words ident) 200" by (simp_all add: load64_def load32_def byte_pre)
  obtain desc0 b where r: "readIdentity (ata_descriptor dev) (Some (bytes_of_words ?ws)) = Inr (desc0, Some b)"
    and desc0: "ad_littleEndian desc0" "ad_serial desc0 = ata_string ident 10 10 @ [0]" "ad_firmware desc0 = ata_string ident 23 4 @ [0]"
      "ad_model desc0 = ata_string ident 27 20 @ [0]" "ad_lba28bitSectorCount desc0 = load32 (bytes_of_words ident) 120"
      "ad_lba48bitSectorCount desc0 = load64 (bytes_of_words ident) 200"
    using readIdentity_ok[OF desc pre(2)] str str_pre loads desc(1) by auto
  let ?dev1 = "dev\<lparr>ata_descriptor := desc0, ata_identified := True\<rparr>"
  have dev1: "on_bus io ctl sel ?dev1" using dev by (simp add: on_bus_def drive_select_def)
  obtain d9 where d9: "AtaDevice_type bus ?dev1 d8 = (PATAPI, d9)" "at_phase (view d9) = Signature"
    using type_patapi[OF dev1] by blast
  obtain d10 where d10: "performPioAtapiOperation fuel bus ?dev1 readCapacityCommand (map junk [0..<4]) 0 8 d9 = Inr (True, capacity, d10)"
    using perform_ok[OF dev1 fuel d9(2), of readCapacityCommand 8 0 "map junk [0..<4]"] cap
    by (auto simp: scsi_capacity readCapacityCommand_def[THEN arg_cong, of length] patch_def)
  have c: "readAtapiCapacity desc0 (Some capacity) =
      Inr (desc0\<lparr>ad_atapiEndLba := be32 (bytes_of_words capacity) 0, ad_sectorSize := be32 (bytes_of_words capacity) 4\<rparr>)"
    using cap desc0(1) by (simp add: readAtapiCapacity_def endianSwap_load)
  let ?desc1 = "desc0\<lparr>ad_atapiEndLba := be32 (bytes_of_words capacity) 0, ad_sectorSize := be32 (bytes_of_words capacity) 4\<rparr>"
  have "identify fuel bus junk dev d = Inr (dev\<lparr>ata_identified := True, ata_descriptor := ?desc1\<rparr>, d10)"
    using d4(1) d7(1) d8 r d9(1) d10 c
    by (simp add: identify_def io ata_regs Let_def waitUntilReady_def waitForStatus_def)
  then show ?thesis using desc0 by (intro exI[of _ ?desc1] exI[of _ d10]) simp
qed

end

section \<open>A device\<close>

text \<open>
  An ATAPI device with the given sectors, capacity reply and identity that stays busy for \<open>lag\<close>
  status reads after each command.
\<close>

record sim =
  sim_view :: atapi
  sim_delay :: nat

definition sim_inb :: "u16 \<Rightarrow> nat \<Rightarrow> u16 \<Rightarrow> sim \<Rightarrow> u8 \<times> sim" where
  "sim_inb io lag p d =
     (if p = io + 7
      then if 0 < min (sim_delay d) lag then (0x80, d\<lparr>sim_delay := min (sim_delay d) lag - 1\<rparr>)
           else (case at_phase (sim_view d) of Packet ws \<Rightarrow> 0x58 | Data c ws \<Rightarrow> 0x58 | _ \<Rightarrow> 0x50, d)
      else if p = io + 4
      then (case at_phase (sim_view d) of Signature \<Rightarrow> 0x14 | Data c ws \<Rightarrow> ucast c | _ \<Rightarrow> at_lo (sim_view d), d)
      else if p = io + 5
      then (case at_phase (sim_view d) of Signature \<Rightarrow> 0xEB | Data c ws \<Rightarrow> ucast (drop_bit 8 c) | _ \<Rightarrow> at_hi (sim_view d), d)
      else (0, d))"

definition sim_outb :: "u16 \<Rightarrow> u16 \<Rightarrow> nat \<Rightarrow> u16 list \<Rightarrow> u16 \<Rightarrow> u8 \<Rightarrow> sim \<Rightarrow> sim" where
  "sim_outb io ctl lag ident p v d =
     (let a = sim_view d in
      if p = ctl
      then if v = 4 then d\<lparr>sim_view := a\<lparr>at_phase := Resetting\<rparr>\<rparr>
           else if at_phase a = Resetting then d\<lparr>sim_view := a\<lparr>at_phase := Signature\<rparr>\<rparr> else d
      else if p = io + 4 then d\<lparr>sim_view := a\<lparr>at_phase := Idle, at_lo := v\<rparr>\<rparr>
      else if p = io + 5 then d\<lparr>sim_view := a\<lparr>at_hi := v\<rparr>\<rparr>
      else if p = io + 7 \<and> v = 0xA0 then \<lparr>sim_view = a\<lparr>at_phase := Packet []\<rparr>, sim_delay = lag\<rparr>
      else if p = io + 7 \<and> v = 0xA1 then \<lparr>sim_view = a\<lparr>at_phase := Data 512 ident\<rparr>, sim_delay = lag\<rparr>
      else d)"

definition sim_inw :: "u16 \<Rightarrow> sim \<Rightarrow> u16 \<times> sim" where
  "sim_inw p d = (case at_phase (sim_view d) of
     Data c (w # ws) \<Rightarrow> (w, d\<lparr>sim_view := (sim_view d)\<lparr>at_phase := Data c ws\<rparr>\<rparr>)
   | _ \<Rightarrow> (0xFFFF, d))"

definition sim_outw :: "(nat \<Rightarrow> u16 list) \<Rightarrow> u16 list \<Rightarrow> nat \<Rightarrow> u16 \<Rightarrow> u16 \<Rightarrow> sim \<Rightarrow> sim" where
  "sim_outw disk capacity lag p w d = (case at_phase (sim_view d) of
     Packet ws \<Rightarrow>
       if length ws < 5 then d\<lparr>sim_view := (sim_view d)\<lparr>at_phase := Packet (ws @ [w])\<rparr>\<rparr>
       else let r = scsi_reply disk capacity (ws @ [w]) in
            \<lparr>sim_view = (sim_view d)\<lparr>at_phase := Data (of_nat (2 * length r)) r\<rparr>, sim_delay = lag\<rparr>
   | _ \<Rightarrow> d)"

definition sim_bus :: "bool \<Rightarrow> nat \<Rightarrow> (nat \<Rightarrow> u16 list) \<Rightarrow> u16 list \<Rightarrow> u16 list \<Rightarrow> sim bus" where
  "sim_bus primary lag disk capacity ident =
     \<lparr>bus_inb = sim_inb (ioPort primary) lag, bus_outb = sim_outb (ioPort primary) (controlPort primary) lag ident,
      bus_inw = sim_inw, bus_outw = sim_outw disk capacity lag\<rparr>"

lemma ports_differ: "controlPort primary \<noteq> ioPort primary + 1" "controlPort primary \<noteq> ioPort primary + 4"
    "controlPort primary \<noteq> ioPort primary + 5" "controlPort primary \<noteq> ioPort primary + 6" "controlPort primary \<noteq> ioPort primary + 7"
  by (simp_all add: controlPort_def ioPort_def)

lemma sim_ready: "is_ready 0x58" "is_busy 0x80"
  by (simp_all add: is_ready_def is_busy_def)

interpretation sim: atapi_bus "sim_bus primary lag disk capacity ident" "ioPort primary" "controlPort primary" sel
  sim_view "\<lambda>d. min (sim_delay d) lag" lag disk capacity ident
  for primary lag disk capacity ident sel
  by unfold_locales
    (auto simp: sim_bus_def sim_inb_def sim_outb_def sim_inw_def sim_outw_def sim_ready Let_def
      ports_differ ports_differ[symmetric] split: atapi_phase.splits list.splits)

section \<open>Properties\<close>

text \<open>
  The words the driver sends for READ (12), low byte first on the wire, are a packet with
  opcode A8 whose big-endian address and length fields are the arguments.
\<close>

theorem read12Command_roundtrip:
  "bytes_of_words (packet_words (read12Command lba n)) ! 0 = kRead12
   \<and> be32 (bytes_of_words (packet_words (read12Command lba n))) 2 = lba
   \<and> be32 (bytes_of_words (packet_words (read12Command lba n))) 6 = n
   \<and> length (packet_words (read12Command lba n)) = 6"
proof -
  have "bytes_of_words (packet_words (read12Command lba n)) = read12Command lba n"
    unfolding packet_words_def by (rule bytes_words) (simp add: read12Command_def)
  then show ?thesis by (simp add: read12_fields packet_words_def length_words_of_bytes) (simp add: read12Command_def)
qed

text \<open>
  C22. Reading sectors from an ATAPI device that follows the packet protocol succeeds and puts
  exactly the requested sectors, in order, at the start of the buffer, in packets of at most ten
  sectors, and touches nothing else of the buffer. The device may stay busy for a bounded number
  of status reads, and polling it more often than that is enough.
\<close>

theorem AtaDevice_read_correct:
  assumes "atapi_bus bus io ctl sel view delay bound disk capacity ident"
    and "on_bus io ctl sel dev" "ata_identified dev" "bound < fuel" "unat sectors < fuel"
    and "unat (ad_sectorSize (ata_descriptor dev)) = 2 * w" "20 * w < 65536" "\<And>k. length (disk k) = w"
    and "0 < unat sectors" "unat address + unat sectors \<le> 2 ^ 32" "unat sectors * w < 2 ^ 31" "unat sectors < 2 ^ 31"
    and "base + unat sectors * w \<le> length buf"
  shows "\<exists>d'. AtaDevice_read fuel bus junk dev address buf base sectors d =
    Inr (True, take base buf @ concat (map disk [unat address..<unat address + unat sectors])
               @ drop (base + unat sectors * w) buf, dev, d')"
  using atapi_bus.read_ok[OF assms(1) assms(2-13), of junk d] atapi_bus.sectors_length[OF assms(1), of w "unat address" "unat sectors"]
    assms(8) by (simp add: patch_def)

definition example_descriptor :: AtaDeviceDescriptor where
  "example_descriptor = \<lparr>ad_littleEndian = True, ad_firmware = replicate 9 0, ad_model = replicate 41 0, ad_serial = replicate 21 0,
     ad_lba28bitSectorCount = 0, ad_lba48bitSectorCount = 0, ad_atapiEndLba = 0, ad_sectorSize = 4\<rparr>"

definition example_device :: "bool \<Rightarrow> X86AtaDevice" where
  "example_device b = \<lparr>ata_primary = True, ata_slaveBit = 0, ata_ioPort = ioPort True, ata_controlPort = controlPort True,
     ata_identified = b, ata_descriptor = example_descriptor\<rparr>"

definition example_disk :: "nat \<Rightarrow> u16 list" where
  "example_disk k = [of_nat k, 7]"

definition example_sim :: sim where
  "example_sim = \<lparr>sim_view = \<lparr>at_phase = Idle, at_lo = 0, at_hi = 0\<rparr>, sim_delay = 0\<rparr>"

lemma example_on_bus: "on_bus (ioPort True) (controlPort True) 0xA0 (example_device b)"
  by (simp add: on_bus_def example_device_def drive_select_def)

theorem AtaDevice_read_correct_witness:
  "\<exists>d'. AtaDevice_read 20 (sim_bus True 3 example_disk [] []) (\<lambda>_. 0) (example_device True) 5 (replicate 24 0) 0 12 example_sim =
    Inr (True, take 0 (replicate 24 0) @ concat (map example_disk [5..<17]) @ drop (0 + 12 * 2) (replicate 24 0), example_device True, d')"
proof -
  have "atapi_bus (sim_bus True 3 example_disk [] []) (ioPort True) (controlPort True) 0xA0 sim_view (\<lambda>d. min (sim_delay d) 3) 3
      example_disk [] []" by (rule sim.atapi_bus_axioms)
  from AtaDevice_read_correct[OF this example_on_bus[of True], where fuel = 20 and sectors = 12 and w = 2
      and address = 5 and base = 0 and buf = "replicate 24 0" and junk = "\<lambda>_. 0" and d = example_sim]
  show ?thesis by (simp add: example_device_def example_descriptor_def example_disk_def)
qed

text \<open>
  C38. Identifying an ATAPI device that follows the protocol succeeds whatever is in the driver's
  uninitialised buffers: model, serial and firmware are the device's strings, terminated, and the
  sector size and last block address are the ones READ CAPACITY reports.
\<close>

theorem identify_correct:
  assumes "atapi_bus bus io ctl sel view delay bound disk capacity ident"
    and "on_bus io ctl sel dev" "bound < fuel" "length capacity = 4" "length ident = 256"
    and "ad_littleEndian (ata_descriptor dev)" "length (ad_serial (ata_descriptor dev)) = 21"
      "length (ad_firmware (ata_descriptor dev)) = 9" "length (ad_model (ata_descriptor dev)) = 41"
    and "0 \<notin> set (ata_string ident 10 10)" "0 \<notin> set (ata_string ident 23 4)" "0 \<notin> set (ata_string ident 27 20)"
  shows "\<exists>desc1 d'. identify fuel bus junk dev d = Inr (dev\<lparr>ata_identified := True, ata_descriptor := desc1\<rparr>, d')
    \<and> ad_serial desc1 = ata_string ident 10 10 @ [0] \<and> ad_firmware desc1 = ata_string ident 23 4 @ [0]
    \<and> ad_model desc1 = ata_string ident 27 20 @ [0]
    \<and> ad_lba48bitSectorCount desc1 = load64 (bytes_of_words ident) 200
    \<and> ad_atapiEndLba desc1 = be32 (bytes_of_words capacity) 0 \<and> ad_sectorSize desc1 = be32 (bytes_of_words capacity) 4"
  using atapi_bus.identify_ok[OF assms] by blast

lemma example_ident: "n \<noteq> 0 \<Longrightarrow> 0 \<notin> set (ata_string (replicate 256 0x4142) off n)"
  by (auto simp: ata_string_def in_set_replicate dest!: in_set_takeD)

theorem identify_correct_witness:
  "\<exists>desc1 d'. identify 10 (sim_bus True 3 example_disk [0, 1, 0, 8] (replicate 256 0x4142)) (\<lambda>_. 0) (example_device False) example_sim =
      Inr ((example_device False)\<lparr>ata_identified := True, ata_descriptor := desc1\<rparr>, d')
    \<and> ad_model desc1 = ata_string (replicate 256 0x4142) 27 20 @ [0] \<and> ad_sectorSize desc1 = be32 (bytes_of_words [0, 1, 0, 8]) 4"
proof -
  have "atapi_bus (sim_bus True 3 example_disk [0, 1, 0, 8] (replicate 256 0x4142)) (ioPort True) (controlPort True) 0xA0 sim_view
      (\<lambda>d. min (sim_delay d) 3) 3 example_disk [0, 1, 0, 8] (replicate 256 0x4142)" by (rule sim.atapi_bus_axioms)
  from identify_correct[OF this example_on_bus[of False] _ _ _ _ _ _ _ example_ident example_ident example_ident,
      where fuel = 10 and junk = "\<lambda>_. 0" and d = example_sim]
  show ?thesis by (auto simp: example_device_def example_descriptor_def)
qed

end
