(* ===== verification/Iso_Props.thy ===== *)
theory Iso_Props
  imports Iso9660 Ata_Props
begin

text \<open>
  Correctness of the ISO 9660 file system over block devices. A block device is specified by the
  locale \<open>sector_device\<close>: reading delivers the sectors of a disk. The contents of a directory are
  its \<open>listing\<close>, and \<open>resolves\<close> says which entry a list of names leads to. The ATAPI driver of
  \<open>Ata\<close> implements the locale on every bus that follows the packet protocol, so that the two
  properties at the end are about the file system composed with the driver.
\<close>

section \<open>C strings\<close>

lemma strncpy_loop_cstr:
  "i + n \<le> length src \<Longrightarrow> i + n \<le> length dst \<Longrightarrow>
   \<exists>d. strncpy_loop dst src i n = Inr d \<and> length d = length dst \<and> take i d = take i dst
     \<and> (let c = ctext (take n (drop i src)) in take (length c) (drop i d) = c \<and> (length c < n \<longrightarrow> d ! (i + length c) = 0))"
proof (induction n arbitrary: i dst)
  case 0
  then show ?case by (simp add: ctext_def)
next
  case (Suc n)
  have d: "drop i src = src ! i # drop (Suc i) src" using Suc.prems by (simp add: Cons_nth_drop_Suc)
  let ?dst = "dst[i := src ! i]"
  show ?case
  proof (cases "src ! i = 0")
    case True
    then show ?thesis using Suc.prems by (simp add: ctext_def d)
  next
    case False
    let ?c = "ctext (take n (drop (Suc i) src))"
    from Suc.IH[of "Suc i" ?dst] Suc.prems obtain e where e: "strncpy_loop ?dst src (Suc i) n = Inr e" "length e = length dst"
      "take (Suc i) e = take (Suc i) ?dst" "take (length ?c) (drop (Suc i) e) = ?c" "length ?c < n \<longrightarrow> e ! (Suc i + length ?c) = 0"
      by (auto simp: Let_def)
    have c: "ctext (take (Suc n) (drop i src)) = src ! i # ?c" using False by (simp add: ctext_def d)
    have "e ! i = take (Suc i) e ! i" by simp
    also have "\<dots> = src ! i" using e(3) Suc.prems by simp
    finally have ei: "e ! i = src ! i" .
    have "take i e = take i (take (Suc i) e)" by (simp add: min_def)
    also have "\<dots> = take i dst" unfolding e(3) by (simp add: min_def)
    finally have "take i e = take i dst" .
    moreover have "drop i e = e ! i # drop (Suc i) e" using e(2) Suc.prems by (simp add: Cons_nth_drop_Suc)
    ultimately show ?thesis using e ei False Suc.prems by (simp add: c Let_def)
  qed
qed

lemma of_len_cstr:
  assumes "unat n \<le> length str" "unat n + 1 < 2 ^ 32"
  shows "\<exists>s. BasicString_of_len g str n = Inr s \<and> bs_inv s \<and> bs_size s = n \<and> ctext (bs_data s) = ctext (take (unat n) str)"
proof -
  have n: "unat (n + 1) = unat n + 1" using assms(2) by (subst unat_plus_small) simp_all
  let ?d = "DynamicArray_new g (n + 1)" and ?c = "ctext (take (unat n) str)"
  have d: "length ?d = unat n + 1" using n by (simp add: DynamicArray_new_def)
  from strncpy_loop_cstr[of 0 "unat n" str ?d] assms(1) d obtain e where e: "strncpy_loop ?d str 0 (unat n) = Inr e" "length e = unat n + 1"
    "take (length ?c) e = ?c" "length ?c < unat n \<longrightarrow> e ! length ?c = 0" by (auto simp: Let_def)
  have l: "length ?c \<le> unat n" using length_takeWhile_le[of _ "take (unat n) str"] by (simp add: ctext_def)
  have "(if n > 0 then strncpy_loop ?d str 0 (unat n) else Inr ?d) = Inr (if n > 0 then e else ?d)" using e(1) by simp
  define f where "f = (if n > 0 then e else ?d)"
  have f: "length f = unat n + 1" "take (length ?c) f = ?c" "length ?c < unat n \<longrightarrow> f ! length ?c = 0"
    using e d l by (auto simp: f_def word_gt_0)
  let ?e = "f[unat n := 0]"
  have "?e ! length ?c = 0" using f l by (cases "length ?c = unat n") auto
  moreover have "take (length ?c) ?e = ?c" using f(2) l by simp
  moreover have "length ?c < length ?e" using l f(1) by simp
  ultimately have "?e = ?c @ 0 # drop (Suc (length ?c)) ?e" using id_take_nth_drop[of "length ?c" ?e] by simp
  from arg_cong[OF this, of ctext] have "ctext ?e = ?c" unfolding ctext_terminated[OF ctext_no_zero] .
  then show ?thesis using e(1) f(1) assms(2)
    by (auto simp: BasicString_of_len_def Let_def bs_inv_def f_def split: if_splits)
qed

lemma of_len_inv:
  assumes "BasicString_of_len g str n = Inr s"
  shows "bs_inv s \<and> bs_size s = n \<and> length (bs_data s) = unat n + 1"
proof -
  have keep: "strncpy_loop dst src i k = Inr d \<Longrightarrow> length d = length dst" for dst src i k d
    by (induction k arbitrary: i dst) (auto simp: awrite_Inr_iff split: if_splits)
  from assms obtain d where d0: "(if n > 0 then strncpy_loop (DynamicArray_new g (n + 1)) str 0 (unat n) else Inr (DynamicArray_new g (n + 1))) = Inr d"
    and d1: "unat n < length d" "s = \<lparr>bs_data = d[unat n := 0], bs_size = n\<rparr>"
    unfolding BasicString_of_len_def Let_def by (elim rbind_InrE) (simp add: awrite_Inr_iff)
  have "length d = unat (n + 1)" using d0 keep by (auto simp: DynamicArray_new_def split: if_splits)
  note d = this d1
  have "unat n < unat (n + 1)" using d(1,2) by simp
  then have "unat (n + 1) = unat n + 1" by (cases "unat n + 1 < 4294967296") (auto simp: unat_word_ariths)
  moreover have "unat (n + 1) < 4294967296" by simp
  ultimately show ?thesis using d by (auto simp: bs_inv_def)
qed

lemma copy_cstr:
  assumes "bs_inv s"
  shows "\<exists>s'. BasicString_copy g s = Inr s' \<and> bs_inv s' \<and> ctext (bs_data s') = ctext (bs_data s)"
proof -
  have s: "unat (bs_size s) < length (bs_data s)" "length (bs_data s) < 2 ^ 32" "bs_data s ! unat (bs_size s) = 0"
    using assms by (simp_all add: bs_inv_def)
  have "ctext (take (unat (bs_size s)) (bs_data s)) = ctext (bs_data s)"
  proof -
    have "bs_data s = take (unat (bs_size s)) (bs_data s) @ 0 # drop (Suc (unat (bs_size s))) (bs_data s)"
      using id_take_nth_drop[OF s(1)] s(3) by simp
    then have "ctext (bs_data s) = ctext (take (unat (bs_size s)) (bs_data s) @ 0 # drop (Suc (unat (bs_size s))) (bs_data s))"
      by (rule arg_cong)
    also have "\<dots> = ctext (take (unat (bs_size s)) (bs_data s))" by (simp add: ctext_def takeWhile_tail)
    finally show ?thesis by simp
  qed
  then show ?thesis using of_len_cstr[of "bs_size s" "bs_data s" g] s by (auto simp: BasicString_copy_def)
qed

lemma inv_terminated: "bs_inv s \<Longrightarrow> 0 \<in> set (bs_data s)"
  by (auto simp: bs_inv_def in_set_conv_nth)

lemma append_n_inv:
  assumes "BasicString_append_n g s str n = Inr s'" "length (bs_data s) < 2 ^ 32"
  shows "bs_inv s'"
proof -
  have keep: "rfor (\<lambda>i d. rbind (aread str i) (awrite d (k + i))) i m d = Inr d' \<Longrightarrow> length d' = length d" for k i m d d'
    by (induction m arbitrary: i d) (auto simp: awrite_Inr_iff)
  have resize: "DynamicArray_resize g d x 0 = Inr d' \<Longrightarrow> length d' < 2 ^ 32" for d x d'
    by (auto simp: DynamicArray_resize_def Resizer_resize_def split: if_splits)
  from assms(1) obtain d d1 where r: "rfor (\<lambda>i d. rbind (aread str i) (awrite d (unat (bs_size s) + i))) 0 (unat n) d = Inr d1"
    and b: "(if bs_size s + n + 1 > BasicString_capacity s
      then DynamicArray_resize g (bs_data s) (if bs_size s + n + 1 > BasicString_capacity s * 2 then bs_size s + n + 1 else 0) 0
      else Inr (bs_data s)) = Inr d"
    and s': "s' = s\<lparr>bs_data := d1[unat (bs_size s + n) := 0], bs_size := bs_size s + n\<rparr>" "unat (bs_size s + n) < length d1"
    unfolding BasicString_append_n_def Let_def by (elim rbind_InrE) (simp add: awrite_Inr_iff)
  have "length d < 2 ^ 32" using b assms(2) resize by (auto split: if_splits)
  then show ?thesis using keep[OF r] s' by (simp add: bs_inv_def)
qed

section \<open>Directories\<close>

lemma DirectoryEntry_new_inv:
  assumes "DirectoryEntry_new g b p = Inr e"
  shows "bs_inv (de_name e)"
proof -
  from assms obtain nl raw name where n: "BasicString_of_len g (drop (p + 33) b) (ucast (nl :: u8)) = Inr raw" "BasicString_copy g raw = Inr name"
    and e: "de_name e = name \<or> (\<exists>m i. rockRidgeName g b i = Inr m \<and> BasicString_assign g False name m = Inr (de_name e))"
    unfolding DirectoryEntry_new_def Let_def by (elim rbind_InrE) (auto split: option.splits, blast)
  have nm: "bs_inv name" using n(2) of_len_inv by (auto simp: BasicString_copy_def)
  show ?thesis using e
  proof
    assume "\<exists>m i. rockRidgeName g b i = Inr m \<and> BasicString_assign g False name m = Inr (de_name e)"
    then obtain m where "BasicString_assign g False name m = Inr (de_name e)" by blast
    then have "BasicString_append_n g (name\<lparr>bs_size := 0\<rparr>) (bs_data m) (bs_size m) = Inr (de_name e)"
      by (simp add: BasicString_assign_def BasicString_append_def Let_def)
    from append_n_inv[OF this] nm show ?thesis by (simp add: bs_inv_def)
  qed (use nm in simp)
qed

text \<open>The records of a directory, from the one at \<open>p\<close> to the terminator.\<close>

inductive listing :: "u8 \<Rightarrow> u8 list \<Rightarrow> nat \<Rightarrow> DirectoryEntry list \<Rightarrow> bool" for g b where
  listing_end: "aread b p = Inr 0 \<Longrightarrow> listing g b p []"
| listing_rec: "aread b p = Inr len \<Longrightarrow> len \<noteq> 0 \<Longrightarrow> DirectoryEntry_new g b p = Inr e \<Longrightarrow> listing g b (p + unat len) es \<Longrightarrow> listing g b p (e # es)"

definition entry_name :: "DirectoryEntry \<Rightarrow> u8 list" where
  "entry_name e = ctext (bs_data (de_name e))"

lemma find_scan_ok:
  assumes "listing g b p es" "0 \<in> set elem"
  shows "find_scan g b p elem = Inr (find (\<lambda>e. entry_name e = ctext elem) es)"
  using assms
proof (induction rule: listing.induct)
  case (listing_end p)
  then show ?case by (simp add: find_scan.simps)
next
  case (listing_rec p len e es)
  obtain c where "strcmp (bs_data (de_name e)) elem = Inr c" "c = 0 \<longleftrightarrow> entry_name e = ctext elem"
    using strcmp_ok[OF inv_terminated[OF DirectoryEntry_new_inv[OF listing_rec.hyps(3)]] listing_rec.prems] by (auto simp: entry_name_def)
  then show ?case using listing_rec by (simp add: find_scan.simps[of g b p])
qed

lemma listing_names: "listing g b p es \<Longrightarrow> e \<in> set es \<Longrightarrow> bs_inv (de_name e)"
  by (induction rule: listing.induct) (auto dest: DirectoryEntry_new_inv)

section \<open>Devices that hold sectors\<close>

locale sector_device =
  fixes ops :: "'d AtaOps" and live :: "'d \<Rightarrow> bool" and ss :: u32 and disk :: "nat \<Rightarrow> u8 list" and maxn :: nat
  assumes size_ok: "live d \<Longrightarrow> \<exists>d'. op_sectorSize ops d = Inr (ss, d') \<and> live d'"
    and read_ok: "live d \<Longrightarrow> unat n \<le> maxn \<Longrightarrow> unat a + unat n \<le> 2 ^ 32 \<Longrightarrow> length buf = unat n * unat ss \<Longrightarrow>
      \<exists>ok d'. op_read ops a buf n d = Inr (ok, concat (map disk [unat a..<unat a + unat n]), d') \<and> live d'"
    and disk_length: "length (disk k) = unat ss"
    and ss_pos: "0 < unat ss" and max_fits: "maxn * unat ss < 2 ^ 32"
begin

lemma disk_run_length: "length (concat (map disk [a..<a + n])) = n * unat ss"
  by (induction n) (auto simp: disk_length)

end

text \<open>The number of sectors of an extent, and the extent lies on the device.\<close>

definition extent_sectors :: "u32 \<Rightarrow> DirectoryEntry \<Rightarrow> nat" where
  "extent_sectors ss e = (unat (de_extentLength e) + unat ss - 1) div unat ss"

definition extent_ok :: "u32 \<Rightarrow> nat \<Rightarrow> DirectoryEntry \<Rightarrow> bool" where
  "extent_ok ss maxn e \<longleftrightarrow> extent_sectors ss e \<le> maxn \<and> unat (de_extentLba e) + extent_sectors ss e \<le> 2 ^ 32"

definition extent_bytes :: "u32 \<Rightarrow> (nat \<Rightarrow> u8 list) \<Rightarrow> DirectoryEntry \<Rightarrow> u8 list" where
  "extent_bytes ss disk e = concat (map disk [unat (de_extentLba e)..<unat (de_extentLba e) + extent_sectors ss e])"

lemma div_up: "0 < (s :: nat) \<Longrightarrow> (x + s - 1) div s = x div s + (if x mod s \<noteq> 0 then 1 else 0)"
proof -
  assume s: "0 < s"
  have x: "x = s * (x div s) + x mod s" by simp
  show ?thesis
  proof (cases "x mod s = 0")
    case True
    then have "x + s - 1 = s * (x div s) + (s - 1)" using x s by linarith
    moreover have "(s * (x div s) + (s - 1)) div s = x div s" using s by (subst div_mult_self4) auto
    ultimately show ?thesis using True by simp
  next
    case False
    have "s * (x div s + 1) = s * (x div s) + s" by simp
    then have "x + s - 1 = s * (x div s + 1) + (x mod s - 1)" using x s False by linarith
    moreover have "(s * (x div s + 1) + (x mod s - 1)) div s = x div s + 1"
      using s False mod_less_divisor[OF s, of x] by (subst div_mult_self4) (auto simp: less_imp_diff_less)
    ultimately show ?thesis using False by simp
  qed
qed

lemma sectorsToRead_ok:
  assumes "0 < unat ss" "extent_ok ss maxn e" "maxn * unat ss < 2 ^ 32"
  shows "\<exists>n. sectorsToRead (de_extentLength e) ss = Inr n \<and> unat n = extent_sectors ss e"
proof -
  let ?x = "unat (de_extentLength e)" and ?s = "unat ss"
  have e: "extent_sectors ss e = ?x div ?s + (if ?x mod ?s \<noteq> 0 then 1 else 0)" unfolding extent_sectors_def by (rule div_up[OF assms(1)])
  have "extent_sectors ss e \<le> maxn * ?s" using assms(1,2) unfolding extent_ok_def
    by (metis le_trans mult.right_neutral mult_le_mono Suc_leI le_refl One_nat_def)
  then have lt: "extent_sectors ss e < 4294967296" using assms(3) by simp
  have m: "de_extentLength e mod ss \<noteq> 0 \<longleftrightarrow> ?x mod ?s \<noteq> 0" by (simp add: word32_eq_iff_unat)
  let ?n = "de_extentLength e div ss + (if de_extentLength e mod ss \<noteq> 0 then 1 else 0)"
  have "unat ?n = extent_sectors ss e"
    unfolding e m using lt[unfolded e] by (subst unat_plus_small) (simp_all split: if_splits)
  moreover have "ss \<noteq> 0" using assms(1) by auto
  ultimately show ?thesis by (simp add: sectorsToRead_def)
qed

context sector_device
begin

lemma extent_bytes_length: "length (extent_bytes ss disk e) = extent_sectors ss e * unat ss"
  by (simp add: extent_bytes_def disk_run_length)

lemma read_extent_ok:
  assumes "live d" "extent_ok ss maxn e"
  shows "\<exists>d'. read_extent ops junk e d = Inr (extent_bytes ss disk e, d') \<and> live d'"
proof -
  obtain d1 where d1: "op_sectorSize ops d = Inr (ss, d1)" "live d1" using size_ok[OF assms(1)] by blast
  obtain n where n: "sectorsToRead (de_extentLength e) ss = Inr n" "unat n = extent_sectors ss e"
    using sectorsToRead_ok[OF ss_pos assms(2) max_fits] by blast
  have "unat ss * unat n \<le> maxn * unat ss" using n(2) assms(2) by (simp add: extent_ok_def)
  from le_less_trans[OF this max_fits] have m: "unat (ss * n) = unat n * unat ss"
    by (subst unat_mult_small) (simp_all add: mult.commute)
  have a: "unat (ucast (de_extentLba e) :: u64) = unat (de_extentLba e)"
    by (simp add: unsigned_ucast_eq take_bit_nat_eq_self order.strict_trans[OF unat_lt32])
  show ?thesis
    using read_ok[OF d1(2), of n "ucast (de_extentLba e)" "map junk [0..<unat (ss * n)]"] d1 n m a assms(2)
    by (auto simp: read_extent_def extent_bytes_def extent_ok_def)
qed

end

section \<open>Streams\<close>

text \<open>A stream that has \<open>rest\<close> left yields its bytes one by one and then nothing.\<close>

definition stream_rest :: "IsoFileStream \<Rightarrow> u8 list" where
  "stream_rest s = drop (unat (fs_pos s)) (take (unat (fs_fileSize s)) (fs_buffer s))"

definition stream_inv :: "IsoFileStream \<Rightarrow> bool" where
  "stream_inv s \<longleftrightarrow> unat (fs_pos s) \<le> unat (fs_fileSize s) \<and> unat (fs_fileSize s) \<le> length (fs_buffer s)"

lemma stream_read_ok:
  assumes "stream_inv s"
  shows "\<exists>s'. IsoFileStream_read s = Inr (case stream_rest s of [] \<Rightarrow> None | c # cs \<Rightarrow> Some c, s') \<and> stream_inv s'
    \<and> stream_rest s' = tl (stream_rest s)"
proof (cases "fs_pos s = fs_fileSize s")
  case True
  then show ?thesis using assms by (simp add: IsoFileStream_read_def stream_rest_def)
next
  case False
  let ?i = "unat (fs_pos s)" and ?b = "take (unat (fs_fileSize s)) (fs_buffer s)"
  have lt: "?i < unat (fs_fileSize s)" using assms False by (auto simp: stream_inv_def word32_eq_iff_unat)
  then have "unat (fs_pos s + 1) = ?i + 1" using unat_inc[of "fs_pos s" "fs_fileSize s"] by (simp add: word_less_nat_alt)
  moreover have "drop ?i ?b = fs_buffer s ! ?i # drop (Suc ?i) ?b" using lt assms by (simp add: stream_inv_def Cons_nth_drop_Suc[symmetric, of ?i ?b])
  ultimately show ?thesis using False lt assms
    by (auto simp: IsoFileStream_read_def stream_rest_def stream_inv_def Let_def)
qed

interpretation iso: byte_stream IsoFileStream_read stream_inv stream_rest
  by unfold_locales (rule stream_read_ok)

section \<open>Paths\<close>

text \<open>
  Following a path: \<open>resolves e names r\<close> says that from the directory \<open>e\<close> the names lead to the
  entry \<open>r\<close>, or nowhere when a name is missing.
\<close>

definition lists :: "u8 \<Rightarrow> u32 \<Rightarrow> (nat \<Rightarrow> u8 list) \<Rightarrow> DirectoryEntry \<Rightarrow> DirectoryEntry list \<Rightarrow> bool" where
  "lists g ss disk e es \<longleftrightarrow> (if de_extentLength e = 0 then es = [] else listing g (extent_bytes ss disk e) 0 es)"

inductive resolves :: "u8 \<Rightarrow> u32 \<Rightarrow> (nat \<Rightarrow> u8 list) \<Rightarrow> nat \<Rightarrow> DirectoryEntry \<Rightarrow> u8 list list \<Rightarrow> DirectoryEntry option \<Rightarrow> bool"
  for g ss disk maxn where
  resolves_last: "extent_ok ss maxn e \<Longrightarrow> lists g ss disk e es \<Longrightarrow> resolves g ss disk maxn e [n] (find (\<lambda>x. entry_name x = n) es)"
| resolves_step: "extent_ok ss maxn e \<Longrightarrow> lists g ss disk e es \<Longrightarrow> find (\<lambda>x. entry_name x = n) es = Some e' \<Longrightarrow> ns \<noteq> [] \<Longrightarrow>
    resolves g ss disk maxn e' ns r \<Longrightarrow> resolves g ss disk maxn e (n # ns) r"
| resolves_missing: "extent_ok ss maxn e \<Longrightarrow> lists g ss disk e es \<Longrightarrow> find (\<lambda>x. entry_name x = n) es = None \<Longrightarrow>
    resolves g ss disk maxn e (n # ns) None"

text \<open>The entry a lookup returns is a copy with a name of its own.\<close>

definition same_entry :: "DirectoryEntry \<Rightarrow> DirectoryEntry \<Rightarrow> bool" where
  "same_entry a b \<longleftrightarrow> de_type a = de_type b \<and> de_extentLba a = de_extentLba b \<and> de_extentLength a = de_extentLength b
     \<and> entry_name a = entry_name b"

lemma scan_ok:
  assumes "lists g ss disk e es" "bs_inv s" "bs_chars s = n" "0 \<notin> set n"
  shows "(if de_extentLength e > 0 then find_scan g (extent_bytes ss disk e) 0 (bs_data s) else Inr None) =
    Inr (find (\<lambda>x. entry_name x = n) es)"
proof -
  have "bs_data s = n @ 0 # drop (Suc (unat (bs_size s))) (bs_data s)"
    using assms(2,3) id_take_nth_drop[of "unat (bs_size s)" "bs_data s"] by (simp add: bs_inv_def bs_chars_def)
  from arg_cong[OF this, of ctext] have "ctext (bs_data s) = n" by (simp add: ctext_terminated assms(4))
  then show ?thesis using find_scan_ok[of g "extent_bytes ss disk e" 0 es "bs_data s"] assms(1) inv_terminated[OF assms(2)]
    by (auto simp: lists_def word_gt_0)
qed

lemma tokens_empty: "tokens P cs = [] \<longleftrightarrow> dropWhile P cs = []"
  by (subst tokens.simps) (simp add: Let_def)

lemma token_ok:
  assumes inv: "tok_inv t" and tok: "tokens (delim t) (rest t) = n # ns"
  shows "\<exists>s t1. nextToken g t = Inr (s, t1) \<and> bs_inv s \<and> bs_chars s = n \<and> 0 \<notin> set n \<and> tok_inv t1
    \<and> tokens (delim t1) (rest t1) = ns \<and> hasNextToken t1 = Inr (ns \<noteq> [])"
proof -
  have more: "dropWhile (delim t) (rest t) \<noteq> []" using tok tokens_empty[of "delim t" "rest t"] by auto
  have n: "n = takeWhile (\<lambda>c. \<not> delim t c) (dropWhile (delim t) (rest t))"
    "ns = tokens (delim t) (dropWhile (\<lambda>c. \<not> delim t c) (dropWhile (delim t) (rest t)))"
    using tok unfolding tokens.simps[of "delim t" "rest t"] Let_def if_not_P[OF more] by (simp_all only: list.inject)
  from nextToken_ok[OF inv more, of g] obtain s t1 where t1: "nextToken g t = Inr (s, t1)" "bs_inv s" "bs_chars s = n" "tok_inv t1"
    "st_delimiters t1 = st_delimiters t" "rest t1 = dropWhile (\<lambda>c. \<not> delim t c) (dropWhile (delim t) (rest t))"
    using n(1) by blast
  have "set n \<subseteq> set (bs_chars (st_string t))"
    unfolding n(1) rest_def by (auto dest!: set_takeWhileD set_dropWhileD in_set_dropD)
  then have "0 \<notin> set n" using inv by (auto simp: tok_inv_def)
  moreover have "tokens (delim t1) (rest t1) = ns" using t1 n(2) by simp
  moreover from this have "hasNextToken t1 = Inr (ns \<noteq> [])"
    using hasNextToken_ok[OF t1(4)] tokens_empty[of "delim t1" "rest t1"] by simp
  ultimately show ?thesis using t1 by blast
qed

context sector_device
begin

lemma find_tokens_ok:
  assumes "resolves g ss disk maxn e names r" "tok_inv t" "tokens (delim t) (rest t) = names" "length names \<le> fuel" "live d"
  shows "\<exists>r' t' d'. find_tokens fuel ops junk g e t d = Inr (r', t', d') \<and> live d' \<and> rel_option same_entry r' r"
  using assms
proof (induction arbitrary: t fuel d rule: resolves.induct)
  case (resolves_last e es n)
  from token_ok[OF resolves_last.prems(1,2), of g] obtain s t1 where t1: "nextToken g t = Inr (s, t1)" "bs_inv s" "bs_chars s = n"
    "0 \<notin> set n" "hasNextToken t1 = Inr False" by auto
  obtain d1 where d1: "read_extent ops junk e d = Inr (extent_bytes ss disk e, d1)" "live d1"
    using read_extent_ok[OF resolves_last.prems(4) resolves_last.hyps(1)] by blast
  note scan = scan_ok[OF resolves_last.hyps(2) t1(2,3,4)]
  obtain k where k: "fuel = Suc k" using resolves_last.prems(3) by (cases fuel) auto
  show ?case
  proof (cases "find (\<lambda>x. entry_name x = n) es")
    case None
    then show ?thesis using t1 d1 scan k by simp
  next
    case (Some x)
    then have "x \<in> set es" by (auto simp: find_Some_iff)
    then have "bs_inv (de_name x)" using resolves_last.hyps(2) listing_names by (auto simp: lists_def split: if_splits)
    from copy_cstr[OF this, of g] obtain nm where nm: "BasicString_copy g (de_name x) = Inr nm" "ctext (bs_data nm) = entry_name x"
      by (auto simp: entry_name_def)
    then show ?thesis using t1 d1 scan k Some by (simp add: same_entry_def entry_name_def)
  qed
next
  case (resolves_step e es n e' ns r)
  from token_ok[OF resolves_step.prems(1,2), of g] obtain s t1 where t1: "nextToken g t = Inr (s, t1)" "bs_inv s" "bs_chars s = n"
    "0 \<notin> set n" "tok_inv t1" "tokens (delim t1) (rest t1) = ns" "hasNextToken t1 = Inr True" using resolves_step.hyps(4) by auto
  obtain d1 where d1: "read_extent ops junk e d = Inr (extent_bytes ss disk e, d1)" "live d1"
    using read_extent_ok[OF resolves_step.prems(4) resolves_step.hyps(1)] by blast
  obtain k where k: "fuel = Suc k" "length ns \<le> k" using resolves_step.prems(3) by (cases fuel) auto
  from resolves_step.IH[OF t1(5,6) k(2) d1(2)] show ?case
    using t1(1,7) d1(1) scan_ok[OF resolves_step.hyps(2) t1(2,3,4)] k(1) resolves_step.hyps(3) by simp
next
  case (resolves_missing e es n ns)
  from token_ok[OF resolves_missing.prems(1,2), of g] obtain s t1 where t1: "nextToken g t = Inr (s, t1)" "bs_inv s" "bs_chars s = n"
    "0 \<notin> set n" by auto
  obtain d1 where d1: "read_extent ops junk e d = Inr (extent_bytes ss disk e, d1)" "live d1"
    using read_extent_ok[OF resolves_missing.prems(4) resolves_missing.hyps(1)] by blast
  obtain k where k: "fuel = Suc k" using resolves_missing.prems(3) by (cases fuel) auto
  then show ?case using t1(1) d1 scan_ok[OF resolves_missing.hyps(2) t1(2,3,4)] resolves_missing.hyps(3) by simp
qed

lemma find_ok:
  assumes path: "0 \<notin> set path" "length path + 1 < 2 ^ 32"
    and r: "resolves g ss disk maxn e (tokens (\<lambda>c. c = 47) path) r" "length path \<le> fuel" "live d"
  shows "\<exists>r' d'. DirectoryEntry_find fuel ops junk g e (path @ [0]) d = Inr (r', d') \<and> live d' \<and> rel_option same_entry r' r"
proof -
  from of_cstr_ok[OF path, of g] obtain s where s: "BasicString_of_cstr g (path @ [0]) = Inr s" "bs_inv s" "bs_chars s = path" by auto
  from of_cstr_ok[of "[47]" g] obtain c where c: "BasicString_of_cstr g [47, 0] = Inr c" "bs_inv c" "bs_chars c = [47]" by auto
  from copy_ok[OF s(2), of g] s(3) path(1) obtain s1 where s1: "BasicString_copy g s = Inr s1" "bs_inv s1" "bs_chars s1 = path" by auto
  from copy_ok[OF c(2), of g] c(3) obtain c1 where c1: "BasicString_copy g c = Inr c1" "bs_inv c1" "bs_chars c1 = [47]" by auto
  let ?t = "\<lparr>st_string = s1, st_delimiters = c1, st_currentIndex = 0\<rparr>"
  have "StringTokenizer_new g s c = Inr ?t" using s1(1) c1(1) by (simp add: StringTokenizer_new_def)
  moreover have "tok_inv ?t" using s1 c1 path(1) by (simp add: tok_inv_def)
  moreover have "tokens (delim ?t) (rest ?t) = tokens (\<lambda>c. c = 47) path" using s1 c1 by (simp add: rest_def)
  ultimately show ?thesis
    using find_tokens_ok[OF r(1), of ?t fuel d junk] tokens_length[of "\<lambda>c. c = 47" path] r(2,3) s(1) c(1)
    by (auto simp: DirectoryEntry_find_def)
qed

lemma fileStream_ok:
  assumes "live d" "extent_ok ss maxn e" "\<not> isDir e"
  shows "\<exists>s d'. fileStream ops junk e d = Inr (Some s, d') \<and> live d' \<and> stream_inv s
    \<and> stream_rest s = take (unat (de_extentLength e)) (extent_bytes ss disk e)"
proof -
  obtain d1 where d1: "read_extent ops junk e d = Inr (extent_bytes ss disk e, d1)" "live d1" using read_extent_ok[OF assms(1,2)] by blast
  have "unat (de_extentLength e) \<le> extent_sectors ss e * unat ss"
    unfolding extent_sectors_def using ss_pos div_mult_mod_eq[of "unat (de_extentLength e) + unat ss - 1" "unat ss"]
      mod_less_divisor[OF ss_pos, of "unat (de_extentLength e) + unat ss - 1"] by linarith
  then show ?thesis using d1 assms(3)
    by (simp add: fileStream_def stream_inv_def stream_rest_def IsoFileStream_new_def extent_bytes_length)
qed

end

section \<open>The driver holds sectors\<close>

lemma bytes_of_words_append [simp]: "bytes_of_words (xs @ ys) = bytes_of_words xs @ bytes_of_words ys"
  by (induction xs) auto

lemma bytes_of_words_concat: "bytes_of_words (concat wss) = concat (map bytes_of_words wss)"
  by (induction wss) auto

lemma x86_sector_device:
  assumes bus: "atapi_bus bus io ctl sel view delay bound disk capacity ident"
    and dev: "on_bus io ctl sel dev" "ata_identified dev" and fuel: "bound < fuel" "maxn < fuel"
    and w: "unat (ad_sectorSize (ata_descriptor dev)) = 2 * w" "0 < w" "20 * w < 65536" "\<And>k. length (disk k) = w" "maxn * w < 2 ^ 31"
  shows "sector_device (x86_ops fuel bus junk) (\<lambda>s. fst s = dev) (ad_sectorSize (ata_descriptor dev)) (\<lambda>k. bytes_of_words (disk k)) maxn"
proof
  let ?ss = "ad_sectorSize (ata_descriptor dev)"
  fix d :: "X86AtaDevice \<times> 'a" and n :: size_t and a :: u64 and buf :: "u8 list"
  assume d: "fst d = dev"
  show "\<exists>d'. op_sectorSize (x86_ops fuel bus junk) d = Inr (?ss, d') \<and> fst d' = dev"
    using d dev(2) by (cases d) (simp add: x86_ops_def AtaDevice_sectorSize_def AtaDevice_descriptor_def)
  assume n: "unat n \<le> maxn" "unat a + unat n \<le> 2 ^ 32" and len: "length buf = unat n * unat ?ss"
  let ?bs = "concat (map (\<lambda>k. bytes_of_words (disk k)) [unat a..<unat a + unat n])"
  have lw: "length (words_of_bytes buf) = unat n * w" using len w(1) by (simp add: length_words_of_bytes)
  have lc: "length (concat (map disk [unat a..<unat a + unat n])) = unat n * w"
    using atapi_bus.sectors_length[OF bus, of w "unat a" "unat n"] w(4) by simp
  show "\<exists>ok d'. op_read (x86_ops fuel bus junk) a buf n d = Inr (ok, ?bs, d') \<and> fst d' = dev"
  proof (cases "n = 0")
    case True
    then show ?thesis using d len by (cases d) (auto simp: x86_ops_def AtaDevice_read_def)
  next
    case False
    then have "0 < unat n" by (simp add: unat_gt_0)
    have nw: "unat n * w < 2 ^ 31" using n(1) w(5) by (meson le_less_trans mult_le_mono1)
    have "unat n \<le> unat n * w" using w(2) by simp
    from atapi_bus.read_ok[OF bus dev fuel(1) _ w(1,3,4) \<open>0 < unat n\<close> n(2) nw le_less_trans[OF this nw], of 0 "words_of_bytes buf" junk "snd d"]
    obtain d' where "AtaDevice_read fuel bus junk dev a (words_of_bytes buf) 0 n (snd d) =
        Inr (True, patch 0 (concat (map disk [unat a..<unat a + unat n])) (words_of_bytes buf), dev, d')"
      using n(1) fuel(2) lw by auto
    moreover have "patch 0 (concat (map disk [unat a..<unat a + unat n])) (words_of_bytes buf) = concat (map disk [unat a..<unat a + unat n])"
      using lw lc by (simp add: patch_def)
    ultimately show ?thesis using d by (cases d) (auto simp: x86_ops_def bytes_of_words_concat comp_def)
  qed
next
  fix k show "length (bytes_of_words (disk k)) = unat (ad_sectorSize (ata_descriptor dev))" using w(1,4) by simp
next
  show "0 < unat (ad_sectorSize (ata_descriptor dev))" "maxn * unat (ad_sectorSize (ata_descriptor dev)) < 2 ^ 32" using w by simp_all
qed

text \<open>A CD-ROM drive on the primary channel: 2048-byte sectors of any contents.\<close>

definition cd_disk :: "(nat \<Rightarrow> u16 list) \<Rightarrow> nat \<Rightarrow> u16 list" where
  "cd_disk disk k = take 1024 (disk k @ replicate 1024 0)"

definition cd_device :: X86AtaDevice where
  "cd_device = \<lparr>ata_primary = True, ata_slaveBit = 0, ata_ioPort = ioPort True, ata_controlPort = controlPort True,
     ata_identified = True, ata_descriptor = example_descriptor\<lparr>ad_sectorSize := 2048\<rparr>\<rparr>"

interpretation cd: sector_device "x86_ops (lag + 1000) (sim_bus True lag (cd_disk disk) capacity ident) junk" "\<lambda>s. fst s = cd_device"
  2048 "\<lambda>k. bytes_of_words (cd_disk disk k)" 999
  for lag disk capacity ident junk
proof -
  have dev: "on_bus (ioPort True) (controlPort True) 0xA0 cd_device" by (simp add: on_bus_def cd_device_def drive_select_def)
  have bus: "atapi_bus (sim_bus True lag (cd_disk disk) capacity ident) (ioPort True) (controlPort True) 0xA0 sim_view
      (\<lambda>d. min (sim_delay d) lag) lag (cd_disk disk) capacity ident" by (rule sim.atapi_bus_axioms)
  have "sector_device (x86_ops (lag + 1000) (sim_bus True lag (cd_disk disk) capacity ident) junk) (\<lambda>s. fst s = cd_device)
      (ad_sectorSize (ata_descriptor cd_device)) (\<lambda>k. bytes_of_words (cd_disk disk k)) 999"
    by (rule x86_sector_device[OF bus dev, where w = 1024]) (simp_all add: cd_device_def cd_disk_def)
  then show "sector_device (x86_ops (lag + 1000) (sim_bus True lag (cd_disk disk) capacity ident) junk) (\<lambda>s. fst s = cd_device)
      2048 (\<lambda>k. bytes_of_words (cd_disk disk k)) 999" by (simp add: cd_device_def)
qed

section \<open>Properties\<close>

text \<open>
  C5. Reading a file through the file system and the ATAPI driver, from any device that follows
  the packet protocol, yields the file: the stream of a file entry delivers the bytes of its
  extent on the disc in order, as many as were asked for, and ends after the file's length.
\<close>

theorem fileStream_reads_file:
  assumes bus: "atapi_bus bus io ctl sel view delay bound disk capacity ident"
    and dev: "on_bus io ctl sel dev" "ata_identified dev" "bound < fuel" "maxn < fuel"
    and w: "unat (ad_sectorSize (ata_descriptor dev)) = 2 * w" "0 < w" "20 * w < 65536" "\<And>k. length (disk k) = w" "maxn * w < 2 ^ 31"
    and e: "extent_ok (ad_sectorSize (ata_descriptor dev)) maxn e" "\<not> isDir e"
    and bytes: "n \<le> length bytes"
  shows "\<exists>s st. fileStream (x86_ops fuel bus junk) junk8 e (dev, d) = Inr (Some s, st)
    \<and> (\<exists>s'. InputStream_read_n IsoFileStream_read n bytes 0 s =
         Inr (min n (unat (de_extentLength e)),
              take (min n (unat (de_extentLength e)))
                (extent_bytes (ad_sectorSize (ata_descriptor dev)) (\<lambda>k. bytes_of_words (disk k)) e)
              @ drop (min n (unat (de_extentLength e))) bytes, s'))"
proof -
  let ?ss = "ad_sectorSize (ata_descriptor dev)" and ?disk = "\<lambda>k. bytes_of_words (disk k)" and ?l = "unat (de_extentLength e)"
  have dv: "sector_device (x86_ops fuel bus junk) (\<lambda>s. fst s = dev) ?ss ?disk maxn"
    by (rule x86_sector_device[OF bus dev w])
  from sector_device.fileStream_ok[OF dv, of "(dev, d)" e junk8] e obtain s st where
    s: "fileStream (x86_ops fuel bus junk) junk8 e (dev, d) = Inr (Some s, st)" "stream_inv s"
    "stream_rest s = take ?l (extent_bytes ?ss ?disk e)" by auto
  have "length (stream_rest s) = unat (fs_fileSize s) - unat (fs_pos s)" using s(2) by (simp add: stream_rest_def stream_inv_def)
  moreover have "fs_fileSize s = de_extentLength e" "fs_pos s = 0"
    using s(1) e(2) by (auto simp: fileStream_def IsoFileStream_new_def split: prod.splits)
  ultimately have l: "length (stream_rest s) = ?l" by simp
  then have "length (take n (stream_rest s)) = min n ?l" "take n (stream_rest s) = take (min n ?l) (extent_bytes ?ss ?disk e)"
    using s(3) by (simp_all add: min.commute)
  then show ?thesis using iso.read_n_ok[OF s(2), of 0 n bytes] bytes s(1) l min.coboundedI1[OF bytes, of ?l] by (auto simp: patch_def)
qed

definition example_file :: DirectoryEntry where
  "example_file = \<lparr>de_type = EntryFile, de_name = BasicString_new, de_extentLba = 20, de_extentLength = 3000\<rparr>"

theorem fileStream_reads_file_witness:
  "\<exists>s st. fileStream (x86_ops 50 (sim_bus True 3 (cd_disk (\<lambda>k. replicate 1024 (of_nat k))) [] []) (\<lambda>_. 0)) (\<lambda>_. 0) example_file
      (cd_device, example_sim) = Inr (Some s, st)
    \<and> (\<exists>bs s'. InputStream_read_n IsoFileStream_read 4000 (replicate 5000 0) 0 s = Inr (3000, bs, s'))"
proof -
  let ?disk = "cd_disk (\<lambda>k. replicate 1024 (of_nat k))"
  have bus: "atapi_bus (sim_bus True 3 ?disk [] []) (ioPort True) (controlPort True) 0xA0 sim_view
      (\<lambda>d. min (sim_delay d) 3) 3 ?disk [] []" by (rule sim.atapi_bus_axioms)
  have dev: "on_bus (ioPort True) (controlPort True) 0xA0 cd_device" by (simp add: on_bus_def cd_device_def drive_select_def)
  have ss: "ad_sectorSize (ata_descriptor cd_device) = 2048" by (simp add: cd_device_def)
  have "extent_ok (ad_sectorSize (ata_descriptor cd_device)) 10 example_file" unfolding ss by (simp add: extent_ok_def extent_sectors_def example_file_def)
  moreover have "ata_identified cd_device" by (simp add: cd_device_def)
  moreover have "length (?disk k) = 1024" for k by (simp add: cd_disk_def)
  moreover have "\<not> isDir example_file" "unat (de_extentLength example_file) = 3000" by (simp_all add: isDir_def example_file_def)
  ultimately show ?thesis
    using fileStream_reads_file[OF bus dev, where fuel = 50 and maxn = 10 and w = 1024 and n = 4000 and bytes = "replicate 5000 0"
        and e = example_file and junk = "\<lambda>_. 0" and d = example_sim]
    by (simp add: ss) blast
qed


text \<open>A directory in sector 3 with one record, a file \<open>A\<close> at sector 7.\<close>

definition example_dir :: "u8 list" where
  "example_dir = [34, 0, 7, 0, 0, 0, 0, 0, 0, 7, 5, 0, 0, 0, 0, 0, 0, 5, 0, 0, 0, 0, 0, 0, 0, 0, 0, 0, 1, 0, 0, 1, 1, 65,
     0, 0, 0, 0, 0, 0]"

definition dir_disk :: "nat \<Rightarrow> u16 list" where
  "dir_disk k = (if k = 3 then words_of_bytes example_dir else replicate 20 0)"

definition dir_device :: X86AtaDevice where
  "dir_device = cd_device\<lparr>ata_descriptor := example_descriptor\<lparr>ad_sectorSize := 40\<rparr>\<rparr>"

definition example_root :: DirectoryEntry where
  "example_root = \<lparr>de_type = EntryDirectory, de_name = BasicString_new, de_extentLba = 3, de_extentLength = 40\<rparr>"

lemma example_record:
  "case DirectoryEntry_new 0 example_dir 0 of Inr x \<Rightarrow> entry_name x = [65] \<and> de_extentLba x = 7 | Inl f \<Rightarrow> False"
  by code_simp


text \<open>
  C21. A \<open>FileReader\<close> on any stream reads the file: \<open>readAll\<close> ends, within one round more than there
  are bytes, having reached the end of the file, and from then on every range is read as the
  corresponding bytes of the file, cut off at its end, leaving the rest of the buffer alone.
\<close>

theorem FileReader_readAll_correct:
  assumes st: "byte_stream rd sinv srest" "sinv s"
    and len: "length (srest s) < 2 ^ 31" "length (srest s) < fuel"
    and range: "unat offset + unat n < 2 ^ 31" "unat n \<le> length buf"
  shows "\<exists>r r'. FileReader_readAll fuel rd dflt (FileReader_new dflt (Some s)) = Inr r \<and> fr_eof r
    \<and> FileReader_read_range rd dflt r buf offset n =
        Inr (of_nat (length (take (unat n) (drop (unat offset) (srest s)))),
             patch 0 (take (unat n) (drop (unat offset) (srest s))) buf, r')"
  using byte_stream.FileReader_readAll_ok[OF st len, of dflt] byte_stream.FileReader_read_range_ok[OF st(1) _ range, of "srest s" _ dflt]
  by blast

theorem FileReader_readAll_correct_witness:
  "\<exists>r r'. FileReader_readAll 4 IsoFileStream_read 0 (FileReader_new 0 (Some (IsoFileStream_new 3 [10, 11, 12, 13]))) = Inr r
    \<and> FileReader_read_range IsoFileStream_read 0 r [0, 0, 0, 0] 1 4 = Inr (2, [11, 12, 0, 0], r')"
proof -
  have "stream_inv (IsoFileStream_new 3 [10, 11, 12, 13])" "stream_rest (IsoFileStream_new 3 [10, 11, 12, 13]) = [10, 11, 12]"
    by (simp_all add: stream_inv_def stream_rest_def IsoFileStream_new_def)
  then show ?thesis
    using FileReader_readAll_correct[OF iso.byte_stream_axioms, of "IsoFileStream_new 3 [10, 11, 12, 13]" 4 1 4 "[0, 0, 0, 0]" 0]
    by (auto simp: patch_def)
qed

text \<open>
  Reading far ahead overruns the cache: a \<open>FileReader\<close> asked for a byte of the file at twice
  the size of its cache or further grows the cache to exactly that offset, so that the byte itself
  is stored behind its end.
\<close>

theorem FileReader_far_read_overruns:
  assumes "byte_stream rd sinv srest" "sinv s" "length (srest s) < 2 ^ 31"
    and "1024 \<le> unat offset" "unat offset < length (srest s)"
  shows "FileReader_read rd dflt (FileReader_new dflt (Some s)) offset = Inl OutOfBounds"
  using assms(2-) by (intro byte_stream.FileReader_read_overrun[OF assms(1), of "srest s"])
    (simp_all add: byte_stream.fr_inv_def[OF assms(1)] FileReader_new_def DynamicArray_new_def)

theorem FileReader_far_read_overruns_witness:
  "FileReader_read IsoFileStream_read 0 (FileReader_new 0 (Some (IsoFileStream_new 3000 (replicate 4096 7)))) 2000 = Inl OutOfBounds"
  by (rule FileReader_far_read_overruns[OF iso.byte_stream_axioms]) (simp_all add: stream_inv_def stream_rest_def IsoFileStream_new_def)

end
