(* ===== verification/Elf_Parse.thy ===== *)
theory Elf_Parse
  imports Elf Iso_Props
begin

text \<open>
  What \<^const>\<open>Executable_new\<close> makes of a well-formed file. \<open>elf_ok\<close> says when a file
  is well formed: its header tables lie inside it, their types are known and every section name is a
  terminated string of the name table. The lemmas are proved once for every stream that meets the
  contract \<open>byte_stream\<close>; the files of an ISO 9660 volume are the stream of the witness.
\<close>

section \<open>Well-formed files\<close>

definition elf_header :: "u8 list \<Rightarrow> ElfHeader32" where
  "elf_header file = decode_ElfHeader32 (take 52 file)"

definition program_header :: "u8 list \<Rightarrow> nat \<Rightarrow> ProgramHeader32" where
  "program_header file i = decode_ProgramHeader32 (take 32 (drop (unat (eh_programHeaderOffset (elf_header file)) + 32 * i) file))"

definition section_header :: "u8 list \<Rightarrow> nat \<Rightarrow> SectionHeader32" where
  "section_header file i = decode_SectionHeader32 (take 40 (drop (unat (eh_sectionHeaderOffset (elf_header file)) + 40 * i) file))"

definition name_table :: "u8 list \<Rightarrow> nat" where
  "name_table file = unat (sh_offset (section_header file (unat (eh_sectionNameEntryIndex (elf_header file)))))"

text \<open>The characters of the C string at an index of the file.\<close>

definition string_at :: "u8 list \<Rightarrow> nat \<Rightarrow> u8 list" where
  "string_at file k = takeWhile (\<lambda>c. c \<noteq> 0) (drop k file)"

definition elf_ok :: "u8 list \<Rightarrow> bool" where
  "elf_ok file \<longleftrightarrow> length file < 2 ^ 31 \<and> 52 \<le> length file
     \<and> unat (eh_programHeaderOffset (elf_header file)) + 32 * unat (eh_programEntryCount (elf_header file)) \<le> length file
     \<and> (\<forall>i<unat (eh_programEntryCount (elf_header file)). ph_type (program_header file i) \<in> set program_types)
     \<and> unat (eh_sectionHeaderOffset (elf_header file)) + 40 * unat (eh_sectionEntryCount (elf_header file)) \<le> length file
     \<and> unat (eh_sectionNameEntryIndex (elf_header file)) < unat (eh_sectionEntryCount (elf_header file))
     \<and> (\<forall>i<unat (eh_sectionEntryCount (elf_header file)). sh_type (section_header file i) \<in> set section_types
          \<and> 0 \<in> set (drop (name_table file + unat (sh_nameIndex (section_header file i))) file))"

definition segment_of :: "ProgramHeader32 \<Rightarrow> Segment" where
  "segment_of h = \<lparr>seg_data = Some (unat (ph_offset h)), seg_vaddress = ph_virtAddress h, seg_alignment = ph_alignment h,
     seg_dataSize = ph_sizeInFile h, seg_memorySize = ph_sizeInMemory h\<rparr>"

definition section_matches :: "u8 list \<Rightarrow> nat \<Rightarrow> Section \<Rightarrow> bool" where
  "section_matches file i sec \<longleftrightarrow> (let h = section_header file i in
     sec_vaddress sec = sh_address h \<and> sec_size sec = sh_size h
     \<and> sec_data sec = (if sh_type h = kNoBits then None else Some (unat (sh_offset h)))
     \<and> bs_chars (sec_name sec) = string_at file (name_table file + unat (sh_nameIndex h)))"

section \<open>Strings in the file\<close>

lemma assign_cstr_ok:
  assumes "0 \<in> set (drop k file)" "take (length file) bytes = file" "length file < 2 ^ 31"
  shows "\<exists>s. assign_cstr g BasicString_new (drop k bytes) = Inr s \<and> bs_chars s = string_at file k"
proof -
  let ?cs = "string_at file k"
  have "drop k file = ?cs @ dropWhile (\<lambda>c. c \<noteq> 0) (drop k file)" by (simp add: string_at_def)
  moreover obtain ys where "dropWhile (\<lambda>c. c \<noteq> 0) (drop k file) = 0 # ys"
    using assms(1) by (cases "dropWhile (\<lambda>c. c \<noteq> 0) (drop k file)") (auto simp: dropWhile_eq_Nil_conv dropWhile_eq_Cons_conv)
  ultimately have f: "drop k file = ?cs @ 0 # ys" by simp
  have "drop k bytes = drop k (file @ drop (length file) bytes)" using assms(2) by (metis append_take_drop_id)
  moreover have "k \<le> length file" using assms(1) by (cases "k \<le> length file") simp_all
  ultimately have b: "drop k bytes = ?cs @ 0 # (ys @ drop (length file) bytes)" using f by simp
  have nz: "0 \<notin> set ?cs" by (auto simp: string_at_def dest: set_takeWhileD)
  have "length ?cs \<le> length file" using f by (metis le_add1 length_append length_drop order_trans diff_le_self)
  then have len: "length ?cs < 2 ^ 31" using assms(3) by simp
  let ?s = "BasicString_new\<lparr>bs_size := 0\<rparr>"
  have s: "?s = BasicString_new" by (simp add: BasicString_new_def BasicString_reserve_def)
  have inv: "bs_inv ?s" "bs_chars ?s = []" "bs_room ?s (unat (of_nat (length ?cs) :: size_t))"
    unfolding s using reserve_ok[of 8] len by (simp_all add: BasicString_new_def bs_room_def) (simp_all add: BasicString_reserve_def)
  have "unat (of_nat (length ?cs) :: size_t) \<le> length (drop k bytes)" unfolding b using len by simp
  from append_n_ok[OF inv(1,3) this, of g] inv(2) len obtain s' where
    "BasicString_append_n g ?s (drop k bytes) (of_nat (length ?cs)) = Inr s'" "bs_chars s' = take (length ?cs) (drop k bytes)" by auto
  then show ?thesis using cstrlen_ok[OF nz, of "ys @ drop (length file) bytes"] b
    by (simp add: assign_cstr_def BasicString_append_cstr_def)
qed

section \<open>Sections and segments\<close>

lemma enqueue_section_ok:
  assumes "al_inv (ex_sections x)" "al_room (ex_sections x)"
  shows "\<exists>x'. enqueue_section x sec = Inr x' \<and> al_inv (ex_sections x') \<and> al_elems (ex_sections x') = al_elems (ex_sections x) @ [sec]
    \<and> ex_file x' = ex_file x \<and> ex_segments x' = ex_segments x \<and> ex_isLoaded x' = ex_isLoaded x \<and> ex_nameTable x' = ex_nameTable x
    \<and> (unat (al_size (ex_sections x)) < length (al_data (ex_sections x)) \<longrightarrow>
        ex_block x' = ex_block x \<and> length (al_data (ex_sections x')) = length (al_data (ex_sections x)))"
proof -
  let ?a = "ex_sections x"
  from ArrayList_enqueue_ok[OF assms, of Section_new sec] obtain l where
    l: "ArrayList_enqueue Section_new ?a sec = Inr l" "al_inv l" "al_elems l = al_elems ?a @ [sec]" by blast
  have "length (al_data l) = length (al_data ?a)" if "al_size ?a \<noteq> ArrayList_capacity ?a"
    using l(1) that by (auto simp: ArrayList_enqueue_def awrite_Inr_iff)
  then show ?thesis using l al_full_iff[OF assms(1)] by (auto simp: enqueue_section_def Let_def)
qed

lemma unat_ucast_wide16: "unat (ucast (n :: u16) :: u32) = unat n"
proof -
  have "unat n < 65536" using unsigned_less[of n] by simp
  then show ?thesis by (simp add: unsigned_ucast_eq take_bit_nat_eq_self)
qed

lemma ArrayList_enqueue_spare:
  assumes "al_inv a" "unat (al_size a) < length (al_data a)"
  shows "\<exists>a'. ArrayList_enqueue dflt a x = Inr a' \<and> al_inv a' \<and> al_elems a' = al_elems a @ [x] \<and> length (al_data a') = length (al_data a)"
proof -
  have f: "al_size a \<noteq> ArrayList_capacity a" using al_full_iff[OF assms(1)] assms(2) by simp
  let ?a = "a\<lparr>al_data := (al_data a)[unat (al_size a) := x], al_size := al_size a + 1\<rparr>"
  have e: "ArrayList_enqueue dflt a x = Inr ?a" using f assms(2) by (simp add: ArrayList_enqueue_def)
  have s: "unat (al_size a + 1) = Suc (unat (al_size a))" using assms al_size_inc by (auto simp: al_inv_def)
  have "al_elems ?a = al_elems a @ [x]" using assms(2) s by (simp add: al_elems_def take_Suc_conv_app_nth)
  moreover have "al_inv ?a" using assms s by (auto simp: al_inv_def)
  ultimately show ?thesis using e by simp
qed

lemma enqueue_section_spare:
  assumes "al_inv (ex_sections x)" "unat (al_size (ex_sections x)) < length (al_data (ex_sections x))"
  shows "\<exists>x'. enqueue_section x sec = Inr x' \<and> al_inv (ex_sections x') \<and> al_elems (ex_sections x') = al_elems (ex_sections x) @ [sec]
    \<and> ex_file x' = ex_file x \<and> ex_segments x' = ex_segments x \<and> ex_isLoaded x' = ex_isLoaded x
    \<and> length (al_data (ex_sections x')) = length (al_data (ex_sections x))"
  using ArrayList_enqueue_spare[OF assms, of Section_new sec] by (auto simp: enqueue_section_def Let_def)

context byte_stream
begin

definition cached :: "u8 list \<Rightarrow> 's FileReader \<Rightarrow> bool" where
  "cached file r \<longleftrightarrow> fr_inv file r \<and> fr_eof r"

lemma cached_bytes: "cached file r \<Longrightarrow> take (length file) (fr_bytes r) = file"
  by (auto simp: cached_def fr_inv_def)

lemma readObject_ok:
  assumes "cached file r" "unat offset + n \<le> length file"
  shows "\<exists>r'. readObject rd dflt junk r n offset = Inr (take n (drop (unat offset) file), of_nat n, r') \<and> cached file r'"
proof -
  have len: "length file < 2 ^ 31" using assms(1) by (simp add: cached_def fr_inv_def)
  then have n: "unat (of_nat n :: size_t) = n" using assms(2) by simp
  from FileReader_read_range_ok[of "file" r offset "of_nat n" "map junk [0..<n]" dflt] assms len n obtain r' where
    r': "FileReader_read_range rd dflt r (map junk [0..<n]) offset (of_nat n) =
      Inr (of_nat (length (take n (drop (unat offset) file))), patch 0 (take n (drop (unat offset) file)) (map junk [0..<n]), r')"
    "fr_inv file r'" "fr_eof r'" by (auto simp: cached_def)
  have "length (take n (drop (unat offset) file)) = n" using assms(2) by simp
  then show ?thesis using r' by (simp add: readObject_def cached_def patch_def)
qed

lemma header_offset: "unat (a :: u32) + m * k \<le> length file \<Longrightarrow> length file < 2 ^ 31 \<Longrightarrow> i \<le> k \<Longrightarrow> unat (a + of_nat (m * i)) = unat a + m * i"
proof -
  assume a: "unat a + m * k \<le> length file" "length file < 2 ^ 31" "i \<le> k"
  have "m * i \<le> m * k" using a(3) by simp
  moreover have "length file < 2147483648" using a(2) by simp
  ultimately have "unat a + m * i < 4294967296" "m * i < 4294967296" using a(1) by linarith+
  moreover have "unat (of_nat (m * i) :: u32) = m * i" by (rule unat_of_nat_small) (use calculation in simp)
  ultimately show ?thesis by (simp only: unat_plus_small)
qed

lemma load_program_header_ok:
  assumes c: "cached file (ex_file x)" and at: "unat offset = unat (eh_programHeaderOffset (elf_header file)) + 32 * i" "unat offset + 32 \<le> length file"
    and ty: "ph_type (program_header file i) \<in> set program_types"
    and al: "al_inv (ex_segments x)" "unat (al_size (ex_segments x)) < length (al_data (ex_segments x))"
  shows "\<exists>x'. load_program_header rd dflt junk offset x = Inr (32, x') \<and> cached file (ex_file x') \<and> al_inv (ex_segments x')
    \<and> al_elems (ex_segments x') = al_elems (ex_segments x) @ [segment_of (program_header file i)]
    \<and> length (al_data (ex_segments x')) = length (al_data (ex_segments x))
    \<and> ex_sections x' = ex_sections x \<and> ex_isLoaded x' = ex_isLoaded x"
proof -
  from readObject_ok[OF c at(2), of dflt junk] obtain r where
    r: "readObject rd dflt junk (ex_file x) 32 offset = Inr (take 32 (drop (unat offset) file), 32, r)" "cached file r" by auto
  have h: "decode_ProgramHeader32 (take 32 (drop (unat offset) file)) = program_header file i" by (simp add: program_header_def at(1))
  have "al_size (ex_segments x) \<noteq> ArrayList_capacity (ex_segments x)" using al al_full_iff[OF al(1)] by simp
  then show ?thesis using ArrayList_enqueue_spare[OF al, of Segment_new "segment_of (program_header file i)"] r ty
    by (auto simp: load_program_header_def h Let_def segment_of_def)
qed

lemma loadProgramSegments_loop_ok:
  assumes "cached file (ex_file x)" "elf_ok file" "i + k = unat (eh_programEntryCount (elf_header file))"
    and "offset = eh_programHeaderOffset (elf_header file) + of_nat (32 * i)"
    and "al_inv (ex_segments x)" "unat (al_size (ex_segments x)) + k \<le> length (al_data (ex_segments x))"
  shows "\<exists>n x'. loadProgramSegments_loop k rd dflt junk offset sofar x = Inr (n, x') \<and> cached file (ex_file x')
    \<and> al_elems (ex_segments x') = al_elems (ex_segments x) @ map (\<lambda>i. segment_of (program_header file i)) [i..<i + k]
    \<and> ex_sections x' = ex_sections x \<and> ex_isLoaded x' = ex_isLoaded x"
  using assms
proof (induction k arbitrary: i offset sofar x)
  case (Suc k)
  let ?a = "eh_programHeaderOffset (elf_header file)" and ?N = "unat (eh_programEntryCount (elf_header file))"
  have len: "length file < 2 ^ 31" "unat ?a + 32 * ?N \<le> length file" using Suc.prems(2) by (simp_all add: elf_ok_def)
  have i: "i < ?N" using Suc.prems(3) by simp
  have at: "unat offset = unat ?a + 32 * i" unfolding Suc.prems(4) using header_offset[OF len(2,1), of i] i by simp
  moreover have "unat offset + 32 \<le> length file" using at len(2) i by linarith
  moreover have "ph_type (program_header file i) \<in> set program_types" using Suc.prems(2) i by (simp add: elf_ok_def)
  ultimately obtain x1 where s: "load_program_header rd dflt junk offset x = Inr (32, x1)" "cached file (ex_file x1)" "al_inv (ex_segments x1)"
    "al_elems (ex_segments x1) = al_elems (ex_segments x) @ [segment_of (program_header file i)]"
    "length (al_data (ex_segments x1)) = length (al_data (ex_segments x))" "ex_sections x1 = ex_sections x" "ex_isLoaded x1 = ex_isLoaded x"
    using load_program_header_ok[OF Suc.prems(1) _ _ _ Suc.prems(5), of offset i dflt junk] Suc.prems(6) by fastforce
  have sz: "unat (al_size (ex_segments x1)) = Suc (unat (al_size (ex_segments x)))"
    using al_length[OF s(3)] al_length[OF Suc.prems(5)] unfolding s(4) by simp
  have off: "offset + 32 = ?a + of_nat (32 * Suc i)" unfolding Suc.prems(4) by simp
  have c: "Suc i + k = ?N" "unat (al_size (ex_segments x1)) + k \<le> length (al_data (ex_segments x1))"
    using sz s(5) Suc.prems(3,6) by simp_all
  from Suc.IH[OF s(2) Suc.prems(2) c(1) off s(3) c(2), of "sofar + 32"] obtain n x' where
    "loadProgramSegments_loop k rd dflt junk (offset + 32) (sofar + 32) x1 = Inr (n, x')" "cached file (ex_file x')"
    "al_elems (ex_segments x') = al_elems (ex_segments x1) @ map (\<lambda>i. segment_of (program_header file i)) [Suc i..<Suc i + k]"
    "ex_sections x' = ex_sections x1" "ex_isLoaded x' = ex_isLoaded x1" by blast
  moreover have "[i..<i + Suc k] = i # [Suc i..<Suc i + k]" by (simp add: upt_conv_Cons)
  ultimately show ?case using s by simp
qed auto

text \<open>
  While sections are added, the name table stays where \<open>_nameTable\<close> points to: the block does not
  grow before the last of them.
\<close>

definition table_ok :: "u8 list \<Rightarrow> 's Executable \<Rightarrow> bool" where
  "table_ok file x \<longleftrightarrow> (\<exists>j sec. ex_nameTable x = Some (ex_block x, j) \<and> j < unat (al_size (ex_sections x))
     \<and> al_elems (ex_sections x) ! j = sec \<and> sec_data sec = Some (name_table file))"

lemma load_section_ok:
  assumes c: "cached file (ex_file x)" and ok: "elf_ok file"
    and i: "i < unat (eh_sectionEntryCount (elf_header file))" and at: "unat offset = unat (eh_sectionHeaderOffset (elf_header file)) + 40 * i"
    and al: "al_inv (ex_sections x)" "al_room (ex_sections x)" and t: "table_ok file x"
  shows "\<exists>x' sec. load_section rd dflt g junk offset x = Inr (40, x') \<and> cached file (ex_file x') \<and> al_inv (ex_sections x')
    \<and> al_elems (ex_sections x') = al_elems (ex_sections x) @ [sec] \<and> section_matches file i sec
    \<and> ex_segments x' = ex_segments x \<and> ex_isLoaded x' = ex_isLoaded x
    \<and> (unat (al_size (ex_sections x)) < length (al_data (ex_sections x)) \<longrightarrow>
        table_ok file x' \<and> length (al_data (ex_sections x')) = length (al_data (ex_sections x)))"
proof -
  let ?h = "section_header file i" and ?N = "unat (eh_sectionEntryCount (elf_header file))"
  have len: "length file < 2 ^ 31" "unat (eh_sectionHeaderOffset (elf_header file)) + 40 * ?N \<le> length file" using ok by (simp_all add: elf_ok_def)
  have "unat offset + 40 \<le> length file" using at len(2) i by linarith
  from readObject_ok[OF c this, of dflt junk] obtain r where
    r: "readObject rd dflt junk (ex_file x) 40 offset = Inr (take 40 (drop (unat offset) file), 40, r)" "cached file r" by auto
  have h: "decode_SectionHeader32 (take 40 (drop (unat offset) file)) = ?h" by (simp add: section_header_def at)
  have ty: "sh_type ?h \<in> set section_types" and nz: "0 \<in> set (drop (name_table file + unat (sh_nameIndex ?h)) file)"
    using ok i by (simp_all add: elf_ok_def)
  from assign_cstr_ok[OF nz cached_bytes[OF r(2)] len(1), of g] obtain s where
    s: "assign_cstr g BasicString_new (drop (name_table file + unat (sh_nameIndex ?h)) (fr_bytes r)) = Inr s"
      "bs_chars s = string_at file (name_table file + unat (sh_nameIndex ?h))" by blast
  from t obtain j where j: "ex_nameTable x = Some (ex_block x, j)" "j < unat (al_size (ex_sections x))"
    "sec_data (al_elems (ex_sections x) ! j) = Some (name_table file)" by (auto simp: table_ok_def)
  then have jd: "j < length (al_data (ex_sections x))" "al_data (ex_sections x) ! j = al_elems (ex_sections x) ! j"
    using al(1) by (auto simp: al_inv_def al_elems_def)
  define sec where "sec = \<lparr>sec_name = s, sec_data = (if sh_type ?h \<noteq> kNoBits then Some (unat (sh_offset ?h)) else None),
    sec_vaddress = sh_address ?h, sec_size = sh_size ?h\<rparr>"
  let ?x1 = "x\<lparr>ex_file := r\<rparr>"
  have al1: "al_inv (ex_sections ?x1)" "al_room (ex_sections ?x1)" using al by simp_all
  from enqueue_section_ok[OF al1, of sec] obtain x' where
    x': "enqueue_section ?x1 sec = Inr x'" "al_inv (ex_sections x')" "al_elems (ex_sections x') = al_elems (ex_sections x) @ [sec]"
      "ex_file x' = r" "ex_segments x' = ex_segments x" "ex_isLoaded x' = ex_isLoaded x" "ex_nameTable x' = ex_nameTable x"
      "unat (al_size (ex_sections x)) < length (al_data (ex_sections x)) \<longrightarrow>
        ex_block x' = ex_block x \<and> length (al_data (ex_sections x')) = length (al_data (ex_sections x))" by auto
  have "load_section rd dflt g junk offset x = Inr (40, x')"
    using r(1) ty j(1,3) jd s(1) x'(1)
    by (cases "sh_type ?h = kNoBits") (simp_all add: load_section_def h Let_def deref_section_def Section_new_def sec_def)
  moreover have "section_matches file i sec" using s(2) by (simp add: section_matches_def sec_def Let_def)
  moreover have "unat (al_size (ex_sections x')) = Suc (unat (al_size (ex_sections x)))"
    using al_length[OF x'(2)] al_length[OF al(1)] unfolding x'(3) by simp
  then have "table_ok file x'" if "unat (al_size (ex_sections x)) < length (al_data (ex_sections x))"
    using x'(3,7,8) j al_length[OF al(1)] that by (auto simp: table_ok_def nth_append)
  ultimately show ?thesis using x' r(2) by blast
qed

lemma loadSections_loop_ok:
  assumes "cached file (ex_file x)" "elf_ok file" "i + k = unat (eh_sectionEntryCount (elf_header file))"
    and "offset = eh_sectionHeaderOffset (elf_header file) + of_nat (40 * i)"
    and "al_inv (ex_sections x)" "length (al_data (ex_sections x)) < 2 ^ 31"
    and "k \<noteq> 0 \<Longrightarrow> table_ok file x \<and> unat (al_size (ex_sections x)) + k \<le> length (al_data (ex_sections x)) + 1"
  shows "\<exists>n x' secs. loadSections_loop k rd dflt g junk offset sofar x = Inr (n, x') \<and> cached file (ex_file x')
    \<and> al_elems (ex_sections x') = al_elems (ex_sections x) @ secs \<and> list_all2 (section_matches file) [i..<i + k] secs
    \<and> ex_segments x' = ex_segments x \<and> ex_isLoaded x' = ex_isLoaded x"
  using assms
proof (induction k arbitrary: i offset sofar x)
  case (Suc k)
  let ?a = "eh_sectionHeaderOffset (elf_header file)" and ?N = "unat (eh_sectionEntryCount (elf_header file))"
  have len: "length file < 2 ^ 31" "unat ?a + 40 * ?N \<le> length file" using Suc.prems(2) by (simp_all add: elf_ok_def)
  have i: "i < ?N" using Suc.prems(3) by simp
  have at: "unat offset = unat ?a + 40 * i" unfolding Suc.prems(4) using header_offset[OF len(2,1), of i] i by simp
  have rm: "al_room (ex_sections x)" using Suc.prems(6) by (simp add: al_room_def)
  have t: "table_ok file x" "unat (al_size (ex_sections x)) + Suc k \<le> length (al_data (ex_sections x)) + 1" using Suc.prems(7) by simp_all
  from load_section_ok[OF Suc.prems(1,2) i at Suc.prems(5) rm t(1), of dflt g junk] obtain x1 sec where
    s: "load_section rd dflt g junk offset x = Inr (40, x1)" "cached file (ex_file x1)" "al_inv (ex_sections x1)"
      "al_elems (ex_sections x1) = al_elems (ex_sections x) @ [sec]" "section_matches file i sec"
      "ex_segments x1 = ex_segments x" "ex_isLoaded x1 = ex_isLoaded x"
      "unat (al_size (ex_sections x)) < length (al_data (ex_sections x)) \<longrightarrow>
        table_ok file x1 \<and> length (al_data (ex_sections x1)) = length (al_data (ex_sections x))" by blast
  have sz: "unat (al_size (ex_sections x1)) = Suc (unat (al_size (ex_sections x)))"
    using al_length[OF s(3)] al_length[OF Suc.prems(5)] unfolding s(4) by simp
  have off: "offset + 40 = ?a + of_nat (40 * Suc i)" unfolding Suc.prems(4) by simp
  have c: "Suc i + k = ?N" using Suc.prems(3) by simp
  have "\<exists>n x' secs. loadSections_loop k rd dflt g junk (offset + 40) (sofar + 40) x1 = Inr (n, x') \<and> cached file (ex_file x')
    \<and> al_elems (ex_sections x') = al_elems (ex_sections x1) @ secs \<and> list_all2 (section_matches file) [Suc i..<Suc i + k] secs
    \<and> ex_segments x' = ex_segments x1 \<and> ex_isLoaded x' = ex_isLoaded x1"
  proof (cases "k = 0")
    case True
    then show ?thesis using s(2) by auto
  next
    case False
    then have sp: "unat (al_size (ex_sections x)) < length (al_data (ex_sections x))" using t(2) by linarith
    show ?thesis by (rule Suc.IH[OF s(2) Suc.prems(2) c off s(3)]) (use s(8) sp sz t(2) Suc.prems(6) in auto)
  qed
  then obtain n x' secs where r: "loadSections_loop k rd dflt g junk (offset + 40) (sofar + 40) x1 = Inr (n, x')" "cached file (ex_file x')"
    "al_elems (ex_sections x') = al_elems (ex_sections x1) @ secs" "list_all2 (section_matches file) [Suc i..<Suc i + k] secs"
    "ex_segments x' = ex_segments x1" "ex_isLoaded x' = ex_isLoaded x1" by blast
  have "[i..<i + Suc k] = i # [Suc i..<Suc i + k]" by (simp add: upt_conv_Cons)
  then have "list_all2 (section_matches file) [i..<i + Suc k] (sec # secs)" using r(4) s(5) by simp
  then show ?case using s r by (intro exI[of _ n] exI[of _ x'] exI[of _ "sec # secs"]) simp
qed auto

lemma loadNameTable_ok:
  assumes c: "cached file (ex_file x)" and ok: "elf_ok file" and al: "al_inv (ex_sections x)" "al_size (ex_sections x) = 0"
    and idx: "idx = ucast (eh_sectionNameEntryIndex (elf_header file))"
  shows "\<exists>x' sec. loadNameTable rd dflt g junk (eh_sectionHeaderOffset (elf_header file)) idx x = Inr x' \<and> cached file (ex_file x')
    \<and> al_inv (ex_sections x') \<and> al_elems (ex_sections x') = [sec] \<and> table_ok file x'
    \<and> length (al_data (ex_sections x')) = length (al_data (ex_sections x)) \<and> ex_segments x' = ex_segments x \<and> ex_isLoaded x' = ex_isLoaded x"
proof -
  let ?a = "eh_sectionHeaderOffset (elf_header file)" and ?i = "unat (eh_sectionNameEntryIndex (elf_header file))"
    and ?N = "unat (eh_sectionEntryCount (elf_header file))"
  let ?h = "section_header file ?i"
  have len: "length file < 2 ^ 31" "unat ?a + 40 * ?N \<le> length file" and i: "?i < ?N" using ok by (simp_all add: elf_ok_def)
  have "40 * idx = of_nat (40 * ?i)" unfolding idx by simp
  then have at: "unat (?a + 40 * idx) = unat ?a + 40 * ?i" using header_offset[OF len(2,1), of ?i] i by simp
  then have "unat (?a + 40 * idx) + 40 \<le> length file" using len(2) i by linarith
  from readObject_ok[OF c this, of dflt junk] obtain r where
    r: "readObject rd dflt junk (ex_file x) 40 (?a + 40 * idx) = Inr (take 40 (drop (unat (?a + 40 * idx)) file), 40, r)" "cached file r" by auto
  have h: "decode_SectionHeader32 (take 40 (drop (unat (?a + 40 * idx)) file)) = ?h" by (simp add: section_header_def at)
  have nt: "unat (sh_offset ?h) = name_table file" by (simp add: name_table_def)
  have "0 \<in> set (drop (name_table file + unat (sh_nameIndex ?h)) file)" using ok i by (simp add: elf_ok_def)
  from assign_cstr_ok[OF this cached_bytes[OF r(2)] len(1), of g] obtain s where
    s: "assign_cstr g BasicString_new (drop (name_table file + unat (sh_nameIndex ?h)) (fr_bytes r)) = Inr s" by blast
  let ?sec = "Section_new\<lparr>sec_vaddress := sh_address ?h, sec_data := Some (name_table file), sec_name := s\<rparr>" and ?x1 = "x\<lparr>ex_file := r\<rparr>"
  have "al_inv (ex_sections ?x1)" "unat (al_size (ex_sections x)) < length (al_data (ex_sections x))" "al_elems (ex_sections x) = []"
    using al by (simp_all add: al_inv_def al_elems_def)
  note al1 = this
  from enqueue_section_spare[OF al1(1), of ?sec] al1 obtain x2 where
    x2: "enqueue_section ?x1 ?sec = Inr x2" "al_inv (ex_sections x2)" "al_elems (ex_sections x2) = [?sec]"
      "ex_file x2 = r" "ex_segments x2 = ex_segments x" "ex_isLoaded x2 = ex_isLoaded x"
      "length (al_data (ex_sections x2)) = length (al_data (ex_sections x))" by auto
  have sz: "unat (al_size (ex_sections x2)) = 1" using al_length[OF x2(2)] x2(3) by simp
  then have "al_size (ex_sections x2) = 1" by (simp add: word32_eq_iff_unat)
  then have "loadNameTable rd dflt g junk ?a idx x = Inr (x2\<lparr>ex_nameTable := Some (ex_block x2, 0)\<rparr>)"
    using r(1) s x2(1) by (simp add: loadNameTable_def h nt Let_def)
  moreover have "table_ok file (x2\<lparr>ex_nameTable := Some (ex_block x2, 0)\<rparr>)" using sz x2(3) by (simp add: table_ok_def)
  ultimately show ?thesis using x2 r(2) by simp
qed

lemma reserve_list_ok:
  fixes n :: u16
  assumes "length (al_data a) = 8" "al_size a = 0"
  shows "\<exists>b. ArrayList_reserve dflt a (ucast n) = Inr b \<and> al_inv b \<and> al_size b = 0 \<and> unat n \<le> length (al_data b)
    \<and> 8 \<le> length (al_data b) \<and> length (al_data b) < 65536"
proof -
  have u: "unat (ucast n :: size_t) = unat n" "unat n < 65536" using unsigned_less[of n] by (simp_all add: unat_ucast_wide16)
  have cap: "unat (ArrayList_capacity a) = 8" using assms(1) by (simp add: ArrayList_capacity_def DynamicArray_capacity_def)
  show ?thesis
  proof (cases "ucast n > ArrayList_capacity a")
    case False
    then have "unat n \<le> 8" using cap u(1) by (simp add: word_less_nat_alt)
    then show ?thesis using False assms by (auto simp: ArrayList_reserve_def al_inv_def)
  next
    case True
    then have "8 < unat n" using cap u(1) by (simp add: word_less_nat_alt)
    moreover have "(ucast n :: size_t) \<noteq> 0" using True by auto
    ultimately show ?thesis using True assms u
      by (auto simp: ArrayList_reserve_def DynamicArray_resize_def Resizer_resize_def al_inv_def)
  qed
qed

lemma Executable_new_ok:
  assumes s: "sinv s" "length (srest s) < fuel" and ok: "elf_ok (srest s)"
  shows "\<exists>x sec secs. Executable_new fuel rd dflt g junk (Some s) = Inr x \<and> \<not> ex_isLoaded x
    \<and> ex_entry x = eh_entry (elf_header (srest s)) \<and> take (length (srest s)) (fr_bytes (ex_file x)) = srest s
    \<and> al_elems (ex_segments x) = map (\<lambda>i. segment_of (program_header (srest s) i)) [0..<unat (eh_programEntryCount (elf_header (srest s)))]
    \<and> al_elems (ex_sections x) = sec # secs
    \<and> list_all2 (section_matches (srest s)) [0..<unat (eh_sectionEntryCount (elf_header (srest s)))] secs"
proof -
  let ?f = "srest s" and ?h = "elf_header (srest s)"
  have len: "length ?f < 2 ^ 31" "52 \<le> length ?f" using ok by (simp_all add: elf_ok_def)
  from FileReader_readAll_ok[OF s(1) len(1) s(2), of dflt] obtain r0 where
    r0: "FileReader_readAll fuel rd dflt (FileReader_new dflt (Some s)) = Inr r0" "cached ?f r0" by (auto simp: cached_def)
  from readObject_ok[OF r0(2), of 0 52 dflt junk] len(2) obtain r where
    r: "readObject rd dflt junk r0 52 0 = Inr (take 52 ?f, 52, r)" "cached ?f r" by auto
  have h: "decode_ElfHeader32 (take 52 ?f) = ?h" by (simp add: elf_header_def)
  have new: "length (al_data (ArrayList_new d 8)) = 8" "al_size (ArrayList_new d 8) = 0" for d :: 'x
    by (simp_all add: ArrayList_new_def DynamicArray_new_def)
  from reserve_list_ok[OF new, of Section_new Section_new "eh_sectionEntryCount ?h"] obtain sl where
    sl: "ArrayList_reserve Section_new (ArrayList_new Section_new 8) (ucast (eh_sectionEntryCount ?h)) = Inr sl" "al_inv sl" "al_size sl = 0"
      "unat (eh_sectionEntryCount ?h) \<le> length (al_data sl)" "length (al_data sl) < 65536" by blast
  from reserve_list_ok[OF new, of Segment_new Segment_new "eh_programEntryCount ?h"] obtain pl where
    pl: "ArrayList_reserve Segment_new (ArrayList_new Segment_new 8) (ucast (eh_programEntryCount ?h)) = Inr pl" "al_inv pl" "al_size pl = 0"
      "unat (eh_programEntryCount ?h) \<le> length (al_data pl)" by blast
  define x0 where "x0 = \<lparr>ex_file = r, ex_sections = sl, ex_block = 0, ex_segments = pl, ex_nameTable = None, ex_entry = 0, ex_isLoaded = False\<rparr>"
  have x0: "cached ?f (ex_file x0)" "al_inv (ex_sections x0)" "al_size (ex_sections x0) = 0" using r(2) sl by (simp_all add: x0_def)
  from loadNameTable_ok[OF x0(1) ok x0(2,3) refl, of dflt g junk] obtain x1 sec where
    x1: "loadNameTable rd dflt g junk (eh_sectionHeaderOffset ?h) (ucast (eh_sectionNameEntryIndex ?h)) x0 = Inr x1" "cached ?f (ex_file x1)"
      "al_inv (ex_sections x1)" "al_elems (ex_sections x1) = [sec]" "table_ok ?f x1" "length (al_data (ex_sections x1)) = length (al_data sl)"
      "ex_segments x1 = pl" "\<not> ex_isLoaded x1" by (auto simp: x0_def)
  have sz1: "unat (al_size (ex_sections x1)) = 1" using al_length[OF x1(3)] x1(4) by simp
  have wide: "unat (ucast n :: size_t) = unat n" for n :: u16 by (simp add: unat_ucast_wide16)
  have "\<exists>n x' secs. loadSections_loop (unat (eh_sectionEntryCount ?h)) rd dflt g junk (eh_sectionHeaderOffset ?h) 0 x1 = Inr (n, x') \<and> cached ?f (ex_file x')
    \<and> al_elems (ex_sections x') = al_elems (ex_sections x1) @ secs \<and> list_all2 (section_matches ?f) [0..<0 + unat (eh_sectionEntryCount ?h)] secs
    \<and> ex_segments x' = ex_segments x1 \<and> ex_isLoaded x' = ex_isLoaded x1"
    by (rule loadSections_loop_ok[OF x1(2) ok _ _ x1(3)]) (use x1(5,6) sl(4,5) sz1 in auto)
  then obtain n x2 secs where x2: "loadSections_loop (unat (eh_sectionEntryCount ?h)) rd dflt g junk (eh_sectionHeaderOffset ?h) 0 x1 = Inr (n, x2)"
    "cached ?f (ex_file x2)" "al_elems (ex_sections x2) = sec # secs" "list_all2 (section_matches ?f) [0..<unat (eh_sectionEntryCount ?h)] secs"
    "ex_segments x2 = pl" "\<not> ex_isLoaded x2" using x1(4,7,8) by auto
  have "\<exists>m x'. loadProgramSegments_loop (unat (eh_programEntryCount ?h)) rd dflt junk (eh_programHeaderOffset ?h) 0 x2 = Inr (m, x') \<and> cached ?f (ex_file x')
    \<and> al_elems (ex_segments x') = al_elems (ex_segments x2) @ map (\<lambda>i. segment_of (program_header ?f i)) [0..<0 + unat (eh_programEntryCount ?h)]
    \<and> ex_sections x' = ex_sections x2 \<and> ex_isLoaded x' = ex_isLoaded x2"
    by (rule loadProgramSegments_loop_ok[OF x2(2) ok]) (use x2(5) pl in auto)
  then obtain m x3 where x3: "loadProgramSegments_loop (unat (eh_programEntryCount ?h)) rd dflt junk (eh_programHeaderOffset ?h) 0 x2 = Inr (m, x3)"
    "cached ?f (ex_file x3)" "al_elems (ex_segments x3) = map (\<lambda>i. segment_of (program_header ?f i)) [0..<unat (eh_programEntryCount ?h)]"
    "ex_sections x3 = ex_sections x2" "\<not> ex_isLoaded x3" using x2(5,6) pl(3) by (auto simp: al_elems_def)
  have "Executable_new fuel rd dflt g junk (Some s) = Inr (x3\<lparr>ex_entry := eh_entry ?h\<rparr>)"
    using r0(1) r(1) sl(1) pl(1) x1(1) x2(1) x3(1)
    by (simp add: Executable_new_def h Let_def loadSections_def loadProgramSegments_def wide x0_def)
  then show ?thesis using x3 x2(3,4) cached_bytes[OF x3(2)] by simp
qed

end

section \<open>Properties\<close>


text \<open>A file with a header, one program header and one section header, whose name is empty.\<close>

definition example_elf :: "u8 list" where
  "example_elf = [0x7F, 0x45, 0x4C, 0x46, 1, 1, 1, 0, 0, 0, 0, 0, 0, 0, 0, 0, 2, 0, 3, 0, 1, 0, 0, 0, 0, 0x10, 0, 0, 52, 0, 0, 0,
     84, 0, 0, 0, 0, 0, 0, 0, 52, 0, 32, 0, 1, 0, 40, 0, 1, 0, 0, 0,
     1, 0, 0, 0, 0, 0, 0, 0, 0, 0x10, 0, 0, 0, 0, 0, 0, 4, 0, 0, 0, 8, 0, 0, 0, 0, 0, 0, 0, 0, 0x10, 0, 0,
     0, 0, 0, 0, 3, 0, 0, 0, 0, 0, 0, 0, 0, 0, 0, 0, 123, 0, 0, 0, 1, 0, 0, 0, 0, 0, 0, 0, 0, 0, 0, 0, 0, 0, 0, 0, 0, 0, 0, 0]"

lemma example_elf_header:
  "unat (eh_programHeaderOffset (elf_header example_elf)) = 52" "unat (eh_programEntryCount (elf_header example_elf)) = 1"
  "unat (eh_sectionHeaderOffset (elf_header example_elf)) = 84" "unat (eh_sectionEntryCount (elf_header example_elf)) = 1"
  "unat (eh_sectionNameEntryIndex (elf_header example_elf)) = 0" "eh_entry (elf_header example_elf) = 0x1000" "length example_elf = 124"
  "seg_memorySize (segment_of (program_header example_elf 0)) = 8" "ph_type (program_header example_elf 0) = 1"
  "sh_type (section_header example_elf 0) = 3" "unat (sh_nameIndex (section_header example_elf 0)) = 0" "name_table example_elf = 123"
  by code_simp+

lemma example_elf_ok: "elf_ok example_elf"
proof -
  have "drop 123 example_elf = [0]" by code_simp
  then show ?thesis by (simp add: elf_ok_def example_elf_header program_types_def section_types_def)
qed


end
