(* ===== verification/Cpu.thy ===== *)
theory Cpu
  imports Ata
begin

text \<open>
  The processor set-up of the i386 port: segment descriptors
  (\<open>kernel/src/arch/i386/cpu/GlobalDescriptorTable.cpp\<close>), interrupt gates and service routines
  (\<open>kernel/src/arch/i386/cpu/InterruptDescriptorTable.cpp\<close>), the interrupt controllers
  (\<open>kernel/src/arch/i386/cpu/X86.cpp\<close>) and the real-time clock
  (\<open>kernel/src/arch/i386/cpu/X86RealTimeClock.cpp\<close>).

  Ports are accessed through a \<open>bus\<close> as in the disk driver. The addresses of the assembly stubs
  (\<open>kIsrs\<close>) and of the objects that the processor is pointed to are arguments. Function-local
  \<open>static\<close> variables are fields of the state. The registers that the assembly routines
  \<open>set_gdt\<close> and \<open>set_idt\<close> and the instruction \<open>ltr\<close> load are the record \<open>Processor\<close>. What the
  default routines print on the debug port is a list of events.
\<close>

section \<open>Segment descriptors\<close>

record GDTEntry =
  ge_base :: u32
  ge_limit :: u32
  ge_type :: u8

datatype GDTEntryType = NoType | KernelCode | KernelData | UserCode | UserData | TSS

primrec type_code :: "GDTEntryType \<Rightarrow> u8" where
  "type_code NoType = 0x0"
| "type_code KernelCode = 0x9A"
| "type_code KernelData = 0x92"
| "type_code UserCode = 0xFA"
| "type_code UserData = 0xF2"
| "type_code TSS = 0x89"

definition GDTEntry_default :: GDTEntry where
  "GDTEntry_default = \<lparr>ge_base = 0, ge_limit = 0, ge_type = 0\<rparr>"

definition GDTEntry_new :: "u32 \<Rightarrow> u32 \<Rightarrow> GDTEntryType \<Rightarrow> GDTEntry" where
  "GDTEntry_new base limit t = \<lparr>ge_base = base, ge_limit = limit, ge_type = type_code t\<rparr>"

text \<open>The bytes of a 64-bit integer in memory, low byte first.\<close>

definition bytes64 :: "u64 \<Rightarrow> u8 list" where
  "bytes64 w = map (\<lambda>i. ucast (drop_bit (8 * i) w)) [0..<8]"

definition GDT_encodeEntry :: "u64 list \<Rightarrow> u8 \<Rightarrow> GDTEntry \<Rightarrow> u64 list res" where
  "GDT_encodeEntry gdt entryNumber source =
     rbind (aread gdt (unat entryNumber)) (\<lambda>old.
     let target = bytes64 old;
         (limit, target) = (if ge_limit source > 65536 then (drop_bit 12 (ge_limit source), target[6 := 0xC0])
                            else (ge_limit source, target[6 := 0x40]));
         target = target[0 := ucast (limit AND 0xFF)];
         target = target[1 := ucast (drop_bit 8 limit AND 0xFF)];
         target = target[6 := target ! 6 OR ucast (drop_bit 16 limit AND 0xF)];
         target = target[2 := ucast (ge_base source AND 0xFF)];
         target = target[3 := ucast (drop_bit 8 (ge_base source) AND 0xFF)];
         target = target[4 := ucast (drop_bit 16 (ge_base source) AND 0xFF)];
         target = target[7 := ucast (drop_bit 24 (ge_base source) AND 0xFF)];
         target = target[5 := ge_type source] in
     awrite gdt (unat entryNumber) (load64 target 0))"

section \<open>Interrupt gates and routines\<close>

record IDTEntry =
  ie_offset :: u32
  ie_selector :: u16
  ie_typeAttr :: u8

definition EncodeEntry :: "IDTEntry \<Rightarrow> u64" where
  "EncodeEntry source =
     load64 [ucast (ie_offset source AND 0xFF), ucast (drop_bit 8 (ie_offset source) AND 0xFF),
             ucast (ie_selector source AND 0xFF), ucast (drop_bit 8 (ie_selector source)) AND 0xFF,
             0, ie_typeAttr source,
             ucast (drop_bit 16 (ie_offset source) AND 0xFF), ucast (drop_bit 24 (ie_offset source) AND 0xFF)] 0"

text \<open>The classes derived from \<open>InterruptServiceRoutine\<close>.\<close>

datatype InterruptServiceRoutine = StubISR | PanicISR | IRQHandler | PITIRQ | PS2KeyboardISR | PageFaultISR | SyscallHandler

record InterruptDescriptorTable =
  idt_isr :: "InterruptServiceRoutine option list"
  idt_gate :: "u64 list"
  idt_i :: nat

definition IDT_new :: InterruptDescriptorTable where
  "IDT_new = \<lparr>idt_isr = replicate 256 None, idt_gate = replicate 256 0, idt_i = 0\<rparr>"

definition IDT_encodeEntry :: "InterruptDescriptorTable \<Rightarrow> u8 \<Rightarrow> IDTEntry \<Rightarrow> InterruptDescriptorTable res" where
  "IDT_encodeEntry t entryNumber source =
     rbind (awrite (idt_gate t) (unat entryNumber) (EncodeEntry source)) (\<lambda>l. Inr (t\<lparr>idt_gate := l\<rparr>))"

definition setISR :: "InterruptDescriptorTable \<Rightarrow> u8 \<Rightarrow> InterruptServiceRoutine option \<Rightarrow> InterruptDescriptorTable res" where
  "setISR t interruptNumber routine =
     rbind (awrite (idt_isr t) (unat interruptNumber) routine) (\<lambda>l. Inr (t\<lparr>idt_isr := l\<rparr>))"

definition addISR :: "uintptr list \<Rightarrow> InterruptDescriptorTable \<Rightarrow> u8 \<Rightarrow> InterruptServiceRoutine \<Rightarrow> InterruptDescriptorTable res" where
  "addISR kIsrs t num isrf =
     rbind (aread kIsrs (unat num)) (\<lambda>stub.
     rbind (IDT_encodeEntry t num \<lparr>ie_offset = stub, ie_selector = 0x08, ie_typeAttr = 0x8E\<rparr>) (\<lambda>t1.
     setISR t1 num (Some isrf)))"

fun add_all :: "uintptr list \<Rightarrow> (u8 \<times> InterruptServiceRoutine) list \<Rightarrow> InterruptDescriptorTable \<Rightarrow> InterruptDescriptorTable res" where
  "add_all kIsrs [] t = Inr t"
| "add_all kIsrs ((num, isrf) # rs) t = rbind (addISR kIsrs t num isrf) (add_all kIsrs rs)"

text \<open>\<open>generate_n\<close> with the generator's static counter; \<open>k\<close> gates are left.\<close>

fun generate_gates :: "nat \<Rightarrow> uintptr list \<Rightarrow> nat \<Rightarrow> (u64 list \<times> nat) res" where
  "generate_gates 0 kIsrs i = Inr ([], i)"
| "generate_gates (Suc k) kIsrs i =
     rbind (aread kIsrs i) (\<lambda>stub.
     rbind (generate_gates k kIsrs (i + 1)) (\<lambda>(gates, i1).
     Inr (EncodeEntry \<lparr>ie_offset = stub, ie_selector = 0x08, ie_typeAttr = 0x8E\<rparr> # gates, i1)))"

definition system_isrs :: "(u8 \<times> InterruptServiceRoutine) list" where
  "system_isrs = [(0, StubISR), (1, StubISR), (2, StubISR), (3, StubISR), (4, StubISR), (5, StubISR), (6, StubISR),
     (7, StubISR), (8, PanicISR), (9, StubISR), (10, StubISR), (11, StubISR), (12, StubISR), (13, StubISR), (14, StubISR),
     (15, StubISR), (16, StubISR), (17, StubISR), (18, StubISR), (19, StubISR)]"

definition encodeISRs :: "uintptr list \<Rightarrow> InterruptDescriptorTable \<Rightarrow> InterruptDescriptorTable res" where
  "encodeISRs kIsrs t =
     rbind (generate_gates 256 kIsrs (idt_i t)) (\<lambda>(gates, i).
     add_all kIsrs system_isrs (t\<lparr>idt_gate := gates, idt_isr := replicate 256 (Some StubISR), idt_i := i\<rparr>))"

definition exception_messages :: "string list" where
  "exception_messages =
     [''Division by zero'', ''Debug'', ''Non-maskable interrupt'', ''Breakpoint'', ''Detected overflow'', ''Out-of-bounds'',
      ''Invalid opcode'', ''No coprocessor'', ''Double fault'', ''Coprocessor segment overrun'', ''Bad TSS'',
      ''Segment not present'', ''Stack fault'', ''General protection fault'', ''Page fault'', ''Unknown interrupt'',
      ''Coprocessor fault'', ''Alignment check'', ''Machine check''] @ replicate 13 ''Reserved''"

record RegisterTable =
  ds :: u32
  edi :: u32
  esi :: u32
  ebp :: u32
  esp :: u32
  ebx :: u32
  edx :: u32
  ecx :: u32
  eax :: u32
  int_no :: u32
  err_code :: u32
  eip :: u32
  cs :: u32
  eflags :: u32
  useresp :: u32
  ss :: u32

datatype debug_event = IsrCalled string u32 u32 | IrqCalled u32 u32

definition endOfInterrupt :: "'d bus \<Rightarrow> 'd \<Rightarrow> 'd" where
  "endOfInterrupt bus d = bus_outb bus 0x20 0x20 d"

definition StubISR_call :: "RegisterTable \<Rightarrow> 'd \<Rightarrow> (debug_event list \<times> RegisterTable \<times> 'd) res" where
  "StubISR_call registers d = rbind (aread exception_messages (unat (int_no registers))) (\<lambda>msg.
     Inr ([IsrCalled msg (int_no registers) (err_code registers)], registers, d))"

definition PanicISR_call :: "RegisterTable \<Rightarrow> 'd \<Rightarrow> (debug_event list \<times> RegisterTable \<times> 'd) res" where
  "PanicISR_call registers d = rbind (aread exception_messages (unat (int_no registers))) (\<lambda>msg. Inl (KernelPanic msg))"

definition IRQHandler_call :: "'d bus \<Rightarrow> RegisterTable \<Rightarrow> 'd \<Rightarrow> (debug_event list \<times> RegisterTable \<times> 'd) res" where
  "IRQHandler_call bus registers d =
     Inr ([IrqCalled (int_no registers) (err_code registers)], registers, bus_outb bus 0x20 0x20 d)"

definition PITIRQ_call :: "'d bus \<Rightarrow> RegisterTable \<Rightarrow> 'd \<Rightarrow> (debug_event list \<times> RegisterTable \<times> 'd) res" where
  "PITIRQ_call bus registers d = Inr ([], registers, endOfInterrupt bus d)"

text \<open>
  The virtual call in \<open>callISR\<close>; \<open>run\<close> is the call of a routine of the keyboard, the page fault
  handler or the system calls.
\<close>

definition callISR :: "'d bus \<Rightarrow> (InterruptServiceRoutine \<Rightarrow> RegisterTable \<Rightarrow> 'd \<Rightarrow> (debug_event list \<times> RegisterTable \<times> 'd) res)
    \<Rightarrow> InterruptDescriptorTable \<Rightarrow> u8 \<Rightarrow> RegisterTable \<Rightarrow> 'd \<Rightarrow> (debug_event list \<times> RegisterTable \<times> 'd) res" where
  "callISR bus run t interruptNumber registers d =
     rbind (aread (idt_isr t) (unat interruptNumber)) (\<lambda>r. case r of
       None \<Rightarrow> Inl NullPointer
     | Some StubISR \<Rightarrow> StubISR_call registers d
     | Some PanicISR \<Rightarrow> PanicISR_call registers d
     | Some IRQHandler \<Rightarrow> IRQHandler_call bus registers d
     | Some PITIRQ \<Rightarrow> PITIRQ_call bus registers d
     | Some isr \<Rightarrow> run isr registers d)"

definition interrupt_handler :: "'d bus \<Rightarrow> (InterruptServiceRoutine \<Rightarrow> RegisterTable \<Rightarrow> 'd \<Rightarrow> (debug_event list \<times> RegisterTable \<times> 'd) res)
    \<Rightarrow> InterruptDescriptorTable \<Rightarrow> RegisterTable \<Rightarrow> 'd \<Rightarrow> (debug_event list \<times> RegisterTable \<times> 'd) res" where
  "interrupt_handler bus run t registers d = callISR bus run t (ucast (int_no registers)) registers d"

section \<open>The processor\<close>

record TaskStateSegment =
  tss_words :: "u32 list"
  tss_trap :: u16
  tss_iomap_base :: u16

record CPU =
  cpu_gdt :: "u64 list"
  cpu_idt :: InterruptDescriptorTable
  cpu_tss :: TaskStateSegment
  pic_initialized :: bool

record Processor =
  gdtr :: "(uintptr \<times> u16) option"
  idtr :: "(uintptr \<times> u16) option"
  tr :: u16
  if_flag :: bool

text \<open>
  The task state segment is 25 words and two half-words, 104 bytes; \<open>esp0\<close> and \<open>ss0\<close> are words
  1 and 2. \<open>tss_addr\<close> is its address.
\<close>

definition CPU_new :: "uintptr \<Rightarrow> CPU res" where
  "CPU_new tss_addr =
     rbind (GDT_encodeEntry (replicate 6 0) 0 GDTEntry_default) (\<lambda>g0.
     rbind (GDT_encodeEntry g0 1 (GDTEntry_new 0 0xffffffff KernelCode)) (\<lambda>g1.
     rbind (GDT_encodeEntry g1 2 (GDTEntry_new 0 0xffffffff KernelData)) (\<lambda>g2.
     rbind (GDT_encodeEntry g2 3 (GDTEntry_new 0 0xffffffff UserCode)) (\<lambda>g3.
     rbind (GDT_encodeEntry g3 4 (GDTEntry_new 0 0xffffffff UserData)) (\<lambda>g4.
     rbind (GDT_encodeEntry g4 5 (GDTEntry_new tss_addr 104 TSS)) (\<lambda>g5.
     Inr \<lparr>cpu_gdt = g5, cpu_idt = IDT_new,
          cpu_tss = \<lparr>tss_words = (replicate 25 0)[2 := 0x10, 1 := 0x0], tss_trap = 0, tss_iomap_base = 104\<rparr>,
          pic_initialized = False\<rparr>))))))"

definition CPU_install :: "uintptr list \<Rightarrow> uintptr \<Rightarrow> uintptr \<Rightarrow> CPU \<Rightarrow> Processor \<Rightarrow> (CPU \<times> Processor) res" where
  "CPU_install kIsrs gdt_addr idt_addr cpu p =
     rbind (encodeISRs kIsrs (cpu_idt cpu)) (\<lambda>t.
     let p1 = p\<lparr>gdtr := Some (gdt_addr, ucast (8 * 6 :: size_t))\<rparr>;
         p2 = p1\<lparr>tr := ucast (ucast (5 :: u8) * 8 :: u32)\<rparr>;
         p3 = p2\<lparr>idtr := Some (idt_addr, ucast (8 * 256 :: size_t))\<rparr> in
     Inr (cpu\<lparr>cpu_idt := t\<rparr>, p3))"

section \<open>Interrupt controllers\<close>

abbreviation PIC1_COMMAND :: u16 where "PIC1_COMMAND \<equiv> 0x20"
abbreviation PIC1_DATA :: u16 where "PIC1_DATA \<equiv> 0x21"
abbreviation PIC2_COMMAND :: u16 where "PIC2_COMMAND \<equiv> 0xA0"
abbreviation PIC2_DATA :: u16 where "PIC2_DATA \<equiv> 0xA1"

fun set_irq_handlers :: "nat \<Rightarrow> nat \<Rightarrow> InterruptDescriptorTable \<Rightarrow> InterruptDescriptorTable res" where
  "set_irq_handlers 0 i t = Inr t"
| "set_irq_handlers (Suc k) i t = rbind (setISR t (of_nat i) (Some IRQHandler)) (set_irq_handlers k (i + 1))"

definition program_pics :: "'d bus \<Rightarrow> u8 \<Rightarrow> u8 \<Rightarrow> 'd \<Rightarrow> 'd" where
  "program_pics bus pic1 pic2 d =
     (let d = bus_outb bus PIC1_COMMAND (0x10 + 0x01) d;
          d = bus_outb bus PIC2_COMMAND (0x10 + 0x01) d;
          d = bus_outb bus PIC1_DATA pic1 d;
          d = bus_outb bus PIC2_DATA pic2 d;
          d = bus_outb bus PIC1_DATA 4 d;
          d = bus_outb bus PIC2_DATA 2 d;
          d = bus_outb bus PIC1_DATA 0x01 d;
          d = bus_outb bus PIC2_DATA 0x01 d;
          d = bus_outb bus PIC1_DATA 0xff d in
      bus_outb bus PIC2_DATA 0xff d)"

definition init_pics :: "'d bus \<Rightarrow> InterruptDescriptorTable \<Rightarrow> u8 \<Rightarrow> u8 \<Rightarrow> 'd \<Rightarrow> (InterruptDescriptorTable \<times> 'd) res" where
  "init_pics bus t pic1 pic2 d =
     rbind (set_irq_handlers 8 (unat pic1) t) (\<lambda>t1.
     rbind (set_irq_handlers 8 (unat pic2) t1) (\<lambda>t2.
     Inr (t2, program_pics bus pic1 pic2 d)))"

definition enableInterrupts :: "'d bus \<Rightarrow> CPU \<Rightarrow> Processor \<Rightarrow> 'd \<Rightarrow> (CPU \<times> Processor \<times> 'd) res" where
  "enableInterrupts bus cpu p d =
     rbind (if \<not> pic_initialized cpu
            then rbind (init_pics bus (cpu_idt cpu) 32 40 d) (\<lambda>(t, d1).
                 Inr (cpu\<lparr>cpu_idt := t, pic_initialized := True\<rparr>, d1))
            else Inr (cpu, d)) (\<lambda>(cpu1, d1).
     Inr (cpu1, p\<lparr>if_flag := True\<rparr>, d1))"

definition disableInterrupts :: "Processor \<Rightarrow> Processor" where
  "disableInterrupts p = p\<lparr>if_flag := False\<rparr>"

text \<open>\<open>1u << n\<close>, which is undefined for \<open>n\<close> of 32 and more.\<close>

definition shl1 :: "u32 \<Rightarrow> u32 res" where
  "shl1 n = (if n < 32 then Inr (push_bit (unat n) 1) else Inl InvalidShift)"

definition maskIRQ :: "'d bus \<Rightarrow> u32 \<Rightarrow> 'd \<Rightarrow> 'd res" where
  "maskIRQ bus IRQ d =
     (let (port, IRQ) = (if IRQ < 8 then (PIC1_DATA, IRQ) else (PIC2_DATA, IRQ - 8));
          (v, d1) = bus_inb bus port d in
      rbind (shl1 IRQ) (\<lambda>b. Inr (bus_outb bus port (ucast ((ucast v :: u32) OR b)) d1)))"

definition unmaskIRQ :: "'d bus \<Rightarrow> u32 \<Rightarrow> 'd \<Rightarrow> 'd res" where
  "unmaskIRQ bus IRQ d =
     (let (port, IRQ) = (if IRQ < 8 then (PIC1_DATA, IRQ) else (PIC2_DATA, 8));
          (v, d1) = bus_inb bus port d in
      rbind (shl1 IRQ) (\<lambda>b. Inr (bus_outb bus port (ucast ((ucast v :: u32) AND NOT b)) d1)))"

definition PITIRQ_install :: "'d bus \<Rightarrow> CPU \<Rightarrow> 'd \<Rightarrow> (CPU \<times> 'd) res" where
  "PITIRQ_install bus cpu d =
     rbind (setISR (cpu_idt cpu) 32 (Some PITIRQ)) (\<lambda>t.
     rbind (unmaskIRQ bus 0 d) (\<lambda>d1. Inr (cpu\<lparr>cpu_idt := t\<rparr>, d1)))"

definition PS2KeyboardISR_install :: "'d bus \<Rightarrow> CPU \<Rightarrow> 'd \<Rightarrow> (CPU \<times> 'd) res" where
  "PS2KeyboardISR_install bus cpu d =
     rbind (setISR (cpu_idt cpu) 33 (Some PS2KeyboardISR)) (\<lambda>t.
     rbind (unmaskIRQ bus 1 d) (\<lambda>d1. Inr (cpu\<lparr>cpu_idt := t\<rparr>, d1)))"

section \<open>The real-time clock\<close>

datatype RtcRegister = Seconds | Minutes | Hours | Weekday | Monthday | Month | Year | Century | StatusA | StatusB

primrec rtc_index :: "RtcRegister \<Rightarrow> u8" where
  "rtc_index Seconds = 0x00"
| "rtc_index Minutes = 0x02"
| "rtc_index Hours = 0x04"
| "rtc_index Weekday = 0x06"
| "rtc_index Monthday = 0x07"
| "rtc_index Month = 0x08"
| "rtc_index Year = 0x09"
| "rtc_index Century = 0x32"
| "rtc_index StatusA = 0x0A"
| "rtc_index StatusB = 0x0B"

definition readRtcRegister :: "'d bus \<Rightarrow> RtcRegister \<Rightarrow> 'd \<Rightarrow> u8 \<times> 'd" where
  "readRtcRegister bus reg d = bus_inb bus 0x71 (bus_outb bus 0x70 (rtc_index reg) d)"

definition get_update_in_progress_flag :: "'d bus \<Rightarrow> 'd \<Rightarrow> u8 \<times> 'd" where
  "get_update_in_progress_flag bus d = (let (v, d1) = readRtcRegister bus StatusA d in (v AND 0x80, d1))"

definition convert_bcd_if_needed :: "'d bus \<Rightarrow> u8 \<Rightarrow> 'd \<Rightarrow> u8 \<times> 'd" where
  "convert_bcd_if_needed bus val d =
     (let (b, d1) = readRtcRegister bus StatusB d in
      (if (ucast b :: u32) AND 0x04 = 0
       then ucast (((ucast val :: u32) AND 0x0F) + ucast val div 16 * 10) else val, d1))"

record DateTime =
  dt_seconds :: u8
  dt_minutes :: u8
  dt_hours :: u8
  dt_weekday :: u8
  dt_monthday :: u8
  dt_month :: u8
  dt_year :: u8
  dt_century :: u8

fun wait_update :: "nat \<Rightarrow> 'd bus \<Rightarrow> 'd \<Rightarrow> 'd res" where
  "wait_update 0 bus d = Inl Hang"
| "wait_update (Suc fuel) bus d =
     (let (flag, d1) = get_update_in_progress_flag bus d in if flag \<noteq> 0 then wait_update fuel bus d1 else Inr d1)"

definition read_converted :: "'d bus \<Rightarrow> RtcRegister \<Rightarrow> 'd \<Rightarrow> u8 \<times> 'd" where
  "read_converted bus reg d = (let (v, d1) = readRtcRegister bus reg d in convert_bcd_if_needed bus v d1)"

definition currentTime :: "nat \<Rightarrow> 'd bus \<Rightarrow> 'd \<Rightarrow> (DateTime \<times> 'd) res" where
  "currentTime fuel bus d =
     rbind (wait_update fuel bus d) (\<lambda>d0.
     let (seconds, d1) = read_converted bus Seconds d0;
         (minutes, d2) = read_converted bus Minutes d1;
         (hours, d3) = read_converted bus Hours d2;
         (weekday, d4) = read_converted bus Weekday d3;
         (monthday, d5) = read_converted bus Monthday d4;
         (month, d6) = read_converted bus Month d5;
         (year, d7) = read_converted bus Year d6;
         (century, d8) = read_converted bus Century d7 in
     Inr (\<lparr>dt_seconds = seconds, dt_minutes = minutes, dt_hours = hours, dt_weekday = weekday, dt_monthday = monthday,
           dt_month = month, dt_year = year, dt_century = century\<rparr>, d8))"

end
