(* ===== verification/Cpu_Props.thy ===== *)
theory Cpu_Props
  imports Cpu
begin

text \<open>
  Correctness of the processor set-up: descriptors and gates as the processor reads them, the
  dispatch of interrupts, the masks of the interrupt controllers as a refinement of a set of masked
  lines, and the time read from the clock. The controllers and the clock are hardware: the locales
  \<open>pics\<close> and \<open>rtc\<close> state what the code relies on of them.
\<close>

section \<open>Bytes in memory\<close>


lemma bit_load32:
  assumes "n < 32"
  shows "bit (load32 b i) n = bit (b ! (i + n div 8)) (n mod 8)"
proof -
  have hi: "\<not> bit (v :: u8) m" if "8 \<le> m" for v m using that bit_imp_le_length[of v m] by fastforce
  consider "n < 8" | "8 \<le> n" "n < 16" | "16 \<le> n" "n < 24" | "24 \<le> n" "n < 32" using assms by linarith
  then show ?thesis
  proof cases
    case 2
    then have "n div 8 = 1" "n mod 8 = n - 8" by (simp_all add: div_nat_eqI mod_nat_eqI)
    then show ?thesis using 2 hi by (auto simp: load32_def bit_simps)
  next
    case 3
    then have "n div 8 = 2" "n mod 8 = n - 16" by (simp_all add: div_nat_eqI mod_nat_eqI)
    then show ?thesis using 3 hi by (auto simp: load32_def bit_simps)
  next
    case 4
    then have "n div 8 = 3" "n mod 8 = n - 24" by (simp_all add: div_nat_eqI mod_nat_eqI)
    then show ?thesis using 4 hi by (auto simp: load32_def bit_simps)
  qed (simp add: load32_def bit_simps hi)
qed

lemma bit_load64: "bit (load64 b i) n \<longleftrightarrow> n < 64 \<and> bit (b ! (i + n div 8)) (n mod 8)"
proof (cases "n < 32")
  case True
  then show ?thesis by (simp add: load64_def bit_simps bit_load32)
next
  case False
  have hi: "\<not> bit (v :: u32) m" if "32 \<le> m" for v m using that bit_imp_le_length[of v m] by fastforce
  show ?thesis
  proof (cases "n < 64")
    case True
    obtain k where k: "n = 32 + k" using \<open>\<not> n < 32\<close> le_Suc_ex by (meson not_less)
    then have "n div 8 = 4 + k div 8" "n mod 8 = k mod 8" "k < 32" using True mod_add_left_eq[of 32 8 k] by simp_all
    then show ?thesis using k bit_load32[of k b "i + 4"] by (simp add: load64_def bit_simps hi ac_simps)
  next
    case False
    then show ?thesis using bit_imp_le_length[of "load64 b i" n] by auto
  qed
qed


section \<open>Descriptors as the processor reads them\<close>

definition desc_base :: "u64 \<Rightarrow> u32" where
  "desc_base w = ucast (take_bit 24 (drop_bit 16 w)) OR push_bit 24 (ucast (drop_bit 56 w))"

definition desc_limit :: "u64 \<Rightarrow> u32" where
  "desc_limit w = ucast (take_bit 16 w) OR push_bit 16 (ucast (take_bit 4 (drop_bit 48 w)))"

definition desc_access :: "u64 \<Rightarrow> u8" where
  "desc_access w = ucast (drop_bit 40 w)"

text \<open>The last offset in the segment: with the granularity bit set, the limit counts pages.\<close>

definition desc_last :: "u64 \<Rightarrow> u32" where
  "desc_last w = (if bit w 55 then push_bit 12 (desc_limit w) OR 0xFFF else desc_limit w)"

definition gate_offset :: "u64 \<Rightarrow> u32" where
  "gate_offset w = ucast (take_bit 16 w) OR push_bit 16 (ucast (drop_bit 48 w))"

definition gate_selector :: "u64 \<Rightarrow> u16" where
  "gate_selector w = ucast (drop_bit 16 w)"

definition gate_type :: "u64 \<Rightarrow> u8" where
  "gate_type w = ucast (drop_bit 40 w)"

lemma ucast_and_255: "(ucast ((x :: 'a :: len word) AND 255) :: u8) = ucast x"
proof -
  have "x AND 255 = take_bit 8 x" by (simp add: take_bit_eq_mask mask_numeral)
  then show ?thesis by (auto intro!: bit_word_eqI simp: bit_simps)
qed

lemmas encode_simps = bit_simps bit_load64 ucast_and_255 upt_rec

lemma gate_EncodeEntry:
  "gate_offset (EncodeEntry e) = ie_offset e" "gate_selector (EncodeEntry e) = ie_selector e" "gate_type (EncodeEntry e) = ie_typeAttr e"
proof -
  show "gate_offset (EncodeEntry e) = ie_offset e"
  proof (rule bit_word_eqI)
    fix n assume "n < LENGTH(32)"
    then have "n \<in> set [0..<32]" by simp
    then show "bit (gate_offset (EncodeEntry e)) n = bit (ie_offset e) n"
      by (simp add: gate_offset_def EncodeEntry_def encode_simps) (elim disjE; simp add: bit_simps flip: numeral_2_eq_2)
  qed
  show "gate_selector (EncodeEntry e) = ie_selector e"
  proof (rule bit_word_eqI)
    fix n assume "n < LENGTH(16)"
    then have "n \<in> set [0..<16]" by simp
    then show "bit (gate_selector (EncodeEntry e)) n = bit (ie_selector e) n"
      by (simp add: gate_selector_def EncodeEntry_def encode_simps) (elim disjE; simp add: bit_simps flip: numeral_2_eq_2)
  qed
  show "gate_type (EncodeEntry e) = ie_typeAttr e"
  proof (rule bit_word_eqI)
    fix n assume "n < LENGTH(8)"
    then have "n \<in> set [0..<8]" by simp
    then show "bit (gate_type (EncodeEntry e)) n = bit (ie_typeAttr e) n"
      by (simp add: gate_type_def EncodeEntry_def encode_simps) (elim disjE; simp add: bit_simps flip: numeral_2_eq_2)
  qed
qed


definition descriptor :: "GDTEntry \<Rightarrow> u64" where
  "descriptor e = (let big = ge_limit e > 65536; limit = (if big then drop_bit 12 (ge_limit e) else ge_limit e) in
     load64 [ucast limit, ucast (drop_bit 8 limit), ucast (ge_base e), ucast (drop_bit 8 (ge_base e)),
             ucast (drop_bit 16 (ge_base e)), ge_type e, (if big then 0xC0 else 0x40) OR ucast (drop_bit 16 limit AND 0xF),
             ucast (drop_bit 24 (ge_base e))] 0)"

lemma GDT_encodeEntry_ok:
  assumes "unat n < length gdt"
  shows "GDT_encodeEntry gdt n e = Inr (gdt[unat n := descriptor e])"
  using assms
  by (simp add: GDT_encodeEntry_def descriptor_def bytes64_def Let_def ucast_and_255 upt_rec list_update_code eval_nat_numeral)

lemma GDT_encodeEntry_out: "\<not> unat n < length gdt \<Longrightarrow> GDT_encodeEntry gdt n e = Inl OutOfBounds"
  by (simp add: GDT_encodeEntry_def)

lemma desc_base_ok: "desc_base (descriptor e) = ge_base e"
proof (rule bit_word_eqI)
  fix n assume "n < LENGTH(32)"
  then have "n \<in> set [0..<32]" by simp
  then show "bit (desc_base (descriptor e)) n = bit (ge_base e) n"
    by (simp add: desc_base_def descriptor_def Let_def encode_simps) (elim disjE; simp add: bit_simps flip: numeral_2_eq_2)
qed

lemma desc_access_ok: "desc_access (descriptor e) = ge_type e"
proof (rule bit_word_eqI)
  fix n assume "n < LENGTH(8)"
  then have "n \<in> set [0..<8]" by simp
  then show "bit (desc_access (descriptor e)) n = bit (ge_type e) n"
    by (simp add: desc_access_def descriptor_def Let_def encode_simps) (elim disjE; simp add: bit_simps flip: numeral_2_eq_2)
qed


definition granular :: "GDTEntry \<Rightarrow> bool" where
  "granular e \<longleftrightarrow> ge_limit e > 65536"

definition raw_limit :: "GDTEntry \<Rightarrow> u32" where
  "raw_limit e = (if granular e then drop_bit 12 (ge_limit e) else ge_limit e)"

lemma descriptor_alt:
  "descriptor e = load64 [ucast (raw_limit e), ucast (drop_bit 8 (raw_limit e)), ucast (ge_base e), ucast (drop_bit 8 (ge_base e)),
     ucast (drop_bit 16 (ge_base e)), ge_type e, (if granular e then 0xC0 else 0x40) OR ucast (drop_bit 16 (raw_limit e) AND 0xF),
     ucast (drop_bit 24 (ge_base e))] 0"
  by (simp add: descriptor_def granular_def raw_limit_def Let_def)

lemma desc_limit_bits: "desc_limit (descriptor e) = take_bit 20 (raw_limit e)"
proof (rule bit_word_eqI)
  fix n assume "n < LENGTH(32)"
  then have "n \<in> set [0..<32]" by simp
  then show "bit (desc_limit (descriptor e)) n = bit (take_bit 20 (raw_limit e)) n"
    by (simp add: desc_limit_def descriptor_alt encode_simps) (elim disjE; simp add: bit_simps flip: numeral_2_eq_2)
qed

lemma desc_granular: "bit (descriptor e) 55 = granular e"
  by (simp add: descriptor_alt bit_load64 bit_simps)

lemma desc_limit_ok: "desc_limit (descriptor e) = raw_limit e"
proof -
  have "unat (raw_limit e) < 2 ^ 20"
  proof (cases "granular e")
    case True
    have "unat (ge_limit e) < 2 ^ 32" using unsigned_less[of "ge_limit e"] by simp
    then show ?thesis using True by (simp add: raw_limit_def unat_drop_bit_eq drop_bit_eq_div div_less_iff_less_mult)
  next
    case False
    then show ?thesis by (simp add: raw_limit_def granular_def word_less_nat_alt not_less)
  qed
  then have "take_bit 20 (raw_limit e) = raw_limit e"
    by (simp add: word32_eq_iff_unat unsigned_take_bit_eq take_bit_nat_eq_self)
  then show ?thesis by (simp add: desc_limit_bits)
qed

lemma or_mask12: "L OR mask 12 = 4096 * (L div 4096) + (4095 :: nat)"
proof -
  have "L OR mask 12 = push_bit 12 (drop_bit 12 L) OR mask 12" by (rule bit_eqI) (auto simp: bit_simps)
  also have "\<dots> = push_bit 12 (drop_bit 12 L) + mask 12"
    by (rule disjunctive_add_eq_or[symmetric]) (auto simp: bit_eq_iff bit_simps)
  also have "\<dots> = 4096 * (L div 4096) + 4095" by (simp add: push_bit_eq_mult drop_bit_eq_div mask_numeral)
  finally show ?thesis .
qed

lemma unat_or_page: "unat (l OR 0xFFF :: u32) = 4096 * (unat l div 4096) + 4095"
proof -
  have "(4095 :: nat) = mask 12" by (simp add: mask_numeral)
  then show ?thesis using or_mask12[of "unat l"] by (simp add: unsigned_or_eq)
qed

lemma desc_last_ok: "unat (desc_last (descriptor e)) = (if granular e then 4096 * (unat (ge_limit e) div 4096) + 4095 else unat (ge_limit e))"
proof -
  have "unat (push_bit 12 (drop_bit 12 l) OR 0xFFF :: u32) = 4096 * (unat l div 4096) + 4095" for l :: u32
  proof -
    have "unat (push_bit 12 (drop_bit 12 l) :: u32) = 4096 * (unat l div 4096)"
    proof -
      have "unat l < 4294967296" using unsigned_less[of l, where ?'a = nat] by simp
      then have "4096 * (unat l div 4096) < 4294967296" using times_div_less_eq_dividend[of 4096 "unat l"] by linarith
      then show ?thesis
        by (simp add: unsigned_push_bit_eq unat_drop_bit_eq push_bit_eq_mult[where 'a = nat] drop_bit_eq_div[where 'a = nat] take_bit_nat_eq_self mult.commute)
    qed
    then show ?thesis unfolding unat_or_page by simp
  qed
  then show ?thesis by (simp add: desc_last_def desc_granular desc_limit_ok raw_limit_def)
qed


section \<open>Interrupt tables\<close>

abbreviation gate :: "uintptr \<Rightarrow> u64" where
  "gate stub \<equiv> EncodeEntry \<lparr>ie_offset = stub, ie_selector = 8, ie_typeAttr = 0x8E\<rparr>"

lemma generate_gates_ok: "i + k \<le> length kIsrs \<Longrightarrow> generate_gates k kIsrs i = Inr (map gate (take k (drop i kIsrs)), i + k)"
  by (induction k arbitrary: i) (simp_all add: Cons_nth_drop_Suc[symmetric])

lemma generate_gates_out: "length kIsrs < i + k \<Longrightarrow> i \<le> length kIsrs \<Longrightarrow> generate_gates k kIsrs i = Inl OutOfBounds"
  by (induction k arbitrary: i) (auto simp: rbind_Inl_iff aread_def)

lemma add_all_ok:
  assumes "length kIsrs = 256" "idt_gate t = map gate kIsrs" "length (idt_isr t) = 256"
  shows "add_all kIsrs rs t = Inr (t\<lparr>idt_isr := fold (\<lambda>(n, r) l. l[unat n := Some r]) rs (idt_isr t)\<rparr>)"
  using assms
proof (induction rs arbitrary: t)
  case (Cons r rs)
  obtain n isrf where r: "r = (n, isrf)" by (cases r)
  have n: "unat n < 256" using unsigned_less[of n, where ?'a = nat] by simp
  have g: "(map gate kIsrs)[unat n := gate (kIsrs ! unat n)] = map gate kIsrs"
    using n Cons.prems(1) by (subst list_update_same_conv) simp_all
  have "addISR kIsrs t n isrf = Inr (t\<lparr>idt_isr := (idt_isr t)[unat n := Some isrf]\<rparr>)"
    using n Cons.prems g by (simp add: addISR_def IDT_encodeEntry_def setISR_def)
  then show ?case using Cons r by simp
qed simp

lemma replicate_update_same [simp]: "(replicate n x)[i := x] = replicate n x"
  by (cases "i < n") (auto intro!: nth_equalityI simp: nth_list_update)

lemma replicate_update_other: "i \<noteq> j \<Longrightarrow> (replicate n x)[j := y, i := x] = (replicate n x)[j := y]"
  by (simp add: list_update_swap[of j i])

lemma encodeISRs_ok:
  assumes "length kIsrs = 256" "idt_i t = 0"
  shows "encodeISRs kIsrs t = Inr \<lparr>idt_isr = (replicate 256 (Some StubISR))[8 := Some PanicISR], idt_gate = map gate kIsrs, idt_i = 256\<rparr>"
proof -
  have g: "generate_gates 256 kIsrs 0 = Inr (map gate kIsrs, 256)" using generate_gates_ok[of 0 256 kIsrs] assms(1) by simp
  have f: "fold (\<lambda>(n, r) l. l[unat n := Some r]) system_isrs (replicate 256 (Some StubISR)) = (replicate 256 (Some StubISR))[8 := Some PanicISR]"
    by (simp add: system_isrs_def replicate_update_other)
  show ?thesis using assms by (simp add: encodeISRs_def g f add_all_ok)
qed

lemma encodeISRs_again: "length kIsrs = 256 \<Longrightarrow> idt_i t = 256 \<Longrightarrow> encodeISRs kIsrs t = Inl OutOfBounds"
  by (simp add: encodeISRs_def generate_gates_out)

lemma CPU_new_ok:
  "CPU_new a = Inr \<lparr>cpu_gdt = map descriptor [GDTEntry_default, GDTEntry_new 0 0xffffffff KernelCode, GDTEntry_new 0 0xffffffff KernelData,
       GDTEntry_new 0 0xffffffff UserCode, GDTEntry_new 0 0xffffffff UserData, GDTEntry_new a 104 TSS],
     cpu_idt = IDT_new, cpu_tss = \<lparr>tss_words = (replicate 25 0)[2 := 0x10, 1 := 0x0], tss_trap = 0, tss_iomap_base = 104\<rparr>,
     pic_initialized = False\<rparr>"
proof -
  have "replicate 6 (0 :: u64) = [0, 0, 0, 0, 0, 0]" by (simp add: eval_nat_numeral)
  then show ?thesis 
    by (simp add: CPU_new_def GDT_encodeEntry_ok)
qed

lemma set_irq_handlers_ok:
  assumes "length (idt_isr t) = 256" "i + k \<le> 256"
  shows "set_irq_handlers k i t = Inr (t\<lparr>idt_isr := fold (\<lambda>n l. l[n := Some IRQHandler]) [i..<i + k] (idt_isr t)\<rparr>)"
  using assms
proof (induction k arbitrary: i t)
  case (Suc k)
  have "unat (of_nat i :: u8) = i" using Suc.prems by (simp add: unsigned_of_nat take_bit_nat_eq_self)
  moreover have "[i..<i + Suc k] = i # [Suc i..<Suc i + k]" by (simp add: upt_conv_Cons)
  ultimately show ?case using Suc by (simp add: setISR_def)
qed simp

lemma fold_handlers_nth:
  "n < length l \<Longrightarrow> fold (\<lambda>n l. l[n := Some IRQHandler]) ns l ! n = (if n \<in> set ns then Some IRQHandler else l ! n)"
  by (induction ns arbitrary: l) (auto simp: nth_list_update)

lemma fold_handlers_length [simp]: "length (fold (\<lambda>n l. l[n := h]) ns l) = length l"
  by (induction ns arbitrary: l) auto

lemma fold_handlers_twice:
  "n < length l \<Longrightarrow> fold (\<lambda>n l. l[n := Some IRQHandler]) ms (fold (\<lambda>n l. l[n := Some IRQHandler]) ns l) ! n
    = (if n \<in> set ms then Some IRQHandler else if n \<in> set ns then Some IRQHandler else l ! n)"
  by (simp add: fold_handlers_nth)


section \<open>The controllers\<close>

text \<open>
  What the data sheet of the 8259A says of one controller: a command with bit 4 set starts an
  initialisation, during which the data port takes the vector offset, the cascade wiring and the
  mode; afterwards the data port is the interrupt mask.
\<close>

record i8259 =
  pic_step :: nat
  pic_icw4 :: bool
  pic_vector :: u8
  pic_mask :: u8

definition i8259_command :: "u8 \<Rightarrow> i8259 \<Rightarrow> i8259" where
  "i8259_command v c = (if bit v 4 then c\<lparr>pic_step := 2, pic_icw4 := bit v 0, pic_mask := 0\<rparr> else c)"

definition i8259_data :: "u8 \<Rightarrow> i8259 \<Rightarrow> i8259" where
  "i8259_data v c =
     (if pic_step c = 2 then c\<lparr>pic_step := 3, pic_vector := v AND 0xF8\<rparr>
      else if pic_step c = 3 then c\<lparr>pic_step := (if pic_icw4 c then 4 else 0)\<rparr>
      else if pic_step c = 4 then c\<lparr>pic_step := 0\<rparr>
      else c\<lparr>pic_mask := v\<rparr>)"

definition irq_masked :: "i8259 \<Rightarrow> i8259 \<Rightarrow> nat \<Rightarrow> bool" where
  "irq_masked c1 c2 n \<longleftrightarrow> (if n < 8 then bit (pic_mask c1) n else bit (pic_mask c2) (n - 8))"

text \<open>Both controllers are initialised and send the vectors 32 to 47.\<close>

definition pics_ready :: "i8259 \<Rightarrow> i8259 \<Rightarrow> bool" where
  "pics_ready c1 c2 \<longleftrightarrow> pic_step c1 = 0 \<and> pic_step c2 = 0 \<and> pic_vector c1 = 32 \<and> pic_vector c2 = 40"

text \<open>Setting and clearing one bit of a mask by way of \<open>unsigned int\<close>.\<close>

definition one_bit :: "u32 \<Rightarrow> nat \<Rightarrow> bool" where
  "one_bit x k \<longleftrightarrow> x = 2 ^ k"

lemma shl1_ok: "n < 32 \<Longrightarrow> \<exists>x. shl1 (of_nat n) = Inr x \<and> one_bit x n"
  by (simp add: shl1_def one_bit_def unsigned_of_nat take_bit_nat_eq_self word_less_nat_alt)

lemma set_mask_bit: "one_bit x k \<Longrightarrow> bit (ucast ((ucast (v :: u8) :: u32) OR x) :: u8) n \<longleftrightarrow> n < 8 \<and> (bit v n \<or> n = k)"
  by (auto simp: one_bit_def bit_simps)

lemma clear_mask_bit: "one_bit x k \<Longrightarrow> bit (ucast ((ucast (v :: u8) :: u32) AND NOT x) :: u8) n \<longleftrightarrow> bit v n \<and> n \<noteq> k"
  using bit_imp_le_length[of v n] by (auto simp: one_bit_def bit_simps)

text \<open>
  The requests of drivers and what they do to the set of masked lines: unmasking a line of the
  second controller has no effect.
\<close>

datatype irq_op = Mask nat | Unmask nat

primrec irq_line :: "irq_op \<Rightarrow> nat" where
  "irq_line (Mask n) = n"
| "irq_line (Unmask n) = n"

primrec irq_spec :: "irq_op \<Rightarrow> (nat \<Rightarrow> bool) \<Rightarrow> nat \<Rightarrow> bool" where
  "irq_spec (Mask n) masked m = (masked m \<or> m = n)"
| "irq_spec (Unmask n) masked m = (masked m \<and> (m = n \<longrightarrow> 8 \<le> n))"

primrec run_irq_op :: "'d bus \<Rightarrow> irq_op \<Rightarrow> 'd \<Rightarrow> 'd res" where
  "run_irq_op bus (Mask n) d = maskIRQ bus (of_nat n) d"
| "run_irq_op bus (Unmask n) d = unmaskIRQ bus (of_nat n) d"

primrec run_irq_ops :: "'d bus \<Rightarrow> irq_op list \<Rightarrow> 'd \<Rightarrow> 'd res" where
  "run_irq_ops bus [] d = Inr d"
| "run_irq_ops bus (x # ops) d = rbind (run_irq_op bus x d) (run_irq_ops bus ops)"

lemma irq_spec_local: "M m = N m \<Longrightarrow> fold irq_spec ops M m = fold irq_spec ops N m"
proof (induction ops arbitrary: M N)
  case (Cons x ops)
  have "irq_spec x M m = irq_spec x N m" using Cons.prems by (cases x) auto
  from Cons.IH[of "irq_spec x M" "irq_spec x N", OF this] show ?case by simp
qed simp

locale pics =
  fixes bus :: "'d bus" and pic1 pic2 :: "'d \<Rightarrow> i8259"
  assumes command1: "pic1 (bus_outb bus PIC1_COMMAND v d) = i8259_command v (pic1 d)"
      "pic2 (bus_outb bus PIC1_COMMAND v d) = pic2 d"
    and data1: "pic1 (bus_outb bus PIC1_DATA v d) = i8259_data v (pic1 d)" "pic2 (bus_outb bus PIC1_DATA v d) = pic2 d"
    and command2: "pic2 (bus_outb bus PIC2_COMMAND v d) = i8259_command v (pic2 d)"
      "pic1 (bus_outb bus PIC2_COMMAND v d) = pic1 d"
    and data2: "pic2 (bus_outb bus PIC2_DATA v d) = i8259_data v (pic2 d)" "pic1 (bus_outb bus PIC2_DATA v d) = pic1 d"
    and mask1: "bus_inb bus PIC1_DATA d = (b, d') \<Longrightarrow> pic1 d' = pic1 d \<and> pic2 d' = pic2 d \<and> (pic_step (pic1 d) = 0 \<longrightarrow> b = pic_mask (pic1 d))"
    and mask2: "bus_inb bus PIC2_DATA d = (b, d') \<Longrightarrow> pic1 d' = pic1 d \<and> pic2 d' = pic2 d \<and> (pic_step (pic2 d) = 0 \<longrightarrow> b = pic_mask (pic2 d))"
begin

abbreviation masked :: "'d \<Rightarrow> nat \<Rightarrow> bool" where
  "masked d \<equiv> irq_masked (pic1 d) (pic2 d)"

abbreviation ready :: "'d \<Rightarrow> bool" where
  "ready d \<equiv> pics_ready (pic1 d) (pic2 d)"

lemmas port_laws = command1 command2 data1 data2

lemma program_pics_ok:
  "ready (program_pics bus 32 40 d)" "n < 16 \<Longrightarrow> masked (program_pics bus 32 40 d) n"
proof -
  have "(255 :: u8) = mask 8" by (simp add: mask_numeral)
  then have all: "bit (255 :: u8) m" if "m < 8" for m using that by (simp only: bit_mask_iff) simp
  show "ready (program_pics bus 32 40 d)"
    by (simp add: pics_ready_def program_pics_def port_laws i8259_command_def i8259_data_def)
  show "n < 16 \<Longrightarrow> masked (program_pics bus 32 40 d) n"
    by (simp add: irq_masked_def program_pics_def port_laws i8259_command_def i8259_data_def) (use all in auto)
qed

lemma word_small: "n < 16 \<Longrightarrow> unat (of_nat n :: u32) = n" "n < 16 \<Longrightarrow> (of_nat n :: u32) < 8 \<longleftrightarrow> n < 8"
  "n < 16 \<Longrightarrow> \<not> n < 8 \<Longrightarrow> (of_nat n - 8 :: u32) = of_nat (n - 8)"
  by (simp_all add: unsigned_of_nat take_bit_nat_eq_self word_less_nat_alt of_nat_diff)

lemma maskIRQ_ok:
  assumes "ready d" "n < 16"
  shows "\<exists>d'. maskIRQ bus (of_nat n) d = Inr d' \<and> ready d' \<and> (\<forall>m<16. masked d' m \<longleftrightarrow> masked d m \<or> m = n)"
proof (cases "n < 8")
  case True
  obtain b d1 where r: "bus_inb bus PIC1_DATA d = (b, d1)" by fastforce
  note s = mask1[OF r]
  obtain x where "shl1 (of_nat n) = Inr x" "one_bit x (n)" using shl1_ok[of n] True by auto
  then show ?thesis using assms True r s
    by (auto simp: maskIRQ_def word_small pics_ready_def irq_masked_def data1 i8259_data_def set_mask_bit)
next
  case False
  then obtain k where k: "n = 8 + k" "k < 8" using assms(2) le_Suc_ex[of 8 n] by auto
  obtain b d1 where r: "bus_inb bus PIC2_DATA d = (b, d1)" by fastforce
  note s = mask2[OF r]
  obtain x where x: "shl1 (of_nat k) = Inr x" "one_bit x k" using shl1_ok[of k] k(2) by auto
  have w: "\<not> (of_nat n :: u32) < 8" "(of_nat n :: u32) - 8 = of_nat k" using word_small(2)[of n] assms(2) False k by simp_all
  let ?d = "bus_outb bus PIC2_DATA (ucast ((ucast (pic_mask (pic2 d)) :: u32) OR x)) d1"
  have e: "maskIRQ bus (of_nat n) d = Inr ?d" using assms(1) r s x(1) w by (simp add: maskIRQ_def pics_ready_def)
  have p: "pic1 ?d = pic1 d" "pic2 ?d = (pic2 d)\<lparr>pic_mask := ucast ((ucast (pic_mask (pic2 d)) :: u32) OR x)\<rparr>"
    using assms(1) s by (simp_all add: data2 i8259_data_def pics_ready_def)
  have m: "masked ?d m \<longleftrightarrow> masked d m \<or> m = n" if m16: "m < 16" for m
  proof (cases "m < 8")
    case False
    then obtain j where "m = 8 + j" "j < 8" using m16 le_Suc_ex[of 8 m] by auto
    then show ?thesis unfolding irq_masked_def p using set_mask_bit[OF x(2)] k by simp
  qed (simp add: irq_masked_def p k)
  have "ready ?d" using assms(1) p by (simp add: pics_ready_def)
  then show ?thesis using e m by auto
qed

lemma unmaskIRQ_ok:
  assumes "ready d" "n < 16"
  shows "\<exists>d'. unmaskIRQ bus (of_nat n) d = Inr d' \<and> ready d' \<and> (\<forall>m<16. masked d' m \<longleftrightarrow> masked d m \<and> (m = n \<longrightarrow> 8 \<le> n))"
proof (cases "n < 8")
  case True
  obtain b d1 where r: "bus_inb bus PIC1_DATA d = (b, d1)" by fastforce
  note s = mask1[OF r]
  obtain x where "shl1 (of_nat n) = Inr x" "one_bit x (n)" using shl1_ok[of n] True by auto
  then show ?thesis using assms True r s
    by (auto simp: unmaskIRQ_def word_small pics_ready_def irq_masked_def data1 i8259_data_def clear_mask_bit)
next
  case False
  obtain b d1 where r: "bus_inb bus PIC2_DATA d = (b, d1)" by fastforce
  note s = mask2[OF r]
  obtain x where "shl1 8 = Inr x" "one_bit x (8)" using shl1_ok[of 8] by auto
  then show ?thesis using assms False r s
    by (auto simp: unmaskIRQ_def word_small pics_ready_def irq_masked_def data2 i8259_data_def clear_mask_bit)
qed

lemma run_irq_ops_ok:
  assumes "pics_ready (pic1 d) (pic2 d)" "list_all (\<lambda>x. irq_line x < 16) ops"
  shows "\<exists>d'. run_irq_ops bus ops d = Inr d' \<and> pics_ready (pic1 d') (pic2 d')
    \<and> (\<forall>m<16. irq_masked (pic1 d') (pic2 d') m = fold irq_spec ops (irq_masked (pic1 d) (pic2 d)) m)"
  using assms
proof (induction ops arbitrary: d)
  case (Cons x ops)
  have "\<exists>d1. run_irq_op bus x d = Inr d1 \<and> ready d1 \<and> (\<forall>m<16. masked d1 m = irq_spec x (masked d) m)"
    using maskIRQ_ok[OF Cons.prems(1)] unmaskIRQ_ok[OF Cons.prems(1)] Cons.prems(2) by (cases x) auto
  then obtain d1 where d1: "run_irq_op bus x d = Inr d1" "ready d1" "\<forall>m<16. masked d1 m = irq_spec x (masked d) m" by blast
  from Cons.IH[OF d1(2)] Cons.prems(2) obtain d' where d': "run_irq_ops bus ops d1 = Inr d'" "ready d'"
    "\<forall>m<16. masked d' m = fold irq_spec ops (masked d1) m" by auto
  have "fold irq_spec ops (masked d1) m = fold irq_spec ops (irq_spec x (masked d)) m" if "m < 16" for m
    by (rule irq_spec_local) (use d1(3) that in blast)
  then show ?case using d1 d' by auto
qed simp

end


section \<open>The clock\<close>

text \<open>
  What the code relies on of the clock: the registers keep their contents \<open>regs\<close> while it is not
  updating them, an update is over after a number of polls of status register A, and no update
  starts while the registers are read.
\<close>

locale rtc =
  fixes bus :: "'d bus" and regs :: "u8 \<Rightarrow> u8" and busy :: "'d \<Rightarrow> nat"
  assumes idle_read: "busy d = 0 \<Longrightarrow> bus_inb bus 0x71 (bus_outb bus 0x70 i d) = (v, d') \<Longrightarrow> v = regs i \<and> busy d' = 0"
    and busy_read: "busy d = Suc k \<Longrightarrow> bus_inb bus 0x71 (bus_outb bus 0x70 0x0A d) = (v, d') \<Longrightarrow> bit v 7 \<and> busy d' = k"
    and idle_flag: "\<not> bit (regs 0x0A) 7"

text \<open>The encoding of a number below 100, and the registers that hold a time.\<close>

definition bcd :: "u8 \<Rightarrow> u8" where
  "bcd v = 16 * (v div 10) + v mod 10"

definition rtc_encode :: "(u8 \<Rightarrow> u8) \<Rightarrow> u8 \<Rightarrow> u8" where
  "rtc_encode regs v = (if bit (regs 0x0B) 2 then v else bcd v)"

definition holds_time :: "(u8 \<Rightarrow> u8) \<Rightarrow> DateTime \<Rightarrow> bool" where
  "holds_time regs t \<longleftrightarrow> list_all (\<lambda>(r, v). v < 100 \<and> regs (rtc_index r) = rtc_encode regs v)
     [(Seconds, dt_seconds t), (Minutes, dt_minutes t), (Hours, dt_hours t), (Weekday, dt_weekday t),
      (Monthday, dt_monthday t), (Month, dt_month t), (Year, dt_year t), (Century, dt_century t)]"

lemma bcd_decode: "v < 100 \<Longrightarrow> ucast (((ucast (bcd v) :: u32) AND 0x0F) + ucast (bcd v) div 16 * 10) = v"
proof -
  assume "v < 100"
  have all: "\<forall>k\<in>set [0..<100]. (ucast (((ucast (bcd (of_nat k)) :: u32) AND 0x0F) + ucast (bcd (of_nat k)) div 16 * 10) :: u8) = of_nat k"
    by code_simp
  have "unat v < 100" using \<open>v < 100\<close> by (simp add: word_less_nat_alt)
  then show ?thesis using all[THEN bspec, of "unat v"] by simp
qed

lemma bit2_and4: "(ucast (b :: u8) :: u32) AND 4 = 0 \<longleftrightarrow> \<not> bit b 2"
  using and_exp_eq_0_iff_not_bit[of "ucast b :: u32" 2] by (simp add: bit_ucast_iff)

lemma bit7_and80: "(v :: u8) AND 0x80 \<noteq> 0 \<longleftrightarrow> bit v 7"
  using and_exp_eq_0_iff_not_bit[of v 7] by simp

context rtc
begin

lemma wait_update_ok: "busy d < fuel \<Longrightarrow> \<exists>d'. wait_update fuel bus d = Inr d' \<and> busy d' = 0"
proof (induction fuel arbitrary: d)
  case (Suc fuel)
  obtain v d1 where r: "bus_inb bus 0x71 (bus_outb bus 0x70 0x0A d) = (v, d1)" by fastforce
  show ?case
  proof (cases "busy d")
    case 0
    then show ?thesis using idle_read[OF 0 r] idle_flag r bit7_and80[of v]
      by (simp add: get_update_in_progress_flag_def readRtcRegister_def)
  next
    case (Suc k)
    then show ?thesis using busy_read[OF Suc r] r bit7_and80[of v] Suc.IH[of d1] Suc.prems
      by (simp add: get_update_in_progress_flag_def readRtcRegister_def)
  qed
qed simp

lemma read_converted_ok:
  assumes "busy d = 0" "v < 100" "regs (rtc_index r) = rtc_encode regs v"
  shows "\<exists>d'. read_converted bus r d = (v, d') \<and> busy d' = 0"
proof -
  obtain w d1 where r1: "bus_inb bus 0x71 (bus_outb bus 0x70 (rtc_index r) d) = (w, d1)" by fastforce
  note w = idle_read[OF assms(1) r1]
  obtain b d2 where r2: "bus_inb bus 0x71 (bus_outb bus 0x70 0x0B d1) = (b, d2)" by fastforce
  note b = idle_read[OF conjunct2[OF w] r2]
  show ?thesis using r1 r2 w b assms bit2_and4[of b] bcd_decode[OF assms(2)]
    by (auto simp: read_converted_def readRtcRegister_def convert_bcd_if_needed_def rtc_encode_def)
qed

lemma currentTime_ok:
  assumes "busy d < fuel" "holds_time regs t"
  shows "\<exists>d'. currentTime fuel bus d = Inr (t, d') \<and> busy d' = 0"
proof -
  obtain d0 where d0: "wait_update fuel bus d = Inr d0" "busy d0 = 0" using wait_update_ok[OF assms(1)] by blast
  note h = assms(2)[unfolded holds_time_def, simplified]
  obtain d1 where d1: "read_converted bus Seconds d0 = (dt_seconds t, d1)" "busy d1 = 0" using read_converted_ok[OF d0(2)] h by force
  obtain d2 where d2: "read_converted bus Minutes d1 = (dt_minutes t, d2)" "busy d2 = 0" using read_converted_ok[OF d1(2)] h by force
  obtain d3 where d3: "read_converted bus Hours d2 = (dt_hours t, d3)" "busy d3 = 0" using read_converted_ok[OF d2(2)] h by force
  obtain d4 where d4: "read_converted bus Weekday d3 = (dt_weekday t, d4)" "busy d4 = 0" using read_converted_ok[OF d3(2)] h by force
  obtain d5 where d5: "read_converted bus Monthday d4 = (dt_monthday t, d5)" "busy d5 = 0" using read_converted_ok[OF d4(2)] h by force
  obtain d6 where d6: "read_converted bus Month d5 = (dt_month t, d6)" "busy d6 = 0" using read_converted_ok[OF d5(2)] h by force
  obtain d7 where d7: "read_converted bus Year d6 = (dt_year t, d7)" "busy d7 = 0" using read_converted_ok[OF d6(2)] h by force
  obtain d8 where d8: "read_converted bus Century d7 = (dt_century t, d8)" "busy d8 = 0" using read_converted_ok[OF d7(2)] h by force
  show ?thesis using d0 d1 d2 d3 d4 d5 d6 d7 d8 by (simp add: currentTime_def)
qed

end


section \<open>Hardware that meets the contracts\<close>

definition pic_bus :: "(i8259 \<times> i8259) bus" where
  "pic_bus = \<lparr>bus_inb = (\<lambda>port d. (if port = PIC1_DATA then pic_mask (fst d) else pic_mask (snd d), d)),
     bus_outb = (\<lambda>port v d.
       if port = PIC1_COMMAND then (i8259_command v (fst d), snd d)
       else if port = PIC1_DATA then (i8259_data v (fst d), snd d)
       else if port = PIC2_COMMAND then (fst d, i8259_command v (snd d))
       else if port = PIC2_DATA then (fst d, i8259_data v (snd d)) else d),
     bus_inw = (\<lambda>port d. (0, d)), bus_outw = (\<lambda>port v d. d)\<rparr>"

interpretation pc: pics pic_bus fst snd
  by unfold_locales (auto simp: pic_bus_def)

text \<open>A clock with the given registers: its state is the number of polls left and the selected register.\<close>

definition rtc_bus :: "(u8 \<Rightarrow> u8) \<Rightarrow> (nat \<times> u8) bus" where
  "rtc_bus regs = \<lparr>bus_inb = (\<lambda>port (k, i).
       case k of 0 \<Rightarrow> (regs i, 0, i) | Suc j \<Rightarrow> if i = 0x0A then (0x80, j, i) else (0, k, i)),
     bus_outb = (\<lambda>port v (k, i). if port = 0x70 then (k, v) else (k, i)),
     bus_inw = (\<lambda>port d. (0, d)), bus_outw = (\<lambda>port v d. d)\<rparr>"

lemma rtc_bus_ok: "\<not> bit (regs 0x0A) 7 \<Longrightarrow> rtc (rtc_bus regs) regs fst"
  by unfold_locales (auto simp: rtc_bus_def split: if_splits nat.splits prod.splits)

definition example_time :: DateTime where
  "example_time = \<lparr>dt_seconds = 59, dt_minutes = 30, dt_hours = 23, dt_weekday = 4, dt_monthday = 31, dt_month = 12,
     dt_year = 99, dt_century = 19\<rparr>"

definition example_regs :: "u8 \<Rightarrow> u8" where
  "example_regs i = (if i = 0 then 0x59 else if i = 2 then 0x30 else if i = 4 then 0x23 else if i = 6 then 4
     else if i = 7 then 0x31 else if i = 8 then 0x12 else if i = 9 then 0x99 else if i = 0x32 then 0x19
     else if i = 0x0A then 0x26 else 2)"

interpretation clk: rtc "rtc_bus example_regs" example_regs fst
  by (rule rtc_bus_ok) code_simp

section \<open>Properties\<close>

text \<open>
  C18. A segment descriptor covers the segment it was made for: in every entry of the table, the
  processor reads back the base address and the access byte exactly, and the last offset of the
  segment is the limit given, rounded up to the end of its page when the limit exceeds 64 KiB.
  An entry number outside the table is a write out of bounds.
\<close>

theorem GDT_encodeEntry_bounds:
  "GDT_encodeEntry gdt n e = (if unat n < length gdt then Inr (gdt[unat n := descriptor e]) else Inl OutOfBounds)
   \<and> desc_base (descriptor e) = ge_base e \<and> desc_access (descriptor e) = ge_type e
   \<and> unat (ge_limit e) \<le> unat (desc_last (descriptor e)) \<and> unat (desc_last (descriptor e)) < unat (ge_limit e) + 4096
   \<and> (ge_limit e \<le> 65536 \<longleftrightarrow> \<not> bit (descriptor e) 55) \<and> (\<not> bit (descriptor e) 55 \<longrightarrow> desc_last (descriptor e) = ge_limit e)"
proof -
  have "unat (ge_limit e) = 4096 * (unat (ge_limit e) div 4096) + unat (ge_limit e) mod 4096" by simp
  moreover have "unat (ge_limit e) mod 4096 < 4096" by simp
  ultimately have b: "unat (ge_limit e) \<le> unat (desc_last (descriptor e))" "unat (desc_last (descriptor e)) < unat (ge_limit e) + 4096"
    unfolding desc_last_ok by (cases "granular e", simp_all del: mod_less_divisor, linarith+)
  have "\<not> granular e \<Longrightarrow> desc_last (descriptor e) = ge_limit e" using desc_last_ok[of e] by (simp add: word32_eq_iff_unat)
  then show ?thesis using b desc_granular[of e] GDT_encodeEntry_ok GDT_encodeEntry_out
    by (auto simp: desc_base_ok desc_access_ok granular_def not_less)
qed

theorem GDT_encodeEntry_bounds_witness:
  "\<exists>gdt. GDT_encodeEntry (replicate 6 0) 1 (GDTEntry_new 0 0xffffffff KernelCode) = Inr gdt \<and> desc_base (gdt ! 1) = 0
    \<and> unat (desc_last (gdt ! 1)) \<ge> 4294967295"
  using GDT_encodeEntry_bounds[of "replicate 6 0" 1 "GDTEntry_new 0 0xffffffff KernelCode"]
  by (auto simp: GDTEntry_new_def)

text \<open>
  C16. After construction and installation every interrupt has a gate to its own stub in the kernel
  code segment, which covers all of memory, and the task register selects the descriptor of the
  task state segment. Encoding the gates a second time runs past the table of stubs.
\<close>

theorem CPU_install_correct:
  assumes "length kIsrs = 256"
  shows "\<exists>cpu cpu' p'. CPU_new tss_addr = Inr cpu \<and> CPU_install kIsrs gdt_addr idt_addr cpu p = Inr (cpu', p')
    \<and> length (idt_gate (cpu_idt cpu')) = 256
    \<and> (\<forall>n<256. gate_offset (idt_gate (cpu_idt cpu') ! n) = kIsrs ! n \<and> gate_type (idt_gate (cpu_idt cpu') ! n) = 0x8E
         \<and> (let d = cpu_gdt cpu' ! (unat (gate_selector (idt_gate (cpu_idt cpu') ! n)) div 8) in
            desc_base d = 0 \<and> desc_last d = 0xffffffff \<and> desc_access d = type_code KernelCode))
    \<and> (let d = cpu_gdt cpu' ! (unat (tr p') div 8) in desc_base d = tss_addr \<and> desc_last d = 104 \<and> desc_access d = type_code TSS)
    \<and> CPU_install kIsrs gdt_addr idt_addr cpu' p' = Inl OutOfBounds"
proof -
  obtain cpu where c: "CPU_new tss_addr = Inr cpu" "cpu_idt cpu = IDT_new"
    "cpu_gdt cpu = map descriptor [GDTEntry_default, GDTEntry_new 0 0xffffffff KernelCode, GDTEntry_new 0 0xffffffff KernelData,
       GDTEntry_new 0 0xffffffff UserCode, GDTEntry_new 0 0xffffffff UserData, GDTEntry_new tss_addr 104 TSS]"
    by (simp add: CPU_new_ok)
  let ?t = "\<lparr>idt_isr = (replicate 256 (Some StubISR))[8 := Some PanicISR], idt_gate = map gate kIsrs, idt_i = 256\<rparr>"
  have e: "encodeISRs kIsrs (cpu_idt cpu) = Inr ?t" using encodeISRs_ok[OF assms, of IDT_new] c(2) by (simp add: IDT_new_def)
  have again: "encodeISRs kIsrs ?t = Inl OutOfBounds" by (rule encodeISRs_again[OF assms]) simp
  have k: "desc_last (descriptor (GDTEntry_new 0 0xffffffff KernelCode)) = 0xffffffff"
    using desc_last_ok[of "GDTEntry_new 0 0xffffffff KernelCode"] by (simp add: word32_eq_iff_unat GDTEntry_new_def granular_def)
  have t: "desc_last (descriptor (GDTEntry_new tss_addr 104 TSS)) = 104"
    using desc_last_ok[of "GDTEntry_new tss_addr 104 TSS"] by (simp add: word32_eq_iff_unat GDTEntry_new_def granular_def)
  show ?thesis using assms c e again k t
    by (simp add: CPU_install_def gate_EncodeEntry desc_base_ok desc_access_ok GDTEntry_new_def)
qed

theorem CPU_install_correct_witness:
  "\<exists>cpu cpu' p'. CPU_new 0x5000 = Inr cpu
    \<and> CPU_install (replicate 256 0x1234) 0 0 cpu \<lparr>gdtr = None, idtr = None, tr = 0, if_flag = False\<rparr> = Inr (cpu', p')
    \<and> gate_offset (idt_gate (cpu_idt cpu') ! 14) = 0x1234"
  using CPU_install_correct[of "replicate 256 0x1234" "0x5000" 0 0 "\<lparr>gdtr = None, idtr = None, tr = 0, if_flag = False\<rparr>"] by auto

text \<open>
  C17. Interrupts reach their routines: once the tables are installed and interrupts enabled, the
  exceptions below 32 are reported with their message, a double fault stops the kernel, the
  sixteen lines of the controllers are acknowledged at the first controller, and any other
  interrupt makes the default routine read past the table of messages.
\<close>

theorem interrupt_dispatch:
  assumes "length kIsrs = 256"
  shows "\<exists>cpu cpu1 p1 cpu2 p2 d2. CPU_new tss_addr = Inr cpu \<and> CPU_install kIsrs gdt_addr idt_addr cpu p = Inr (cpu1, p1)
    \<and> enableInterrupts bus cpu1 p1 d = Inr (cpu2, p2, d2) \<and> if_flag p2
    \<and> (\<forall>registers d. int_no registers < 256 \<longrightarrow> interrupt_handler bus run (cpu_idt cpu2) registers d =
         (if int_no registers = 8 then Inl (KernelPanic ''Double fault'')
          else if int_no registers < 32
          then Inr ([IsrCalled (exception_messages ! unat (int_no registers)) (int_no registers) (err_code registers)], registers, d)
          else if int_no registers < 48
          then Inr ([IrqCalled (int_no registers) (err_code registers)], registers, bus_outb bus PIC1_COMMAND 0x20 d)
          else Inl OutOfBounds))"
proof -
  obtain cpu where c: "CPU_new tss_addr = Inr cpu" "cpu_idt cpu = IDT_new" "\<not> pic_initialized cpu" by (simp add: CPU_new_ok)
  let ?t = "\<lparr>idt_isr = (replicate 256 (Some StubISR))[8 := Some PanicISR], idt_gate = map gate kIsrs, idt_i = 256\<rparr>"
  have e: "encodeISRs kIsrs (cpu_idt cpu) = Inr ?t" using encodeISRs_ok[OF assms, of IDT_new] c(2) by (simp add: IDT_new_def)
  then obtain p1 where i: "CPU_install kIsrs gdt_addr idt_addr cpu p = Inr (cpu\<lparr>cpu_idt := ?t\<rparr>, p1)" by (simp add: CPU_install_def)
  let ?set = "\<lambda>ns l. fold (\<lambda>n l. l[n := Some IRQHandler]) ns l"
  let ?l = "?set [40..<40 + 8] (?set [32..<32 + 8] (idt_isr ?t))"
  have "init_pics bus ?t 32 40 d = Inr (?t\<lparr>idt_isr := ?l\<rparr>, program_pics bus 32 40 d)"
    using set_irq_handlers_ok[of ?t 32 8] set_irq_handlers_ok[of "?t\<lparr>idt_isr := ?set [32..<32 + 8] (idt_isr ?t)\<rparr>" 40 8]
    by (simp add: init_pics_def)
  then obtain cpu2 p2 d2 where s: "enableInterrupts bus (cpu\<lparr>cpu_idt := ?t\<rparr>) p1 d = Inr (cpu2, p2, d2)" "if_flag p2"
    "idt_isr (cpu_idt cpu2) = ?l" using c(3) by (simp add: enableInterrupts_def)
  have isr: "aread (idt_isr (cpu_idt cpu2)) n =
      Inr (Some (if n = 8 then PanicISR else if 32 \<le> n \<and> n < 48 then IRQHandler else StubISR))" if "n < 256" for n
  proof -
    have "?l ! n = (if n \<in> set [40..<40 + 8] then Some IRQHandler else if n \<in> set [32..<32 + 8] then Some IRQHandler else idt_isr ?t ! n)"
      by (rule fold_handlers_twice) (use that in simp)
    then show ?thesis unfolding s(3) using that by (simp only: set_upt atLeastLessThan_iff) (auto simp: nth_list_update)
  qed
  have len: "length exception_messages = 32" "exception_messages ! 8 = ''Double fault''" by (simp_all add: exception_messages_def)
  have "interrupt_handler bus run (cpu_idt cpu2) registers d =
         (if int_no registers = 8 then Inl (KernelPanic ''Double fault'')
          else if int_no registers < 32
          then Inr ([IsrCalled (exception_messages ! unat (int_no registers)) (int_no registers) (err_code registers)], registers, d)
          else if int_no registers < 48
          then Inr ([IrqCalled (int_no registers) (err_code registers)], registers, bus_outb bus PIC1_COMMAND 0x20 d)
          else Inl OutOfBounds)" if n: "int_no registers < 256" for registers d
  proof -
    let ?n = "unat (int_no registers)"
    have u: "?n < 256" "unat (ucast (int_no registers) :: u8) = ?n"
      using n by (simp_all add: word_less_nat_alt unsigned_ucast_eq take_bit_nat_eq_self)
    have w: "int_no registers = 8 \<longleftrightarrow> ?n = 8" "int_no registers < 32 \<longleftrightarrow> ?n < 32" "int_no registers < 48 \<longleftrightarrow> ?n < 48"
      by (simp_all add: word_less_nat_alt word32_eq_iff_unat)
    show ?thesis unfolding w interrupt_handler_def callISR_def u(2) isr[OF u(1)]
      using len by (simp add: not_less StubISR_call_def PanicISR_call_def IRQHandler_call_def)
  qed
  then show ?thesis using c(1) i s(1,2) by blast
qed

definition example_registers :: "u32 \<Rightarrow> RegisterTable" where
  "example_registers n = \<lparr>ds = 0, edi = 0, esi = 0, ebp = 0, esp = 0, ebx = 0, edx = 0, ecx = 0, eax = 0, int_no = n, err_code = 0,
     eip = 0, cs = 0, eflags = 0, useresp = 0, ss = 0\<rparr>"

theorem interrupt_dispatch_witness:
  "\<exists>cpu cpu1 p1 cpu2 p2 d2. CPU_new 0 = Inr cpu
    \<and> CPU_install (replicate 256 0) 0 0 cpu \<lparr>gdtr = None, idtr = None, tr = 0, if_flag = False\<rparr> = Inr (cpu1, p1)
    \<and> enableInterrupts pic_bus cpu1 p1 (undefined, undefined) = Inr (cpu2, p2, d2)
    \<and> interrupt_handler pic_bus (\<lambda>_ r d. Inr ([], r, d)) (cpu_idt cpu2) (example_registers 0x80) d2 = Inl OutOfBounds"
proof -
  have l: "length (replicate 256 0 :: uintptr list) = 256" by simp
  let ?r = "(example_registers 0x80)"
  have r: "int_no ?r < 256" "\<not> int_no ?r = 8" "\<not> int_no ?r < 32" "\<not> int_no ?r < 48" by (simp_all add: example_registers_def)
  show ?thesis using interrupt_dispatch[OF l, of 0 0 0 "\<lparr>gdtr = None, idtr = None, tr = 0, if_flag = False\<rparr>" pic_bus
      "(undefined, undefined)" "\<lambda>_ r d. Inr ([], r, d)"] r by (metis (lifting))
qed

text \<open>
  C15. On interrupt controllers that behave as their data sheet says, whatever their state,
  enabling interrupts leaves both initialised with the vectors 32 to 47 and every line masked.
  Any sequence of mask and unmask requests then has exactly the effect of the abstract
  specification on the set of masked lines, in which a line of the second controller can be
  masked but never unmasked.
\<close>

theorem irq_masks_refine:
  assumes "pics bus pic1 pic2" "\<not> pic_initialized cpu" "length (idt_isr (cpu_idt cpu)) = 256"
    and "list_all (\<lambda>x. irq_line x < 16) ops"
  shows "\<exists>cpu' p' d1 d'. enableInterrupts bus cpu p d = Inr (cpu', p', d1) \<and> run_irq_ops bus ops d1 = Inr d'
    \<and> pics_ready (pic1 d') (pic2 d')
    \<and> (\<forall>m<16. irq_masked (pic1 d') (pic2 d') m = fold irq_spec ops (\<lambda>_. True) m)"
proof -
  let ?d = "program_pics bus 32 40 d"
  from set_irq_handlers_ok[of "cpu_idt cpu" 32 8] assms(3) obtain t1 where
    t1: "set_irq_handlers 8 32 (cpu_idt cpu) = Inr t1" "length (idt_isr t1) = 256" by auto
  from set_irq_handlers_ok[of t1 40 8] t1(2) obtain t2 where "set_irq_handlers 8 40 t1 = Inr t2" by auto
  then obtain cpu' p' where e: "enableInterrupts bus cpu p d = Inr (cpu', p', ?d)"
    using assms(2) t1(1) by (simp add: enableInterrupts_def init_pics_def)
  from pics.run_irq_ops_ok[OF assms(1) pics.program_pics_ok(1)[OF assms(1), of d] assms(4)] obtain d' where
    d': "run_irq_ops bus ops ?d = Inr d'" "pics_ready (pic1 d') (pic2 d')"
      "\<forall>m<16. irq_masked (pic1 d') (pic2 d') m = fold irq_spec ops (irq_masked (pic1 ?d) (pic2 ?d)) m" by blast
  have "fold irq_spec ops (irq_masked (pic1 ?d) (pic2 ?d)) m = fold irq_spec ops (\<lambda>_. True) m" if "m < 16" for m
    by (rule irq_spec_local) (use pics.program_pics_ok(2)[OF assms(1) that, of d] in simp)
  then show ?thesis using e d' by auto
qed

theorem irq_masks_refine_witness:
  "\<exists>cpu' p' d1 d'. enableInterrupts pic_bus \<lparr>cpu_gdt = [], cpu_idt = IDT_new, cpu_tss = undefined, pic_initialized = False\<rparr>
      \<lparr>gdtr = None, idtr = None, tr = 0, if_flag = False\<rparr> (undefined, undefined) = Inr (cpu', p', d1)
    \<and> run_irq_ops pic_bus [Unmask 1, Unmask 14] d1 = Inr d'
    \<and> \<not> irq_masked (fst d') (snd d') 1 \<and> irq_masked (fst d') (snd d') 14"
  using irq_masks_refine[OF pc.pics_axioms, of "\<lparr>cpu_gdt = [], cpu_idt = IDT_new, cpu_tss = undefined, pic_initialized = False\<rparr>"
      "[Unmask 1, Unmask 14]" "\<lparr>gdtr = None, idtr = None, tr = 0, if_flag = False\<rparr>" "(undefined, undefined)"]
  by (fastforce simp: IDT_new_def)

text \<open>
  C30. Reading the clock waits until an update in progress is over and then returns the time that
  the registers hold, in binary or in binary-coded decimal; it returns once the update ends.
\<close>

theorem currentTime_reads_clock:
  assumes "rtc bus regs busy" "busy d < fuel" "holds_time regs t"
  shows "\<exists>d'. currentTime fuel bus d = Inr (t, d')"
  using rtc.currentTime_ok[OF assms] by blast

theorem currentTime_reads_clock_witness:
  "\<exists>d'. currentTime 4 (rtc_bus example_regs) (3, 0) = Inr (example_time, d')"
proof -
  have "holds_time example_regs example_time" by code_simp
  then show ?thesis using currentTime_reads_clock[OF clk.rtc_axioms, of "(3, 0)" 4 example_time] by simp
qed

end
