(* ===== verification/Stdio.thy ===== *)
theory Stdio
  imports Strings
begin

text \<open>
  Formatted output and line input of the C library: \<open>libc/src/stdlib/itoa.c\<close>,
  \<open>libc/src/stdio/printf.c\<close> and \<open>libc/src/stdio/gets.c\<close>.

  A character array is a list with a start index, and an access outside it is \<open>OutOfBounds\<close>. The
  variable arguments of \<open>printf\<close> are a list of values tagged with their type; taking an argument
  that is not there or has another type is \<open>BadVarArg\<close>. The print function that \<open>printf\<close> and
  \<open>sprintf\<close> pass to the common routine is an argument, which takes the characters to print.
\<close>

section \<open>Numbers\<close>

text \<open>The two loops of \<open>XTOA_WRITE_UNSIGNED\<close>, for every width of integer: counting the digits and writing them from the last.\<close>

function count_digits :: "'a :: len word \<Rightarrow> 'a word \<Rightarrow> nat res" where
  "count_digits valcpy base =
     (if base = 0 then Inl DivideByZero
      else if valcpy div base = 0 then Inr 1
      else if base = 1 then Inl Hang
      else rbind (count_digits (valcpy div base) base) (\<lambda>n. Inr (n + 1)))"
  by pat_completeness auto
termination
proof (relation "measure (\<lambda>(v, b). unat v)")
  fix v b :: "'a word"
  assume b: "b \<noteq> 0" "v div b \<noteq> 0" "b \<noteq> 1"
  have b1: "b = 1" if "unat b = 1"
  proof -
    have "b = of_nat (unat b)" by simp
    also have "\<dots> = 1" unfolding that by simp
    finally show ?thesis .
  qed
  have u: "unat b \<noteq> 0" "unat b \<noteq> 1" using b b1 by (auto simp: unsigned_eq_0_iff)
  have "unat v div unat b \<noteq> 0" using b(2) by (metis unat_div_distrib unsigned_eq_0_iff)
  then have "unat v div unat b < unat v" using u by (intro div_less_dividend) (auto intro: gr0I)
  then show "((v div b, b), v, b) \<in> measure (\<lambda>(v, b). unat v)" by (simp add: unat_div_distrib)
qed simp

declare count_digits.simps [simp del]

fun write_digits :: "'a :: len word \<Rightarrow> u8 list \<Rightarrow> nat \<Rightarrow> nat \<Rightarrow> 'a word \<Rightarrow> u8 list res" where
  "write_digits val buf str 0 base = Inl OutOfBounds"
| "write_digits val buf str (Suc len) base =
     rbind (awrite buf (str + len) (digit_char (ucast (ucast (val mod base) :: u8)))) (\<lambda>buf1.
     if val div base \<noteq> 0 then write_digits (val div base) buf1 str len base else Inr buf1)"

definition xtoa_unsigned :: "'a :: len word \<Rightarrow> u8 list \<Rightarrow> nat \<Rightarrow> u32 \<Rightarrow> u8 list res" where
  "xtoa_unsigned val buf str base =
     rbind (count_digits val (ucast base)) (\<lambda>len.
     rbind (awrite buf (str + len) 0) (\<lambda>buf1.
     write_digits val buf1 str len (ucast base)))"

definition xtoa_signed :: "'a :: len word \<Rightarrow> u8 list \<Rightarrow> nat \<Rightarrow> u32 \<Rightarrow> u8 list res" where
  "xtoa_signed val buf str base =
     (if val <s 0
      then rbind (awrite buf str 45) (\<lambda>buf1.
           if - val <s 0 then Inl SignedOverflow else xtoa_unsigned (- val) buf1 (str + 1) base)
      else xtoa_unsigned val buf str base)"

definition CLAMP32 :: "u32 \<Rightarrow> u32" where
  "CLAMP32 base = (if base <s 2 then 2 else if 32 <s base then 32 else base)"

text \<open>\<open>itoa\<close>, \<open>ltoa\<close> and \<open>lltoa\<close>; and \<open>uitoa\<close>, \<open>ultoa\<close> and \<open>ulltoa\<close>.\<close>

definition xtoa :: "'a :: len word \<Rightarrow> u8 list \<Rightarrow> nat \<Rightarrow> u32 \<Rightarrow> u8 list res" where
  "xtoa val buf str base0 =
     (let base = CLAMP32 base0 in
      if base \<noteq> 10 then xtoa_unsigned val buf str base else xtoa_signed val buf str base)"

definition uxtoa :: "'a :: len word \<Rightarrow> u8 list \<Rightarrow> nat \<Rightarrow> u32 \<Rightarrow> u8 list res" where
  "uxtoa val buf str base = xtoa_unsigned val buf str (CLAMP32 base)"

section \<open>Formatted output\<close>

datatype va_value = VInt u32 | VLongLong u64 | VStr "u8 list"

datatype length_spec = kLengthDefault | kLength_h | kLength_hh | kLength_l | kLength_ll | kLength_j | kLength_z | kLength_t | kLength_L

text \<open>How many of the following characters are neither the end of the format nor a per cent sign.\<close>

fun plain_amount :: "u8 list \<Rightarrow> nat res" where
  "plain_amount [] = Inl OutOfBounds"
| "plain_amount (c # cs) = (if c \<noteq> 0 \<and> c \<noteq> 37 then rbind (plain_amount cs) (\<lambda>n. Inr (n + 1)) else Inr 0)"

text \<open>The code at \<open>print_c\<close>: the rest of the format after the characters it prints.\<close>

definition print_c :: "(u8 list \<Rightarrow> 'o \<Rightarrow> 'o res) \<Rightarrow> u8 list \<Rightarrow> 'o \<Rightarrow> (u8 list \<times> 'o) res" where
  "print_c print format out =
     rbind (plain_amount (tl format)) (\<lambda>n.
     rbind (print (take (n + 1) format) out) (\<lambda>out1. Inr (drop (n + 1) format, out1)))"

fun length_loop :: "nat \<Rightarrow> u8 list \<Rightarrow> length_spec \<Rightarrow> (u8 list \<times> length_spec) res" where
  "length_loop 0 format len = Inr (format, len)"
| "length_loop (Suc k) [] len = Inl OutOfBounds"
| "length_loop (Suc k) (c # cs) len =
     (if c = 108 then length_loop k cs (if len = kLength_l then kLength_ll else kLength_l)
      else if c = 104 then length_loop k cs (if len = kLength_h then kLength_hh else kLength_h)
      else if c = 106 then Inr (cs, kLength_j)
      else if c = 122 then Inr (cs, kLength_z)
      else if c = 116 then Inr (cs, kLength_t)
      else if c = 76 then Inr (cs, kLength_L)
      else Inr (c # cs, len))"

fun va_int :: "va_value list \<Rightarrow> (u32 \<times> va_value list) res" where
  "va_int (VInt v # vs) = Inr (v, vs)"
| "va_int _ = Inl BadVarArg"

fun va_longlong :: "va_value list \<Rightarrow> (u64 \<times> va_value list) res" where
  "va_longlong (VLongLong v # vs) = Inr (v, vs)"
| "va_longlong _ = Inl BadVarArg"

fun va_str :: "va_value list \<Rightarrow> (u8 list \<times> va_value list) res" where
  "va_str (VStr v # vs) = Inr (v, vs)"
| "va_str _ = Inl BadVarArg"

definition print_cstr :: "(u8 list \<Rightarrow> 'o \<Rightarrow> 'o res) \<Rightarrow> u8 list \<Rightarrow> 'o \<Rightarrow> 'o res" where
  "print_cstr print s out = rbind (cstrlen s) (\<lambda>n. print (take (unat n) s) out)"

text \<open>The switch on the specifier; \<open>None\<close> is the jump to \<open>incomprehensible_conversion\<close>. \<open>junk\<close> is what \<open>sbuf\<close> holds at first.\<close>

definition conversion :: "(nat \<Rightarrow> u8) \<Rightarrow> (u8 list \<Rightarrow> 'o \<Rightarrow> 'o res) \<Rightarrow> u8 \<Rightarrow> length_spec \<Rightarrow> va_value list \<Rightarrow> 'o
    \<Rightarrow> (va_value list \<times> 'o) option res" where
  "conversion junk print specifier len vs out =
     (let sbuf = map junk [0..<64] in
      if specifier = 99 then rbind (va_int vs) (\<lambda>(v, vs1). rbind (print [ucast v] out) (\<lambda>o1. Inr (Some (vs1, o1))))
      else if specifier = 115 then rbind (va_str vs) (\<lambda>(s, vs1). rbind (print_cstr print s out) (\<lambda>o1. Inr (Some (vs1, o1))))
      else if specifier = 100 \<or> specifier = 105
      then rbind (if len = kLength_ll then rbind (va_longlong vs) (\<lambda>(v, vs1). rbind (xtoa v sbuf 0 10) (\<lambda>b. Inr (b, vs1)))
                  else rbind (va_int vs) (\<lambda>(v, vs1). rbind (xtoa v sbuf 0 10) (\<lambda>b. Inr (b, vs1)))) (\<lambda>(b, vs1).
           rbind (print_cstr print b out) (\<lambda>o1. Inr (Some (vs1, o1))))
      else if specifier = 117
      then rbind (va_int vs) (\<lambda>(v, vs1). rbind (uxtoa v sbuf 0 10) (\<lambda>b.
           rbind (print_cstr print b out) (\<lambda>o1. Inr (Some (vs1, o1)))))
      else if specifier = 120
      then rbind (va_int vs) (\<lambda>(v, vs1). rbind (uxtoa v (sbuf[0 := 48, 1 := 120]) 2 16) (\<lambda>b.
           rbind (print_cstr print b out) (\<lambda>o1. Inr (Some (vs1, o1)))))
      else Inr None)"

text \<open>
  One round of the loop at a per cent sign, and the loop: every round uses up a character of the
  format, so that as many rounds as it has characters are enough.
\<close>

definition print_directive :: "(nat \<Rightarrow> u8) \<Rightarrow> (u8 list \<Rightarrow> 'o \<Rightarrow> 'o res) \<Rightarrow> u8 list \<Rightarrow> bool \<Rightarrow> va_value list \<Rightarrow> 'o
    \<Rightarrow> (u8 list \<times> bool \<times> va_value list \<times> 'o) res" where
  "print_directive junk print format_begun_at rejected vs out =
     (let format = tl format_begun_at;
          incomprehensible = rbind (print_c print format_begun_at out) (\<lambda>(f, o1). Inr (f, True, vs, o1)) in
      rbind (aread format 0) (\<lambda>c.
      if c = 37 then rbind (print_c print format out) (\<lambda>(f, o1). Inr (f, rejected, vs, o1))
      else if rejected then incomprehensible
      else rbind (length_loop 2 format kLengthDefault) (\<lambda>(format1, len).
           rbind (aread format1 0) (\<lambda>specifier.
           rbind (conversion junk print specifier len vs out) (\<lambda>r. case r of
             None \<Rightarrow> incomprehensible
           | Some (vs1, o1) \<Rightarrow> Inr (tl format1, rejected, vs1, o1))))))"

fun vsprintf_loop :: "nat \<Rightarrow> (nat \<Rightarrow> u8) \<Rightarrow> (u8 list \<Rightarrow> 'o \<Rightarrow> 'o res) \<Rightarrow> u8 list \<Rightarrow> bool \<Rightarrow> va_value list \<Rightarrow> 'o \<Rightarrow> 'o res" where
  "vsprintf_loop fuel junk print [] rejected vs out = Inl OutOfBounds"
| "vsprintf_loop fuel junk print (c # cs) rejected vs out =
     (if c = 0 then Inr out
      else case fuel of 0 \<Rightarrow> Inl Hang
      | Suc fuel1 \<Rightarrow>
          if c \<noteq> 37 then rbind (print_c print (c # cs) out) (\<lambda>(f, o1). vsprintf_loop fuel1 junk print f rejected vs o1)
          else rbind (print_directive junk print (c # cs) rejected vs out) (\<lambda>(f, rejected1, vs1, o1).
               vsprintf_loop fuel1 junk print f rejected1 vs1 o1))"

definition vsprintf_internal :: "(nat \<Rightarrow> u8) \<Rightarrow> (u8 list \<Rightarrow> 'o \<Rightarrow> 'o res) \<Rightarrow> u8 list \<Rightarrow> va_value list \<Rightarrow> 'o \<Rightarrow> 'o res" where
  "vsprintf_internal junk print format vs out = vsprintf_loop (length format) junk print format False vs out"

text \<open>\<open>sprintf\<close>: the output is the buffer and the offset of its end.\<close>

fun sprintf_copy :: "u8 list \<Rightarrow> u8 list \<times> nat \<Rightarrow> (u8 list \<times> nat) res" where
  "sprintf_copy [] (buf, ptr) = Inr (buf, ptr)"
| "sprintf_copy (x # xs) (buf, ptr) = rbind (awrite buf ptr x) (\<lambda>buf1. sprintf_copy xs (buf1, ptr + 1))"

definition sprintf_print :: "u8 list \<Rightarrow> u8 list \<times> nat \<Rightarrow> (u8 list \<times> nat) res" where
  "sprintf_print data out =
     rbind (sprintf_copy data out) (\<lambda>(buf, ptr). rbind (awrite buf ptr 0) (\<lambda>buf1. Inr (buf1, ptr)))"

definition sprintf :: "(nat \<Rightarrow> u8) \<Rightarrow> u8 list \<Rightarrow> u8 list \<Rightarrow> va_value list \<Rightarrow> (u8 list \<times> nat) res" where
  "sprintf junk str format vs = vsprintf_internal junk sprintf_print format vs (str, 0)"

text \<open>\<open>printf\<close>: \<open>sys_write\<close> writes to file 0 and returns a count, which is added up.\<close>

definition printf_print :: "(u32 \<Rightarrow> u8 list \<Rightarrow> 's \<Rightarrow> (int \<times> 's) res) \<Rightarrow> u8 list \<Rightarrow> int \<times> 's \<Rightarrow> (int \<times> 's) res" where
  "printf_print sys_write data out = rbind (sys_write 0 data (snd out)) (\<lambda>(n, s). Inr (fst out + n, s))"

definition printf :: "(nat \<Rightarrow> u8) \<Rightarrow> (u32 \<Rightarrow> u8 list \<Rightarrow> 's \<Rightarrow> (int \<times> 's) res) \<Rightarrow> u8 list \<Rightarrow> va_value list \<Rightarrow> 's \<Rightarrow> (int \<times> 's) res" where
  "printf junk sys_write format vs s = vsprintf_internal junk (printf_print sys_write) format vs (0, s)"

definition puts :: "(nat \<Rightarrow> u8) \<Rightarrow> (u32 \<Rightarrow> u8 list \<Rightarrow> 's \<Rightarrow> (int \<times> 's) res) \<Rightarrow> u8 list \<Rightarrow> 's \<Rightarrow> (int \<times> 's) res" where
  "puts junk sys_write str s = printf junk sys_write [37, 115, 10, 0] [VStr str] s"

definition putchar :: "(u32 \<Rightarrow> u8 list \<Rightarrow> 's \<Rightarrow> (int \<times> 's) res) \<Rightarrow> u32 \<Rightarrow> 's \<Rightarrow> (u32 \<times> 's) res" where
  "putchar sys_write ic s = rbind (sys_write 0 [ucast ic] s) (\<lambda>(_, s1). Inr (ic, s1))"

section \<open>Line input\<close>

text \<open>
  \<open>getchar\<close> ignores how much \<open>sys_read\<close> has read: at the end of the input its variable is
  uninitialised (\<open>junk\<close>). \<open>gets\<close> reads until a line feed; \<open>fuel\<close> bounds the number of characters.
\<close>

definition getchar :: "u8 \<Rightarrow> ('s \<Rightarrow> (u8 option \<times> 's) res) \<Rightarrow> 's \<Rightarrow> (u8 \<times> 's) res" where
  "getchar junk sys_read1 s = rbind (sys_read1 s) (\<lambda>(c, s1). Inr (case c of None \<Rightarrow> junk | Some b \<Rightarrow> b, s1))"

fun gets_loop :: "nat \<Rightarrow> u8 \<Rightarrow> ('s \<Rightarrow> (u8 option \<times> 's) res) \<Rightarrow> u8 list \<Rightarrow> nat \<Rightarrow> 's \<Rightarrow> (u8 list \<times> nat \<times> 's) res" where
  "gets_loop 0 junk rd buf str s = Inl Hang"
| "gets_loop (Suc fuel) junk rd buf str s =
     rbind (getchar junk rd s) (\<lambda>(c, s1).
     rbind (awrite buf str c) (\<lambda>buf1.
     if c = 10 then rbind (awrite buf1 str 0) (\<lambda>buf2. Inr (buf2, str, s1))
     else if c = 8 then gets_loop fuel junk rd buf1 (if str \<noteq> 0 then str - 1 else str) s1
     else gets_loop fuel junk rd buf1 (str + 1) s1))"

definition gets :: "nat \<Rightarrow> u8 \<Rightarrow> ('s \<Rightarrow> (u8 option \<times> 's) res) \<Rightarrow> u8 list \<Rightarrow> 's \<Rightarrow> (u8 list \<times> nat \<times> 's) res" where
  "gets fuel junk rd buf s = gets_loop fuel junk rd buf 0 s"

end
