(* ===== verification/Stdio_Props.thy ===== *)
theory Stdio_Props
  imports Stdio
begin

text \<open>
  Correctness of formatted output and line input: numbers are printed with the digits that read
  back as the number, \<open>printf\<close> and its relatives print the text that the format describes on any
  output that can be written piece by piece (locale \<open>text_output\<close>), and \<open>gets\<close> stores the line as
  edited with the backspace key.
\<close>


section \<open>Numbers in a buffer\<close>

definition digits_text :: "nat \<Rightarrow> nat \<Rightarrow> u8 list" where
  "digits_text b n = rev (map (\<lambda>d. digit_char (of_nat d)) (radix_digits b n))"

definition int_text :: "int \<Rightarrow> u8 list" where
  "int_text i = (if i < 0 then 45 # digits_text 10 (nat (- i)) else digits_text 10 (nat i))"

lemma digits_text_step:
  "2 \<le> b \<Longrightarrow> digits_text b n = (if n div b = 0 then [] else digits_text b (n div b)) @ [digit_char (of_nat (n mod b))]"
  by (simp add: digits_text_def radix_digits.simps[of b n])

lemma patch_snoc: "str + length xs < length buf \<Longrightarrow> patch str xs (buf[str + length xs := x]) = patch str (xs @ [x]) buf"
  by (simp add: patch_def list_update_append drop_update_swap Cons_nth_drop_Suc[symmetric] take_update_cancel drop_update_cancel)

lemma count_digits_ok: "2 \<le> unat b \<Longrightarrow> count_digits v b = Inr (length (digits_text (unat b) (unat v)))"
proof (induction v b rule: count_digits.induct)
  case (1 v b)
  have b: "b \<noteq> 0" "b \<noteq> 1" using 1(2) by auto
  have z: "v div b = 0 \<longleftrightarrow> unat v div unat b = 0" by (metis unat_div_distrib unsigned_eq_0_iff)
  show ?case
  proof (cases "v div b = 0")
    case True
    then show ?thesis using b z digits_text_step[OF 1(2), of "unat v"] by (subst count_digits.simps) simp
  next
    case False
    have d: "unat (v div b) = unat v div unat b" by (rule unat_div_distrib)
    have e: "count_digits v b = rbind (count_digits (v div b) b) (\<lambda>n. Inr (n + 1))"
      using b False by (subst count_digits.simps) simp
    show ?thesis unfolding e 1(1)[OF b(1) False b(2) 1(2)] d using z False digits_text_step[OF 1(2), of "unat v"] by simp
  qed
qed

lemma write_digits_ok:
  assumes "2 \<le> unat b" "unat b \<le> 32" "str + length (digits_text (unat b) (unat v)) \<le> length buf"
  shows "write_digits v buf str (length (digits_text (unat b) (unat v))) b = Inr (patch str (digits_text (unat b) (unat v)) buf)"
  using assms
proof (induction "unat v" arbitrary: v buf rule: less_induct)
  case less
  note st = digits_text_step[OF less.prems(1), of "unat v"]
  have z: "v div b = 0 \<longleftrightarrow> unat v div unat b = 0" by (metis unat_div_distrib unsigned_eq_0_iff)
  have m: "unat v mod unat b < 32" using mod_less_divisor[of "unat b" "unat v"] less.prems(1,2) by linarith
  then have "unat (v mod b) < 256" by (simp add: unat_mod_distrib)
  then have "(ucast (ucast (v mod b) :: u8) :: u32) = of_nat (unat v mod unat b)"
    using m by (simp add: word32_eq_iff_unat unsigned_take_bit_eq unsigned_ucast_eq unat_mod_distrib take_bit_nat_eq_self unsigned_of_nat)
  then have dc: "digit_char (ucast (ucast (v mod b) :: u8)) = digit_char (of_nat (unat v mod unat b))" by simp
  show ?case
  proof (cases "v div b = 0")
    case True
    then show ?thesis using st z dc less.prems(3) by (simp add: patch_def upd_conv_take_nth_drop)
  next
    case False
    let ?t = "digits_text (unat b) (unat v div unat b)" and ?c = "digit_char (of_nat (unat v mod unat b))"
    have t: "digits_text (unat b) (unat v) = ?t @ [?c]" using st z False by simp
    have d: "unat (v div b) = unat v div unat b" by (rule unat_div_distrib)
    have "unat v div unat b < unat v" using z False less.prems(1) by (intro div_less_dividend) (auto intro: gr0I)
    then have lt: "unat (v div b) < unat v" by (simp add: d)
    have room: "str + length ?t < length buf" using less.prems(3) by (simp add: t)
    have "write_digits (v div b) (buf[str + length ?t := ?c]) str (length ?t) b = Inr (patch str ?t (buf[str + length ?t := ?c]))"
      using less.hyps[OF lt less.prems(1,2), of "buf[str + length ?t := ?c]"] room by (simp add: d)
    then show ?thesis using False room dc by (simp add: t patch_snoc)
  qed
qed

lemma xtoa_unsigned_ok:
  assumes "2 \<le> unat base" "unat base \<le> 32" "unat (ucast base :: 'a :: len word) = unat base"
    and "str + length (digits_text (unat base) (unat (v :: 'a word))) < length buf"
  shows "xtoa_unsigned v buf str base = Inr (patch str (digits_text (unat base) (unat v) @ [0]) buf)"
proof -
  let ?b = "ucast base :: 'a word" and ?t = "digits_text (unat base) (unat v)"
  have b: "2 \<le> unat ?b" "unat ?b \<le> 32" using assms by simp_all
  have "write_digits v (buf[str + length ?t := 0]) str (length ?t) ?b = Inr (patch str ?t (buf[str + length ?t := 0]))"
    using write_digits_ok[OF b, of str v "buf[str + length ?t := 0]"] assms(3,4) by simp
  then show ?thesis using count_digits_ok[OF b(1), of v] assms(3,4) by (simp add: xtoa_unsigned_def patch_snoc)
qed

lemma digits_text_short: "2 \<le> b \<Longrightarrow> n < 2 ^ k \<Longrightarrow> 0 < k \<Longrightarrow> length (digits_text b n) \<le> k"
proof -
  assume a: "2 \<le> b" "n < 2 ^ k" "0 < k"
  have "(2 :: nat) ^ k \<le> b ^ k" using a(1) by (rule power_mono) simp
  then show ?thesis using radix_digits_length[OF a(1,3), of n] a(2) by (simp add: digits_text_def)
qed


lemma sint_pos: "\<not> v <s 0 \<Longrightarrow> int (unat (v :: 'a :: len word)) = sint v"
proof -
  assume "\<not> v <s 0"
  then have "0 \<le> sint v" by (simp add: word_sless_alt)
  moreover have "sint v < 2 ^ LENGTH('a)" using sint_lt[of v] power_increasing[of "LENGTH('a) - 1" "LENGTH('a)" "2 :: int"] by linarith
  ultimately have "uint v = sint v" by (simp add: uint_sint take_bit_int_eq_self)
  then show ?thesis by simp
qed

lemma sint_neg: "v <s 0 \<Longrightarrow> \<not> - v <s 0 \<Longrightarrow> int (unat (- v :: 'a :: len word)) = - sint v"
proof -
  assume a: "v <s 0" "\<not> - v <s 0"
  have "- (2 ^ (LENGTH('a) - 1)) \<le> sint v" "sint v < 0" using sint_ge[of v] a(1) by (simp_all add: word_sless_alt)
  moreover have "(2 :: int) ^ LENGTH('a) = 2 * 2 ^ (LENGTH('a) - 1)" by (metis len_gt_0 power_minus_mult mult.commute)
  moreover have "uint (- v) = take_bit LENGTH('a) (- sint v)"
    using take_bit_minus[of "LENGTH('a)" "sint v"] by (simp add: uint_sint[of v] uint_word_ariths flip: take_bit_eq_mod)
  ultimately have "uint (- v) = - sint v" by (simp add: take_bit_int_eq_self)
  then show ?thesis by simp
qed


lemma digits_text_nonzero: "2 \<le> b \<Longrightarrow> b \<le> 32 \<Longrightarrow> 0 \<notin> set (digits_text b n)"
proof
  assume b: "2 \<le> b" "b \<le> 32" and "0 \<in> set (digits_text b n)"
  then obtain d where d: "d \<in> set (radix_digits b n)" "digit_char (of_nat d) = 0" by (auto simp: digits_text_def)
  have "d < 32" using radix_digits_lt[OF d(1)] b by simp
  then have "(of_nat d :: u32) < 32" by (simp add: word_less_nat_alt unsigned_of_nat take_bit_nat_eq_self)
  then show False using digit_char_nonzero d(2) by blast
qed

lemma int_text_nonzero: "0 \<notin> set (int_text i)"
  using digits_text_nonzero[of 10] by (simp add: int_text_def)

lemma print_cstr_ok: "0 \<notin> set t \<Longrightarrow> length t < 2 ^ 32 \<Longrightarrow> print_cstr print (t @ 0 # ys) out = print t out"
  by (simp add: print_cstr_def cstrlen_ok unsigned_of_nat take_bit_nat_eq_self)

lemma print_patch: "0 \<notin> set t \<Longrightarrow> length t < 2 ^ 32 \<Longrightarrow> print_cstr print (patch 0 (t @ [0]) buf) out = print t out"
  by (simp add: patch_def print_cstr_ok)

lemma clamp_simps [simp]: "CLAMP32 10 = 10" "CLAMP32 16 = 16"
  by (simp_all add: CLAMP32_def)

lemma digits_text_10: "n < 2 ^ 64 \<Longrightarrow> length (digits_text 10 n) \<le> 20"
  using radix_digits_length[of 10 20 n] by (simp add: digits_text_def)

lemma digits_text_16: "n < 2 ^ 32 \<Longrightarrow> length (digits_text 16 n) \<le> 8"
  using radix_digits_length[of 16 8 n] by (simp add: digits_text_def)

lemma unat_64: "LENGTH('a :: len) \<le> 64 \<Longrightarrow> unat (v :: 'a word) < 2 ^ 64"
  using unsigned_less[of v, where ?'a = nat] power_increasing[of "LENGTH('a)" 64 "2 :: nat"] by linarith

lemma uxtoa_10:
  assumes "unat (ucast (10 :: u32) :: 'a :: len word) = 10" "LENGTH('a) \<le> 64" "str + 20 < length buf"
  shows "xtoa_unsigned (v :: 'a word) buf str 10 = Inr (patch str (digits_text 10 (unat v) @ [0]) buf)"
  using xtoa_unsigned_ok[of 10 str v buf] assms digits_text_10[OF unat_64[OF assms(2), of v]] by simp

text \<open>Decimal numbers of either width, except the smallest one.\<close>

definition negatable :: "'a :: len word \<Rightarrow> bool" where
  "negatable v \<longleftrightarrow> \<not> (v <s 0 \<and> - v <s 0)"

lemma xtoa_10:
  assumes "unat (ucast (10 :: u32) :: 'a :: len word) = 10" "LENGTH('a) \<le> 64" "length buf = 64" "negatable (v :: 'a word)"
  shows "xtoa v buf 0 10 = Inr (patch 0 (int_text (sint v) @ [0]) buf)"
proof (cases "v <s 0")
  case True
  then have n: "\<not> - v <s 0" using assms(4) by (simp add: negatable_def)
  have i: "unat (- v) = nat (- sint v)" "sint v < 0" using sint_neg[OF True n, THEN arg_cong[of _ _ nat]] True
    by (simp_all only: nat_int word_sless_alt) simp
  have "xtoa v buf 0 10 = xtoa_unsigned (- v) (buf[0 := 45]) 1 10"
    using True n assms(3) by (simp add: xtoa_def Let_def xtoa_signed_def)
  also have "\<dots> = Inr (patch (Suc 0) (digits_text 10 (unat (- v)) @ [0]) (buf[0 := 45]))"
    using uxtoa_10[OF assms(1,2), of 1 "buf[0 := 45]" "- v"] assms(3) by simp
  finally show ?thesis using i assms(3) patch_Cons[of 0 buf "digits_text 10 (unat (- v)) @ [0]" 45] by (simp add: int_text_def)
next
  case False
  have i: "unat v = nat (sint v)" "\<not> sint v < 0" using sint_pos[OF False, THEN arg_cong[of _ _ nat]] False
    by (simp_all only: nat_int word_sless_alt) simp
  then show ?thesis using uxtoa_10[OF assms(1,2), of 0 buf v] assms(3) False
    by (simp add: xtoa_def Let_def xtoa_signed_def int_text_def)
qed

lemma int_text_short: "LENGTH('a :: len) \<le> 64 \<Longrightarrow> length (int_text (sint (v :: 'a word))) < 64"
proof -
  assume l: "LENGTH('a) \<le> 64"
  have "(2 :: int) ^ (LENGTH('a) - 1) \<le> 2 ^ 63" using l by (intro power_increasing) auto
  then have "nat (sint v) < 2 ^ 64" "nat (- sint v) < 2 ^ 64" using sint_lt[of v] sint_ge[of v] by (simp_all add: nat_less_iff)
  then show ?thesis using digits_text_10[of "nat (sint v)"] digits_text_10[of "nat (- sint v)"] by (simp add: int_text_def)
qed


section \<open>Formats and what they print\<close>

text \<open>
  A format is literal text with directives in it. A directive carries the argument it takes; its
  text is what should be printed. \<open>DStr\<close> also has what follows the terminator of the string.
\<close>

datatype directive = DPercent | DChar u32 | DStr "u8 list" "u8 list" | DInt u32 | DUInt u32 | DHex u32 | DLongLong u64

primrec dir_format :: "directive \<Rightarrow> u8 list" where
  "dir_format DPercent = [37, 37]"
| "dir_format (DChar v) = [37, 99]"
| "dir_format (DStr s ys) = [37, 115]"
| "dir_format (DInt v) = [37, 100]"
| "dir_format (DUInt v) = [37, 117]"
| "dir_format (DHex v) = [37, 120]"
| "dir_format (DLongLong v) = [37, 108, 108, 100]"

primrec dir_args :: "directive \<Rightarrow> va_value list" where
  "dir_args DPercent = []"
| "dir_args (DChar v) = [VInt v]"
| "dir_args (DStr s ys) = [VStr (s @ 0 # ys)]"
| "dir_args (DInt v) = [VInt v]"
| "dir_args (DUInt v) = [VInt v]"
| "dir_args (DHex v) = [VInt v]"
| "dir_args (DLongLong v) = [VLongLong v]"

primrec dir_text :: "directive \<Rightarrow> u8 list" where
  "dir_text DPercent = [37]"
| "dir_text (DChar v) = [ucast v]"
| "dir_text (DStr s ys) = s"
| "dir_text (DInt v) = int_text (sint v)"
| "dir_text (DUInt v) = digits_text 10 (unat v)"
| "dir_text (DHex v) = [48, 120] @ digits_text 16 (unat v)"
| "dir_text (DLongLong v) = int_text (sint v)"

primrec dir_ok :: "directive \<Rightarrow> bool" where
  "dir_ok DPercent = True"
| "dir_ok (DChar v) = True"
| "dir_ok (DStr s ys) = (0 \<notin> set s \<and> length s < 2 ^ 32)"
| "dir_ok (DInt v) = negatable v"
| "dir_ok (DUInt v) = True"
| "dir_ok (DHex v) = True"
| "dir_ok (DLongLong v) = negatable v"

definition literal :: "u8 list \<Rightarrow> bool" where
  "literal t \<longleftrightarrow> 0 \<notin> set t \<and> 37 \<notin> set t"

definition fmt_string :: "(directive \<times> u8 list) list \<Rightarrow> u8 list" where
  "fmt_string ds = concat (map (\<lambda>(d, t). dir_format d @ t) ds)"

definition fmt_args :: "(directive \<times> u8 list) list \<Rightarrow> va_value list" where
  "fmt_args ds = concat (map (\<lambda>(d, t). dir_args d) ds)"

definition fmt_text :: "(directive \<times> u8 list) list \<Rightarrow> u8 list" where
  "fmt_text ds = concat (map (\<lambda>(d, t). dir_text d @ t) ds)"

definition fmt_ok :: "(directive \<times> u8 list) list \<Rightarrow> bool" where
  "fmt_ok ds \<longleftrightarrow> list_all (\<lambda>(d, t). dir_ok d \<and> literal t) ds"

lemma fmt_simps [simp]:
  "fmt_string [] = []" "fmt_string ((d, t) # ds) = dir_format d @ t @ fmt_string ds"
  "fmt_args [] = []" "fmt_args ((d, t) # ds) = dir_args d @ fmt_args ds"
  "fmt_text [] = []" "fmt_text ((d, t) # ds) = dir_text d @ t @ fmt_text ds"
  "fmt_ok []" "fmt_ok ((d, t) # ds) \<longleftrightarrow> dir_ok d \<and> literal t \<and> fmt_ok ds"
  by (simp_all add: fmt_string_def fmt_args_def fmt_text_def fmt_ok_def)

text \<open>What follows a literal is the end of the format or a per cent sign.\<close>

definition stops :: "u8 list \<Rightarrow> bool" where
  "stops f \<longleftrightarrow> f \<noteq> [] \<and> (hd f = 0 \<or> hd f = 37)"

lemma stops_rest: "stops (fmt_string ds @ [0])"
proof (cases ds)
  case (Cons x ds')
  obtain d t where "x = (d, t)" by (cases x)
  then show ?thesis using Cons by (cases d) (simp_all add: stops_def)
qed (simp add: stops_def)

lemma plain_amount_ok: "literal t \<Longrightarrow> stops f \<Longrightarrow> plain_amount (t @ f) = Inr (length t)"
proof (induction t)
  case Nil
  then show ?case by (cases f) (auto simp: stops_def)
qed (auto simp: literal_def)

lemma print_c_ok:
  "literal t \<Longrightarrow> stops f \<Longrightarrow> print_c print (c # t @ f) out = rbind (print (c # t) out) (\<lambda>o1. Inr (f, o1))"
  by (simp add: print_c_def plain_amount_ok)

lemma conversion_ok:
  assumes "dir_ok d" "d \<noteq> DPercent" "junk64 = map junk [0..<64]"
  shows "conversion junk print (last (dir_format d)) (if \<exists>v. d = DLongLong v then kLength_ll else kLengthDefault) (dir_args d @ vs) out
    = rbind (print (dir_text d) out) (\<lambda>o1. Inr (Some (vs, o1)))"
proof (cases d)
  case (DStr s ys)
  then show ?thesis using assms(1) by (simp add: conversion_def Let_def print_cstr_ok)
next
  case (DInt v)
  have "xtoa v (map junk [0..<64]) 0 10 = Inr (patch 0 (int_text (sint v) @ [0]) (map junk [0..<64]))"
    by (rule xtoa_10) (use DInt assms(1) in simp_all)
  then show ?thesis using DInt int_text_short[of v] by (simp add: conversion_def Let_def print_patch int_text_nonzero)
next
  case (DUInt v)
  have "length (digits_text 10 (unat v)) \<le> 20" using digits_text_10[OF unat_64[of v]] by simp
  moreover have "uxtoa v (map junk [0..<64]) 0 10 = Inr (patch 0 (digits_text 10 (unat v) @ [0]) (map junk [0..<64]))"
    unfolding uxtoa_def clamp_simps by (rule uxtoa_10) simp_all
  ultimately show ?thesis using DUInt by (simp add: conversion_def Let_def print_patch digits_text_nonzero)
next
  case (DHex v)
  let ?b = "(map junk [0..<64])[0 := 48, 1 := 120]"
  have l: "length (digits_text 16 (unat v)) \<le> 8" using digits_text_16[of "unat v"] unat_lt32[of v] by simp
  have "uxtoa v ?b 2 16 = Inr (patch 2 (digits_text 16 (unat v) @ [0]) ?b)"
    unfolding uxtoa_def clamp_simps using xtoa_unsigned_ok[of 16 2 v ?b] l by simp
  moreover have "patch 2 (digits_text 16 (unat v) @ [0]) ?b = patch 0 (dir_text d @ [0]) (map junk [0..<64])"
    using patch_Cons[of 1 "(map junk [0..<64])[0 := 48]" "digits_text 16 (unat v) @ [0]" 120]
      patch_Cons[of 0 "map junk [0..<64]" "120 # digits_text 16 (unat v) @ [0]" 48] DHex by (simp add: numeral_2_eq_2)
  moreover have "print_cstr print (patch 0 (dir_text d @ [0]) (map junk [0..<64])) out = print (dir_text d) out"
    by (rule print_patch) (use DHex l digits_text_nonzero[of 16 "unat v"] in simp_all)
  ultimately show ?thesis using DHex by (simp add: conversion_def Let_def)
next
  case (DLongLong v)
  have "xtoa v (map junk [0..<64]) 0 10 = Inr (patch 0 (int_text (sint v) @ [0]) (map junk [0..<64]))"
    by (rule xtoa_10) (use DLongLong assms(1) in simp_all)
  then show ?thesis using DLongLong int_text_short[of v] by (simp add: conversion_def Let_def print_patch int_text_nonzero)
qed (use assms in \<open>simp_all add: conversion_def Let_def\<close>)

lemma directive_ok:
  assumes "dir_ok d" "d \<noteq> DPercent"
  shows "print_directive junk print (dir_format d @ f) False (dir_args d @ vs) out
    = rbind (print (dir_text d) out) (\<lambda>o1. Inr (f, False, vs, o1))"
proof -
  have two: "length_loop 2 f l = length_loop (Suc (Suc 0)) f l" for f l by (simp add: numeral_2_eq_2)
  note c = conversion_ok[OF assms refl, of junk print vs out]
  show ?thesis
    by (cases d) (use assms c in \<open>simp_all add: print_directive_def Let_def two\<close>)
qed


text \<open>
  An output that can be written piece by piece, for the texts that \<open>fits\<close> admits: a text may be
  bounded by the range of the count that is kept of it.
\<close>

locale text_output =
  fixes print :: "u8 list \<Rightarrow> 'o \<Rightarrow> 'o res"
    and fits :: "u8 list \<Rightarrow> bool"
  assumes print_append: "fits (xs @ ys) \<Longrightarrow> print (xs @ ys) out = rbind (print xs out) (print ys)"
    and fits_append: "fits (xs @ ys) \<Longrightarrow> fits xs \<and> fits ys"
begin

lemma vsprintf_literal:
  assumes "literal t" "stops f" "t \<noteq> []"
  shows "vsprintf_loop (Suc fuel) junk print (t @ f) r vs out = rbind (print t out) (vsprintf_loop fuel junk print f r vs)"
proof -
  obtain c t' where t: "t = c # t'" using assms(3) by (cases t) auto
  then have "literal t'" "c \<noteq> 0" "c \<noteq> 37" using assms(1) by (auto simp: literal_def)
  then show ?thesis using print_c_ok[of t' f print c out] assms(2) t by simp
qed

lemma vsprintf_directive:
  assumes "dir_ok d" "literal t" "stops f" "Suc (length t) \<le> fuel" "fits (dir_text d @ t)"
  shows "\<exists>fuel'. fuel \<le> fuel' + Suc (length t) \<and> fuel' < fuel \<and>
    vsprintf_loop fuel junk print (dir_format d @ t @ f) False (dir_args d @ vs) out
      = rbind (print (dir_text d @ t) out) (vsprintf_loop fuel' junk print f False vs)"
proof -
  obtain k where k: "fuel = Suc k" using assms(4) by (cases fuel) auto
  show ?thesis
  proof (cases "d = DPercent")
    case True
    have "print_directive junk print (37 # 37 # t @ f) False vs out = rbind (print (37 # t) out) (\<lambda>o1. Inr (f, False, vs, o1))"
      using print_c_ok[OF assms(2,3), of print 37 out] by (simp add: print_directive_def Let_def)
    then have "vsprintf_loop fuel junk print (dir_format d @ t @ f) False (dir_args d @ vs) out
      = rbind (print (dir_text d @ t) out) (vsprintf_loop k junk print f False vs)" using True k by simp
    then show ?thesis using k by (intro exI[of _ k]) simp
  next
    case False
    obtain c cs where c: "dir_format d = 37 # c # cs" by (cases d) auto
    have s: "vsprintf_loop fuel junk print (dir_format d @ t @ f) False (dir_args d @ vs) out
      = rbind (print (dir_text d) out) (vsprintf_loop k junk print (t @ f) False vs)"
      using directive_ok[OF assms(1) False, of junk print "t @ f" vs out] k c by simp
    show ?thesis
    proof (cases "t = []")
      case True
      then show ?thesis using s k by (intro exI[of _ k]) simp
    next
      case False
      then obtain j where j: "k = Suc j" using assms(4) k by (cases k) auto
      have "vsprintf_loop k junk print (t @ f) False vs = (\<lambda>o1. rbind (print t o1) (vsprintf_loop j junk print f False vs))"
        using vsprintf_literal[OF assms(2,3) False] j by (simp add: fun_eq_iff)
      then show ?thesis using s k j False by (intro exI[of _ j]) (simp add: print_append[OF assms(5)], cases t, simp_all)
    qed
  qed
qed

lemma vsprintf_directives:
  assumes "fmt_ok ds" "length (fmt_string ds @ [0]) \<le> fuel" "fits (fmt_text ds)"
  shows "vsprintf_loop fuel junk print (fmt_string ds @ [0]) False (fmt_args ds) out
    = (if ds = [] then Inr out else print (fmt_text ds) out)"
  using assms
proof (induction ds arbitrary: fuel out)
  case (Cons x ds)
  obtain d t where x: "x = (d, t)" by (cases x)
  have len: "1 \<le> length (dir_format d)" by (cases d) simp_all
  have f: "fits ((dir_text d @ t) @ fmt_text ds)" using Cons.prems(3) x by simp
  have "dir_ok d" "literal t" "Suc (length t) \<le> fuel" "fits (dir_text d @ t)" "fits (fmt_text ds)"
    using Cons.prems x len fits_append[OF f] by auto
  from vsprintf_directive[OF this(1,2) stops_rest[of ds] this(3,4), of junk "fmt_args ds" out] this(5) obtain k where fr: "fits (fmt_text ds)" and
    k: "fuel \<le> k + Suc (length t)" and
    e: "vsprintf_loop fuel junk print (dir_format d @ t @ fmt_string ds @ [0]) False (dir_args d @ fmt_args ds) out
      = rbind (print (dir_text d @ t) out) (vsprintf_loop k junk print (fmt_string ds @ [0]) False (fmt_args ds))" by blast
  have "2 \<le> length (dir_format d)" by (cases d) simp_all
  then have "length (fmt_string ds @ [0]) \<le> k" using Cons.prems(2) x k by simp
  then have "vsprintf_loop k junk print (fmt_string ds @ [0]) False (fmt_args ds) = (\<lambda>o1. if ds = [] then Inr o1 else print (fmt_text ds) o1)"
    using Cons.IH Cons.prems(1) x fr by (simp add: fun_eq_iff)
  then show ?case using e x print_append[OF f, of out]
    by (cases "print (dir_text d @ t) out") (auto simp: rbind_def)
qed simp

lemma vsprintf_ok:
  assumes "literal t" "fmt_ok ds" "fits (t @ fmt_text ds)"
  shows "vsprintf_internal junk print (t @ fmt_string ds @ [0]) (fmt_args ds) out
    = (if t = [] \<and> ds = [] then Inr out else print (t @ fmt_text ds) out)"
proof (cases "t = []")
  case True
  then show ?thesis using vsprintf_directives[OF assms(2), of "length (fmt_string ds @ [0])" junk out] assms(3) by (simp add: vsprintf_internal_def)
next
  case False
  let ?f = "fmt_string ds @ [0]"
  obtain k where k: "length (t @ ?f) = Suc k" "length ?f \<le> k" using False by (cases t) auto
  have "vsprintf_loop k junk print ?f False (fmt_args ds) = (\<lambda>o1. if ds = [] then Inr o1 else print (fmt_text ds) o1)"
    using vsprintf_directives[OF assms(2) k(2)] fits_append[OF assms(3)] by (simp add: fun_eq_iff)
  then show ?thesis using vsprintf_literal[OF assms(1) stops_rest[of ds] False, of k junk False "fmt_args ds" out] k(1)
      print_append[OF assms(3), of out] False
    by (cases "print t out") (auto simp: vsprintf_internal_def rbind_def)
qed

end


section \<open>\<open>sprintf\<close>\<close>

lemma sprintf_copy_append: "sprintf_copy (xs @ ys) out = rbind (sprintf_copy xs out) (sprintf_copy ys)"
  by (induction xs out rule: sprintf_copy.induct) (simp_all add: fun_eq_iff rbind_def split: sum.splits)

lemma sprintf_copy_ok:
  "sprintf_copy xs (buf, ptr) = (if ptr + length xs \<le> length buf \<or> xs = [] then Inr (patch ptr xs buf, ptr + length xs) else Inl OutOfBounds)"
proof (induction xs arbitrary: buf ptr)
  case (Cons x xs)
  show ?case
  proof (cases "ptr < length buf")
    case True
    then show ?thesis using Cons.IH[of "buf[ptr := x]" "ptr + 1"] by (auto simp: patch_Cons)
  qed simp
qed simp

lemma sprintf_print_ok:
  "sprintf_print xs (buf, ptr) = (if ptr + length xs < length buf then Inr (patch ptr (xs @ [0]) buf, ptr + length xs) else Inl OutOfBounds)"
proof (cases "ptr + length xs < length buf")
  case True
  have "(patch ptr xs buf)[ptr + length xs := 0] = patch ptr (xs @ [0]) buf"
    using True by (simp add: patch_def list_update_append Cons_nth_drop_Suc[symmetric])
  then show ?thesis using True by (simp add: sprintf_print_def sprintf_copy_ok)
next
  case False
  show ?thesis
  proof (cases "ptr + length xs \<le> length buf \<or> xs = []")
    case True
    then have "length (patch ptr xs buf) \<le> ptr + length xs" using False by auto
    then show ?thesis using True False by (auto simp: sprintf_print_def sprintf_copy_ok)
  qed (use False in \<open>auto simp: sprintf_print_def sprintf_copy_ok\<close>)
qed

lemma patch_twice: "ptr + length xs + length ys \<le> length buf \<Longrightarrow> ys \<noteq> [] \<Longrightarrow> patch (ptr + length xs) ys (patch ptr (xs @ [z]) buf) = patch ptr (xs @ ys) buf"
  by (cases ys) (auto simp: patch_def ac_simps)

lemma sprintf_print_append: "sprintf_print (xs @ ys) out = rbind (sprintf_print xs out) (sprintf_print ys)"
proof -
  obtain buf ptr where o: "out = (buf, ptr)" by (cases out)
  show ?thesis
  proof (cases "ptr + length xs + length ys < length buf")
    case True
    then have "patch (ptr + length xs) (ys @ [0]) (patch ptr (xs @ [0]) buf) = patch ptr (xs @ ys @ [0]) buf"
      using patch_twice[of ptr xs "ys @ [0]" buf 0] by simp
    then show ?thesis using True o by (simp add: sprintf_print_ok)
  next
    case False
    then show ?thesis using o by (auto simp: sprintf_print_ok)
  qed
qed

interpretation sp: text_output sprintf_print "\<lambda>_. True"
  by unfold_locales (simp_all add: sprintf_print_append)

section \<open>Line input\<close>

text \<open>A stream that delivers some bytes.\<close>

inductive feeds :: "('s \<Rightarrow> (u8 option \<times> 's) res) \<Rightarrow> 's \<Rightarrow> u8 list \<Rightarrow> 's \<Rightarrow> bool" for rd where
  feeds_nil: "feeds rd s [] s"
| feeds_Cons: "rd s = Inr (Some c, s1) \<Longrightarrow> feeds rd s1 cs s2 \<Longrightarrow> feeds rd s (c # cs) s2"

inductive_cases feeds_ConsE: "feeds rd s (c # cs) s2"
inductive_cases feeds_NilE: "feeds rd s [] s2"

text \<open>A line as it is edited with the backspace key.\<close>

definition edit_char :: "u8 \<Rightarrow> u8 list \<Rightarrow> u8 list" where
  "edit_char c acc = (if c = 8 then butlast acc else acc @ [c])"

definition edit_line :: "u8 list \<Rightarrow> u8 list \<Rightarrow> u8 list" where
  "edit_line cs acc = fold edit_char cs acc"

text \<open>All through the line, there is room for the next character.\<close>

fun line_fits :: "u8 list \<Rightarrow> nat \<Rightarrow> nat \<Rightarrow> bool" where
  "line_fits [] n room = (n < room)"
| "line_fits (c # cs) n room = (n < room \<and> line_fits cs (if c = 8 then n - 1 else Suc n) room)"

lemma gets_loop_ok:
  assumes "feeds rd s (cs @ [10]) s'" "10 \<notin> set cs" "length cs < fuel" "take str buf = acc" "str = length acc"
  shows "if line_fits cs str (length buf)
    then \<exists>buf'. gets_loop fuel junk rd buf str s = Inr (buf', length (edit_line cs acc), s')
      \<and> take (Suc (length (edit_line cs acc))) buf' = edit_line cs acc @ [0] \<and> length buf' = length buf
    else gets_loop fuel junk rd buf str s = Inl OutOfBounds"
  using assms
proof (induction cs arbitrary: s fuel buf str acc)
  case Nil
  obtain k where k: "fuel = Suc k" using Nil.prems(3) by (cases fuel) auto
  have "rd s = Inr (Some 10, s')" using Nil.prems(1) by (auto elim!: feeds_ConsE feeds_NilE)
  then show ?case using k Nil.prems(4,5) by (auto simp: getchar_def edit_line_def take_Suc_conv_app_nth)
next
  case (Cons c cs)
  obtain k where k: "fuel = Suc k" "length cs < k" using Cons.prems(3) by (cases fuel) auto
  from Cons.prems(1) obtain s1 where r: "rd s = Inr (Some c, s1)" "feeds rd s1 (cs @ [10]) s'" by (auto elim!: feeds_ConsE)
  have c: "c \<noteq> 10" "10 \<notin> set cs" using Cons.prems(2) by auto
  show ?case
  proof (cases "str < length buf")
    case True
    let ?str = "if c = 8 then str - 1 else Suc str"
    have "take (length acc - 1) buf = take (length acc - 1) (take str buf)" using Cons.prems(5) by (simp only: take_take) simp
    also have "\<dots> = take (length acc - 1) acc" by (simp only: Cons.prems(4))
    finally have "take (length acc - 1) buf = take (length acc - 1) acc" .
    then have a: "take ?str (buf[str := c]) = edit_char c acc" "?str = length (edit_char c acc)"
      using True Cons.prems(4,5) by (auto simp: edit_char_def take_Suc_conv_app_nth butlast_conv_take)
    have e: "gets_loop fuel junk rd buf str s = gets_loop k junk rd (buf[str := c]) ?str s1"
      using k(1) r(1) c True by (auto simp: getchar_def)
    show ?thesis using Cons.IH[OF r(2) c(2) k(2) a] True e by (auto simp: edit_line_def)
  next
    case False
    then show ?thesis using k(1) r(1) by (simp add: getchar_def)
  qed
qed

section \<open>Properties\<close>



text \<open>
  \<open>gets\<close> reads a line: on input that delivers characters up to a line feed it stores the line
  as edited with backspaces, terminated, returns the position of its end and leaves the rest of the
  input alone; exactly when the line gets longer than the buffer it is overrun.
\<close>

theorem gets_reads_line:
  assumes "feeds rd s (cs @ [10]) s'" "10 \<notin> set cs" "length cs < fuel"
  shows "if line_fits cs 0 (length buf)
    then \<exists>buf'. gets fuel junk rd buf s = Inr (buf', length (edit_line cs []), s')
      \<and> take (Suc (length (edit_line cs []))) buf' = edit_line cs [] @ [0] \<and> length buf' = length buf
    else gets fuel junk rd buf s = Inl OutOfBounds"
  using gets_loop_ok[OF assms, of 0 buf "[]" junk] by (simp add: gets_def)

definition list_read :: "u8 list \<Rightarrow> (u8 option \<times> u8 list) res" where
  "list_read cs = (case cs of [] \<Rightarrow> Inr (None, []) | c # cs \<Rightarrow> Inr (Some c, cs))"

theorem gets_reads_line_witness:
  "\<exists>buf'. gets 5 0 list_read (replicate 3 0) [97, 98, 8, 99, 10, 1] = Inr (buf', 2, [1]) \<and> take 3 buf' = [97, 99, 0]"
proof -
  have "feeds list_read [97, 98, 8, 99, 10, 1] ([97, 98, 8, 99] @ [10]) [1]"
    by (auto intro!: feeds.intros simp: list_read_def)
  moreover have "line_fits [97, 98, 8, 99] 0 (length (replicate 3 (0 :: u8)))" "edit_line [97, 98, 8, 99] [] = [97, 99]" by code_simp+
  ultimately show ?thesis using gets_reads_line[of list_read "[97, 98, 8, 99, 10, 1]" "[97, 98, 8, 99]" "[1]" 5 "replicate 3 0" 0]
    by (auto simp: numeral_3_eq_3)
qed

end
