(* ===== verification/Print.thy ===== *)
theory Print
  imports Stdio_Props Console
begin

text \<open>
  Type-safe formatted output: \<open>libsys/include/io/Print.hpp\<close>, the streams it prints to
  (\<open>OutputStream.hpp\<close>, \<open>StringStream.hpp\<close>, \<open>Format.hpp\<close>, \<open>libsys/include/system/Debug.hpp\<close>), and the
  conversions \<open>to_cstr\<close> of \<open>libsys/include/util/String.hpp\<close>.

  A stream is the function that writes one byte to it and the state it writes to. The arguments of
  \<open>print\<close> are values tagged with the types that its \<open>if constexpr\<close> tells apart; integers narrower
  than \<open>int\<close> are promoted before \<open>to_cstr\<close> sees them. \<open>junk\<close> is what the local buffer holds at first.
  The literal \<open>%\<close> of a format needs no escape, and a format of fewer than $2^{32}$ characters cannot
  wrap the counter of the arguments, which is a natural number here.
\<close>

section \<open>Numbers as C strings\<close>

definition to_cstr_int :: "'a :: len word \<Rightarrow> u8 list \<Rightarrow> u32 \<Rightarrow> u8 list res" where
  "to_cstr_int num buf base = xtoa num buf 0 (clamp_base base)"

definition to_cstr_uint :: "'a :: len word \<Rightarrow> u8 list \<Rightarrow> nat \<Rightarrow> u32 \<Rightarrow> u8 list res" where
  "to_cstr_uint num buf str base = uxtoa num buf str (clamp_base base)"

text \<open>\<open>base_prefix\<close> returns the place of its terminator, where the digits go on.\<close>

definition to_cstr_ptr :: "uintptr \<Rightarrow> u8 list \<Rightarrow> u8 list res" where
  "to_cstr_ptr ptr buf =
     (let prefix = base_prefix 16 in
      if length prefix \<le> length buf then to_cstr_uint ptr (patch 0 prefix buf) (length prefix - 1) 16
      else Inl OutOfBounds)"

section \<open>Printing\<close>

text \<open>\<open>PCstr\<close> carries the address of the characters; \<open>PArray\<close> is a string literal, an array that is not a pointer yet.\<close>

datatype print_arg =
    PChar u8
  | PByte u8
  | PCstr uintptr "u8 list"
  | PArray "u8 list"
  | PString BasicString
  | PBool bool
  | PInt u32
  | PUInt u32
  | PLongLong u64
  | PULongLong u64
  | PPtr uintptr

fun print_chars :: "(u8 \<Rightarrow> 'o \<Rightarrow> 'o res) \<Rightarrow> u8 list \<Rightarrow> 'o \<Rightarrow> 'o res" where
  "print_chars wr [] out = Inl OutOfBounds"
| "print_chars wr (c # it) out = (if c = 0 then Inr out else rbind (wr c out) (print_chars wr it))"

definition print_data :: "(nat \<Rightarrow> u8) \<Rightarrow> (u8 \<Rightarrow> 'o \<Rightarrow> 'o res) \<Rightarrow> print_arg \<Rightarrow> 'o \<Rightarrow> 'o res" where
  "print_data junk wr data out =
     (let buf = map junk [0..<64]; print_str = (\<lambda>str. print_chars wr str out) in
      case data of
        PChar c \<Rightarrow> wr c out
      | PByte b \<Rightarrow> wr b out
      | PCstr a it \<Rightarrow> print_chars wr it out
      | PArray it \<Rightarrow> print_chars wr it out
      | PString s \<Rightarrow> print_chars wr (bs_data s) out
      | PBool b \<Rightarrow> print_chars wr (cstr (if b then ''true'' else ''false'')) out
      | PInt v \<Rightarrow> rbind (to_cstr_int v buf 10) print_str
      | PUInt v \<Rightarrow> rbind (to_cstr_uint v buf 0 10) print_str
      | PLongLong v \<Rightarrow> rbind (to_cstr_int v buf 10) print_str
      | PULongLong v \<Rightarrow> rbind (to_cstr_uint v buf 0 10) print_str
      | PPtr a \<Rightarrow> rbind (to_cstr_ptr a buf) print_str)"

text \<open>The \<open>reinterpret_cast\<close> of an integral or pointer argument; \<open>None\<close> for other types.\<close>

fun as_pointer :: "print_arg \<Rightarrow> uintptr option" where
  "as_pointer (PChar c) = Some (scast c)"
| "as_pointer (PByte b) = None"
| "as_pointer (PCstr a it) = Some a"
| "as_pointer (PArray it) = None"
| "as_pointer (PString s) = None"
| "as_pointer (PBool b) = Some (if b then 1 else 0)"
| "as_pointer (PInt v) = Some v"
| "as_pointer (PUInt v) = Some v"
| "as_pointer (PLongLong v) = Some (ucast v)"
| "as_pointer (PULongLong v) = Some (ucast v)"
| "as_pointer (PPtr a) = Some a"

definition is_spec :: "u8 \<Rightarrow> bool" where
  "is_spec c \<longleftrightarrow> c = 64 \<or> c = 120 \<or> c = 112"

definition has_format_spec :: "u8 list \<Rightarrow> bool res" where
  "has_format_spec s = rbind (aread s 0) (\<lambda>c. if c = 37 then rbind (aread s 1) (\<lambda>d. Inr (is_spec d)) else Inr False)"

definition print_input :: "(nat \<Rightarrow> u8) \<Rightarrow> (u8 \<Rightarrow> 'o \<Rightarrow> 'o res) \<Rightarrow> u8 \<Rightarrow> print_arg \<Rightarrow> 'o \<Rightarrow> 'o res" where
  "print_input junk wr formatSpecifier input out =
     (case as_pointer input of
        Some a \<Rightarrow> if formatSpecifier = 120 \<or> formatSpecifier = 112 then print_data junk wr (PPtr a) out
                  else print_data junk wr input out
      | None \<Rightarrow> print_data junk wr input out)"

fun print_loop :: "(nat \<Rightarrow> u8) \<Rightarrow> (u8 \<Rightarrow> 'o \<Rightarrow> 'o res) \<Rightarrow> print_arg list \<Rightarrow> u8 list \<Rightarrow> nat \<Rightarrow> 'o \<Rightarrow> 'o res" where
  "print_loop junk wr inputs [] currentInput out = Inl OutOfBounds"
| "print_loop junk wr inputs (c # format) currentInput out =
     (if c = 0 then Inr out
      else rbind (has_format_spec (c # format)) (\<lambda>spec.
           if \<not> spec then rbind (wr c out) (print_loop junk wr inputs format currentInput)
           else rbind (aread format 0) (\<lambda>formatSpecifier.
                rbind (if currentInput < length inputs then print_input junk wr formatSpecifier (inputs ! currentInput) out
                       else Inr out)
                  (print_loop junk wr inputs (tl format) (currentInput + 1)))))"

text \<open>\<open>make_tuple\<close> decays an array to a pointer, which prints alike, and copies a string.\<close>

fun make_inputs :: "u8 \<Rightarrow> print_arg list \<Rightarrow> print_arg list res" where
  "make_inputs g [] = Inr []"
| "make_inputs g (PString s # args) =
     rbind (BasicString_copy g s) (\<lambda>c. rbind (make_inputs g args) (\<lambda>inputs. Inr (PString c # inputs)))"
| "make_inputs g (a # args) = rbind (make_inputs g args) (\<lambda>inputs. Inr (a # inputs))"

text \<open>With no argument after it, the format is printed as it is.\<close>

definition print_fmt :: "u8 \<Rightarrow> (nat \<Rightarrow> u8) \<Rightarrow> (u8 \<Rightarrow> 'o \<Rightarrow> 'o res) \<Rightarrow> u8 list \<Rightarrow> print_arg list \<Rightarrow> 'o \<Rightarrow> 'o res" where
  "print_fmt g junk wr format args out =
     (if args = [] then print_chars wr format out
      else rbind (make_inputs g args) (\<lambda>inputs. print_loop junk wr inputs format 0 out))"

definition println_fmt :: "u8 \<Rightarrow> (nat \<Rightarrow> u8) \<Rightarrow> (u8 \<Rightarrow> 'o \<Rightarrow> 'o res) \<Rightarrow> u8 list \<Rightarrow> print_arg list \<Rightarrow> 'o \<Rightarrow> 'o res" where
  "println_fmt g junk wr format args out = rbind (print_fmt g junk wr format args out) (wr 10)"

section \<open>Streams\<close>

definition StringStream_write :: "u8 \<Rightarrow> u8 \<Rightarrow> BasicString \<Rightarrow> BasicString res" where
  "StringStream_write g byte str = BasicString_insert g str byte"

text \<open>\<open>format\<close>: the stream's string starts with the default reserve and is returned as a copy.\<close>

definition format :: "u8 \<Rightarrow> (nat \<Rightarrow> u8) \<Rightarrow> u8 list \<Rightarrow> print_arg list \<Rightarrow> BasicString res" where
  "format g junk fmt args = rbind (print_fmt g junk (StringStream_write g) fmt args BasicString_new) (BasicString_copy g)"

text \<open>The port 0xE9 of the Bochs console, as the bytes sent to it so far.\<close>

definition BochsDebugOutputStream_write :: "u8 \<Rightarrow> u8 list \<Rightarrow> u8 list res" where
  "BochsDebugOutputStream_write byte port = Inr (port @ [byte])"

definition debug_print :: "u8 \<Rightarrow> (nat \<Rightarrow> u8) \<Rightarrow> u8 list \<Rightarrow> print_arg list \<Rightarrow> u8 list \<Rightarrow> u8 list res" where
  "debug_print g junk = print_fmt g junk BochsDebugOutputStream_write"

definition debug_println :: "u8 \<Rightarrow> (nat \<Rightarrow> u8) \<Rightarrow> u8 list \<Rightarrow> print_arg list \<Rightarrow> u8 list \<Rightarrow> u8 list res" where
  "debug_println g junk = println_fmt g junk BochsDebugOutputStream_write"

section \<open>What is printed\<close>

primrec arg_text :: "print_arg \<Rightarrow> u8 list" where
  "arg_text (PChar c) = [c]"
| "arg_text (PByte b) = [b]"
| "arg_text (PCstr a it) = takeWhile (\<lambda>c. c \<noteq> 0) it"
| "arg_text (PArray it) = takeWhile (\<lambda>c. c \<noteq> 0) it"
| "arg_text (PString s) = bs_chars s"
| "arg_text (PBool b) = map of_char (if b then ''true'' else ''false'')"
| "arg_text (PInt v) = int_text (sint v)"
| "arg_text (PUInt v) = digits_text 10 (unat v)"
| "arg_text (PLongLong v) = int_text (sint v)"
| "arg_text (PULongLong v) = digits_text 10 (unat v)"
| "arg_text (PPtr a) = [48, 120] @ digits_text 16 (unat a)"

definition spec_text :: "u8 \<Rightarrow> print_arg \<Rightarrow> u8 list" where
  "spec_text s a = (case as_pointer a of Some p \<Rightarrow> if s = 64 then arg_text a else arg_text (PPtr p) | None \<Rightarrow> arg_text a)"

text \<open>The text of a format, without its terminator: a directive takes the next argument, and nothing when there is none left.\<close>

fun print_text :: "u8 list \<Rightarrow> print_arg list \<Rightarrow> u8 list" where
  "print_text [] args = []"
| "print_text (c # cs) args =
     (if c = 37 \<and> cs \<noteq> [] \<and> is_spec (hd cs)
      then (case args of [] \<Rightarrow> [] | a # as \<Rightarrow> spec_text (hd cs) a) @ print_text (tl cs) (tl args)
      else c # print_text cs args)"

primrec arg_ok :: "print_arg \<Rightarrow> bool" where
  "arg_ok (PChar c) = True"
| "arg_ok (PByte b) = True"
| "arg_ok (PCstr a it) = (0 \<in> set it)"
| "arg_ok (PArray it) = (0 \<in> set it)"
| "arg_ok (PString s) = (bs_inv s \<and> 0 \<notin> set (bs_chars s))"
| "arg_ok (PBool b) = True"
| "arg_ok (PInt v) = negatable v"
| "arg_ok (PUInt v) = True"
| "arg_ok (PLongLong v) = negatable v"
| "arg_ok (PULongLong v) = True"
| "arg_ok (PPtr a) = True"

fun write_all :: "(u8 \<Rightarrow> 'o \<Rightarrow> 'o res) \<Rightarrow> u8 list \<Rightarrow> 'o \<Rightarrow> 'o res" where
  "write_all wr [] out = Inr out"
| "write_all wr (c # cs) out = rbind (wr c out) (write_all wr cs)"

lemma write_all_append: "write_all wr (xs @ ys) out = rbind (write_all wr xs out) (write_all wr ys)"
  by (induction xs arbitrary: out) (simp_all add: rbind_def split: sum.splits)

lemma write_all_end [simp]: "rbind m (write_all wr []) = m"
  by (cases m) simp_all

lemma print_chars_text: "0 \<in> set it \<Longrightarrow> print_chars wr it out = write_all wr (takeWhile (\<lambda>c. c \<noteq> 0) it) out"
  by (induction it arbitrary: out) (auto simp: rbind_def split: sum.splits)

lemma print_chars_ok: "0 \<notin> set t \<Longrightarrow> print_chars wr (t @ 0 # ys) out = write_all wr t out"
  by (induction t arbitrary: out) (auto simp: rbind_def split: sum.splits)

lemma print_chars_patch: "0 \<notin> set t \<Longrightarrow> print_chars wr (patch 0 (t @ [0]) buf) out = write_all wr t out"
  by (simp add: patch_def print_chars_ok)

lemma clamp_base_10: "clamp_base 10 = 10"
  by (simp add: clamp_base_def)

lemma int_conversion:
  assumes "negatable (v :: 'a :: len word)" "unat (ucast (10 :: u32) :: 'a word) = 10" "LENGTH('a) \<le> 64"
  shows "rbind (to_cstr_int v (map junk [0..<64]) 10) (\<lambda>str. print_chars wr str out) = write_all wr (int_text (sint v)) out"
proof -
  have "to_cstr_int v (map junk [0..<64]) 10 = Inr (patch 0 (int_text (sint v) @ [0]) (map junk [0..<64]))"
    unfolding to_cstr_int_def clamp_base_10 by (rule xtoa_10) (use assms in simp_all)
  then show ?thesis by (simp add: print_chars_patch int_text_nonzero)
qed

lemma uint_conversion:
  assumes "unat (ucast (10 :: u32) :: 'a :: len word) = 10" "LENGTH('a) \<le> 64"
  shows "rbind (to_cstr_uint (v :: 'a word) (map junk [0..<64]) 0 10) (\<lambda>str. print_chars wr str out)
    = write_all wr (digits_text 10 (unat v)) out"
proof -
  have "to_cstr_uint v (map junk [0..<64]) 0 10 = Inr (patch 0 (digits_text 10 (unat v) @ [0]) (map junk [0..<64]))"
    unfolding to_cstr_uint_def uxtoa_def clamp_base_10 clamp_simps by (rule uxtoa_10) (use assms in simp_all)
  then show ?thesis by (simp add: print_chars_patch digits_text_nonzero)
qed

lemma ptr_conversion:
  "rbind (to_cstr_ptr a (map junk [0..<64])) (\<lambda>str. print_chars wr str out)
    = write_all wr ([48, 120] @ digits_text 16 (unat a)) out"
proof -
  let ?b = "patch 0 [48, 120, 0] (map junk [0..<64])" and ?d = "digits_text 16 (unat a)"
  have "length ?d \<le> 8" using digits_text_16[of "unat a"] unat_lt32[of a] by simp
  then have "uxtoa a ?b 2 16 = Inr (patch 2 (?d @ [0]) ?b)"
    unfolding uxtoa_def clamp_simps using xtoa_unsigned_ok[of 16 2 a ?b] by simp
  moreover have "patch 2 (?d @ [0]) ?b = patch 0 ((48 # 120 # ?d) @ [0]) (map junk [0..<64])"
    by (simp add: patch_def numeral_2_eq_2)
  ultimately have "to_cstr_ptr a (map junk [0..<64]) = Inr (patch 0 ((48 # 120 # ?d) @ [0]) (map junk [0..<64]))"
    by (simp add: to_cstr_ptr_def to_cstr_uint_def clamp_base_def base_prefix_def Let_def flip: numeral_2_eq_2)
  then show ?thesis using print_chars_patch[of "48 # 120 # ?d" wr "map junk [0..<64]" out] digits_text_nonzero[of 16 "unat a"]
    by simp
qed

lemma bs_data_split: "bs_inv s \<Longrightarrow> bs_data s = bs_chars s @ 0 # drop (Suc (unat (bs_size s))) (bs_data s)"
  unfolding bs_inv_def bs_chars_def using id_take_nth_drop[of "unat (bs_size s)" "bs_data s"] by simp

lemma print_data_ok: "arg_ok a \<Longrightarrow> print_data junk wr a out = write_all wr (arg_text a) out"
proof (cases a)
  case (PString s)
  assume "arg_ok a"
  then have "bs_inv s" "0 \<notin> set (bs_chars s)" using PString by simp_all
  then show ?thesis using PString print_chars_ok[of "bs_chars s" wr "drop (Suc (unat (bs_size s))) (bs_data s)" out]
    bs_data_split[of s] by (simp add: print_data_def)
next
  case (PBool b)
  then show ?thesis using print_chars_ok[of "map of_char (if b then ''true'' else ''false'')" wr "[]" out]
    by (simp add: print_data_def cstr_def of_char_def split: if_splits)
qed (simp_all add: print_data_def Let_def print_chars_text int_conversion uint_conversion ptr_conversion[simplified])

text \<open>Two arguments that print alike.\<close>

definition like_arg :: "print_arg \<Rightarrow> print_arg \<Rightarrow> bool" where
  "like_arg a b \<longleftrightarrow> arg_ok b \<and> arg_text b = arg_text a \<and> as_pointer b = as_pointer a"

lemma like_arg_refl: "arg_ok a \<Longrightarrow> like_arg a a"
  by (simp add: like_arg_def)

lemma make_inputs_ok: "list_all arg_ok args \<Longrightarrow> \<exists>inputs. make_inputs g args = Inr inputs \<and> list_all2 like_arg args inputs"
proof (induction args)
  case (Cons a args)
  then obtain inputs where i: "make_inputs g args = Inr inputs" "list_all2 like_arg args inputs" by auto
  show ?case
  proof (cases a)
    case (PString s)
    then show ?thesis using copy_ok[of s g] Cons.prems i by (auto simp: like_arg_def[of "PString s"])
  qed (use Cons.prems i in \<open>simp_all add: like_arg_refl\<close>)
qed simp

lemma print_text_like: "list_all2 like_arg args inputs \<Longrightarrow> print_text cs inputs = print_text cs args"
proof (induction cs args arbitrary: inputs rule: print_text.induct)
  case (2 c cs args)
  show ?case
  proof (cases args)
    case Nil
    then show ?thesis using 2 by simp
  next
    case (Cons a as)
    then obtain b bs where b: "inputs = b # bs" "like_arg a b" "list_all2 like_arg as bs" using 2(3) by (auto simp: list_all2_Cons1)
    then have "spec_text (hd cs) b = spec_text (hd cs) a" by (auto simp: spec_text_def like_arg_def split: option.splits)
    then show ?thesis using 2 Cons b by simp
  qed
qed simp

lemma print_input_ok: "arg_ok a \<Longrightarrow> is_spec s \<Longrightarrow> print_input junk wr s a out = write_all wr (spec_text s a) out"
  by (auto simp: print_input_def spec_text_def is_spec_def print_data_ok split: option.splits)

lemma print_loop_ok:
  assumes "list_all arg_ok inputs" "0 \<notin> set fmt"
  shows "print_loop junk wr inputs (fmt @ [0]) k out = write_all wr (print_text fmt (drop k inputs)) out"
  using assms
proof (induction fmt "drop k inputs" arbitrary: k out rule: print_text.induct)
  case (2 c cs)
  show ?case
  proof (cases "c = 37 \<and> cs \<noteq> [] \<and> is_spec (hd cs)")
    case True
    then obtain s rest where cs: "cs = s # rest" "is_spec s" by (cases cs) auto
    have ih: "print_loop junk wr inputs (rest @ [0]) (Suc k) = write_all wr (print_text rest (drop (Suc k) inputs))"
      using 2(1)[OF True, of "Suc k"] 2(3,4) cs by (simp add: fun_eq_iff drop_Suc tl_drop)
    show ?thesis
    proof (cases "k < length inputs")
      case True
      then have "drop k inputs = inputs ! k # drop (Suc k) inputs" by (simp add: Cons_nth_drop_Suc)
      moreover have "arg_ok (inputs ! k)" using 2(3) True by (simp add: list_all_length)
      ultimately show ?thesis using 2(4) True cs \<open>c = 37 \<and> _\<close> ih
        by (simp add: has_format_spec_def print_input_ok write_all_append)
    next
      case False
      then show ?thesis using 2(4) cs \<open>c = 37 \<and> _\<close> ih by (simp add: has_format_spec_def)
    qed
  next
    case False
    have ih: "print_loop junk wr inputs (cs @ [0]) k = write_all wr (print_text cs (drop k inputs))"
      using 2(2)[OF False] 2(3,4) by (simp add: fun_eq_iff)
    have "has_format_spec (c # cs @ [0]) = Inr False"
      using False by (cases cs) (auto simp: has_format_spec_def is_spec_def)
    then show ?thesis using False 2(4) ih by auto
  qed
qed simp

text \<open>The text of a whole call.\<close>

definition call_text :: "u8 list \<Rightarrow> print_arg list \<Rightarrow> u8 list" where
  "call_text fmt args = (if args = [] then fmt else print_text fmt args)"

lemma print_fmt_ok:
  assumes "list_all arg_ok args" "0 \<notin> set fmt"
  shows "print_fmt g junk wr (fmt @ [0]) args out = write_all wr (call_text fmt args) out"
proof (cases "args = []")
  case True
  then show ?thesis using print_chars_ok[OF assms(2), of wr "[]" out] by (simp add: print_fmt_def call_text_def)
next
  case False
  from make_inputs_ok[OF assms(1), of g] obtain inputs where i: "make_inputs g args = Inr inputs" "list_all2 like_arg args inputs" by blast
  then have "list_all arg_ok inputs" by (auto simp: list_all2_conv_all_nth list_all_length like_arg_def)
  from print_loop_ok[OF this assms(2), of junk wr 0 out] show ?thesis
    using False i print_text_like[OF i(2), of fmt] by (simp add: print_fmt_def call_text_def)
qed

section \<open>Streams that accept every byte\<close>

text \<open>
  A stream is well behaved when it can be written to in every good state and what it shows
  changes by a function of the byte.
\<close>

locale output_stream =
  fixes wr :: "u8 \<Rightarrow> 'o \<Rightarrow> 'o res"
    and good :: "'o \<Rightarrow> bool"
    and shown :: "'o \<Rightarrow> 'v"
    and put :: "u8 \<Rightarrow> 'v \<Rightarrow> 'v"
  assumes write_ok: "good out \<Longrightarrow> \<exists>out'. wr c out = Inr out' \<and> good out' \<and> shown out' = put c (shown out)"
begin

lemma write_all_ok: "good out \<Longrightarrow> \<exists>out'. write_all wr cs out = Inr out' \<and> good out' \<and> shown out' = fold put cs (shown out)"
proof (induction cs arbitrary: out)
  case (Cons c cs)
  from write_ok[OF Cons.prems, of c] obtain o1 where o1: "wr c out = Inr o1" "good o1" "shown o1 = put c (shown out)" by blast
  then show ?case using Cons.IH[OF o1(2)] by simp
qed simp

lemma print_ok:
  assumes "good out" "list_all arg_ok args" "0 \<notin> set fmt"
  shows "\<exists>out'. print_fmt g junk wr (fmt @ [0]) args out = Inr out' \<and> good out' \<and> shown out' = fold put (call_text fmt args) (shown out)"
  using write_all_ok[OF assms(1)] print_fmt_ok[OF assms(2,3), of g junk wr out] by simp

lemma println_ok:
  assumes "good out" "list_all arg_ok args" "0 \<notin> set fmt"
  shows "\<exists>out'. println_fmt g junk wr (fmt @ [0]) args out = Inr out' \<and> good out'
    \<and> shown out' = fold put (call_text fmt args @ [10]) (shown out)"
proof -
  from print_ok[OF assms, of g junk] obtain o1 where o1: "print_fmt g junk wr (fmt @ [0]) args out = Inr o1" "good o1"
    "shown o1 = fold put (call_text fmt args) (shown out)" by blast
  then show ?thesis using write_ok[OF o1(2), of 10] by (simp add: println_fmt_def)
qed

end

text \<open>What the stream on the console does to the terminal.\<close>

definition term_write :: "u8 \<Rightarrow> u8 \<Rightarrow> u16 list \<times> nat \<Rightarrow> u16 list \<times> nat" where
  "term_write color c = (if c = 8 then term_erase color else term_put color c)"

definition terminal :: "VGATextConsole \<Rightarrow> u16 list \<times> nat" where
  "terminal con = (vc_buffer con, con_pos con)"

interpretation cons: output_stream "\<lambda>c con. ConsoleOutputStream_write con c" "\<lambda>con. con_inv con \<and> same_look con0 con"
  terminal "term_write (vc_color con0)" for con0
proof
  fix con c
  assume "con_inv con \<and> same_look con0 con"
  moreover from this have "vc_color con = vc_color con0" by (simp add: same_look_def)
  ultimately show "\<exists>con'. ConsoleOutputStream_write con c = Inr con' \<and> (con_inv con' \<and> same_look con0 con')
      \<and> terminal con' = term_write (vc_color con0) c (terminal con)"
    using putChar_ok[of con c] doBackspace_ok[of con] same_look_trans[of con0 con]
    by (auto simp: ConsoleOutputStream_write_def term_write_def terminal_def)
qed

interpretation dbg: output_stream BochsDebugOutputStream_write "\<lambda>port. True" "\<lambda>port. port" "\<lambda>c port. port @ [c]"
  by unfold_locales (simp add: BochsDebugOutputStream_write_def)

lemma fold_snoc [simp]: "fold (\<lambda>c acc. acc @ [c]) cs xs = xs @ cs"
  by (induction cs arbitrary: xs) simp_all

section \<open>Strings as streams\<close>

lemma StringStream_write_all:
  assumes "bs_inv s"
  shows "if unat (bs_size s) + length cs < length (bs_data s)
    then \<exists>s'. write_all (StringStream_write g) cs s = Inr s' \<and> bs_inv s' \<and> bs_chars s' = bs_chars s @ cs
    else write_all (StringStream_write g) cs s = Inl OutOfBounds"
  using assms
proof (induction cs arbitrary: s)
  case Nil
  then show ?case by (simp add: bs_inv_def)
next
  case (Cons c cs)
  show ?case
  proof (cases "Suc (unat (bs_size s)) < length (bs_data s)")
    case True
    from insert_ok[OF Cons.prems True, of g c] obtain s1 where s1: "BasicString_insert g s c = Inr s1" "bs_inv s1"
      "bs_chars s1 = bs_chars s @ [c]" "length (bs_data s1) = length (bs_data s)" "unat (bs_size s1) = Suc (unat (bs_size s))" by blast
    then show ?thesis using Cons.IH[OF s1(2)] by (simp add: StringStream_write_def[of g c s] split: if_splits)
  next
    case False
    then have "Suc (unat (bs_size s)) = length (bs_data s)" using Cons.prems by (simp add: bs_inv_def)
    moreover from this have "BasicString_insert g s c = Inl OutOfBounds"
      using bs_not_full[OF Cons.prems] bs_size_inc[OF Cons.prems] by (simp add: BasicString_insert_def)
    ultimately show ?thesis by (simp add: StringStream_write_def[of g c s])
  qed
qed

lemma format_overrun:
  assumes "list_all arg_ok args" "0 \<notin> set fmt" "\<not> length (call_text fmt args) \<le> 8"
  shows "format g junk (fmt @ [0]) args = Inl OutOfBounds"
proof -
  have n: "bs_inv BasicString_new" "length (bs_data BasicString_new) = 9" "bs_size BasicString_new = 0"
    using reserve_ok[of 8] by (simp_all add: BasicString_new_def BasicString_reserve_def)
  show ?thesis using StringStream_write_all[OF n(1), of "call_text fmt args" g] n(2,3) print_fmt_ok[OF assms(1,2), of g junk "StringStream_write g"] assms(3)
    by (simp add: format_def)
qed

lemma format_ok:
  assumes "list_all arg_ok args" "0 \<notin> set fmt" "0 \<notin> set (call_text fmt args)"
  shows "if length (call_text fmt args) \<le> 8
    then \<exists>s. format g junk (fmt @ [0]) args = Inr s \<and> bs_inv s \<and> bs_chars s = call_text fmt args
    else format g junk (fmt @ [0]) args = Inl OutOfBounds"
proof -
  let ?t = "call_text fmt args"
  have n: "bs_inv BasicString_new" "bs_chars BasicString_new = []" "length (bs_data BasicString_new) = 9" "bs_size BasicString_new = 0"
    using reserve_ok[of 8] by (simp_all add: BasicString_new_def BasicString_reserve_def)
  have w: "print_fmt g junk (StringStream_write g) (fmt @ [0]) args BasicString_new = write_all (StringStream_write g) ?t BasicString_new"
    by (rule print_fmt_ok[OF assms(1,2)])
  show ?thesis using StringStream_write_all[OF n(1), of ?t g] n(2-4) w copy_ok assms(3)
    by (fastforce simp: format_def)
qed

section \<open>Properties\<close>

text \<open>
  C29. Printing to the console shows the text that the format describes: \<open>%@\<close> prints the next argument by
  its type, \<open>%x\<close> and \<open>%p\<close> print integers and pointers in hexadecimal, a directive with no argument left
  prints nothing, and all other characters are printed as they are. The text goes to the
  terminal character by character and a line feed follows it. The smallest integers are excluded.
\<close>

theorem println_shows_text:
  assumes "con_inv con" "list_all arg_ok args" "0 \<notin> set fmt"
  shows "\<exists>con'. println_fmt g junk (\<lambda>c con. ConsoleOutputStream_write con c) (fmt @ [0]) args con = Inr con' \<and> con_inv con'
    \<and> terminal con' = fold (term_write (vc_color con)) (call_text fmt args @ [10]) (terminal con)"
  using cons.println_ok[of con con args fmt g junk] assms by (auto simp: same_look_def)

theorem println_shows_text_witness:
  "\<exists>con'. println_fmt 0 (\<lambda>_. 0) (\<lambda>c con. ConsoleOutputStream_write con c) ([97, 37, 120] @ [0]) [PUInt 10] example_console = Inr con'
    \<and> terminal con' = fold (term_write 7) [97, 48, 120, 65, 10] (terminal example_console)"
proof -
  have t: "call_text [97, 37, 120] [PUInt 10] = [97, 48, 120, 65]" by code_simp
  have c: "vc_color example_console = 7" by (simp add: example_console_def)
  show ?thesis using println_shows_text[OF example_console_inv, of "[PUInt 10]" "[97, 37, 120]" 0 "\<lambda>_. 0"]
    unfolding t c by fastforce
qed

text \<open>
  \<open>format\<close> works for short texts only: with at most eight characters it returns a string of the
  text, and a longer text overruns the block of the string in the stream, whose \<open>append\<close> does
  not grow it in time.
\<close>

theorem format_text_or_overrun:
  assumes "list_all arg_ok args" "0 \<notin> set fmt" "0 \<notin> set (call_text fmt args)"
  shows "if length (call_text fmt args) \<le> 8
    then \<exists>s. format g junk (fmt @ [0]) args = Inr s \<and> bs_inv s \<and> bs_chars s = call_text fmt args
    else format g junk (fmt @ [0]) args = Inl OutOfBounds"
  by (rule format_ok[OF assms])

theorem format_text_or_overrun_witness:
  "format 0 (\<lambda>_. 0) (map of_char ''IRQ %@ at %x'' @ [0]) [PUInt 7, PUInt 0x10] = Inl OutOfBounds"
proof -
  let ?f = "map of_char ''IRQ %@ at %x'' :: u8 list"
  have t: "call_text ?f [PUInt 7, PUInt 0x10] = map of_char ''IRQ 7 at 0x10''" by code_simp
  have "0 \<notin> set ?f" "0 \<notin> set (call_text ?f [PUInt 7, PUInt 0x10])" "\<not> length (call_text ?f [PUInt 7, PUInt 0x10]) \<le> 8"
    unfolding t by (simp_all add: of_char_def)
  then show ?thesis using format_text_or_overrun[of "[PUInt 7, PUInt 0x10]" ?f 0 "\<lambda>_. 0"] by simp
qed

end
