(* ===== verification/Kernel_Calls.thy ===== *)
theory Kernel_Calls
  imports Print Keyboard User_Memory Cpu
begin

text \<open>
  System calls: the handler of interrupt 0x80 and the calls it serves
  (\<open>kernel/include/arch/i386/sys/Syscall.hpp\<close>, \<open>kernel/src/arch/i386/sys/Syscall.cpp\<close>), the calls of
  programs (\<open>libc/src/sys/syscall.cpp\<close> with \<open>libc/include/sys/_syscall_macros.h\<close>) and of the kernel's
  own C library (\<open>libc/src/sys/syscall_kernel.cpp\<close>), and the page fault handler
  (\<open>kernel/include/arch/i386/cpu/PageFaultPanicISR.hpp\<close>).

  The state is what these reach through \<open>X86Kernel\<close> and \<open>Context\<close>: the memory a program sees, the console under
  the output stream, the keyboard under the input stream (null until it is installed), and the
  processor's interrupt flag. Scan codes wait to be delivered and are delivered only
  while the flag is set. The objects of the kernel are not reachable through the memory of a
  program. The bytes on the debug port are kept in order.
\<close>

section \<open>The kernel\<close>

record X86Kernel =
  k_mmu :: MMU
  k_console :: VGATextConsole
  k_in :: "PS2Keyboard option"
  k_irqs :: "u8 list"
  k_if :: bool
  k_debug :: "u8 list"

definition k_ld :: "X86Kernel \<Rightarrow> uintptr \<Rightarrow> u8 res" where
  "k_ld k a = m_ld vmem_ops a (k_mmu k)"

definition k_st :: "uintptr \<Rightarrow> u8 \<Rightarrow> X86Kernel \<Rightarrow> X86Kernel res" where
  "k_st a b k = rbind (m_st vmem_ops a b (k_mmu k)) (\<lambda>m. Inr (k\<lparr>k_mmu := m\<rparr>))"

definition out_write :: "u8 \<Rightarrow> X86Kernel \<Rightarrow> X86Kernel res" where
  "out_write c k = rbind (ConsoleOutputStream_write (k_console k) c) (\<lambda>con. Inr (k\<lparr>k_console := con\<rparr>))"

text \<open>The keyboard stream echoes what it reads on the output stream.\<close>

definition in_read :: "X86Kernel \<Rightarrow> (u8 option \<times> X86Kernel) res" where
  "in_read k = (case k_in k of
     None \<Rightarrow> Inl NullPointer
   | Some kb \<Rightarrow>
       rbind (KeyboardInputStream_read kb (if k_if k then k_irqs k else []) []) (\<lambda>(b, kb1, irqs1, echo).
       rbind (write_all out_write (map of_char echo) (k\<lparr>k_in := Some kb1, k_irqs := (if k_if k then irqs1 else k_irqs k)\<rparr>)) (\<lambda>k1.
       Inr (Some b, k1))))"

definition sti :: "X86Kernel \<Rightarrow> X86Kernel" where
  "sti k = k\<lparr>k_if := True\<rparr>"

definition cli :: "X86Kernel \<Rightarrow> X86Kernel" where
  "cli k = k\<lparr>k_if := False\<rparr>"

definition k_debug_println :: "u8 \<Rightarrow> (nat \<Rightarrow> u8) \<Rightarrow> string \<Rightarrow> print_arg list \<Rightarrow> X86Kernel \<Rightarrow> X86Kernel res" where
  "k_debug_println g junk fmt args k =
     rbind (debug_println g junk (cstr fmt) args (k_debug k)) (\<lambda>d. Inr (k\<lparr>k_debug := d\<rparr>))"

section \<open>Ranges of bytes\<close>

fun OutputStream_write_n :: "('s \<Rightarrow> uintptr \<Rightarrow> u8 res) \<Rightarrow> (u8 \<Rightarrow> 's \<Rightarrow> 's res) \<Rightarrow> uintptr \<Rightarrow> nat \<Rightarrow> 's \<Rightarrow> 's res" where
  "OutputStream_write_n ld wr bytes 0 s = Inr s"
| "OutputStream_write_n ld wr bytes (Suc n) s =
     rbind (ld s bytes) (\<lambda>b. rbind (wr b s) (OutputStream_write_n ld wr (bytes + 1) n))"

text \<open>\<open>InputStream::read\<close> with the buffer in memory; the first result counts the bytes.\<close>

fun InputStream_read_mem :: "('s \<Rightarrow> (u8 option \<times> 's) res) \<Rightarrow> (uintptr \<Rightarrow> u8 \<Rightarrow> 's \<Rightarrow> 's res) \<Rightarrow> uintptr \<Rightarrow> nat \<Rightarrow> 's \<Rightarrow> (nat \<times> 's) res" where
  "InputStream_read_mem rd st bytes 0 s = Inr (0, s)"
| "InputStream_read_mem rd st bytes (Suc n) s =
     rbind (rd s) (\<lambda>(c, s1). case c of None \<Rightarrow> Inr (0, s1)
     | Some x \<Rightarrow> rbind (st bytes x s1) (\<lambda>s2.
                 rbind (InputStream_read_mem rd st (bytes + 1) n s2) (\<lambda>(k, s3). Inr (Suc k, s3))))"

section \<open>The calls\<close>

abbreviation kOpen :: u32 where "kOpen \<equiv> 0"

abbreviation kRead :: u32 where "kRead \<equiv> 1"

abbreviation kWrite :: u32 where "kWrite \<equiv> 2"

abbreviation kClose :: u32 where "kClose \<equiv> 3"

abbreviation kExit :: u32 where "kExit \<equiv> 4"

abbreviation kSleep :: u32 where "kSleep \<equiv> 5"

abbreviation kYield :: u32 where "kYield \<equiv> 6"

abbreviation kDie :: u32 where "kDie \<equiv> 7"

definition kStdOut :: u32 where
  "kStdOut = 0"

definition kStdIn :: u32 where
  "kStdIn = 1"

definition Syscall_write :: "X86Kernel \<Rightarrow> RegisterTable \<Rightarrow> (u32 \<times> X86Kernel) res" where
  "Syscall_write k registers =
     (if ebx registers = kStdOut
      then rbind (OutputStream_write_n k_ld out_write (ecx registers) (unat (edx registers)) k) (\<lambda>k1. Inr (edx registers, k1))
      else Inr (- 1, k))"

definition Syscall_read :: "X86Kernel \<Rightarrow> RegisterTable \<Rightarrow> (u32 \<times> X86Kernel) res" where
  "Syscall_read k registers =
     (if ebx registers = kStdIn
      then rbind (InputStream_read_mem in_read k_st (ecx registers) (unat (edx registers)) k) (\<lambda>(n, k1). Inr (of_nat n, k1))
      else Inr (- 1, k))"

definition exit_format :: string where
  "exit_format = CHR 0x0A # ''Process exit with code %x''"

definition Syscall_exit :: "u8 \<Rightarrow> (nat \<Rightarrow> u8) \<Rightarrow> X86Kernel \<Rightarrow> RegisterTable \<Rightarrow> (u32 \<times> X86Kernel) res" where
  "Syscall_exit g junk k registers =
     rbind (println_fmt g junk out_write (cstr exit_format) [PUInt (ebx registers)] k) (\<lambda>k1. Inr (ebx registers, k1))"

definition Syscall_sleep :: "X86Kernel \<Rightarrow> RegisterTable \<Rightarrow> (u32 \<times> X86Kernel) res" where
  "Syscall_sleep k registers = Inr (0, k)"

definition Syscall_yield :: "X86Kernel \<Rightarrow> RegisterTable \<Rightarrow> (u32 \<times> X86Kernel) res" where
  "Syscall_yield k registers = Inr (0, k)"

definition Syscall_die :: "X86Kernel \<Rightarrow> RegisterTable \<Rightarrow> (u32 \<times> X86Kernel) res" where
  "Syscall_die k registers = Inl (KernelPanic ''Committed honorable sudoku'')"

definition reportUnknownSyscall :: "u8 \<Rightarrow> (nat \<Rightarrow> u8) \<Rightarrow> RegisterTable \<Rightarrow> X86Kernel \<Rightarrow> X86Kernel res" where
  "reportUnknownSyscall g junk registers k =
     rbind (k_debug_println g junk ''Received unidentified syscall: %@'' [PUInt (eax registers)] k) (\<lambda>k1.
     rbind (k_debug_println g junk ''registers.ebx = %x'' [PUInt (ebx registers)] k1) (\<lambda>k2.
     rbind (k_debug_println g junk ''registers.ecx = %x'' [PUInt (ecx registers)] k2) (\<lambda>k3.
     k_debug_println g junk ''registers.edx = %x'' [PUInt (edx registers)] k3)))"

definition SyscallHandler_call :: "u8 \<Rightarrow> (nat \<Rightarrow> u8) \<Rightarrow> X86Kernel \<Rightarrow> RegisterTable \<Rightarrow> (RegisterTable \<times> X86Kernel) res" where
  "SyscallHandler_call g junk k registers =
     (let callId = eax registers; store = (\<lambda>(v, k1). Inr (registers\<lparr>eax := v\<rparr>, k1)) in
      if callId = kRead then rbind (rbind (Syscall_read (sti k) registers) store) (\<lambda>(r, k1). Inr (r, cli k1))
      else if callId = kWrite then rbind (Syscall_write k registers) store
      else if callId = kOpen \<or> callId = kClose \<or> callId = kExit then rbind (Syscall_exit g junk k registers) store
      else if callId = kSleep then rbind (Syscall_sleep k registers) store
      else if callId = kYield then rbind (Syscall_yield k registers) store
      else if callId = kDie then rbind (Syscall_die k registers) store
      else rbind (reportUnknownSyscall g junk registers k) (\<lambda>k1. Inr (registers, k1)))"

text \<open>
  The interrupt instruction of a program: the gate clears the interrupt flag, and the return from
  the interrupt restores it. The arguments are passed in registers and the result comes back in one.
\<close>

definition int_0x80 :: "u8 \<Rightarrow> (nat \<Rightarrow> u8) \<Rightarrow> X86Kernel \<Rightarrow> RegisterTable \<Rightarrow> (RegisterTable \<times> X86Kernel) res" where
  "int_0x80 g junk k registers =
     rbind (SyscallHandler_call g junk (cli k) registers) (\<lambda>(r, k1). Inr (r, k1\<lparr>k_if := k_if k\<rparr>))"

definition sys_call :: "u8 \<Rightarrow> (nat \<Rightarrow> u8) \<Rightarrow> u32 \<Rightarrow> u32 \<Rightarrow> u32 \<Rightarrow> u32 \<Rightarrow> RegisterTable \<Rightarrow> X86Kernel \<Rightarrow> (int \<times> X86Kernel) res" where
  "sys_call g junk num p1 p2 p3 registers k =
     rbind (int_0x80 g junk k (registers\<lparr>eax := num, ebx := p1, ecx := p2, edx := p3\<rparr>)) (\<lambda>(r, k1). Inr (sint (eax r), k1))"

text \<open>
  The calls of the kernel's own library, which pass their arguments in a register table to the same
  functions. \<open>sys_write\<close> is given the bytes that its pointer points to: they are kernel memory.
\<close>

definition libk_sys_write :: "u32 \<Rightarrow> u8 list \<Rightarrow> X86Kernel \<Rightarrow> (int \<times> X86Kernel) res" where
  "libk_sys_write fd buf k =
     (if fd = kStdOut then rbind (write_all out_write buf k) (\<lambda>k1. Inr (sint (of_nat (length buf) :: u32), k1))
      else Inr (- 1, k))"

text \<open>The fields of the register table that \<open>fake_syscall\<close> does not set are those of \<open>r\<close>, which is uninitialised.\<close>

definition fake_syscall :: "RegisterTable \<Rightarrow> u32 \<Rightarrow> u32 \<Rightarrow> u32 \<Rightarrow> u32 \<Rightarrow> u32 \<Rightarrow> RegisterTable" where
  "fake_syscall r p1 p2 p3 p4 p5 = r\<lparr>ebx := p1, ecx := p2, edx := p3, esi := p4, edi := p5\<rparr>"

definition libk_sys_read :: "RegisterTable \<Rightarrow> u32 \<Rightarrow> uintptr \<Rightarrow> size_t \<Rightarrow> X86Kernel \<Rightarrow> (int \<times> X86Kernel) res" where
  "libk_sys_read r fd buf bytes k = rbind (Syscall_read k (fake_syscall r fd buf bytes 0 0)) (\<lambda>(v, k1). Inr (sint v, k1))"

definition libk_sys_exit :: "u8 \<Rightarrow> (nat \<Rightarrow> u8) \<Rightarrow> RegisterTable \<Rightarrow> u32 \<Rightarrow> X86Kernel \<Rightarrow> (int \<times> X86Kernel) res" where
  "libk_sys_exit g junk r status k = rbind (Syscall_exit g junk k (fake_syscall r status 0 0 0 0)) (\<lambda>(v, k1). Inr (sint v, k1))"

definition libk_sys_sleep :: "RegisterTable \<Rightarrow> u32 \<Rightarrow> X86Kernel \<Rightarrow> (int \<times> X86Kernel) res" where
  "libk_sys_sleep r status k = rbind (Syscall_sleep k (fake_syscall r status 0 0 0 0)) (\<lambda>(v, k1). Inr (sint v, k1))"

definition libk_sys_yield :: "X86Kernel \<Rightarrow> (int \<times> X86Kernel) res" where
  "libk_sys_yield k = Inr (0, k)"

definition libk_sys_die :: "RegisterTable \<Rightarrow> X86Kernel \<Rightarrow> (int \<times> X86Kernel) res" where
  "libk_sys_die r k = rbind (Syscall_die k (fake_syscall r 0 0 0 0 0)) (\<lambda>(v, k1). Inr (sint v, k1))"

section \<open>Page faults\<close>

definition page_fault_format :: string where
  "page_fault_format = ''Page Fault: cr2=%x eip=%x/%@%@%@%@%@''"

definition page_fault_args :: "u32 \<Rightarrow> RegisterTable \<Rightarrow> print_arg list" where
  "page_fault_args cr2 registers =
     (let flag = (\<lambda>m yes no. PCstr 0 (cstr (if err_code registers AND m \<noteq> 0 then yes else no))) in
      [PUInt cr2, PUInt (eip registers), flag 0x01 ''Protection/'' '''', flag 0x02 ''Write access/'' '''',
       flag 0x04 ''in User mode/'' ''in Kernel mode/'', flag 0x08 ''RSVD bits set/'' '''', flag 0x10 ''NX violation/'' ''''])"

text \<open>\<open>file\<close> and \<open>line\<close> are what the preprocessor puts into \<open>DEBUG_BREAK\<close>; the texts of the flags are pointers whose addresses are never printed.\<close>

definition PageFaultISR_call :: "u8 \<Rightarrow> (nat \<Rightarrow> u8) \<Rightarrow> string \<Rightarrow> u32 \<Rightarrow> u32 \<Rightarrow> RegisterTable \<Rightarrow> X86Kernel \<Rightarrow> X86Kernel res" where
  "PageFaultISR_call g junk file line cr2 registers k =
     rbind (debug_print g junk (cstr (''BREAK @ %@:%@'' @ [CHR 0x0A])) [PArray (cstr file), PInt line] (k_debug k)) (\<lambda>d.
     rbind (k_debug_println g junk page_fault_format (page_fault_args cr2 registers) (k\<lparr>k_debug := d\<rparr>)) (\<lambda>k1.
     rbind (Print.format g junk (cstr page_fault_format) (page_fault_args cr2 registers)) (\<lambda>message.
     rbind (panic_screen (k_console k1) (bs_data message)) (\<lambda>con.
     Inl (KernelPanic (map (\<lambda>c. char_of (unat c)) (bs_chars message)))))))"

section \<open>The output stream of the kernel\<close>

text \<open>Kernels that differ in what the console shows only.\<close>

definition shows_more :: "X86Kernel \<Rightarrow> X86Kernel \<Rightarrow> bool" where
  "shows_more k0 k \<longleftrightarrow> (\<exists>con. k = k0\<lparr>k_console := con\<rparr> \<and> con_inv con \<and> vc_color con = vc_color (k_console k0))"

definition screen :: "X86Kernel \<Rightarrow> u16 list \<times> nat" where
  "screen k = terminal (k_console k)"

abbreviation on_screen :: "X86Kernel \<Rightarrow> u8 list \<Rightarrow> u16 list \<times> nat" where
  "on_screen k bs \<equiv> fold (term_write (vc_color (k_console k))) bs (screen k)"

lemma shows_more_refl [simp]: "con_inv (k_console k) \<Longrightarrow> shows_more k k"
  unfolding shows_more_def by (rule exI[of _ "k_console k"]) simp

lemma shows_more_fields:
  assumes "shows_more k0 k"
  shows "k_mmu k = k_mmu k0" "k_in k = k_in k0" "k_irqs k = k_irqs k0" "k_if k = k_if k0" "k_debug k = k_debug k0"
    "con_inv (k_console k)" "vc_color (k_console k) = vc_color (k_console k0)"
  using assms by (auto simp: shows_more_def)

interpretation ks: output_stream out_write "shows_more k0" screen "term_write (vc_color (k_console k0))" for k0
proof
  fix k c
  assume "shows_more k0 k"
  then obtain con where k: "k = k0\<lparr>k_console := con\<rparr>" "con_inv con" "vc_color con = vc_color (k_console k0)"
    by (auto simp: shows_more_def)
  from cons.write_ok[of con con c] k(2) obtain con' where
    con': "ConsoleOutputStream_write con c = Inr con'" "con_inv con'" "vc_color con' = vc_color con"
    "terminal con' = term_write (vc_color con) c (terminal con)" by (auto simp: same_look_def)
  have "out_write c k = Inr (k0\<lparr>k_console := con'\<rparr>)" using con'(1) k(1) by (simp add: out_write_def)
  moreover have "shows_more k0 (k0\<lparr>k_console := con'\<rparr>)"
    unfolding shows_more_def using con' k(3) by (intro exI[of _ con']) simp
  ultimately show "\<exists>k'. out_write c k = Inr k' \<and> shows_more k0 k' \<and> screen k' = term_write (vc_color (k_console k0)) c (screen k)"
    using con'(4) k by (simp add: screen_def)
qed

lemma write_n_ok:
  assumes "shows_more k0 k" "owns as V (k_mmu k0)" "accessible (vmem V (k_mmu k0)) a n"
  shows "OutputStream_write_n k_ld out_write a n k = write_all out_write (bytes_at (vmem V (k_mmu k0)) a n) k"
  using assms
proof (induction n arbitrary: a k)
  case 0
  then show ?case by (simp add: bytes_at_def)
next
  case (Suc n)
  obtain b where b: "vmem V (k_mmu k0) a = Some b" "accessible (vmem V (k_mmu k0)) (a + 1) n"
    using Suc.prems(3) by (auto simp: accessible_Suc)
  have "k_ld k a = Inr b"
    using vm.ld_ok[of as V "k_mmu k0" "k_mmu k0" a b] b(1) Suc.prems(2) shows_more_fields(1)[OF Suc.prems(1)]
    by (simp add: k_ld_def same_pages_def)
  moreover from ks.write_ok[OF Suc.prems(1), of b] obtain k1 where k1: "out_write b k = Inr k1" "shows_more k0 k1" by blast
  ultimately show ?case using Suc.IH[OF k1(2) Suc.prems(2) b(2)] b(1) by (simp add: bytes_at_Suc)
qed

section \<open>The input stream of the kernel\<close>

definition kernel_ok :: "AddressSpace \<Rightarrow> nat set \<Rightarrow> X86Kernel \<Rightarrow> bool" where
  "kernel_ok as V k \<longleftrightarrow> owns as V (k_mmu k) \<and> con_inv (k_console k) \<and> (\<exists>kb. k_in k = Some kb \<and> kb_inv kb)"

text \<open>What is typed and not yet read: the keys held down and the scan codes.\<close>

definition typed :: "X86Kernel \<Rightarrow> bool list \<times> u32 list" where
  "typed k = (case k_in k of Some kb \<Rightarrow> (kb_keysPressed kb, pending kb (k_irqs k)) | None \<Rightarrow> ([], []))"

fun next_chars :: "nat \<Rightarrow> bool list \<times> u32 list \<Rightarrow> (string \<times> bool list \<times> u32 list) option" where
  "next_chars 0 t = Some ([], t)"
| "next_chars (Suc n) t = (case next_char (fst t) (snd t) of None \<Rightarrow> None
     | Some (c, t1) \<Rightarrow> map_option (\<lambda>(w, t2). (c # w, t2)) (next_chars n t1))"

text \<open>A state after characters \<open>w\<close> have been read, with memory \<open>m\<close>.\<close>

definition after_read :: "AddressSpace \<Rightarrow> nat set \<Rightarrow> X86Kernel \<Rightarrow> string \<Rightarrow> bool list \<times> u32 list \<Rightarrow> X86Kernel \<Rightarrow> bool" where
  "after_read as V k w t k' \<longleftrightarrow> kernel_ok as V k' \<and> k_if k' = k_if k \<and> k_debug k' = k_debug k \<and> typed k' = t
     \<and> vc_color (k_console k') = vc_color (k_console k) \<and> screen k' = on_screen k (map of_char w)"

lemma in_read_ok:
  assumes ok: "kernel_ok as V k" and i: "k_if k"
  shows "case next_char (fst (typed k)) (snd (typed k)) of
      None \<Rightarrow> in_read k = Inl Hang
    | Some (c, t) \<Rightarrow> \<exists>k'. in_read k = Inr (Some (of_char c), k') \<and> after_read as V k [c] t k' \<and> k_mmu k' = k_mmu k"
proof -
  obtain kb where kb: "k_in k = Some kb" "kb_inv kb" and con: "con_inv (k_console k)" "owns as V (k_mmu k)"
    using ok by (auto simp: kernel_ok_def)
  have t: "typed k = (kb_keysPressed kb, pending kb (k_irqs k))" using kb(1) by (simp add: typed_def)
  note r = KeyboardInputStream_read_ok[OF kb(2), of "k_irqs k" "[]"]
  show ?thesis
  proof (cases "next_char (kb_keysPressed kb) (pending kb (k_irqs k))")
    case None
    then show ?thesis using r t kb(1) i by (simp add: in_read_def)
  next
    case (Some x)
    obtain c held rest where x: "x = (c, held, rest)" by (cases x)
    from r Some x obtain kb' irqs' where rd: "KeyboardInputStream_read kb (k_irqs k) [] = Inr (of_char c, kb', irqs', [c])"
      "kb_inv kb'" "kb_keysPressed kb' = held" "pending kb' irqs' = rest" by auto
    let ?k = "k\<lparr>k_in := Some kb', k_irqs := irqs'\<rparr>"
    have "shows_more ?k ?k" using con(1) by simp
    from ks.write_ok[OF this, of "of_char c"] obtain k1 where k1: "out_write (of_char c) ?k = Inr k1" "shows_more ?k k1"
      "screen k1 = term_write (vc_color (k_console k)) (of_char c) (screen k)" by (auto simp: screen_def)
    have "in_read k = Inr (Some (of_char c), k1)" using rd(1) kb(1) i k1(1) by (simp add: in_read_def)
    moreover have "after_read as V k [c] (held, rest) k1"
      using shows_more_fields[OF k1(2)] k1(3) rd(2-4) con by (simp add: after_read_def kernel_ok_def typed_def)
    ultimately show ?thesis using Some t x shows_more_fields(1)[OF k1(2)] by auto
  qed
qed

lemma st_owned:
  assumes "kernel_ok as V k" "vmem V (k_mmu k) a \<noteq> None"
  shows "\<exists>m. k_st a b k = Inr (k\<lparr>k_mmu := m\<rparr>) \<and> kernel_ok as V (k\<lparr>k_mmu := m\<rparr>) \<and> vmem V m = (vmem V (k_mmu k))(a \<mapsto> b)"
  using vm.st_ok[of as V "k_mmu k" "k_mmu k" a b] assms by (auto simp: k_st_def kernel_ok_def same_pages_def)

lemma read_mem_ok:
  assumes "kernel_ok as V k" "k_if k" "accessible (vmem V (k_mmu k)) a n"
  shows "case next_chars n (typed k) of
      None \<Rightarrow> InputStream_read_mem in_read k_st a n k = Inl Hang
    | Some (w, t) \<Rightarrow> \<exists>k'. InputStream_read_mem in_read k_st a n k = Inr (n, k') \<and> after_read as V k w t k'
        \<and> vmem V (k_mmu k') = put a (map of_char w) (vmem V (k_mmu k))"
  using assms
proof (induction n arbitrary: a k)
  case 0
  then show ?case by (simp add: after_read_def)
next
  case (Suc n)
  show ?case
  proof (cases "next_char (fst (typed k)) (snd (typed k))")
    case None
    then show ?thesis using in_read_ok[OF Suc.prems(1,2)] by simp
  next
    case (Some x)
    obtain c t1 where x: "x = (c, t1)" by (cases x)
    from in_read_ok[OF Suc.prems(1,2)] Some x obtain k1 where k1: "in_read k = Inr (Some (of_char c), k1)"
      "after_read as V k [c] t1 k1" "k_mmu k1 = k_mmu k" by auto
    have acc: "vmem V (k_mmu k1) a \<noteq> None" "accessible (vmem V (k_mmu k)) (a + 1) n" "n < 2 ^ 32"
      using Suc.prems(3) k1(3) by (auto simp: accessible_Suc)
    have ok1: "kernel_ok as V k1" "k_if k1" "typed k1 = t1" using k1(2) Suc.prems(2) by (simp_all add: after_read_def)
    from st_owned[OF ok1(1) acc(1), of "of_char c"] obtain m where
      m: "k_st a (of_char c) k1 = Inr (k1\<lparr>k_mmu := m\<rparr>)" "kernel_ok as V (k1\<lparr>k_mmu := m\<rparr>)" "vmem V m = (vmem V (k_mmu k))(a \<mapsto> of_char c)"
      using k1(3) by auto
    let ?k2 = "k1\<lparr>k_mmu := m\<rparr>"
    have t2: "typed ?k2 = t1" using ok1(3) by (simp add: typed_def split: option.splits)
    have "accessible (vmem V (k_mmu ?k2)) (a + 1) n" using accessible_upd[OF acc(2), of "vmem V m" a] m(3) by simp
    have m2: "k_mmu ?k2 = m" by simp
    from Suc.IH[OF m(2) _ \<open>accessible (vmem V (k_mmu ?k2)) (a + 1) n\<close>, unfolded t2 m2] ok1(2) have ih: "case next_chars n t1 of
        None \<Rightarrow> InputStream_read_mem in_read k_st (a + 1) n ?k2 = Inl Hang
      | Some (w, t) \<Rightarrow> \<exists>k'. InputStream_read_mem in_read k_st (a + 1) n ?k2 = Inr (n, k') \<and> after_read as V ?k2 w t k'
          \<and> vmem V (k_mmu k') = put (a + 1) (map of_char w) (vmem V m)" by simp
    have sz: "length w = n" if "next_chars n t = Some (w, t')" for n t w t'
      using that by (induction n arbitrary: t w) (auto split: option.splits)
    show ?thesis
    proof (cases "next_chars n t1")
      case None
      then show ?thesis using Some x k1(1) m(1) ih by simp
    next
      case (Some y)
      obtain w t where y: "y = (w, t)" by (cases y)
      from ih Some y obtain k' where k': "InputStream_read_mem in_read k_st (a + 1) n ?k2 = Inr (n, k')" "after_read as V ?k2 w t k'"
        "vmem V (k_mmu k') = put (a + 1) (map of_char w) (vmem V m)" by auto
      have "vmem V (k_mmu k') = put a (of_char c # map of_char w) (vmem V (k_mmu k))"
        unfolding k'(3) m(3) using sz[of n t1 w t] Some y acc(3) by (intro put_Cons) simp
      moreover have "after_read as V k (c # w) t k'"
        using k1(2) k'(2) by (simp add: after_read_def screen_def)
      ultimately show ?thesis using \<open>next_char _ _ = Some x\<close> x Some y k1(1) m(1) k'(1) by simp
    qed
  qed
qed

lemma of_char_zero: "(of_char c :: u8) = 0 \<longleftrightarrow> c = NUL"
  by (cases c) (simp add: of_char_def)

lemma ascii_nonzero [simp]: "0 \<in> set (ascii s) \<longleftrightarrow> NUL \<in> set s"
  by (force simp: ascii_def of_char_zero)

section \<open>The kernel's own formatted output\<close>

lemma sint_small: "n < 2 ^ 31 \<Longrightarrow> sint (of_nat n :: u32) = int n"
  by (simp add: signed_of_nat signed_take_bit_int_eq_self)

interpretation kp: text_output "printf_print libk_sys_write" "\<lambda>t. length t < 2 ^ 31"
proof
  fix xs ys :: "u8 list" and out
  assume l: "length (xs @ ys) < 2 ^ 31"
  then have "sint (of_nat (length (xs @ ys)) :: u32) = sint (of_nat (length xs) :: u32) + sint (of_nat (length ys) :: u32)"
    by (subst sint_small[OF l], subst (1 2) sint_small) simp_all
  then show "printf_print libk_sys_write (xs @ ys) out = rbind (printf_print libk_sys_write xs out) (printf_print libk_sys_write ys)"
    by (simp add: printf_print_def libk_sys_write_def kStdOut_def write_all_append add.assoc)
qed simp

lemma print_text_literal: "literal t \<Longrightarrow> print_text (t @ fmt) args = t @ print_text fmt args"
  by (induction t) (simp_all add: literal_def)

lemma debug_println_ok:
  assumes "list_all arg_ok args" "0 \<notin> set (map of_char fmt :: u8 list)"
  shows "k_debug_println g junk fmt args k = Inr (k\<lparr>k_debug := k_debug k @ call_text (map of_char fmt) args @ [10]\<rparr>)"
  using dbg.println_ok[OF TrueI assms, of g junk "k_debug k"] by (auto simp: k_debug_println_def debug_println_def cstr_def)

lemma kernel_printf_ok:
  assumes "con_inv (k_console k)" "literal t" "fmt_ok dirs" "length (t @ fmt_text dirs) < 2 ^ 31"
  shows "\<exists>k'. printf junk libk_sys_write (t @ fmt_string dirs @ [0]) (fmt_args dirs) k = Inr (int (length (t @ fmt_text dirs)), k')
    \<and> shows_more k k' \<and> screen k' = on_screen k (t @ fmt_text dirs)"
proof (cases "t = [] \<and> dirs = []")
  case True
  then show ?thesis using kp.vsprintf_ok[OF assms(2-4), of junk "(0, k)"] assms(1) by (simp add: printf_def)
next
  case False
  let ?t = "t @ fmt_text dirs"
  from ks.write_all_ok[OF shows_more_refl[OF assms(1)], of ?t] obtain k' where
    "write_all out_write ?t k = Inr k'" "shows_more k k'" "screen k' = on_screen k ?t" by blast
  then show ?thesis using kp.vsprintf_ok[OF assms(2-4), of junk "(0, k)"] False sint_small[OF assms(4)]
    by (auto simp: printf_def printf_print_def libk_sys_write_def kStdOut_def)
qed

section \<open>A kernel for examples\<close>

definition ex_kernel :: X86Kernel where
  "ex_kernel = \<lparr>k_mmu = ex_mmu, k_console = example_console, k_in = Some PS2Keyboard_new, k_irqs = [0x2A, 0x1E, 0x9E],
     k_if = True, k_debug = []\<rparr>"

definition ex_registers :: "u32 \<Rightarrow> u32 \<Rightarrow> u32 \<Rightarrow> u32 \<Rightarrow> RegisterTable" where
  "ex_registers a b c d = \<lparr>ds = 0, edi = 0, esi = 0, ebp = 0, esp = 0, ebx = b, edx = d, ecx = c, eax = a, int_no = 128, err_code = 0,
     eip = 0, cs = 0, eflags = 0, useresp = 0, ss = 0\<rparr>"

lemma ex_registers_simps [simp]:
  "eax (ex_registers a b c d) = a" "ebx (ex_registers a b c d) = b" "ecx (ex_registers a b c d) = c" "edx (ex_registers a b c d) = d"
  "(ex_registers a b c d)\<lparr>eax := v\<rparr> = ex_registers v b c d"
  by (simp_all add: ex_registers_def)

lemma ex_owns: "owns 0x200000 {0} ex_mmu"
  using ex_inv by (auto simp: owns_def exclusive_def ex_page_map ex_pde ex_dir ex_entries kUserPages_def frame_number_def)

lemma ex_kernel_ok: "kernel_ok 0x200000 {0} ex_kernel"
  using ex_owns example_console_inv kb_inv_new by (simp add: kernel_ok_def ex_kernel_def)

lemma ex_accessible: "accessible (vmem {0} ex_mmu) 0x10 1"
  by (simp add: accessible_def vmem_def frame_number_def)

section \<open>Properties\<close>

text \<open>
  C8. The \<open>write\<close> system call prints the bytes of the program's memory: if the range is mapped to
  pages the program owns, the bytes appear on the screen one after another, nothing else of
  the kernel or the program changes, and the length is returned.
\<close>

theorem syscall_write_prints:
  assumes "owns as V (k_mmu k)" "con_inv (k_console k)" "eax r = kWrite" "ebx r = kStdOut"
    and "accessible (vmem V (k_mmu k)) (ecx r) (unat (edx r))"
  shows "\<exists>k'. int_0x80 g junk k r = Inr (r\<lparr>eax := edx r\<rparr>, k') \<and> shows_more k k'
    \<and> screen k' = on_screen k (bytes_at (vmem V (k_mmu k)) (ecx r) (unat (edx r)))"
proof -
  let ?bs = "bytes_at (vmem V (k_mmu k)) (ecx r) (unat (edx r))"
  have c: "shows_more (cli k) (cli k)" "k_mmu (cli k) = k_mmu k" using assms(2) by (simp_all add: cli_def)
  from ks.write_all_ok[OF c(1), of ?bs] obtain k1 where k1: "write_all out_write ?bs (cli k) = Inr k1" "shows_more (cli k) k1"
    "screen k1 = on_screen (cli k) ?bs" by blast
  have "OutputStream_write_n k_ld out_write (ecx r) (unat (edx r)) (cli k) = Inr k1"
    using write_n_ok[OF c(1), of as V "ecx r" "unat (edx r)"] assms(1,5) c(2) k1(1) by simp
  then have "int_0x80 g junk k r = Inr (r\<lparr>eax := edx r\<rparr>, k1\<lparr>k_if := k_if k\<rparr>)"
    using assms(3,4) by (simp add: int_0x80_def SyscallHandler_call_def Syscall_write_def)
  moreover from k1(2) have "shows_more k (k1\<lparr>k_if := k_if k\<rparr>)" by (auto simp: shows_more_def cli_def)
  ultimately show ?thesis using k1(3) by (simp add: screen_def cli_def)
qed

theorem syscall_write_prints_witness:
  "\<exists>k'. int_0x80 0 (\<lambda>_. 0) ex_kernel (ex_registers kWrite kStdOut 0x10 1) = Inr (ex_registers 1 kStdOut 0x10 1, k')
    \<and> screen k' = on_screen ex_kernel (bytes_at (vmem {0} ex_mmu) 0x10 1)"
  using syscall_write_prints[of "0x200000" "{0}" ex_kernel "ex_registers kWrite kStdOut 0x10 1" 0 "\<lambda>_. 0"]
    ex_owns example_console_inv ex_accessible by (auto simp: ex_kernel_def)

text \<open>
  C9. The \<open>read\<close> system call delivers what is typed: if the buffer is mapped to pages the
  program owns, the call waits for as many characters as asked for, with interrupts enabled, stores
  them in the buffer and echoes them on the screen, and leaves the interrupt flag as it was; it
  waits for ever exactly when too few keys are pressed.
\<close>

theorem syscall_read_delivers_typed:
  assumes "kernel_ok as V k" "eax r = kRead" "ebx r = kStdIn" "accessible (vmem V (k_mmu k)) (ecx r) (unat (edx r))"
  shows "case next_chars (unat (edx r)) (typed k) of
      None \<Rightarrow> int_0x80 g junk k r = Inl Hang
    | Some (w, t) \<Rightarrow> \<exists>k'. int_0x80 g junk k r = Inr (r\<lparr>eax := edx r\<rparr>, k') \<and> after_read as V k w t k'
        \<and> vmem V (k_mmu k') = put (ecx r) (map of_char w) (vmem V (k_mmu k))"
proof -
  let ?k = "sti (cli k)"
  have k: "kernel_ok as V ?k" "k_if ?k" "k_mmu ?k = k_mmu k" "typed ?k = typed k"
    using assms(1) by (simp_all add: sti_def cli_def kernel_ok_def typed_def split: option.splits)
  have a: "accessible (vmem V (k_mmu ?k)) (ecx r) (unat (edx r))" using assms(4) k(3) by simp
  note r = read_mem_ok[OF k(1,2) a, unfolded k(3,4)]
  show ?thesis
  proof (cases "next_chars (unat (edx r)) (typed k)")
    case None
    then show ?thesis using r assms(2,3) by (simp add: int_0x80_def SyscallHandler_call_def Syscall_read_def)
  next
    case (Some y)
    obtain w t where y: "y = (w, t)" by (cases y)
    from r Some y obtain k1 where k1: "InputStream_read_mem in_read k_st (ecx r) (unat (edx r)) ?k = Inr (unat (edx r), k1)"
      "after_read as V ?k w t k1" "vmem V (k_mmu k1) = put (ecx r) (map of_char w) (vmem V (k_mmu k))" by auto
    let ?k' = "(cli k1)\<lparr>k_if := k_if k\<rparr>"
    have "int_0x80 g junk k r = Inr (r\<lparr>eax := edx r\<rparr>, ?k')"
      using assms(2,3) k1(1) by (simp add: int_0x80_def SyscallHandler_call_def Syscall_read_def)
    moreover have "after_read as V k w t ?k'" using k1(2)
      by (simp add: after_read_def kernel_ok_def typed_def screen_def sti_def cli_def split: option.splits)
    ultimately show ?thesis using Some y k1(3) by (auto simp: cli_def)
  qed
qed

text \<open>Shift and the key of the letter a are pressed while the program waits.\<close>

theorem syscall_read_delivers_typed_witness:
  "\<exists>k'. int_0x80 0 (\<lambda>_. 0) ex_kernel (ex_registers kRead kStdIn 0x10 1) = Inr (ex_registers 1 kStdIn 0x10 1, k')
    \<and> vmem {0} (k_mmu k') 0x10 = Some 65"
proof -
  have t: "typed ex_kernel = (kb_keysPressed PS2Keyboard_new, pending PS2Keyboard_new [0x2A, 0x1E, 0x9E])"
    by (simp add: typed_def ex_kernel_def)
  have d: "decode_scancode 0x2A = \<lparr>ke_type = kKeyEventPressed, keyCode = kKeyLeftShift\<rparr>"
    "decode_scancode 0x1E = \<lparr>ke_type = kKeyEventPressed, keyCode = kKeyA\<rparr>"
    by (simp_all add: decode_scancode_def scancodes_def kScanSet1_def)
  have "\<exists>held. next_char (fst (typed ex_kernel)) (snd (typed ex_kernel)) = Some (CHR ''A'', held, [0x9E])"
    unfolding t by (simp add: pending_def PS2Keyboard_new_def d kKeyToChar_def kKeyToCharShift_def Let_def)
  then obtain held where "next_chars 1 (typed ex_kernel) = Some (''A'', held, [0x9E])" by auto
  moreover have "accessible (vmem {0} (k_mmu ex_kernel)) 0x10 1" using ex_accessible by (simp add: ex_kernel_def)
  ultimately show ?thesis
    using syscall_read_delivers_typed[OF ex_kernel_ok, of "ex_registers kRead kStdIn 0x10 1" 0 "\<lambda>_. 0"]
    by (auto simp: put_def)
qed

text \<open>
  Formatted output of the kernel composes with its console: \<open>printf\<close> of a format with
  matching arguments shows exactly the formatted text, changes nothing else, and returns its length.
\<close>

theorem kernel_printf_shows_text:
  assumes "con_inv (k_console k)" "literal t" "fmt_ok dirs" "length (t @ fmt_text dirs) < 2 ^ 31"
  shows "\<exists>k'. printf junk libk_sys_write (t @ fmt_string dirs @ [0]) (fmt_args dirs) k = Inr (int (length (t @ fmt_text dirs)), k')
    \<and> shows_more k k' \<and> screen k' = on_screen k (t @ fmt_text dirs)"
  by (rule kernel_printf_ok[OF assms])

theorem kernel_printf_shows_text_witness:
  "\<exists>k'. printf (\<lambda>_. 0) libk_sys_write ([97] @ fmt_string [(DHex 255, [])] @ [0]) (fmt_args [(DHex 255, [])]) ex_kernel = Inr (5, k')
    \<and> screen k' = on_screen ex_kernel (map of_char ''a0xFF'')"
proof -
  have t: "[97] @ fmt_text [(DHex 255, [])] = map of_char ''a0xFF''" by code_simp
  have "con_inv (k_console ex_kernel)" "literal [97]" "fmt_ok [(DHex 255, [])]" using example_console_inv
    by (simp_all add: ex_kernel_def literal_def)
  from kernel_printf_shows_text[OF this, of "\<lambda>_. 0"] show ?thesis unfolding t by auto
qed

definition exit_text :: "u32 \<Rightarrow> u8 list" where
  "exit_text v = map of_char (CHR 0x0A # ''Process exit with code '') @ [48, 120] @ digits_text 16 (unat v) @ [10]"

definition report_text :: "RegisterTable \<Rightarrow> u8 list" where
  "report_text r = concat (map (\<lambda>(s, v). map of_char s @ v @ [10])
     [(''Received unidentified syscall: '', digits_text 10 (unat (eax r))),
      (''registers.ebx = 0x'', digits_text 16 (unat (ebx r))),
      (''registers.ecx = 0x'', digits_text 16 (unat (ecx r))),
      (''registers.edx = 0x'', digits_text 16 (unat (edx r)))])"

definition call_returns :: "X86Kernel \<Rightarrow> RegisterTable \<Rightarrow> RegisterTable \<Rightarrow> X86Kernel \<Rightarrow> bool" where
  "call_returns k r r' k' \<longleftrightarrow>
     (if eax r = kRead \<or> eax r = kWrite then r' = r\<lparr>eax := - 1\<rparr> \<and> k' = k
      else if eax r \<in> {kOpen, kClose, kExit} then r' = r\<lparr>eax := ebx r\<rparr> \<and> shows_more k k' \<and> screen k' = on_screen k (exit_text (ebx r))
      else if eax r \<in> {kSleep, kYield} then r' = r\<lparr>eax := 0\<rparr> \<and> k' = k
      else r' = r \<and> k' = k\<lparr>k_debug := k_debug k @ report_text r\<rparr>)"

lemma exit_ok:
  assumes "con_inv (k_console k)"
  shows "\<exists>k'. Syscall_exit g junk k r = Inr (ebx r, k') \<and> shows_more k k' \<and> screen k' = on_screen k (exit_text (ebx r))"
proof -
  let ?t = "map of_char (CHR 0x0A # ''Process exit with code '') :: u8 list"
  have l: "literal ?t" by (simp add: literal_def of_char_def)
  have f: "map of_char exit_format = ?t @ [37, 120 :: u8]" by (simp add: exit_format_def of_char_def)
  have "call_text (map of_char exit_format) [PUInt (ebx r)] @ [10] = exit_text (ebx r)"
    unfolding call_text_def f print_text_literal[OF l] by (simp add: exit_text_def is_spec_def spec_text_def)
  moreover have "0 \<notin> set (map of_char exit_format :: u8 list)" unfolding f using l by (simp add: literal_def)
  ultimately show ?thesis
    using ks.println_ok[OF shows_more_refl[OF assms], of "[PUInt (ebx r)]" "map of_char exit_format" g junk]
    by (auto simp: Syscall_exit_def cstr_def)
qed

text \<open>A format that is a literal text followed by one directive.\<close>

lemma one_directive:
  assumes "literal (map of_char txt :: u8 list)" "is_spec c"
  shows "call_text (map of_char txt @ [37, c]) [a] = map of_char txt @ spec_text c a"
  using print_text_literal[OF assms(1)] assms(2) by (simp add: call_text_def)

lemma report_line:
  assumes "literal (map of_char txt :: u8 list)" "d = CHR ''@'' \<or> d = CHR ''x''"
  shows "k_debug_println g junk (txt @ [CHR ''%'', d]) [PUInt v] k
    = Inr (k\<lparr>k_debug := k_debug k @ map of_char txt @ (if d = CHR ''@'' then digits_text 10 (unat v) else [48, 120] @ digits_text 16 (unat v)) @ [10]\<rparr>)"
proof -
  have f: "map of_char (txt @ [CHR ''%'', d]) = map of_char txt @ [37, of_char d :: u8]" by (simp add: of_char_def)
  have s: "is_spec (of_char d)" "(of_char d :: u8) = 64 \<longleftrightarrow> d = CHR ''@''" using assms(2) by (auto simp: is_spec_def of_char_def)
  have "0 \<notin> set (map of_char (txt @ [CHR ''%'', d]) :: u8 list)" unfolding f using assms s by (auto simp: literal_def is_spec_def)
  from debug_println_ok[OF _ this, of "[PUInt v]" g junk k] show ?thesis
    unfolding f one_directive[OF assms(1) s(1)] using s(2) by (simp add: spec_text_def)
qed

lemma report_ok: "reportUnknownSyscall g junk r k = Inr (k\<lparr>k_debug := k_debug k @ report_text r\<rparr>)"
proof -
  have l: "literal (map of_char ''Received unidentified syscall: '' :: u8 list)" "literal (map of_char ''registers.ebx = '' :: u8 list)"
    "literal (map of_char ''registers.ecx = '' :: u8 list)" "literal (map of_char ''registers.edx = '' :: u8 list)"
    by (simp_all add: literal_def of_char_def)
  have x: "(of_char (CHR ''0'') :: u8) = 48" "(of_char (CHR ''x'') :: u8) = 120" by (simp_all add: of_char_def)
  show ?thesis
    using report_line[OF l(1), of "CHR ''@''" g junk] report_line[OF l(2), of "CHR ''x''" g junk]
      report_line[OF l(3), of "CHR ''x''" g junk] report_line[OF l(4), of "CHR ''x''" g junk]
    by (simp add: reportUnknownSyscall_def report_text_def x)
qed

text \<open>
  C39. Every other call returns at once without touching the program's memory: \<open>exit\<close>, but also \<open>open\<close>
  and \<open>close\<close>, print a message with the first argument and return it, \<open>sleep\<close> and \<open>yield\<close> return 0, reads and writes of
  other files return -1, an unknown call leaves the registers alone and is reported, with
  its arguments, on the debug port. (\<open>die\<close> panics.)
\<close>

theorem syscall_dispatch:
  assumes "con_inv (k_console k)" "eax r \<noteq> kDie"
    and "eax r = kRead \<Longrightarrow> ebx r \<noteq> kStdIn" "eax r = kWrite \<Longrightarrow> ebx r \<noteq> kStdOut"
  shows "\<exists>r' k'. int_0x80 g junk k r = Inr (r', k') \<and> call_returns k r r' k'"
proof -
  have restored: "(cli k)\<lparr>k_if := k_if k\<rparr> = k" "(cli (sti (cli k)))\<lparr>k_if := k_if k\<rparr> = k" by (simp_all add: cli_def sti_def)
  have "con_inv (k_console (cli k))" using assms(1) by (simp add: cli_def)
  from exit_ok[OF this, of g junk r] obtain k1 where k1: "Syscall_exit g junk (cli k) r = Inr (ebx r, k1)" "shows_more (cli k) k1"
    "screen k1 = on_screen (cli k) (exit_text (ebx r))" by blast
  have ex: "shows_more k (k1\<lparr>k_if := k_if k\<rparr>)" "screen (k1\<lparr>k_if := k_if k\<rparr>) = on_screen k (exit_text (ebx r))"
    using k1(2,3) by (auto simp: shows_more_def cli_def screen_def)
  note defs = int_0x80_def SyscallHandler_call_def call_returns_def restored
  consider "eax r = kRead" | "eax r = kWrite" | "eax r \<in> {kOpen, kClose, kExit}" | "eax r \<in> {kSleep, kYield}"
    | "eax r \<notin> {kRead, kWrite, kOpen, kClose, kExit, kSleep, kYield}" by blast
  then show ?thesis
  proof cases
    case 1
    then show ?thesis using assms(3) by (simp add: defs Syscall_read_def)
  next
    case 2
    then show ?thesis using assms(4) by (simp add: defs Syscall_write_def)
  next
    case 3
    then show ?thesis using k1(1) ex by (auto simp: defs)
  next
    case 4
    then show ?thesis by (auto simp: defs Syscall_sleep_def Syscall_yield_def)
  next
    case 5
    then show ?thesis using assms(2) by (auto simp: defs report_ok cli_def)
  qed
qed

theorem syscall_dispatch_witness:
  "\<exists>k'. int_0x80 0 (\<lambda>_. 0) ex_kernel (ex_registers kOpen 7 0 0) = Inr (ex_registers 7 7 0 0, k')
    \<and> screen k' = on_screen ex_kernel (exit_text 7)"
proof -
  have "con_inv (k_console ex_kernel)" using example_console_inv by (simp add: ex_kernel_def)
  from syscall_dispatch[OF this, of "ex_registers kOpen 7 0 0" 0 "\<lambda>_. 0"] show ?thesis by (auto simp: call_returns_def)
qed

text \<open>
  C40. The page fault handler never reaches the panic screen as it should: for every fault, composing its
  message overruns the block of the string it is composed in.
\<close>

theorem page_fault_message_overruns:
  assumes "negatable line"
  shows "PageFaultISR_call g junk file line cr2 r k = Inl OutOfBounds"
proof -
  let ?args = "page_fault_args cr2 r" and ?f = "map of_char page_fault_format :: u8 list"
  let ?t = "map of_char ''Page Fault: cr2='' :: u8 list"
  have z: "0 \<notin> set ?f" by (simp add: page_fault_format_def of_char_def)
  have n: "0 \<in> set (cstr w)" for w by (simp add: cstr_def)
  have ok: "list_all arg_ok ?args" by (simp add: page_fault_args_def Let_def n)
  have "?f = ?t @ map of_char ''%x eip=%x/%@%@%@%@%@''" by (simp add: page_fault_format_def)
  moreover have "literal ?t" by (simp add: literal_def of_char_def)
  ultimately have "call_text ?f ?args = ?t @ print_text (map of_char ''%x eip=%x/%@%@%@%@%@'') ?args"
    using print_text_literal by (simp add: call_text_def page_fault_args_def Let_def del: list.map)
  then have long: "\<not> length (call_text ?f ?args) \<le> 8" by simp
  have "Print.format g junk (cstr page_fault_format) ?args = Inl OutOfBounds"
    using format_overrun[OF ok z long] by (simp add: cstr_def)
  moreover have "\<exists>d. debug_print g junk (cstr (''BREAK @ %@:%@'' @ [CHR 0x0A])) [PArray (cstr file), PInt line] (k_debug k) = Inr d"
    using dbg.print_ok[OF TrueI, of "[PArray (cstr file), PInt line]" "map of_char (''BREAK @ %@:%@'' @ [CHR 0x0A])" g junk "k_debug k"] assms n
    by (simp add: debug_print_def cstr_def of_char_def)
  ultimately show ?thesis using debug_println_ok[OF ok z] by (auto simp: PageFaultISR_call_def)
qed

theorem page_fault_message_overruns_witness:
  "PageFaultISR_call 0 (\<lambda>_. 0) ''PageFaultPanicISR.hpp'' 30 0xDEAD000 (ex_registers 0 0 0 0) ex_kernel = Inl OutOfBounds"
proof -
  have "negatable (30 :: u32)" by code_simp
  then show ?thesis by (rule page_fault_message_overruns)
qed

end
