(* ===== verification/Ownership.thy ===== *)
theory Ownership
  imports Prelude
begin

text \<open>
  Owners of objects: \<open>libsys/include/mem/UniquePtr.hpp\<close>, \<open>libsys/include/util/Maybe.hpp\<close> and
  \<open>libsys/include/util/StaticList.hpp\<close>.

  A heap has a fresh address for every object that \<open>new\<close> creates; deleting an object twice is
  \<open>DoubleFree\<close> and reading a deleted one \<open>UseAfterFree\<close>. A \<open>Maybe\<close> holds its object in a union
  instead, which is a live object or none; the number of live objects is counted, so that an object
  that is dropped without its destructor stays in the count.
\<close>

section \<open>Heap objects\<close>

record 'a heap =
  h_obj :: "nat \<Rightarrow> 'a option"
  h_next :: nat

definition heap_empty :: "'a heap" where
  "heap_empty = \<lparr>h_obj = (\<lambda>_. None), h_next = 0\<rparr>"

definition heap_alloc :: "'a \<Rightarrow> 'a heap \<Rightarrow> nat \<times> 'a heap" where
  "heap_alloc v h = (h_next h, h\<lparr>h_obj := (h_obj h)(h_next h \<mapsto> v), h_next := Suc (h_next h)\<rparr>)"

text \<open>\<open>delete\<close> of a null pointer does nothing.\<close>

definition heap_delete :: "nat option \<Rightarrow> 'a heap \<Rightarrow> 'a heap res" where
  "heap_delete ptr h = (case ptr of None \<Rightarrow> Inr h
     | Some a \<Rightarrow> if h_obj h a = None then Inl DoubleFree else Inr (h\<lparr>h_obj := (h_obj h)(a := None)\<rparr>))"

definition heap_read :: "nat option \<Rightarrow> 'a heap \<Rightarrow> 'a res" where
  "heap_read ptr h = (case ptr of None \<Rightarrow> Inl NullPointer
     | Some a \<Rightarrow> (case h_obj h a of None \<Rightarrow> Inl UseAfterFree | Some v \<Rightarrow> Inr v))"

section \<open>Unique pointers\<close>

type_synonym UniquePtr = "nat option"

definition UniquePtr_release :: "UniquePtr \<Rightarrow> nat option \<times> UniquePtr" where
  "UniquePtr_release p = (p, None)"

definition UniquePtr_reset :: "UniquePtr \<Rightarrow> nat option \<Rightarrow> 'a heap \<Rightarrow> (UniquePtr \<times> 'a heap) res" where
  "UniquePtr_reset p newPtr h =
     (if p = newPtr then Inr (p, h)
      else rbind (if p \<noteq> None then heap_delete p h else Inr h) (\<lambda>h1. Inr (newPtr, h1)))"

definition UniquePtr_destroy :: "UniquePtr \<Rightarrow> 'a heap \<Rightarrow> 'a heap res" where
  "UniquePtr_destroy p h = heap_delete p h"

definition make_unique :: "'a \<Rightarrow> 'a heap \<Rightarrow> UniquePtr \<times> 'a heap" where
  "make_unique v h = (let (a, h1) = heap_alloc v h in (Some a, h1))"

definition UniquePtr_deref :: "UniquePtr \<Rightarrow> 'a heap \<Rightarrow> 'a res" where
  "UniquePtr_deref p h = heap_read p h"

text \<open>
  The deleted copy operations are templates, which do not keep the compiler from declaring the copy
  constructor and the copy assignment of the class; these copy the pointer.
\<close>

definition UniquePtr_copy :: "UniquePtr \<Rightarrow> UniquePtr" where
  "UniquePtr_copy p = p"

text \<open>
  A program with unique pointers in variables. A variable that is not in scope is \<open>None\<close>; the
  variables of an operation are in scope, and one that is declared is not, by the rules of the language.
\<close>

datatype 'a up_op =
    UDeclare nat
  | UMake nat 'a
  | UMoveNew nat nat
  | UMoveAssign nat nat
  | UAssignNull nat
  | UAssignNew nat 'a
  | ULeave nat

record 'a up_state =
  up_vars :: "nat \<Rightarrow> UniquePtr option"
  up_heap :: "'a heap"

definition up_var :: "nat \<Rightarrow> 'a up_state \<Rightarrow> UniquePtr" where
  "up_var x s = (case up_vars s x of Some p \<Rightarrow> p | None \<Rightarrow> None)"

definition up_set :: "nat \<Rightarrow> UniquePtr \<Rightarrow> 'a up_state \<Rightarrow> 'a up_state" where
  "up_set x p s = s\<lparr>up_vars := (up_vars s)(x \<mapsto> p)\<rparr>"

text \<open>\<open>operator=\<close> from a pointer resets to it; moving releases the source first.\<close>

definition UniquePtr_assign :: "nat \<Rightarrow> nat option \<Rightarrow> 'a up_state \<Rightarrow> 'a up_state res" where
  "UniquePtr_assign x rhs s = rbind (UniquePtr_reset (up_var x s) rhs (up_heap s)) (\<lambda>(p, h). Inr (up_set x p (s\<lparr>up_heap := h\<rparr>)))"

definition UniquePtr_move_assign :: "nat \<Rightarrow> nat \<Rightarrow> 'a up_state \<Rightarrow> 'a up_state res" where
  "UniquePtr_move_assign x r s =
     (let (ptr, r1) = UniquePtr_release (up_var r s) in UniquePtr_assign x ptr (up_set r r1 s))"

definition UniquePtr_move_new :: "nat \<Rightarrow> nat \<Rightarrow> 'a up_state \<Rightarrow> 'a up_state" where
  "UniquePtr_move_new x other s =
     (let (ptr, r1) = UniquePtr_release (up_var other s) in up_set x ptr (up_set other r1 s))"

primrec up_exec :: "'a up_op \<Rightarrow> 'a up_state \<Rightarrow> 'a up_state res" where
  "up_exec (UDeclare x) s = Inr (up_set x None s)"
| "up_exec (UMake x v) s = (let (p, h) = make_unique v (up_heap s) in Inr (up_set x p (s\<lparr>up_heap := h\<rparr>)))"
| "up_exec (UMoveNew x y) s = Inr (UniquePtr_move_new x y s)"
| "up_exec (UMoveAssign x y) s = UniquePtr_move_assign x y s"
| "up_exec (UAssignNull x) s = UniquePtr_assign x None s"
| "up_exec (UAssignNew x v) s = (let (a, h) = heap_alloc v (up_heap s) in UniquePtr_assign x (Some a) (s\<lparr>up_heap := h\<rparr>))"
| "up_exec (ULeave x) s = rbind (UniquePtr_destroy (up_var x s) (up_heap s)) (\<lambda>h.
     Inr (s\<lparr>up_heap := h, up_vars := (up_vars s)(x := None)\<rparr>))"

fun up_run :: "'a up_op list \<Rightarrow> 'a up_state \<Rightarrow> 'a up_state res" where
  "up_run [] s = Inr s"
| "up_run (op # ops) s = rbind (up_exec op s) (up_run ops)"

fun up_scoped :: "nat set \<Rightarrow> 'a up_op list \<Rightarrow> bool" where
  "up_scoped V [] = True"
| "up_scoped V (UDeclare x # ops) = (x \<notin> V \<and> up_scoped (insert x V) ops)"
| "up_scoped V (UMake x v # ops) = (x \<notin> V \<and> up_scoped (insert x V) ops)"
| "up_scoped V (UMoveNew x y # ops) = (x \<notin> V \<and> y \<in> V \<and> up_scoped (insert x V) ops)"
| "up_scoped V (UMoveAssign x y # ops) = (x \<in> V \<and> y \<in> V \<and> up_scoped V ops)"
| "up_scoped V (UAssignNull x # ops) = (x \<in> V \<and> up_scoped V ops)"
| "up_scoped V (UAssignNew x v # ops) = (x \<in> V \<and> up_scoped V ops)"
| "up_scoped V (ULeave x # ops) = (x \<in> V \<and> up_scoped (V - {x}) ops)"

text \<open>
  Every live object has exactly one owner, and every owner has a live object or none. \<open>r\<close> is a
  pointer that has been released or created and is not owned yet.
\<close>

definition up_inv :: "nat set \<Rightarrow> nat option \<Rightarrow> 'a up_state \<Rightarrow> bool" where
  "up_inv V r s \<longleftrightarrow> dom (up_vars s) = V
     \<and> (\<forall>a. h_obj (up_heap s) a \<noteq> None \<longleftrightarrow> r = Some a \<or> (\<exists>x. up_vars s x = Some (Some a)))
     \<and> (\<forall>x y a. up_vars s x = Some (Some a) \<longrightarrow> up_vars s y = Some (Some a) \<longrightarrow> x = y)
     \<and> (\<forall>x a. up_vars s x = Some (Some a) \<longrightarrow> r \<noteq> Some a)
     \<and> (\<forall>a\<ge>h_next (up_heap s). h_obj (up_heap s) a = None)"

lemma up_invD:
  assumes "up_inv V r s"
  shows "dom (up_vars s) = V" "up_vars s x = Some (Some a) \<Longrightarrow> h_obj (up_heap s) a \<noteq> None"
    "r = Some a \<Longrightarrow> h_obj (up_heap s) a \<noteq> None" "h_next (up_heap s) \<le> a \<Longrightarrow> h_obj (up_heap s) a = None"
    "up_vars s x = Some (Some a) \<Longrightarrow> up_vars s y = Some (Some a) \<Longrightarrow> x = y" "up_vars s x = Some (Some a) \<Longrightarrow> r \<noteq> Some a"
  using assms unfolding up_inv_def by blast+

lemma up_var_eq: "up_inv V r s \<Longrightarrow> x \<in> V \<Longrightarrow> up_vars s x = Some (up_var x s)"
  unfolding up_inv_def up_var_def by (auto split: option.splits)

text \<open>Deleting what a variable owns, which leaves the variable dangling.\<close>

lemma delete_owned:
  assumes "up_inv V r s" "x \<in> V"
  shows "\<exists>h. heap_delete (up_var x s) (up_heap s) = Inr h \<and> h_next h = h_next (up_heap s)
    \<and> (\<forall>a. h_obj h a = (if up_var x s = Some a then None else h_obj (up_heap s) a))"
  using up_var_eq[OF assms] up_invD(2)[OF assms(1), of x]
  by (cases "up_var x s") (auto simp: heap_delete_def)

lemma other_owner:
  assumes "up_inv V r s" "x \<in> V"
  shows "(\<exists>y. y \<noteq> x \<and> up_vars s y = Some (Some a)) \<longleftrightarrow> up_var x s \<noteq> Some a \<and> (\<exists>y. up_vars s y = Some (Some a))"
proof (cases "up_var x s = Some a")
  case True
  then have "up_vars s x = Some (Some a)" using up_var_eq[OF assms] by simp
  then show ?thesis using True up_invD(5)[OF assms(1)] by blast
next
  case False
  then have "up_vars s x \<noteq> Some (Some a)" using up_var_eq[OF assms] by simp
  then have "y \<noteq> x" if "up_vars s y = Some (Some a)" for y using that by auto
  then show ?thesis using False by blast
qed

lemma live_iff: "up_inv V r s \<Longrightarrow> h_obj (up_heap s) a \<noteq> None \<longleftrightarrow> r = Some a \<or> (\<exists>y. up_vars s y = Some (Some a))"
  unfolding up_inv_def by blast

lemma assign_inv:
  assumes inv: "up_inv V r s" and x: "x \<in> V"
  shows "\<exists>s'. UniquePtr_assign x r s = Inr s' \<and> up_inv V None s'"
proof (cases "up_var x s = r")
  case True
  then have "r = None" using up_var_eq[OF inv x] up_invD(6)[OF inv, of x] by (cases r) auto
  moreover have "up_set x (up_var x s) s = s" using up_var_eq[OF inv x] by (simp add: up_set_def fun_upd_idem)
  ultimately show ?thesis using True inv by (simp add: UniquePtr_assign_def UniquePtr_reset_def)
next
  case False
  from delete_owned[OF inv x] obtain h where h: "heap_delete (up_var x s) (up_heap s) = Inr h" "h_next h = h_next (up_heap s)"
    "\<And>a. h_obj h a = (if up_var x s = Some a then None else h_obj (up_heap s) a)" by blast
  have e: "UniquePtr_assign x r s = Inr (up_set x r (s\<lparr>up_heap := h\<rparr>))"
    using False h(1) by (cases "up_var x s") (auto simp: UniquePtr_assign_def UniquePtr_reset_def heap_delete_def)
  have "up_inv V None (up_set x r (s\<lparr>up_heap := h\<rparr>))"
    unfolding up_inv_def
  proof (intro conjI allI impI)
    show "dom (up_vars (up_set x r (s\<lparr>up_heap := h\<rparr>))) = V" using up_invD(1)[OF inv] x by (auto simp: up_set_def)
  next
    fix a
    have "(\<exists>y. up_vars (up_set x r (s\<lparr>up_heap := h\<rparr>)) y = Some (Some a)) \<longleftrightarrow> r = Some a \<or> (\<exists>y. y \<noteq> x \<and> up_vars s y = Some (Some a))"
      by (auto simp: up_set_def)
    then show "h_obj (up_heap (up_set x r (s\<lparr>up_heap := h\<rparr>))) a \<noteq> None
        \<longleftrightarrow> None = Some a \<or> (\<exists>y. up_vars (up_set x r (s\<lparr>up_heap := h\<rparr>)) y = Some (Some a))"
      unfolding other_owner[OF inv x] using False h(3)[of a] live_iff[OF inv, of a] by (simp add: up_set_def) blast
  next
    fix y z a
    assume "up_vars (up_set x r (s\<lparr>up_heap := h\<rparr>)) y = Some (Some a)" "up_vars (up_set x r (s\<lparr>up_heap := h\<rparr>)) z = Some (Some a)"
    then show "y = z" using up_invD(5)[OF inv, of y a z] up_invD(6)[OF inv, of y a] up_invD(6)[OF inv, of z a]
      by (auto simp: up_set_def split: if_splits)
  next
    fix a
    assume "h_next (up_heap (up_set x r (s\<lparr>up_heap := h\<rparr>))) \<le> a"
    then show "h_obj (up_heap (up_set x r (s\<lparr>up_heap := h\<rparr>))) a = None"
      using h(2) h(3)[of a] up_invD(4)[OF inv, of a] by (simp add: up_set_def)
  qed simp
  then show ?thesis using e by blast
qed

lemma release_inv:
  assumes "up_inv V None s" "y \<in> V"
  shows "up_inv V (up_var y s) (up_set y None s)"
  unfolding up_inv_def up_set_def using assms up_var_eq[OF assms] up_invD[OF assms(1)]
  by (auto simp: up_inv_def) (metis option.inject)

lemma alloc_inv:
  assumes "up_inv V None s"
  shows "up_inv V (Some (h_next (up_heap s))) (s\<lparr>up_heap := snd (heap_alloc v (up_heap s))\<rparr>)"
proof -
  have "up_vars s x \<noteq> Some (Some (h_next (up_heap s)))" for x using up_invD(2,4)[OF assms] by blast
  then show ?thesis using assms unfolding up_inv_def heap_alloc_def by (auto simp: le_Suc_eq)
qed

lemma adopt_inv:
  assumes "up_inv V r s" "x \<notin> V"
  shows "up_inv (insert x V) None (up_set x r s)"
  using assms unfolding up_inv_def up_set_def by (auto simp: dom_def)

lemma leave_inv:
  assumes inv: "up_inv V None s" and x: "x \<in> V"
  shows "\<exists>s'. up_exec (ULeave x) s = Inr s' \<and> up_inv (V - {x}) None s'"
proof -
  from delete_owned[OF inv x] obtain h where h: "heap_delete (up_var x s) (up_heap s) = Inr h" "h_next h = h_next (up_heap s)"
    "\<And>a. h_obj h a = (if up_var x s = Some a then None else h_obj (up_heap s) a)" by blast
  let ?s = "s\<lparr>up_heap := h, up_vars := (up_vars s)(x := None)\<rparr>"
  have l: "h_obj h a \<noteq> None \<longleftrightarrow> (\<exists>y. y \<noteq> x \<and> up_vars s y = Some (Some a))" for a
    unfolding other_owner[OF inv x] using h(3)[of a] live_iff[OF inv, of a] by auto
  have "up_inv (V - {x}) None ?s" unfolding up_inv_def
  proof (intro conjI allI impI)
    show "dom (up_vars ?s) = V - {x}" using up_invD(1)[OF inv] by auto
  next
    fix a
    show "h_obj (up_heap ?s) a \<noteq> None \<longleftrightarrow> None = Some a \<or> (\<exists>y. up_vars ?s y = Some (Some a))" using l[of a] by auto
  next
    fix y z a
    assume "up_vars ?s y = Some (Some a)" "up_vars ?s z = Some (Some a)"
    then show "y = z" using up_invD(5)[OF inv] by (auto split: if_splits)
  next
    fix a
    assume "h_next (up_heap ?s) \<le> a"
    then show "h_obj (up_heap ?s) a = None" using h(2) h(3)[of a] up_invD(4)[OF inv, of a] by simp
  qed simp
  then show ?thesis using h(1) by (auto simp: UniquePtr_destroy_def)
qed

lemma exec_inv:
  assumes "up_inv V None s" "up_scoped V (op # ops)"
  shows "\<exists>s' W. up_exec op s = Inr s' \<and> up_inv W None s' \<and> up_scoped W ops"
proof (cases op)
  case (UDeclare x)
  then show ?thesis using adopt_inv[OF assms(1), of x] assms(2) by auto
next
  case (UMake x v)
  then show ?thesis using adopt_inv[OF alloc_inv[OF assms(1), of v], of x] assms(2)
    by (auto simp: make_unique_def heap_alloc_def)
next
  case (UMoveNew x y)
  then show ?thesis using adopt_inv[OF release_inv[OF assms(1), of y], of x] assms(2)
    by (auto simp: UniquePtr_move_new_def UniquePtr_release_def)
next
  case (UMoveAssign x y)
  then show ?thesis using assign_inv[OF release_inv[OF assms(1), of y], of x] assms(2)
    by (auto simp: UniquePtr_move_assign_def UniquePtr_release_def)
next
  case (UAssignNull x)
  then show ?thesis using assign_inv[OF assms(1), of x] assms(2) by auto
next
  case (UAssignNew x v)
  then show ?thesis using assign_inv[OF alloc_inv[OF assms(1), of v], of x] assms(2)
    by (auto simp: heap_alloc_def)
next
  case (ULeave x)
  then show ?thesis using leave_inv[OF assms(1), of x] assms(2) by auto
qed

lemma run_inv:
  "up_inv V None s \<Longrightarrow> up_scoped V ops \<Longrightarrow> \<exists>s' W. up_run ops s = Inr s' \<and> up_inv W None s'"
proof (induction ops arbitrary: V s)
  case (Cons op ops)
  from exec_inv[OF Cons.prems] obtain s1 W where "up_exec op s = Inr s1" "up_inv W None s1" "up_scoped W ops" by blast
  then show ?case using Cons.IH by auto
qed auto

definition up_start :: "'a up_state" where
  "up_start = \<lparr>up_vars = (\<lambda>_. None), up_heap = heap_empty\<rparr>"

lemma start_inv: "up_inv {} None up_start"
  by (simp add: up_inv_def up_start_def heap_empty_def)



text \<open>A copy of a unique pointer owns the same object: destroying both deletes it twice.\<close>

theorem UniquePtr_copy_double_free:
  "rbind (UniquePtr_destroy (UniquePtr_copy (fst (make_unique v h))) (snd (make_unique v h))) (UniquePtr_destroy (fst (make_unique v h)))
    = Inl DoubleFree"
  by (simp add: UniquePtr_destroy_def UniquePtr_copy_def make_unique_def heap_alloc_def heap_delete_def)

section \<open>Optional values\<close>

text \<open>
  \<open>st\<close> is the object in the union, if it is alive, and \<open>c\<close> counts the live objects of the type.
  \<open>assignable\<close> says whether the type has assignment operators, and \<open>moved\<close> what a moved-from
  object is. The source of an assignment is a value elsewhere, or, as \<open>None\<close>, the stored object itself.
\<close>

record 'a Maybe =
  mb_store :: "'a option"
  mb_set :: bool

definition Storage_destroy :: "bool \<Rightarrow> 'a option \<Rightarrow> nat \<Rightarrow> ('a option \<times> nat) res" where
  "Storage_destroy isSet st c =
     (if isSet then case st of None \<Rightarrow> Inl UseAfterFree | Some v \<Rightarrow> Inr (None, c - 1) else Inr (st, c))"

definition Storage_init :: "'a \<Rightarrow> 'a option \<Rightarrow> nat \<Rightarrow> 'a option \<times> nat" where
  "Storage_init val st c = (Some val, c + 1)"

definition Storage_ref :: "'a option \<Rightarrow> 'a res" where
  "Storage_ref st = (case st of None \<Rightarrow> Inl UseAfterFree | Some v \<Rightarrow> Inr v)"

definition Storage_reassign :: "bool \<Rightarrow> 'a option \<Rightarrow> 'a option \<Rightarrow> nat \<Rightarrow> ('a option \<times> nat) res" where
  "Storage_reassign assignable src st c =
     (if assignable
      then rbind (Storage_ref st) (\<lambda>old. Inr (Some (case src of Some v \<Rightarrow> v | None \<Rightarrow> old), c))
      else rbind (Storage_destroy True st c) (\<lambda>(st1, c1).
           rbind (case src of Some v \<Rightarrow> Inr v | None \<Rightarrow> Storage_ref st1) (\<lambda>v. Inr (Storage_init v st1 c1))))"

definition Maybe_new :: "'a Maybe" where
  "Maybe_new = \<lparr>mb_store = None, mb_set = False\<rparr>"

definition Maybe_of :: "'a \<Rightarrow> nat \<Rightarrow> 'a Maybe \<times> nat" where
  "Maybe_of v c = (\<lparr>mb_store = Some v, mb_set = True\<rparr>, c + 1)"

definition Maybe_copy :: "'a Maybe \<Rightarrow> nat \<Rightarrow> ('a Maybe \<times> nat) res" where
  "Maybe_copy other c =
     (if mb_set other
      then rbind (Storage_ref (mb_store other)) (\<lambda>v.
           let (st, c1) = Storage_init v None c in Inr (\<lparr>mb_store = st, mb_set = True\<rparr>, c1))
      else Inr (\<lparr>mb_store = None, mb_set = False\<rparr>, c))"

definition Maybe_clear :: "'a Maybe \<Rightarrow> nat \<Rightarrow> ('a Maybe \<times> nat) res" where
  "Maybe_clear m c = rbind (Storage_destroy (mb_set m) (mb_store m) c) (\<lambda>(st, c1). Inr (\<lparr>mb_store = st, mb_set = False\<rparr>, c1))"

definition Maybe_set :: "bool \<Rightarrow> 'a option \<Rightarrow> 'a Maybe \<Rightarrow> nat \<Rightarrow> ('a Maybe \<times> nat) res" where
  "Maybe_set assignable src m c =
     (if mb_set m
      then rbind (Storage_reassign assignable src (mb_store m) c) (\<lambda>(st, c1). Inr (\<lparr>mb_store = st, mb_set = True\<rparr>, c1))
      else rbind (case src of Some v \<Rightarrow> Inr v | None \<Rightarrow> Storage_ref (mb_store m)) (\<lambda>v.
           let (st, c1) = Storage_init v (mb_store m) c in Inr (\<lparr>mb_store = st, mb_set = True\<rparr>, c1)))"

definition Maybe_emplace :: "'a \<Rightarrow> 'a Maybe \<Rightarrow> nat \<Rightarrow> ('a Maybe \<times> nat) res" where
  "Maybe_emplace v m c =
     rbind (Storage_destroy (mb_set m) (mb_store m) c) (\<lambda>(st, c1).
     let (st2, c2) = Storage_init v st c1 in Inr (\<lparr>mb_store = st2, mb_set = True\<rparr>, c2))"

definition Maybe_assign :: "bool \<Rightarrow> bool \<Rightarrow> 'a Maybe \<Rightarrow> 'a Maybe \<Rightarrow> nat \<Rightarrow> ('a Maybe \<times> nat) res" where
  "Maybe_assign assignable same m other c =
     (if mb_set other
      then rbind (Storage_ref (mb_store other)) (\<lambda>v. Maybe_set assignable (if same then None else Some v) m c)
      else Maybe_clear m c)"

text \<open>The moves return the object moved to, the one moved from and the count.\<close>

definition Maybe_move :: "('a \<Rightarrow> 'a) \<Rightarrow> 'a Maybe \<Rightarrow> nat \<Rightarrow> ('a Maybe \<times> 'a Maybe \<times> nat) res" where
  "Maybe_move moved other c =
     (if mb_set other
      then rbind (Storage_ref (mb_store other)) (\<lambda>v.
           let (st, c1) = Storage_init v None c in
           rbind (Maybe_clear (other\<lparr>mb_store := Some (moved v)\<rparr>) c1) (\<lambda>(other1, c2).
           Inr (\<lparr>mb_store = st, mb_set = True\<rparr>, other1, c2)))
      else Inr (\<lparr>mb_store = None, mb_set = False\<rparr>, other, c))"

definition Maybe_move_assign :: "bool \<Rightarrow> ('a \<Rightarrow> 'a) \<Rightarrow> 'a Maybe \<Rightarrow> 'a Maybe \<Rightarrow> nat \<Rightarrow> ('a Maybe \<times> 'a Maybe \<times> nat) res" where
  "Maybe_move_assign assignable moved m other c =
     (if mb_set other
      then rbind (Storage_ref (mb_store other)) (\<lambda>v.
           rbind (Maybe_set assignable (Some v) m c) (\<lambda>(m1, c1).
           rbind (Maybe_clear (other\<lparr>mb_store := Some (moved v)\<rparr>) c1) (\<lambda>(other1, c2).
           Inr (m1, other1, c2))))
      else rbind (Maybe_clear m c) (\<lambda>(m1, c1). Inr (m1, other, c1)))"

text \<open>Moving an object into itself: it is assigned to itself and then cleared.\<close>

definition Maybe_move_self :: "bool \<Rightarrow> 'a Maybe \<Rightarrow> nat \<Rightarrow> ('a Maybe \<times> nat) res" where
  "Maybe_move_self assignable m c =
     (if mb_set m then rbind (Maybe_set assignable None m c) (\<lambda>(m1, c1). Maybe_clear m1 c1) else Maybe_clear m c)"

definition Maybe_isPresent :: "'a Maybe \<Rightarrow> bool" where
  "Maybe_isPresent m = mb_set m"

definition Maybe_get :: "'a Maybe \<Rightarrow> 'a res" where
  "Maybe_get m = Storage_ref (mb_store m)"

definition Maybe_getOr :: "'a Maybe \<Rightarrow> 'a \<Rightarrow> 'a res" where
  "Maybe_getOr m other = (if mb_set m then Storage_ref (mb_store m) else Inr other)"

definition Maybe_size :: "'a Maybe \<Rightarrow> size_t" where
  "Maybe_size m = (if Maybe_isPresent m then 1 else 0)"

text \<open>\<open>empty\<close> calls itself.\<close>

definition Maybe_empty :: "'a Maybe \<Rightarrow> bool res" where
  "Maybe_empty m = Inl Hang"

text \<open>
  A program with optional values in variables. There is no destructor, and the one of the union
  does nothing: leaving a scope drops the variable only.
\<close>

datatype 'a mb_op =
    MDeclare nat
  | MInit nat 'a
  | MCopyNew nat nat
  | MMoveNew nat nat
  | MAssign nat nat
  | MMoveAssign nat nat
  | MSet nat 'a
  | MClear nat
  | MEmplace nat 'a
  | MLeave nat

record 'a mb_state =
  mb_vars :: "nat \<Rightarrow> 'a Maybe option"
  mb_live :: nat

definition mb_var :: "nat \<Rightarrow> 'a mb_state \<Rightarrow> 'a Maybe" where
  "mb_var x s = (case mb_vars s x of Some m \<Rightarrow> m | None \<Rightarrow> Maybe_new)"

definition mb_upd :: "nat \<Rightarrow> ('a Maybe \<times> nat) \<Rightarrow> 'a mb_state \<Rightarrow> 'a mb_state" where
  "mb_upd x mc s = s\<lparr>mb_vars := (mb_vars s)(x \<mapsto> fst mc), mb_live := snd mc\<rparr>"

primrec mb_exec :: "bool \<Rightarrow> ('a \<Rightarrow> 'a) \<Rightarrow> 'a mb_op \<Rightarrow> 'a mb_state \<Rightarrow> 'a mb_state res" where
  "mb_exec asg mvd (MDeclare x) s = Inr (mb_upd x (Maybe_new, mb_live s) s)"
| "mb_exec asg mvd (MInit x v) s = Inr (mb_upd x (Maybe_of v (mb_live s)) s)"
| "mb_exec asg mvd (MCopyNew x y) s = rbind (Maybe_copy (mb_var y s) (mb_live s)) (\<lambda>mc. Inr (mb_upd x mc s))"
| "mb_exec asg mvd (MMoveNew x y) s = rbind (Maybe_move mvd (mb_var y s) (mb_live s)) (\<lambda>(m, other, c).
     Inr (mb_upd x (m, c) (mb_upd y (other, c) s)))"
| "mb_exec asg mvd (MAssign x y) s = rbind (Maybe_assign asg (x = y) (mb_var x s) (mb_var y s) (mb_live s)) (\<lambda>mc. Inr (mb_upd x mc s))"
| "mb_exec asg mvd (MMoveAssign x y) s =
     (if x = y then rbind (Maybe_move_self asg (mb_var x s) (mb_live s)) (\<lambda>mc. Inr (mb_upd x mc s))
      else rbind (Maybe_move_assign asg mvd (mb_var x s) (mb_var y s) (mb_live s)) (\<lambda>(m, other, c).
           Inr (mb_upd x (m, c) (mb_upd y (other, c) s))))"
| "mb_exec asg mvd (MSet x v) s = rbind (Maybe_set asg (Some v) (mb_var x s) (mb_live s)) (\<lambda>mc. Inr (mb_upd x mc s))"
| "mb_exec asg mvd (MClear x) s = rbind (Maybe_clear (mb_var x s) (mb_live s)) (\<lambda>mc. Inr (mb_upd x mc s))"
| "mb_exec asg mvd (MEmplace x v) s = rbind (Maybe_emplace v (mb_var x s) (mb_live s)) (\<lambda>mc. Inr (mb_upd x mc s))"
| "mb_exec asg mvd (MLeave x) s = Inr (s\<lparr>mb_vars := (mb_vars s)(x := None)\<rparr>)"

fun mb_run :: "bool \<Rightarrow> ('a \<Rightarrow> 'a) \<Rightarrow> 'a mb_op list \<Rightarrow> 'a mb_state \<Rightarrow> 'a mb_state res" where
  "mb_run asg mvd [] s = Inr s"
| "mb_run asg mvd (op # ops) s = rbind (mb_exec asg mvd op s) (mb_run asg mvd ops)"

definition mb_start :: "'a mb_state" where
  "mb_start = \<lparr>mb_vars = (\<lambda>_. None), mb_live = 0\<rparr>"

text \<open>The same program on values of the option type; the second component counts the set variables that left their scope.\<close>

type_synonym 'a opt_state = "(nat \<Rightarrow> 'a option option) \<times> nat"

primrec opt_exec :: "'a mb_op \<Rightarrow> 'a opt_state \<Rightarrow> 'a opt_state" where
  "opt_exec (MDeclare x) e = ((fst e)(x \<mapsto> None), snd e)"
| "opt_exec (MInit x v) e = ((fst e)(x \<mapsto> Some v), snd e)"
| "opt_exec (MCopyNew x y) e = ((fst e)(x := fst e y), snd e)"
| "opt_exec (MMoveNew x y) e = ((fst e)(x := fst e y, y \<mapsto> None), snd e)"
| "opt_exec (MAssign x y) e = ((fst e)(x := fst e y), snd e)"
| "opt_exec (MMoveAssign x y) e = ((fst e)(x := fst e y, y \<mapsto> None), snd e)"
| "opt_exec (MSet x v) e = ((fst e)(x \<mapsto> Some v), snd e)"
| "opt_exec (MClear x) e = ((fst e)(x \<mapsto> None), snd e)"
| "opt_exec (MEmplace x v) e = ((fst e)(x \<mapsto> Some v), snd e)"
| "opt_exec (MLeave x) e = ((fst e)(x := None), snd e + (case fst e x of Some (Some v) \<Rightarrow> 1 | _ \<Rightarrow> 0))"

fun mb_scoped :: "nat set \<Rightarrow> 'a mb_op list \<Rightarrow> bool" where
  "mb_scoped V [] = True"
| "mb_scoped V (MDeclare x # ops) = (x \<notin> V \<and> mb_scoped (insert x V) ops)"
| "mb_scoped V (MInit x v # ops) = (x \<notin> V \<and> mb_scoped (insert x V) ops)"
| "mb_scoped V (MCopyNew x y # ops) = (x \<notin> V \<and> y \<in> V \<and> mb_scoped (insert x V) ops)"
| "mb_scoped V (MMoveNew x y # ops) = (x \<notin> V \<and> y \<in> V \<and> mb_scoped (insert x V) ops)"
| "mb_scoped V (MAssign x y # ops) = (x \<in> V \<and> y \<in> V \<and> mb_scoped V ops)"
| "mb_scoped V (MMoveAssign x y # ops) = (x \<in> V \<and> y \<in> V \<and> mb_scoped V ops)"
| "mb_scoped V (MSet x v # ops) = (x \<in> V \<and> mb_scoped V ops)"
| "mb_scoped V (MClear x # ops) = (x \<in> V \<and> mb_scoped V ops)"
| "mb_scoped V (MEmplace x v # ops) = (x \<in> V \<and> mb_scoped V ops)"
| "mb_scoped V (MLeave x # ops) = (x \<in> V \<and> mb_scoped (V - {x}) ops)"

section \<open>Optional values refine the option type\<close>

definition as_maybe :: "'a option \<Rightarrow> 'a Maybe" where
  "as_maybe v = \<lparr>mb_store = v, mb_set = (v \<noteq> None)\<rparr>"

definition set_vars :: "(nat \<Rightarrow> 'a option option) \<Rightarrow> nat set" where
  "set_vars e = {x. \<exists>v. e x = Some (Some v)}"

definition mb_rel :: "nat set \<Rightarrow> 'a mb_state \<Rightarrow> 'a opt_state \<Rightarrow> bool" where
  "mb_rel V s e \<longleftrightarrow> dom (fst e) = V \<and> finite V \<and> (\<forall>x. mb_vars s x = map_option as_maybe (fst e x))
     \<and> mb_live s = card (set_vars (fst e)) + snd e"

text \<open>One if there is a value, zero otherwise.\<close>

definition held :: "'a option \<Rightarrow> nat" where
  "held v = (case v of None \<Rightarrow> 0 | Some _ \<Rightarrow> 1)"

lemma held_simps [simp]: "held None = 0" "held (Some v) = 1"
  by (simp_all add: held_def)

lemma maybe_ops:
  "Maybe_copy (as_maybe v) c = Inr (as_maybe v, c + held v)"
  "held v \<le> c \<Longrightarrow> Maybe_clear (as_maybe v) c = Inr (as_maybe None, c - held v)"
  "Maybe_set True (Some u) (as_maybe v) c = Inr (as_maybe (Some u), c + 1 - held v)"
  "held v \<le> c \<Longrightarrow> Maybe_emplace u (as_maybe v) c = Inr (as_maybe (Some u), c + 1 - held v)"
  "held v \<le> c \<Longrightarrow> Maybe_assign True False (as_maybe v) (as_maybe w) c = Inr (as_maybe w, c + held w - held v)"
  "held v \<le> c \<Longrightarrow> Maybe_assign True True (as_maybe v) (as_maybe v) c = Inr (as_maybe v, c)"
  "Maybe_move mvd (as_maybe v) c = Inr (as_maybe v, as_maybe None, c)"
  "held v \<le> c \<Longrightarrow> Maybe_move_assign True mvd (as_maybe v) (as_maybe w) c = Inr (as_maybe w, as_maybe None, c - held v)"
  "held v \<le> c \<Longrightarrow> Maybe_move_self True (as_maybe v) c = Inr (as_maybe None, c - held v)"
  by (cases v; cases w; simp add: as_maybe_def Maybe_copy_def Maybe_clear_def Maybe_set_def Maybe_emplace_def Maybe_assign_def
      Maybe_move_def Maybe_move_assign_def Maybe_move_self_def Storage_ref_def Storage_init_def Storage_destroy_def Storage_reassign_def)+

lemma set_vars_upd:
  "set_vars (e(x := w)) = (case w of Some (Some v) \<Rightarrow> insert x (set_vars e) | _ \<Rightarrow> set_vars e - {x})"
  by (auto simp: set_vars_def split: option.splits)

lemma set_vars_finite: "finite (dom e) \<Longrightarrow> finite (set_vars e)"
  by (rule finite_subset[of _ "dom e"]) (auto simp: set_vars_def)

definition weight :: "'a option option \<Rightarrow> nat" where
  "weight w = (case w of None \<Rightarrow> 0 | Some v \<Rightarrow> held v)"

lemma weight_simps [simp]: "weight None = 0" "weight (Some v) = held v"
  by (simp_all add: weight_def)

lemma card_upd:
  assumes "finite (dom e)"
  shows "card (set_vars (e(x := w))) + weight (e x) = card (set_vars e) + weight w" "weight (e x) \<le> card (set_vars e)"
proof -
  have f: "finite (set_vars e)" by (rule set_vars_finite[OF assms])
  have i: "x \<in> set_vars e \<longleftrightarrow> weight (e x) = 1" "weight (e x) = 0 \<or> weight (e x) = 1"
    by (auto simp: set_vars_def weight_def held_def split: option.splits)
  have "card (set_vars e) = weight (e x) + card (set_vars e - {x})"
    using f i card_Suc_Diff1[of "set_vars e" x] by (cases "x \<in> set_vars e") auto
  moreover have "card (set_vars (e(x := w))) = card (set_vars e - {x}) + weight w"
    using f by (simp add: set_vars_upd weight_def held_def card.insert_remove split: option.splits)
  ultimately show "card (set_vars (e(x := w))) + weight (e x) = card (set_vars e) + weight w" "weight (e x) \<le> card (set_vars e)" by simp_all
qed

lemma rel_upd:
  assumes "mb_rel V s e" "c + weight (fst e x) = mb_live s + held w"
  shows "mb_rel (insert x V) (mb_upd x (as_maybe w, c) s) ((fst e)(x \<mapsto> w), snd e)"
  using assms card_upd(1)[of "fst e" x "Some w"] unfolding mb_rel_def mb_upd_def by auto

lemma rel_leave:
  assumes "mb_rel V s e"
  shows "mb_rel (V - {x}) (s\<lparr>mb_vars := (mb_vars s)(x := None)\<rparr>) ((fst e)(x := None), snd e + weight (fst e x))"
  using assms card_upd(1)[of "fst e" x None] unfolding mb_rel_def by auto

lemma rel_var:
  assumes "mb_rel V s e" "x \<in> V"
  obtains v where "fst e x = Some v" "mb_var x s = as_maybe v" "held v \<le> mb_live s"
proof -
  obtain v where v: "fst e x = Some v" using assms by (auto simp: mb_rel_def)
  moreover have "mb_var x s = as_maybe v" using assms v by (simp add: mb_rel_def mb_var_def)
  moreover have "held v \<le> mb_live s" using card_upd(2)[of "fst e" x] assms v by (simp add: mb_rel_def)
  ultimately show thesis by (rule that)
qed

lemma rel_fresh: "mb_rel V s e \<Longrightarrow> x \<notin> V \<Longrightarrow> fst e x = None"
  by (auto simp: mb_rel_def)

lemma upd_live: "mb_upd x (m, c) (mb_upd y (m', c') s) = mb_upd x (m, c) (mb_upd y (m', d) s)"
  by (simp add: mb_upd_def)

lemma exec_rel:
  assumes r: "mb_rel V s e" and sc: "mb_scoped V (op # ops)"
  shows "\<exists>s' W. mb_exec True mvd op s = Inr s' \<and> mb_rel W s' (opt_exec op e) \<and> mb_scoped W ops"
proof (cases op)
  case (MDeclare x)
  then show ?thesis using rel_upd[OF r, of "mb_live s" x None] rel_fresh[OF r] sc by (auto simp: as_maybe_def Maybe_new_def)
next
  case (MInit x v)
  then show ?thesis using rel_upd[OF r, of "mb_live s + 1" x "Some v"] rel_fresh[OF r] sc by (auto simp: as_maybe_def Maybe_of_def)
next
  case (MCopyNew x y)
  then obtain v where v: "fst e y = Some v" "mb_var y s = as_maybe v" using rel_var[OF r] sc by auto
  then show ?thesis using MCopyNew rel_upd[OF r, of "mb_live s + held v" x v] rel_fresh[OF r] sc by (auto simp: maybe_ops)
next
  case (MMoveNew x y)
  then obtain v where v: "fst e y = Some v" "mb_var y s = as_maybe v" "held v \<le> mb_live s" and x: "x \<noteq> y" "fst e x = None"
    using rel_var[OF r] rel_fresh[OF r] sc by auto
  let ?c = "mb_live s - held v"
  have V: "insert y V = V" using MMoveNew sc by auto
  from rel_upd[OF r, of ?c y None] v have r1: "mb_rel V (mb_upd y (as_maybe None, ?c) s) ((fst e)(y \<mapsto> None), snd e)" unfolding V by simp
  from rel_upd[OF r1, of "mb_live s" x v] v x
  have "mb_rel (insert x V) (mb_upd x (as_maybe v, mb_live s) (mb_upd y (as_maybe None, ?c) s)) ((fst e)(y \<mapsto> None, x \<mapsto> v), snd e)"
    by (simp add: mb_upd_def)
  then show ?thesis using MMoveNew v x sc upd_live[of x _ _ y _ "mb_live s" s ?c] by (auto simp: maybe_ops fun_upd_twist)
next
  case (MAssign x y)
  then obtain v w where v: "fst e x = Some v" "mb_var x s = as_maybe v" "held v \<le> mb_live s" and w: "fst e y = Some w" "mb_var y s = as_maybe w"
    using rel_var[OF r] sc by (metis mb_scoped.simps(6))
  have V: "insert x V = V" using MAssign sc by auto
  show ?thesis using MAssign v w sc rel_upd[OF r, of "mb_live s + held w - held v" x w] unfolding V
    by (cases "x = y") (auto simp: maybe_ops)
next
  case (MMoveAssign x y)
  then obtain v w where v: "fst e x = Some v" "mb_var x s = as_maybe v" "held v \<le> mb_live s"
    and w: "fst e y = Some w" "mb_var y s = as_maybe w" "held w \<le> mb_live s"
    using rel_var[OF r] sc by (metis mb_scoped.simps(7))
  have V: "insert x V = V" "insert y V = V" using MMoveAssign sc by auto
  show ?thesis
  proof (cases "x = y")
    case True
    then show ?thesis using MMoveAssign v w sc rel_upd[OF r, of "mb_live s - held v" x None] unfolding V by (auto simp: maybe_ops)
  next
    case False
    let ?c = "mb_live s - held w"
    from rel_upd[OF r, of ?c y None] w have r1: "mb_rel V (mb_upd y (as_maybe None, ?c) s) ((fst e)(y \<mapsto> None), snd e)" unfolding V by simp
    from rel_upd[OF r1, of "mb_live s - held v" x w] v w False
    have "mb_rel V (mb_upd x (as_maybe w, mb_live s - held v) (mb_upd y (as_maybe None, ?c) s)) ((fst e)(y \<mapsto> None, x \<mapsto> w), snd e)"
      unfolding V by (simp add: mb_upd_def)
    then show ?thesis using MMoveAssign v w False sc upd_live[of x _ _ y _ "mb_live s - held v" s ?c] by (auto simp: maybe_ops fun_upd_twist)
  qed
next
  case (MSet x u)
  then obtain v where v: "fst e x = Some v" "mb_var x s = as_maybe v" "held v \<le> mb_live s" using rel_var[OF r] sc by auto
  have V: "insert x V = V" using MSet sc by auto
  show ?thesis using MSet v sc rel_upd[OF r, of "mb_live s + 1 - held v" x "Some u"] unfolding V by (auto simp: maybe_ops)
next
  case (MClear x)
  then obtain v where v: "fst e x = Some v" "mb_var x s = as_maybe v" "held v \<le> mb_live s" using rel_var[OF r] sc by auto
  have V: "insert x V = V" using MClear sc by auto
  show ?thesis using MClear v sc rel_upd[OF r, of "mb_live s - held v" x None] unfolding V by (auto simp: maybe_ops)
next
  case (MEmplace x u)
  then obtain v where v: "fst e x = Some v" "mb_var x s = as_maybe v" "held v \<le> mb_live s" using rel_var[OF r] sc by auto
  have V: "insert x V = V" using MEmplace sc by auto
  show ?thesis using MEmplace v sc rel_upd[OF r, of "mb_live s + 1 - held v" x "Some u"] unfolding V by (auto simp: maybe_ops)
next
  case (MLeave x)
  have "weight (fst e x) = (case fst e x of Some (Some v) \<Rightarrow> 1 | _ \<Rightarrow> 0)" by (auto simp: weight_def held_def split: option.splits)
  then show ?thesis using MLeave rel_leave[OF r, of x] sc by auto
qed

lemma run_rel:
  "mb_rel V s e \<Longrightarrow> mb_scoped V ops \<Longrightarrow> \<exists>s' W. mb_run True mvd ops s = Inr s' \<and> mb_rel W s' (fold opt_exec ops e)"
proof (induction ops arbitrary: V s e)
  case (Cons op ops)
  from exec_rel[OF Cons.prems, of mvd] obtain s1 W where "mb_exec True mvd op s = Inr s1" "mb_rel W s1 (opt_exec op e)" "mb_scoped W ops" by blast
  then show ?case using Cons.IH[of W s1 "opt_exec op e"] by simp
qed auto

lemma start_rel: "mb_rel {} mb_start (\<lambda>_. None, 0)"
  by (simp add: mb_rel_def mb_start_def set_vars_def)



text \<open>Assigning a set \<open>Maybe\<close> of a type without assignment operators to itself reads the object it has just destroyed.\<close>

theorem Maybe_self_assign_reads_dead:
  "Maybe_assign False True (as_maybe (Some v)) (as_maybe (Some v)) c = Inl UseAfterFree"
  by (simp add: Maybe_assign_def Maybe_set_def as_maybe_def Storage_ref_def Storage_reassign_def Storage_destroy_def)

section \<open>Fixed lists\<close>

text \<open>A list owns an array in the heap; \<open>init\<close> is the value of a new element.\<close>

record StaticList =
  sl_array :: "nat option"
  sl_size :: size_t

definition StaticList_new :: "'a \<Rightarrow> size_t \<Rightarrow> 'a list heap \<Rightarrow> StaticList \<times> 'a list heap" where
  "StaticList_new init n h =
     (if n \<noteq> 0 then let (a, h1) = heap_alloc (replicate (unat n) init) h in (\<lparr>sl_array = Some a, sl_size = n\<rparr>, h1)
      else (\<lparr>sl_array = None, sl_size = n\<rparr>, h))"

definition StaticList_destroy :: "StaticList \<Rightarrow> 'a list heap \<Rightarrow> 'a list heap res" where
  "StaticList_destroy l h = (if sl_array l \<noteq> None then heap_delete (sl_array l) h else Inr h)"

definition StaticList_move :: "StaticList \<Rightarrow> StaticList \<times> StaticList" where
  "StaticList_move other = (\<lparr>sl_array = sl_array other, sl_size = sl_size other\<rparr>, other\<lparr>sl_array := None\<rparr>)"

definition StaticList_get :: "StaticList \<Rightarrow> size_t \<Rightarrow> 'a list heap \<Rightarrow> 'a res" where
  "StaticList_get l idx h = rbind (heap_read (sl_array l) h) (\<lambda>xs. aread xs (unat idx))"

definition StaticList_put :: "StaticList \<Rightarrow> size_t \<Rightarrow> 'a \<Rightarrow> 'a list heap \<Rightarrow> 'a list heap res" where
  "StaticList_put l idx v h = rbind (heap_read (sl_array l) h) (\<lambda>xs. rbind (awrite xs (unat idx) v) (\<lambda>ys.
     Inr (h\<lparr>h_obj := (h_obj h)(the (sl_array l) \<mapsto> ys)\<rparr>)))"

definition StaticList_clear :: "'a \<Rightarrow> StaticList \<Rightarrow> 'a list heap \<Rightarrow> (StaticList \<times> 'a list heap) res" where
  "StaticList_clear init l h =
     rbind (if sl_array l \<noteq> None then heap_delete (sl_array l) h else Inr h) (\<lambda>h1.
     if sl_size l \<noteq> 0 then let (a, h2) = heap_alloc (replicate (unat (sl_size l)) init) h1 in Inr (l\<lparr>sl_array := Some a\<rparr>, h2)
     else Inr (l, h1))"

definition StaticList_move_assign :: "StaticList \<Rightarrow> StaticList \<Rightarrow> 'a list heap \<Rightarrow> (StaticList \<times> StaticList \<times> 'a list heap) res" where
  "StaticList_move_assign l rhs h =
     rbind (if sl_array l \<noteq> None then heap_delete (sl_array l) h else Inr h) (\<lambda>h1.
     Inr (\<lparr>sl_array = sl_array rhs, sl_size = sl_size rhs\<rparr>, rhs\<lparr>sl_array := None\<rparr>, h1))"

definition StaticList_isEmpty :: "StaticList \<Rightarrow> bool" where
  "StaticList_isEmpty l = False"

definition sl_elems :: "StaticList \<Rightarrow> 'a list heap \<Rightarrow> 'a list option" where
  "sl_elems l h = (case sl_array l of None \<Rightarrow> None | Some a \<Rightarrow> h_obj h a)"

text \<open>
  A fixed list that has been moved from is not empty and keeps its size, but has no elements: any access to it is a
  null dereference; clearing it makes it usable again.
\<close>

theorem StaticList_moved_from:
  "StaticList_get (snd (StaticList_move l)) i h = Inl NullPointer"
  "sl_size (snd (StaticList_move l)) = sl_size l"
  "sl_size l \<noteq> 0 \<Longrightarrow> \<exists>l' h'. StaticList_clear init (snd (StaticList_move l)) h = Inr (l', h') \<and> sl_elems l' h' = Some (replicate (unat (sl_size l)) init)"
  by (simp_all add: StaticList_move_def StaticList_get_def heap_read_def StaticList_clear_def heap_alloc_def sl_elems_def)

end
