(* ===== verification/Ctype.thy ===== *)
theory Ctype
  imports Prelude
begin

text \<open>
  The character classes and case conversions of the C library (\<open>libc/src/ctype.c\<close>). A character
  is an \<open>int\<close>.
\<close>

section \<open>Classes\<close>

definition islower :: "int \<Rightarrow> bool" where
  "islower c \<longleftrightarrow> c \<ge> 97 \<and> c \<le> 122"

definition isupper :: "int \<Rightarrow> bool" where
  "isupper c \<longleftrightarrow> c \<ge> 65 \<and> c \<le> 90"

definition isalpha :: "int \<Rightarrow> bool" where
  "isalpha c \<longleftrightarrow> islower c \<or> isupper c"

definition isdigit :: "int \<Rightarrow> bool" where
  "isdigit c \<longleftrightarrow> c \<ge> 48 \<and> c \<le> 57"

definition isalnum :: "int \<Rightarrow> bool" where
  "isalnum c \<longleftrightarrow> isalpha c \<or> isdigit c"

definition isblank :: "int \<Rightarrow> bool" where
  "isblank c \<longleftrightarrow> c = 32 \<or> c = 9"

definition iscntrl :: "int \<Rightarrow> bool" where
  "iscntrl c \<longleftrightarrow> (c \<ge> 0 \<and> c \<le> 0x1F) \<or> c = 0x7F"

definition isprint :: "int \<Rightarrow> bool" where
  "isprint c \<longleftrightarrow> \<not> iscntrl c"

definition isgraph :: "int \<Rightarrow> bool" where
  "isgraph c \<longleftrightarrow> isprint c \<and> c \<noteq> 32"

definition ispunct :: "int \<Rightarrow> bool" where
  "ispunct c \<longleftrightarrow> isgraph c \<and> \<not> isalnum c"

definition isspace :: "int \<Rightarrow> bool" where
  "isspace c \<longleftrightarrow> c = 32 \<or> c = 10 \<or> c = 9 \<or> c = 12 \<or> c = 11 \<or> c = 13"

definition isxdigit :: "int \<Rightarrow> bool" where
  "isxdigit c \<longleftrightarrow> isdigit c \<or> (c \<ge> 65 \<and> c \<le> 70) \<or> (c \<ge> 97 \<and> c \<le> 102)"

definition c_tolower :: "int \<Rightarrow> int" where
  "c_tolower c = (if isupper c then c + 0x20 else c)"

definition c_toupper :: "int \<Rightarrow> int" where
  "c_toupper c = (if islower c then c - 0x20 else c)"

named_theorems ctype_defs

lemmas ctype_classes [ctype_defs] = islower_def isupper_def isalpha_def isdigit_def isalnum_def isblank_def iscntrl_def isprint_def
  isgraph_def ispunct_def isspace_def isxdigit_def c_tolower_def c_toupper_def

section \<open>Properties of the classes\<close>

text \<open>Every ASCII character is a control character, the space, a digit, a lower or an upper case letter or punctuation, and only one of them.\<close>

theorem ascii_classes:
  assumes "0 \<le> c" "c < 128"
  shows "length (filter (\<lambda>p. p c) [iscntrl, \<lambda>c. c = 32, isdigit, islower, isupper, ispunct]) = 1"
  using assms by (auto simp: ctype_defs)

text \<open>Case conversion is an involution on letters and changes nothing else.\<close>

theorem case_conversion:
  "isupper c \<Longrightarrow> islower (c_tolower c) \<and> c_toupper (c_tolower c) = c"
  "islower c \<Longrightarrow> isupper (c_toupper c) \<and> c_tolower (c_toupper c) = c"
  "\<not> isalpha c \<Longrightarrow> c_tolower c = c \<and> c_toupper c = c"
  by (auto simp: ctype_defs)

text \<open>Beyond ASCII, every number is reported as printable punctuation, \<open>EOF\<close> among them.\<close>

theorem isprint_beyond_ascii:
  assumes "c < 0 \<or> 128 \<le> c"
  shows "isprint c \<and> ispunct c"
  using assms by (auto simp: ctype_defs)

end
