(* ===== verification/Runtime.thy ===== *)
theory Runtime
  imports Prelude
begin

text \<open>
  The exit functions of the C++ runtime: \<open>libcpp/cxxabi/icxxabi.cpp\<close>.

  A function is the number of its address, \<open>None\<close> for a null pointer; calling it changes a state
  of its own and may fault, but does not register further functions.
\<close>

definition ATEXIT_MAX_FUNCS :: nat where
  "ATEXIT_MAX_FUNCS = 128"

record atexit_func_entry_t =
  destructor_func :: "nat option"
  obj_ptr :: uintptr
  dso_handle :: uintptr

record atexit_table =
  atexit_funcs :: "atexit_func_entry_t list"
  atexit_func_count :: nat

definition atexit_start :: atexit_table where
  "atexit_start = \<lparr>atexit_funcs = replicate ATEXIT_MAX_FUNCS \<lparr>destructor_func = None, obj_ptr = 0, dso_handle = 0\<rparr>, atexit_func_count = 0\<rparr>"

definition cxa_atexit :: "nat option \<Rightarrow> uintptr \<Rightarrow> uintptr \<Rightarrow> atexit_table \<Rightarrow> (int \<times> atexit_table) res" where
  "cxa_atexit f objptr dso t =
     (if atexit_func_count t \<ge> ATEXIT_MAX_FUNCS then Inr (- 1, t)
      else rbind (awrite (atexit_funcs t) (atexit_func_count t) \<lparr>destructor_func = f, obj_ptr = objptr, dso_handle = dso\<rparr>) (\<lambda>fs.
           Inr (0, t\<lparr>atexit_funcs := fs, atexit_func_count := atexit_func_count t + 1\<rparr>)))"

text \<open>The two loops of \<open>__cxa_finalize\<close>, which count down.\<close>

fun finalize_all :: "(nat \<Rightarrow> uintptr \<Rightarrow> 's \<Rightarrow> 's res) \<Rightarrow> nat \<Rightarrow> atexit_func_entry_t list \<Rightarrow> 's \<Rightarrow> 's res" where
  "finalize_all call 0 fs s = Inr s"
| "finalize_all call (Suc i) fs s =
     rbind (aread fs i) (\<lambda>e.
     rbind (case destructor_func e of Some f \<Rightarrow> call f (obj_ptr e) s | None \<Rightarrow> Inr s) (finalize_all call i fs))"

fun finalize_func :: "(nat \<Rightarrow> uintptr \<Rightarrow> 's \<Rightarrow> 's res) \<Rightarrow> nat \<Rightarrow> nat \<Rightarrow> atexit_func_entry_t list \<Rightarrow> 's \<Rightarrow> (atexit_func_entry_t list \<times> 's) res" where
  "finalize_func call f 0 fs s = Inr (fs, s)"
| "finalize_func call f (Suc i) fs s =
     rbind (aread fs i) (\<lambda>e.
     if destructor_func e = Some f
     then rbind (call f (obj_ptr e) s) (\<lambda>s1. rbind (awrite fs i (e\<lparr>destructor_func := None\<rparr>)) (\<lambda>fs1. finalize_func call f i fs1 s1))
     else finalize_func call f i fs s)"

definition cxa_finalize :: "(nat \<Rightarrow> uintptr \<Rightarrow> 's \<Rightarrow> 's res) \<Rightarrow> nat option \<Rightarrow> atexit_table \<Rightarrow> 's \<Rightarrow> (atexit_table \<times> 's) res" where
  "cxa_finalize call f t s = (case f of
     None \<Rightarrow> rbind (finalize_all call (atexit_func_count t) (atexit_funcs t) s) (\<lambda>s1. Inr (t, s1))
   | Some g \<Rightarrow> rbind (finalize_func call g (atexit_func_count t) (atexit_funcs t) s) (\<lambda>(fs, s1). Inr (t\<lparr>atexit_funcs := fs\<rparr>, s1)))"

section \<open>Registered functions\<close>

text \<open>The functions registered and not called yet, in the order of registration, with their objects.\<close>

definition entry_calls :: "atexit_func_entry_t list \<Rightarrow> (nat \<times> uintptr) list" where
  "entry_calls fs = concat (map (\<lambda>e. case destructor_func e of Some f \<Rightarrow> [(f, obj_ptr e)] | None \<Rightarrow> []) fs)"

definition pending_calls :: "atexit_table \<Rightarrow> (nat \<times> uintptr) list" where
  "pending_calls t = entry_calls (take (atexit_func_count t) (atexit_funcs t))"

definition atexit_inv :: "atexit_table \<Rightarrow> bool" where
  "atexit_inv t \<longleftrightarrow> length (atexit_funcs t) = ATEXIT_MAX_FUNCS \<and> atexit_func_count t \<le> ATEXIT_MAX_FUNCS"

fun call_all :: "(nat \<Rightarrow> uintptr \<Rightarrow> 's \<Rightarrow> 's res) \<Rightarrow> (nat \<times> uintptr) list \<Rightarrow> 's \<Rightarrow> 's res" where
  "call_all call [] s = Inr s"
| "call_all call ((f, a) # cs) s = rbind (call f a s) (call_all call cs)"

lemma entry_calls_snoc: "entry_calls (fs @ [e]) = entry_calls fs @ (case destructor_func e of Some f \<Rightarrow> [(f, obj_ptr e)] | None \<Rightarrow> [])"
  by (simp add: entry_calls_def)

lemma finalize_all_ok: "i \<le> length fs \<Longrightarrow> finalize_all call i fs s = call_all call (rev (entry_calls (take i fs))) s"
proof (induction i arbitrary: s)
  case 0
  then show ?case by (simp add: entry_calls_def)
next
  case (Suc i)
  have ih: "finalize_all call i fs = call_all call (rev (entry_calls (take i fs)))" using Suc by (simp add: fun_eq_iff)
  show ?case using Suc.prems by (auto simp: take_Suc_conv_app_nth entry_calls_snoc ih split: option.splits)
qed

text \<open>The calls of one function; the others are left.\<close>

abbreviation of_func :: "nat \<Rightarrow> (nat \<times> uintptr) list \<Rightarrow> (nat \<times> uintptr) list" where
  "of_func f \<equiv> filter (\<lambda>(g, a). g = f)"

abbreviation not_of_func :: "nat \<Rightarrow> (nat \<times> uintptr) list \<Rightarrow> (nat \<times> uintptr) list" where
  "not_of_func f \<equiv> filter (\<lambda>(g, a). g \<noteq> f)"

definition drop_func :: "nat \<Rightarrow> atexit_func_entry_t \<Rightarrow> atexit_func_entry_t" where
  "drop_func f e = (if destructor_func e = Some f then e\<lparr>destructor_func := None\<rparr> else e)"

lemma finalize_func_ok:
  "i \<le> length fs \<Longrightarrow> finalize_func call f i fs s
    = rbind (call_all call (rev (of_func f (entry_calls (take i fs)))) s) (\<lambda>s1. Inr (map (drop_func f) (take i fs) @ drop i fs, s1))"
proof (induction i arbitrary: fs s)
  case 0
  then show ?case by (simp add: entry_calls_def)
next
  case (Suc i)
  let ?e = "fs ! i"
  show ?case
  proof (cases "destructor_func ?e = Some f")
    case True
    let ?fs = "fs[i := ?e\<lparr>destructor_func := None\<rparr>]"
    have ih: "finalize_func call f i ?fs = (\<lambda>s. rbind (call_all call (rev (of_func f (entry_calls (take i fs)))) s)
        (\<lambda>s1. Inr (map (drop_func f) (take i fs) @ drop i ?fs, s1)))" using Suc by (simp add: fun_eq_iff)
    have "drop i ?fs = ?e\<lparr>destructor_func := None\<rparr> # drop (Suc i) fs" using Suc.prems by (simp add: Cons_nth_drop_Suc[symmetric])
    then show ?thesis using Suc.prems True
      by (simp add: take_Suc_conv_app_nth entry_calls_snoc ih drop_func_def[of f ?e])
  next
    case False
    have "drop i fs = ?e # drop (Suc i) fs" using Suc.prems by (simp add: Cons_nth_drop_Suc)
    then show ?thesis using Suc False
      by (auto simp: take_Suc_conv_app_nth entry_calls_snoc drop_func_def split: option.splits)
  qed
qed

lemma entry_calls_drop: "entry_calls (map (drop_func f) fs) = not_of_func f (entry_calls fs)"
  by (induction fs) (auto simp: entry_calls_def drop_func_def split: option.splits)

text \<open>
  Exit functions run in the reverse order of their registration: registering adds a function at the end, up to the capacity of the
  table; finalising one function calls exactly its registered calls, last first, and
  removes them, so that they are never called again; finalising everything calls all that are left, last first.
\<close>

theorem cxa_finalize_reverse:
  assumes "atexit_inv t"
  shows "cxa_finalize call None t s = rbind (call_all call (rev (pending_calls t)) s) (\<lambda>s1. Inr (t, s1))
    \<and> (\<exists>t'. atexit_inv t' \<and> pending_calls t' = not_of_func f (pending_calls t)
      \<and> cxa_finalize call (Some f) t s = rbind (call_all call (rev (of_func f (pending_calls t))) s) (\<lambda>s1. Inr (t', s1)))
    \<and> (\<exists>v t'. cxa_atexit (Some f) objptr dso t = Inr (v, t') \<and> atexit_inv t'
      \<and> (if atexit_func_count t < ATEXIT_MAX_FUNCS then v = 0 \<and> pending_calls t' = pending_calls t @ [(f, objptr)] else v = - 1 \<and> t' = t))"
proof (intro conjI)
  let ?n = "atexit_func_count t" and ?fs = "atexit_funcs t"
  have n: "?n \<le> length ?fs" "length ?fs = ATEXIT_MAX_FUNCS" using assms by (simp_all add: atexit_inv_def)
  show "cxa_finalize call None t s = rbind (call_all call (rev (pending_calls t)) s) (\<lambda>s1. Inr (t, s1))"
    using finalize_all_ok[OF n(1), of call s] by (simp add: cxa_finalize_def pending_calls_def)
  let ?t = "t\<lparr>atexit_funcs := map (drop_func f) (take ?n ?fs) @ drop ?n ?fs\<rparr>"
  have "atexit_inv ?t" "pending_calls ?t = not_of_func f (pending_calls t)"
    using assms n by (simp_all add: atexit_inv_def pending_calls_def entry_calls_drop)
  then show "\<exists>t'. atexit_inv t' \<and> pending_calls t' = not_of_func f (pending_calls t)
      \<and> cxa_finalize call (Some f) t s = rbind (call_all call (rev (of_func f (pending_calls t))) s) (\<lambda>s1. Inr (t', s1))"
    using finalize_func_ok[OF n(1), of call f s] by (intro exI[of _ ?t]) (simp add: cxa_finalize_def pending_calls_def)
  show "\<exists>v t'. cxa_atexit (Some f) objptr dso t = Inr (v, t') \<and> atexit_inv t'
      \<and> (if ?n < ATEXIT_MAX_FUNCS then v = 0 \<and> pending_calls t' = pending_calls t @ [(f, objptr)] else v = - 1 \<and> t' = t)"
    using assms n by (simp add: cxa_atexit_def atexit_inv_def pending_calls_def take_Suc_conv_app_nth entry_calls_snoc)
qed

lemma atexit_start_inv: "atexit_inv atexit_start" "pending_calls atexit_start = []" "atexit_func_count atexit_start < ATEXIT_MAX_FUNCS"
  by (simp_all add: ATEXIT_MAX_FUNCS_def atexit_inv_def atexit_start_def pending_calls_def entry_calls_def)

theorem cxa_finalize_reverse_witness:
  "\<exists>v t'. cxa_atexit (Some 5) 0x1000 0 atexit_start = Inr (v, t') \<and> v = 0 \<and> pending_calls t' = [(5, 0x1000)]"
  using cxa_finalize_reverse[OF atexit_start_inv(1), of "\<lambda>_ _ s. Inr s" "()" 5 "0x1000" 0]
  by (auto simp: atexit_start_inv(2,3))

end
