(* ===== verification/Shell.thy ===== *)
theory Shell
  imports Kernel_Calls Ctype Runtime
begin

text \<open>
  The shell (\<open>programs/kvshell/src/main.cpp\<close>) with \<open>strtok\<close> (\<open>libc/src/string/strtok.c\<close>),
  the process test (\<open>programs/proc_test/main.cpp\<close>) and the start of programs (\<open>programs/start.c\<close>).

  The system calls of a program are functions on a state of any type. A pointer into the line buffer
  is an index. The line buffers are uninitialised (\<open>junk\<close>), as is a block that \<open>new\<close> returns (\<open>g\<close>).
\<close>

section \<open>Tokens\<close>

text \<open>The search through the delimiters.\<close>

fun is_delim :: "u8 \<Rightarrow> u8 list \<Rightarrow> bool res" where
  "is_delim c [] = Inl OutOfBounds"
| "is_delim c (d # delim) = (if d = 0 then Inr False else if c = d then Inr True else is_delim c delim)"

text \<open>The two loops of \<open>strtok\<close>: skipping delimiters, and finding the end of the token; the second says whether it ended at a delimiter.\<close>

function strtok_skip :: "u8 list \<Rightarrow> u8 list \<Rightarrow> nat \<Rightarrow> nat res" where
  "strtok_skip buf delim s =
     rbind (aread buf s) (\<lambda>c. if c = 0 then Inr s
     else rbind (is_delim c delim) (\<lambda>isDelim. if \<not> isDelim then Inr s else strtok_skip buf delim (s + 1)))"
  by pat_completeness auto
termination
  by (relation "measure (\<lambda>(buf, delim, s). length buf - s)") (auto simp: aread_Inr_iff)

function strtok_end :: "u8 list \<Rightarrow> u8 list \<Rightarrow> nat \<Rightarrow> (bool \<times> nat) res" where
  "strtok_end buf delim s =
     rbind (aread buf s) (\<lambda>c. if c = 0 then Inr (False, s)
     else rbind (is_delim c delim) (\<lambda>isDelim. if isDelim then Inr (True, s) else strtok_end buf delim (s + 1)))"
  by pat_completeness auto
termination
  by (relation "measure (\<lambda>(buf, delim, s). length buf - s)") (auto simp: aread_Inr_iff)

declare strtok_skip.simps [simp del] strtok_end.simps [simp del]

text \<open>\<open>s\<close> is the static pointer; the results are the token, the buffer and the static pointer.\<close>

definition strtok :: "u8 list \<Rightarrow> nat option \<Rightarrow> u8 list \<Rightarrow> nat option \<Rightarrow> (nat option \<times> u8 list \<times> nat option) res" where
  "strtok buf str delim s =
     (case (if str \<noteq> None then str else s) of
        None \<Rightarrow> Inl NullPointer
      | Some s0 \<Rightarrow>
          rbind (strtok_skip buf delim s0) (\<lambda>tok.
          rbind (aread buf tok) (\<lambda>c.
          if c = 0 then Inr (None, buf, Some tok)
          else rbind (strtok_end buf delim tok) (\<lambda>(found, e).
               if found then rbind (awrite buf e 0) (\<lambda>buf1. Inr (Some tok, buf1, Some (e + 1)))
               else Inr (Some tok, buf, Some e)))))"

section \<open>Commands\<close>

datatype Command = CmdExit | CmdWho | CmdEcho | CmdSleep | CmdDie | CmdUnknown

record 's sys =
  s_write :: "u32 \<Rightarrow> u8 list \<Rightarrow> 's \<Rightarrow> (int \<times> 's) res"
  s_read1 :: "'s \<Rightarrow> (u8 option \<times> 's) res"
  s_sleep :: "u32 \<Rightarrow> 's \<Rightarrow> (int \<times> 's) res"
  s_die :: "'s \<Rightarrow> (int \<times> 's) res"

definition line_buffer :: "(nat \<Rightarrow> u8) \<Rightarrow> u8 list" where
  "line_buffer junk = map junk [0..<100]"

definition who :: "nat \<Rightarrow> (nat \<Rightarrow> u8) \<Rightarrow> 's sys \<Rightarrow> 's \<Rightarrow> 's res" where
  "who fuel junk sys s =
     rbind (printf junk (s_write sys) (cstr ''Who are you? '') [] s) (\<lambda>(_, s1).
     rbind (gets fuel (junk 0) (s_read1 sys) (line_buffer junk) s1) (\<lambda>(str, _, s2).
     rbind (printf junk (s_write sys) (cstr (''Hello, %s!'' @ [CHR 0x0A])) [VStr str] s2) (\<lambda>(_, s3). Inr s3)))"

definition unknown :: "(nat \<Rightarrow> u8) \<Rightarrow> 's sys \<Rightarrow> 's \<Rightarrow> 's res" where
  "unknown junk sys s = rbind (puts junk (s_write sys) (cstr ''Unrecognized command. Try harder.'') s) (\<lambda>(_, s1). Inr s1)"

definition echo :: "(nat \<Rightarrow> u8) \<Rightarrow> 's sys \<Rightarrow> u8 list \<Rightarrow> 's \<Rightarrow> 's res" where
  "echo junk sys str s = rbind (puts junk (s_write sys) str s) (\<lambda>(_, s1). Inr s1)"

text \<open>Arithmetic of type \<open>int\<close>.\<close>

definition int_arith :: "int \<Rightarrow> int res" where
  "int_arith v = (if - (2 ^ 31) \<le> v \<and> v < 2 ^ 31 then Inr v else Inl SignedOverflow)"

fun pow_loop :: "int \<Rightarrow> nat \<Rightarrow> int \<Rightarrow> int res" where
  "pow_loop base 0 result = Inr result"
| "pow_loop base (Suc n) result = rbind (int_arith (result * base)) (pow_loop base n)"

definition pow :: "int \<Rightarrow> nat \<Rightarrow> int res" where
  "pow base exp = pow_loop base exp 1"

text \<open>The loop over the characters from the last one on; \<open>None\<close> is the early return.\<close>

fun secs_loop :: "u8 list \<Rightarrow> int \<Rightarrow> nat \<Rightarrow> int option res" where
  "secs_loop [] secs place = Inr (Some secs)"
| "secs_loop (c # it) secs place =
     (if \<not> isdigit (sint c) then Inr None
      else rbind (pow 10 place) (\<lambda>p.
           rbind (int_arith ((sint c - 48) * p)) (\<lambda>v.
           rbind (int_arith (secs + v)) (\<lambda>secs1. secs_loop it secs1 (place + 1)))))"

definition sleep :: "u8 \<Rightarrow> (nat \<Rightarrow> u8) \<Rightarrow> 's sys \<Rightarrow> u8 list \<Rightarrow> 's \<Rightarrow> 's res" where
  "sleep g junk sys str s =
     rbind (BasicString_of_cstr g str) (\<lambda>timeString.
     rbind (secs_loop (rev (take (unat (bs_size timeString)) (bs_data timeString))) 0 0) (\<lambda>r. case r of
       None \<Rightarrow> Inr s
     | Some secs \<Rightarrow>
         rbind (printf junk (s_write sys) (cstr (''Sleeping for %d seconds'' @ [CHR 0x0A])) [VInt (of_int secs)] s) (\<lambda>(_, s1).
         rbind (s_sleep sys (of_int secs) s1) (\<lambda>(_, s2). Inr s2))))"

definition parseCommand :: "u8 list \<Rightarrow> Command res" where
  "parseCommand token =
     rbind (strcmp token (cstr ''who'')) (\<lambda>a. if a = 0 then Inr CmdWho else
     rbind (strcmp token (cstr ''exit'')) (\<lambda>b. if b = 0 then Inr CmdExit else
     rbind (strcmp token (cstr ''quit'')) (\<lambda>c. if c = 0 then Inr CmdExit else
     rbind (strcmp token (cstr ''echo'')) (\<lambda>d. if d = 0 then Inr CmdEcho else
     rbind (strcmp token (cstr ''sleep'')) (\<lambda>e. if e = 0 then Inr CmdSleep else
     rbind (strcmp token (cstr ''die'')) (\<lambda>f. if f = 0 then Inr CmdDie else
     rbind (strcmp token (cstr ''sudoku'')) (\<lambda>h. Inr (if h = 0 then CmdDie else CmdUnknown))))))))"

definition run_command :: "nat \<Rightarrow> u8 \<Rightarrow> (nat \<Rightarrow> u8) \<Rightarrow> 's sys \<Rightarrow> Command \<Rightarrow> u8 list \<Rightarrow> 's \<Rightarrow> 's res" where
  "run_command fuel g junk sys cmd argv s = (case cmd of
     CmdWho \<Rightarrow> who fuel junk sys s
   | CmdUnknown \<Rightarrow> unknown junk sys s
   | CmdEcho \<Rightarrow> echo junk sys argv s
   | CmdSleep \<Rightarrow> sleep g junk sys argv s
   | CmdDie \<Rightarrow> rbind (s_die sys s) (\<lambda>(_, s1). Inr s1)
   | CmdExit \<Rightarrow> Inr s)"

definition readCommand :: "nat \<Rightarrow> u8 \<Rightarrow> (nat \<Rightarrow> u8) \<Rightarrow> 's sys \<Rightarrow> 's \<Rightarrow> (Command \<times> 's) res" where
  "readCommand fuel g junk sys s =
     rbind (gets fuel (junk 0) (s_read1 sys) (line_buffer junk) s) (\<lambda>(str, _, s1).
     rbind (cstrlen str) (\<lambda>len.
     if len = 0 then Inr (CmdUnknown, s1)
     else rbind (strtok str (Some 0) [32, 0] None) (\<lambda>(arg0, str1, _). case arg0 of
            None \<Rightarrow> Inr (CmdUnknown, s1)
          | Some a \<Rightarrow>
              rbind (cstrlen (drop a str1)) (\<lambda>toklen.
              let argv = (if toklen < len then drop (unat toklen + 1) str1 else drop (unat toklen) str1) in
              rbind (parseCommand (drop a str1)) (\<lambda>cmd.
              rbind (run_command fuel g junk sys cmd argv s1) (\<lambda>s2. Inr (cmd, s2)))))))"

text \<open>The loop of \<open>main\<close>, which may never end; \<open>fuel\<close> bounds the rounds and the characters of a line.\<close>

fun shell_loop :: "nat \<Rightarrow> nat \<Rightarrow> u8 \<Rightarrow> (nat \<Rightarrow> u8) \<Rightarrow> 's sys \<Rightarrow> 's \<Rightarrow> 's res" where
  "shell_loop 0 fuel g junk sys s = Inl Hang"
| "shell_loop (Suc n) fuel g junk sys s =
     rbind (printf junk (s_write sys) (cstr ''kvsh |#> '') [] s) (\<lambda>(_, s1).
     rbind (readCommand fuel g junk sys s1) (\<lambda>(c, s2).
     if c \<noteq> CmdExit then shell_loop n fuel g junk sys s2 else Inr s2))"

definition shell_main :: "nat \<Rightarrow> nat \<Rightarrow> u8 \<Rightarrow> (nat \<Rightarrow> u8) \<Rightarrow> 's sys \<Rightarrow> 's \<Rightarrow> (u32 \<times> 's) res" where
  "shell_main n fuel g junk sys s = rbind (shell_loop n fuel g junk sys s) (\<lambda>s1. Inr (0xDEADC0DE, s1))"

text \<open>The process test prints its first argument as a format.\<close>

definition proc_test_main :: "(nat \<Rightarrow> u8) \<Rightarrow> 's sys \<Rightarrow> u8 list list \<Rightarrow> 's \<Rightarrow> (u32 \<times> 's) res" where
  "proc_test_main junk sys argv s =
     rbind (aread argv 0) (\<lambda>format. rbind (printf junk (s_write sys) format [] s) (\<lambda>(_, s1). Inr (0, s1)))"

text \<open>
  The start of a program: \<open>init\<close> and \<open>fini\<close> are assembled from the compiler's own files. The exit
  functions are registered in \<open>table\<close>; \<open>sys_exit\<close> may return.
\<close>

definition program_start ::
  "('s \<Rightarrow> 's res) \<Rightarrow> ('s \<Rightarrow> (u32 \<times> 's) res) \<Rightarrow> (nat \<Rightarrow> uintptr \<Rightarrow> 's \<Rightarrow> 's res) \<Rightarrow> atexit_table \<Rightarrow> ('s \<Rightarrow> 's res)
    \<Rightarrow> (u32 \<Rightarrow> 's \<Rightarrow> (int \<times> 's) res) \<Rightarrow> 's \<Rightarrow> (u32 \<times> 's) res" where
  "program_start init main call table fini sys_exit s =
     rbind (init s) (\<lambda>s1.
     rbind (main s1) (\<lambda>(ret, s2).
     rbind (cxa_finalize call None table s2) (\<lambda>(_, s3).
     rbind (fini s3) (\<lambda>s4.
     rbind (sys_exit ret s4) (\<lambda>(_, s5). Inr (ret, s5))))))"

section \<open>What a session shows\<close>

text \<open>
  The specification of the shell is a function on the bytes that are typed. A line is typed up to a
  line feed, with room for 100 characters; \<open>chars_fit\<close> says that the characters so far have room.
\<close>

fun chars_fit :: "u8 list \<Rightarrow> nat \<Rightarrow> nat \<Rightarrow> bool" where
  "chars_fit [] n room = True"
| "chars_fit (c # w) n room = (n < room \<and> chars_fit w (if c = 8 then n - 1 else Suc n) room)"

definition next_line :: "u8 list \<Rightarrow> (u8 list \<times> u8 list) res" where
  "next_line inp = (let typed = takeWhile (\<lambda>c. c \<noteq> 10) inp in
     case dropWhile (\<lambda>c. c \<noteq> 10) inp of
       [] \<Rightarrow> Inl (if chars_fit typed 0 100 then Hang else OutOfBounds)
     | _ # rest \<Rightarrow> if line_fits typed 0 100 then Inr (typed, rest) else Inl OutOfBounds)"

definition leading :: "u8 list \<Rightarrow> u8 list" where
  "leading line = takeWhile (\<lambda>c. c = 32) line"

definition first_word :: "u8 list \<Rightarrow> u8 list" where
  "first_word line = takeWhile (\<lambda>c. c \<noteq> 32) (dropWhile (\<lambda>c. c = 32) line)"

text \<open>The argument of a command: behind leading spaces it is a piece of the command itself.\<close>

definition argument :: "u8 list \<Rightarrow> u8 list" where
  "argument line = drop (Suc (length (first_word line))) (if leading line = [] then line else leading line @ first_word line)"

definition command_of :: "u8 list \<Rightarrow> Command" where
  "command_of w = (case map_of (map (\<lambda>(s, c). (map of_char s, c))
     [(''who'', CmdWho), (''exit'', CmdExit), (''quit'', CmdExit), (''echo'', CmdEcho), (''sleep'', CmdSleep),
      (''die'', CmdDie), (''sudoku'', CmdDie)]) w of None \<Rightarrow> CmdUnknown | Some c \<Rightarrow> c)"

text \<open>A number of seconds, read from the last digit on.\<close>

definition digit_tail :: "u8 list \<Rightarrow> u8 list" where
  "digit_tail arg = takeWhile (\<lambda>c. isdigit (sint c)) (rev arg)"

primrec dec_value :: "u8 list \<Rightarrow> int" where
  "dec_value [] = 0"
| "dec_value (c # w) = (sint c - 48) + 10 * dec_value w"

definition seconds :: "u8 list \<Rightarrow> int option res" where
  "seconds arg = (let d = digit_tail arg in
     if length d > 10 \<or> dec_value d \<ge> 2 ^ 31 then Inl SignedOverflow
     else Inr (if length d = length arg then Some (dec_value d) else None))"

text \<open>What a command answers, and the input it leaves.\<close>

definition respond :: "u8 list \<Rightarrow> u8 list \<Rightarrow> (Command \<times> u8 list \<times> u8 list) res" where
  "respond line inp =
     (if first_word line = [] then Inr (CmdUnknown, [], inp)
      else case command_of (first_word line) of
        CmdWho \<Rightarrow> rbind (next_line inp) (\<lambda>(typed, rest).
          Inr (CmdWho, ascii ''Who are you? '' @ typed @ [10] @ ascii ''Hello, '' @ edit_line typed [] @ ascii ''!'' @ [10], rest))
      | CmdUnknown \<Rightarrow> Inr (CmdUnknown, ascii ''Unrecognized command. Try harder.'' @ [10], inp)
      | CmdEcho \<Rightarrow> Inr (CmdEcho, argument line @ [10], inp)
      | CmdSleep \<Rightarrow> rbind (seconds (argument line)) (\<lambda>secs. Inr (CmdSleep, case secs of None \<Rightarrow> []
          | Some n \<Rightarrow> ascii ''Sleeping for '' @ int_text n @ ascii '' seconds'' @ [10], inp))
      | CmdDie \<Rightarrow> Inl (KernelPanic ''Committed honorable sudoku'')
      | CmdExit \<Rightarrow> Inr (CmdExit, [], inp))"

lemma next_line_shrinks: "next_line inp = Inr (line, rest) \<Longrightarrow> length rest < length inp"
  using length_dropWhile_le[of "\<lambda>c. c \<noteq> 10" inp] by (auto simp: next_line_def Let_def split: list.splits if_splits)

lemma respond_shrinks: "respond line inp = Inr (c, out, rest) \<Longrightarrow> length rest \<le> length inp"
  by (auto simp: respond_def dest: next_line_shrinks split: if_splits Command.splits)

text \<open>A round of the loop, after the prompt.\<close>

definition shell_round :: "u8 list \<Rightarrow> (Command \<times> u8 list \<times> u8 list) res" where
  "shell_round inp =
     rbind (next_line inp) (\<lambda>(l, inp1). rbind (respond (edit_line l []) inp1) (\<lambda>(c, out, rest). Inr (c, l @ [10] @ out, rest)))"

lemma round_shrinks: "shell_round inp = Inr (c, out, rest) \<Longrightarrow> length rest < length inp"
  by (auto simp: shell_round_def dest!: next_line_shrinks respond_shrinks)

function session :: "u8 list \<Rightarrow> (u8 list \<times> u8 list) res" where
  "session inp =
     rbind (shell_round inp) (\<lambda>(c, out, inp1).
     if c = CmdExit then Inr (ascii ''kvsh |#> '' @ out, inp1)
     else rbind (session inp1) (\<lambda>(mr, rest). Inr (ascii ''kvsh |#> '' @ out @ mr, rest)))"
  by pat_completeness auto
termination
  by (relation "measure length") (auto dest!: round_shrinks)

declare session.simps [simp del]

section \<open>Tokens and numbers\<close>

lemma aread_append [simp]: "aread (xs @ y # ys) (length xs) = Inr y"
  by (simp add: aread_def)

lemma is_delim_space: "is_delim c [32, 0] = Inr (c = 32)"
  by simp

lemma strtok_skip_ok:
  "0 \<notin> set line \<Longrightarrow> strtok_skip (pre @ line @ 0 # ys) [32, 0] (length pre) = Inr (length pre + length (leading line))"
proof (induction line arbitrary: pre)
  case Nil
  then show ?case by (subst strtok_skip.simps) (simp add: leading_def)
next
  case (Cons c line)
  then show ?case using Cons.IH[of "pre @ [c]"] by (subst strtok_skip.simps) (auto simp: leading_def)
qed

lemma strtok_end_ok:
  "0 \<notin> set line \<Longrightarrow> strtok_end (pre @ line @ 0 # ys) [32, 0] (length pre)
     = Inr (32 \<in> set line, length pre + length (takeWhile (\<lambda>c. c \<noteq> 32) line))"
proof (induction line arbitrary: pre)
  case Nil
  then show ?case by (subst strtok_end.simps) simp
next
  case (Cons c line)
  then show ?case using Cons.IH[of "pre @ [c]"] by (subst strtok_end.simps) simp
qed

lemma line_split:
  obtains "first_word line = []" "line = leading line"
  | "first_word line \<noteq> []" "line = leading line @ first_word line"
  | mr where "first_word line \<noteq> []" "line = leading line @ first_word line @ 32 # mr"
proof (cases "dropWhile (\<lambda>c. c = 32) line")
  case Nil
  then have "first_word line = []" by (simp only: first_word_def takeWhile.simps)
  moreover have "line = leading line" using takeWhile_dropWhile_id[of "\<lambda>c. c = 32" line] Nil by (simp only: leading_def append_Nil2)
  ultimately show ?thesis by (rule that(1))
next
  case (Cons c w)
  then have w: "first_word line \<noteq> []" using hd_dropWhile[of "\<lambda>c. c = 32" line] by (auto simp: first_word_def)
  let ?d = "dropWhile (\<lambda>c. c = 32) line"
  have l: "line = leading line @ first_word line @ dropWhile (\<lambda>c. c \<noteq> 32) ?d"
    by (simp add: leading_def first_word_def)
  show ?thesis
  proof (cases "dropWhile (\<lambda>c. c \<noteq> 32) ?d")
    case Nil
    show ?thesis by (rule that(2)[OF w l[unfolded Nil append_Nil2]])
  next
    case (Cons a mr)
    then have "a = 32" using hd_dropWhile[of "\<lambda>c. c \<noteq> 32" ?d] by simp
    show ?thesis by (rule that(3)[OF w l[unfolded Cons \<open>a = 32\<close>]])
  qed
qed

lemma first_word_no_space: "32 \<notin> set (first_word line)"
  by (auto simp: first_word_def dest: set_takeWhileD)

lemma word_ends: "takeWhile (\<lambda>c. c \<noteq> 32) (first_word line) = first_word line"
    "takeWhile (\<lambda>c. c \<noteq> 32) (first_word line @ 32 # mr) = first_word line"
  using first_word_no_space[of line] by (auto simp: takeWhile_eq_all_conv takeWhile_append)

lemma strtok_word:
  assumes "0 \<notin> set line" "first_word line \<noteq> []"
  shows "\<exists>tail s. strtok (line @ 0 # ys) (Some 0) [32, 0] None
      = Inr (Some (length (leading line)), leading line @ first_word line @ 0 # tail, s)
    \<and> (leading line = [] \<longrightarrow> length (first_word line) < length line \<longrightarrow> tail = drop (Suc (length (first_word line))) line @ 0 # ys)"
proof -
  let ?l = "leading line" and ?w = "first_word line"
  have sk: "strtok_skip (line @ 0 # ys) [32, 0] 0 = Inr (length ?l)" using strtok_skip_ok[OF assms(1), of "[]" ys] by simp
  have wz: "0 \<notin> set ?w" "?w ! 0 \<noteq> 0" if "line = ?l @ ?w @ t" for t
    using assms that by (metis Un_iff set_append, metis Un_iff nth_mem length_greater_0_conv set_append)
  show ?thesis
  proof (cases rule: line_split[of line])
    case 1
    then show ?thesis using assms(2) by simp
  next
    case 2
    have e: "strtok_end (?l @ ?w @ 0 # ys) [32, 0] (length ?l) = Inr (False, length ?l + length ?w)"
      using strtok_end_ok[of ?w ?l ys] first_word_no_space[of line] wz[of "[]"] 2(2) by (simp add: word_ends)
    have b: "line @ 0 # ys = ?l @ ?w @ 0 # ys" by (subst 2(2)) simp
    have r: "aread (?l @ ?w @ 0 # ys) (length ?l) = Inr (?w ! 0)" using assms(2) by (simp add: aread_def nth_append)
    have "strtok (line @ 0 # ys) (Some 0) [32, 0] None = Inr (Some (length ?l), ?l @ ?w @ 0 # ys, Some (length ?l + length ?w))"
      using sk e r wz(2)[of "[]"] 2(2) unfolding b strtok_def by simp
    moreover have "length ?w = length line" if "?l = []" using 2(2) that by (metis append_Nil)
    ultimately show ?thesis by auto
  next
    case (3 mr)
    have z: "0 \<notin> set (?w @ 32 # mr)" using assms(1) 3(2) by (metis Un_iff set_append)
    have e: "strtok_end (?l @ ?w @ 32 # mr @ 0 # ys) [32, 0] (length ?l) = Inr (True, length ?l + length ?w)"
      using strtok_end_ok[of "?w @ 32 # mr" ?l ys, unfolded word_ends] z by simp
    have b: "line @ 0 # ys = ?l @ ?w @ 32 # mr @ 0 # ys" by (subst 3(2)) simp
    have r: "aread (?l @ ?w @ 32 # mr @ 0 # ys) (length ?l) = Inr (?w ! 0)" using assms(2) by (simp add: aread_def nth_append)
    have u: "awrite (?l @ ?w @ 32 # mr @ 0 # ys) (length ?l + length ?w) 0 = Inr (?l @ ?w @ 0 # mr @ 0 # ys)"
      by (simp add: list_update_append)
    have "strtok (line @ 0 # ys) (Some 0) [32, 0] None
      = Inr (Some (length ?l), ?l @ ?w @ 0 # mr @ 0 # ys, Some (length ?l + length ?w + 1))"
      using sk e r u wz(2)[of "32 # mr"] 3(2) unfolding b strtok_def by simp
    moreover have "drop (Suc (length ?w)) line = mr" if "?l = []" using 3(2) that
      by (metis append_Nil append_eq_conv_conj drop_Suc drop_drop list.sel(3) plus_1_eq_Suc tl_drop)
    ultimately show ?thesis by auto
  qed
qed

lemma drop_prefix: "drop (length xs) (xs @ ys) = ys"
  by simp

lemma length_line_buffer [simp]: "length (line_buffer junk) = 100"
  by (simp add: line_buffer_def)

lemma strtok_blank:
  assumes "0 \<notin> set line" "first_word line = []"
  shows "\<exists>s. strtok (line @ 0 # ys) (Some 0) [32, 0] None = Inr (None, line @ 0 # ys, s)"
proof -
  have "length (leading line) = length line" using assms(2) by (cases rule: line_split[of line]) simp_all
  then show ?thesis using strtok_skip_ok[OF assms(1), of "[]" ys] by (simp add: strtok_def)
qed

lemma argument_in_buffer:
  assumes "first_word line \<noteq> []" "leading line = [] \<longrightarrow> length (first_word line) < length line \<longrightarrow> tail = drop (Suc (length (first_word line))) line @ 0 # ys"
  shows "\<exists>zs. (if length (first_word line) < length line then drop (Suc (length (first_word line))) (leading line @ first_word line @ 0 # tail)
    else drop (length (first_word line)) (leading line @ first_word line @ 0 # tail)) = argument line @ 0 # zs"
proof (cases "leading line")
  case Nil
  then show ?thesis using assms(2) by (auto simp: argument_def)
next
  case (Cons c w)
  have "length (first_word line) < length (leading line @ first_word line)" using Cons by simp
  also have "\<dots> \<le> length line" using assms(1) by (cases rule: line_split[of line]) (metis, metis order_refl, metis append_assoc length_append le_add1)
  finally show ?thesis using Cons by (auto simp: argument_def)
qed

lemma line_prefix: "\<exists>t. line = leading line @ first_word line @ t"
proof (cases rule: line_split[of line])
  case 1
  then show ?thesis by (intro exI[of _ "[]"]) (simp only: append_Nil2)
next
  case 2
  then show ?thesis by (intro exI[of _ "[]"]) (simp only: append_Nil2)
next
  case (3 mr)
  then show ?thesis by blast
qed

lemma word_of: "set (first_word line) \<subseteq> set line" "length (first_word line) \<le> length line"
  using line_prefix[of line] by (metis Un_iff set_append subsetI, metis length_append le_add1 le_add2 order_trans)

lemma argument_of: "set (argument line) \<subseteq> set line" "length (argument line) \<le> length line"
proof -
  obtain t where t: "line = (leading line @ first_word line) @ t" using line_prefix[of line] by auto
  have "set (leading line @ first_word line) \<subseteq> set line" by (subst (3) t) auto
  moreover have "length (leading line @ first_word line) \<le> length line" by (subst (3) t) auto
  ultimately show "set (argument line) \<subseteq> set line" "length (argument line) \<le> length line"
    using set_drop_subset[of "Suc (length (first_word line))" line] set_drop_subset[of "Suc (length (first_word line))" "leading line @ first_word line"]
    by (auto simp: argument_def)
qed

lemma strcmp_command:
  assumes "0 \<notin> set w" "0 \<notin> set (map of_char lit :: u8 list)"
  shows "rbind (strcmp (w @ 0 # ys) (cstr lit)) (\<lambda>a. if a = 0 then x else y) = (if w = map of_char lit then x else y)"
  using strcmp_ok[of "w @ 0 # ys" "cstr lit"] ctext_terminated[OF assms(1), of ys] ctext_terminated[OF assms(2), of "[]"]
  by (auto simp: cstr_def)

lemma parseCommand_ok:
  assumes "0 \<notin> set w"
  shows "parseCommand (w @ 0 # ys) = Inr (command_of w)"
proof -
  have last: "rbind m (\<lambda>h. Inr (if h = 0 then x else y)) = rbind m (\<lambda>h. if h = (0 :: int) then Inr x else Inr y)" for m and x y :: Command
    by (rule rbind_cong) auto
  have l: "0 \<notin> set (map of_char ''who'' :: u8 list)" "0 \<notin> set (map of_char ''exit'' :: u8 list)" "0 \<notin> set (map of_char ''quit'' :: u8 list)"
    "0 \<notin> set (map of_char ''echo'' :: u8 list)" "0 \<notin> set (map of_char ''sleep'' :: u8 list)" "0 \<notin> set (map of_char ''die'' :: u8 list)"
    "0 \<notin> set (map of_char ''sudoku'' :: u8 list)" by (simp_all add: of_char_def)
  show ?thesis unfolding parseCommand_def last
    by (simp only: strcmp_command[OF assms l(1)] strcmp_command[OF assms l(2)] strcmp_command[OF assms l(3)] strcmp_command[OF assms l(4)]
        strcmp_command[OF assms l(5)] strcmp_command[OF assms l(6)] strcmp_command[OF assms l(7)]) (simp add: command_of_def)
qed

lemma pow_ten: "n \<le> 9 \<Longrightarrow> pow 10 n = Inr (10 ^ n)"
proof -
  have "list_all (\<lambda>n. pow 10 n = Inr (10 ^ n)) [0..<10]" by code_simp
  then show "n \<le> 9 \<Longrightarrow> pow 10 n = Inr (10 ^ n)" unfolding list_all_iff by simp
qed

lemma pow_ten_overflow: "pow 10 10 = Inl SignedOverflow"
  by code_simp

lemma dec_value_pos: "list_all (\<lambda>c. isdigit (sint c)) w \<Longrightarrow> 0 \<le> dec_value w"
  by (induction w) (auto simp: isdigit_def)

lemma secs_loop_ok:
  assumes "0 \<le> secs" "secs < 2 ^ 31" "place \<le> 10"
  shows "secs_loop w secs place = (let d = takeWhile (\<lambda>c. isdigit (sint c)) w; v = secs + 10 ^ place * dec_value d in
     if place + length d > 10 \<or> v \<ge> 2 ^ 31 then Inl SignedOverflow
     else Inr (if length d = length w then Some v else None))"
  using assms
proof (induction w arbitrary: secs place)
  case (Cons c w)
  let ?d = "takeWhile (\<lambda>c. isdigit (sint c)) w"
  show ?case
  proof (cases "isdigit (sint c) \<and> place \<noteq> 10")
    case True
    then have v: "0 \<le> sint c - 48" "place \<le> 9" using Cons.prems(3) by (auto simp: isdigit_def)
    let ?v = "(sint c - 48) * 10 ^ place"
    have s: "secs + 10 ^ place * dec_value (c # ?d) = (secs + ?v) + 10 ^ (place + 1) * dec_value ?d"
      by (simp add: algebra_simps)
    have "0 \<le> dec_value ?d" by (rule dec_value_pos) (auto simp: list_all_iff dest: set_takeWhileD)
    then have g: "0 \<le> ?v" "0 \<le> 10 ^ (place + 1) * dec_value ?d" using v by simp_all
    have dl: "length ?d \<le> length w" by (rule length_takeWhile_le)
    show ?thesis
    proof (cases "secs + ?v < 2 ^ 31")
      case True
      then have "int_arith ?v = Inr ?v" "int_arith (secs + ?v) = Inr (secs + ?v)" using g Cons.prems(1) by (simp_all add: int_arith_def)
      then have "secs_loop (c # w) secs place = secs_loop w (secs + ?v) (place + 1)"
        using \<open>isdigit _ \<and> _\<close> pow_ten[OF v(2)] by simp
      then show ?thesis using Cons.IH[of "secs + ?v" "place + 1"] g Cons.prems(1) v(2) True \<open>isdigit _ \<and> _\<close> s
        by (simp add: Let_def)
    next
      case False
      then have "secs_loop (c # w) secs place = Inl SignedOverflow"
        using \<open>isdigit _ \<and> _\<close> pow_ten[OF v(2)] g Cons.prems(1) by (auto simp: int_arith_def)
      then show ?thesis using False g \<open>isdigit _ \<and> _\<close> s by (simp add: Let_def)
    qed
  next
    case False
    then show ?thesis using Cons.prems by (auto simp: pow_ten_overflow)
  qed
qed simp

lemma gets_loop_stuck:
  assumes "feeds rd s w s'" "rd s' = Inl Hang" "10 \<notin> set w" "length w < fuel"
  shows "gets_loop fuel junk rd buf str s = Inl (if chars_fit w str (length buf) then Hang else OutOfBounds)"
  using assms
proof (induction w arbitrary: s fuel buf str)
  case Nil
  then obtain k where "fuel = Suc k" by (cases fuel) auto
  moreover have "s' = s" using Nil.prems(1) by (auto elim: feeds_NilE)
  ultimately show ?case using Nil.prems(2) by (simp add: getchar_def)
next
  case (Cons c w)
  obtain k where k: "fuel = Suc k" "length w < k" using Cons.prems(4) by (cases fuel) auto
  from Cons.prems(1) obtain s1 where r: "rd s = Inr (Some c, s1)" "feeds rd s1 w s'" by (auto elim!: feeds_ConsE)
  show ?case
  proof (cases "str < length buf")
    case True
    then show ?thesis using Cons.IH[OF r(2) Cons.prems(2) _ k(2)] Cons.prems(3) k(1) r(1) by (auto simp: getchar_def)
  next
    case False
    then show ?thesis using k(1) r(1) by (simp add: getchar_def)
  qed
qed

lemma edit_line_set: "set (edit_line w acc) \<subseteq> set w \<union> set acc"
proof (induction w arbitrary: acc)
  case (Cons c w)
  have "set (edit_char c acc) \<subseteq> insert c (set acc)" by (auto simp: edit_char_def dest: in_set_butlastD)
  then show ?case using Cons.IH[of "edit_char c acc"] by (auto simp: edit_line_def)
qed (simp add: edit_line_def)

lemma edit_line_length: "line_fits w (length acc) room \<Longrightarrow> length (edit_line w acc) < room"
proof (induction w arbitrary: acc)
  case (Cons c w)
  have "length (edit_char c acc) = (if c = 8 then length acc - 1 else Suc (length acc))" by (simp add: edit_char_def)
  then show ?case using Cons.IH[of "edit_char c acc"] Cons.prems by (simp add: edit_line_def)
qed (simp add: edit_line_def)

lemma next_line_Inr:
  assumes "next_line inp = Inr (l, rest)"
  shows "inp = l @ 10 # rest" "10 \<notin> set l" "line_fits l 0 100"
proof -
  obtain c where d: "dropWhile (\<lambda>c. c \<noteq> 10) inp = c # rest" "l = takeWhile (\<lambda>c. c \<noteq> 10) inp" "line_fits l 0 100"
    using assms by (auto simp: next_line_def Let_def split: list.splits if_splits)
  then have "c = 10" using hd_dropWhile[of "\<lambda>c. c \<noteq> 10" inp] by simp
  then show "inp = l @ 10 # rest" "10 \<notin> set l" "line_fits l 0 100"
    using d takeWhile_dropWhile_id[of "\<lambda>c. c \<noteq> 10" inp] by (auto dest: set_takeWhileD)
qed

section \<open>The environment of the shell\<close>

text \<open>
  What the shell needs of the system calls: the bytes it writes appear on the display, in order and in pieces;
  a read takes the next byte of the input, which is echoed, and waits for ever when there is none.
\<close>

locale shell_env = text_output "printf_print (s_write sys)" "\<lambda>t. length t < 2 ^ 31"
  for sys :: "'s sys" +
  fixes ok :: "'s \<Rightarrow> bool"
    and input :: "'s \<Rightarrow> u8 list"
    and view :: "'s \<Rightarrow> 'v"
    and disp :: "u8 \<Rightarrow> 'v \<Rightarrow> 'v"
  assumes write_ok: "ok s \<Longrightarrow> length t < 2 ^ 31 \<Longrightarrow>
      \<exists>n s'. s_write sys 0 t s = Inr (n, s') \<and> ok s' \<and> input s' = input s \<and> view s' = fold disp t (view s)"
    and read_none: "ok s \<Longrightarrow> input s = [] \<Longrightarrow> s_read1 sys s = Inl Hang"
    and read_some: "ok s \<Longrightarrow> input s = c # w \<Longrightarrow>
      \<exists>s'. s_read1 sys s = Inr (Some c, s') \<and> ok s' \<and> input s' = w \<and> view s' = disp c (view s)"
    and sleep_ok: "ok s \<Longrightarrow> \<exists>r. s_sleep sys secs s = Inr (r, s)"
    and die_panics: "s_die sys s = Inl (KernelPanic ''Committed honorable sudoku'')"
    and input_nonzero: "ok s \<Longrightarrow> 0 \<notin> set (input s)"
begin

definition ran :: "'s \<Rightarrow> u8 list \<Rightarrow> u8 list \<Rightarrow> 's \<Rightarrow> bool" where
  "ran s out rest s' \<longleftrightarrow> ok s' \<and> input s' = rest \<and> view s' = fold disp out (view s)"

lemma ran_trans: "ran s o1 r1 s1 \<Longrightarrow> ran s1 o2 r2 s2 \<Longrightarrow> ran s (o1 @ o2) r2 s2"
  by (simp add: ran_def)

lemma printf_ok:
  assumes "ok s" "literal t" "fmt_ok dirs" "length (t @ fmt_text dirs) < 2 ^ 31"
  shows "\<exists>n s'. printf junk (s_write sys) (t @ fmt_string dirs @ [0]) (fmt_args dirs) s = Inr (n, s')
    \<and> ran s (t @ fmt_text dirs) (input s) s'"
proof (cases "t = [] \<and> dirs = []")
  case True
  then show ?thesis using vsprintf_ok[OF assms(2-4), of junk "(0, s)"] assms(1) by (simp add: printf_def ran_def)
next
  case False
  from write_ok[OF assms(1,4)] obtain n s' where "s_write sys 0 (t @ fmt_text dirs) s = Inr (n, s')"
    "ran s (t @ fmt_text dirs) (input s) s'" by (auto simp: ran_def)
  then show ?thesis using vsprintf_ok[OF assms(2-4), of junk "(0, s)"] False by (auto simp: printf_def printf_print_def)
qed

lemma print_literal:
  assumes "ok s" "literal (ascii t)" "length t < 2 ^ 31"
  shows "\<exists>n s'. printf junk (s_write sys) (cstr t) [] s = Inr (n, s') \<and> ran s (ascii t) (input s) s'"
  using printf_ok[OF assms(1,2), of "[]" junk] assms(3) by (simp add: cstr_def ascii_def)

lemma puts_ok:
  assumes "ok s" "0 \<notin> set t" "length t < 2 ^ 30"
  shows "\<exists>n s'. puts junk (s_write sys) (t @ 0 # ys) s = Inr (n, s') \<and> ran s (t @ [10]) (input s) s'"
  using printf_ok[OF assms(1), of "[]" "[(DStr t ys, [10])]" junk] assms(2,3) by (simp add: puts_def literal_def)

lemma feeds_input: "ok s \<Longrightarrow> input s = w @ rest \<Longrightarrow> \<exists>s'. feeds (s_read1 sys) s w s' \<and> ran s w rest s'"
proof (induction w arbitrary: s)
  case Nil
  then show ?case by (auto simp: ran_def intro: feeds_nil)
next
  case (Cons c w)
  from read_some[OF Cons.prems(1), of c "w @ rest"] Cons.prems(2) obtain s1 where
    s1: "s_read1 sys s = Inr (Some c, s1)" "ok s1" "input s1 = w @ rest" "view s1 = disp c (view s)" by auto
  from Cons.IH[OF s1(2,3)] s1(1,4) show ?case by (auto simp: ran_def intro: feeds_Cons)
qed

lemma gets_ok:
  assumes "ok s" "length (input s) < fuel" "length buf = 100"
  shows "case next_line (input s) of Inl e \<Rightarrow> gets fuel j (s_read1 sys) buf s = Inl e
    | Inr (l, rest) \<Rightarrow> \<exists>ys p s'. gets fuel j (s_read1 sys) buf s = Inr (edit_line l [] @ 0 # ys, p, s') \<and> ran s (l @ [10]) rest s'"
proof -
  let ?l = "takeWhile (\<lambda>c. c \<noteq> 10) (input s)" and ?d = "dropWhile (\<lambda>c. c \<noteq> 10) (input s)"
  have n: "10 \<notin> set ?l" by (auto dest: set_takeWhileD)
  have len: "length ?l < fuel" using assms(2) length_takeWhile_le[of "\<lambda>c. c \<noteq> 10" "input s"] by linarith
  show ?thesis
  proof (cases ?d)
    case Nil
    then have "input s = ?l" using takeWhile_dropWhile_id[of "\<lambda>c. c \<noteq> 10" "input s"] by (simp only: append_Nil2)
    then obtain s' where f: "feeds (s_read1 sys) s ?l s'" "ran s ?l [] s'" using feeds_input[OF assms(1), of ?l "[]"] by auto
    then have "s_read1 sys s' = Inl Hang" using read_none by (simp add: ran_def)
    then have "gets fuel j (s_read1 sys) buf s = Inl (if chars_fit ?l 0 100 then Hang else OutOfBounds)"
      using gets_loop_stuck[OF f(1) _ n len] assms(3) by (simp add: gets_def)
    then show ?thesis unfolding next_line_def Let_def Nil by simp
  next
    case (Cons a rest)
    then have "a = 10" using hd_dropWhile[of "\<lambda>c. c \<noteq> 10" "input s"] by simp
    then have "input s = (?l @ [10]) @ rest" using takeWhile_dropWhile_id[of "\<lambda>c. c \<noteq> 10" "input s"] Cons by simp
    from feeds_input[OF assms(1) this] obtain s' where f: "feeds (s_read1 sys) s (?l @ [10]) s'" "ran s (?l @ [10]) rest s'" by blast
    from gets_loop_ok[OF f(1) n len, of 0 buf "[]" j] assms(3) have
      g: "if line_fits ?l 0 100 then \<exists>buf'. gets fuel j (s_read1 sys) buf s = Inr (buf', length (edit_line ?l []), s')
        \<and> take (Suc (length (edit_line ?l []))) buf' = edit_line ?l [] @ [0]
      else gets fuel j (s_read1 sys) buf s = Inl OutOfBounds" by (auto simp: gets_def split: if_splits)
    have "\<exists>ys. buf' = edit_line ?l [] @ 0 # ys" if "take (Suc n) buf' = edit_line ?l [] @ [0]" for buf' n
      using append_take_drop_id[of "Suc n" buf'] that by (intro exI[of _ "drop (Suc n) buf'"]) simp
    then show ?thesis using g f(2) unfolding next_line_def Let_def Cons by (auto split: if_splits)
  qed
qed

lemma line_of_input:
  assumes "ok s" "next_line (input s) = Inr (l, rest)"
  shows "0 \<notin> set (edit_line l [])" "length (edit_line l []) < 100" "length rest < length (input s)"
  using next_line_Inr[OF assms(2)] edit_line_set[of l "[]"] edit_line_length[of l "[]" 100] input_nonzero[OF assms(1)] by auto

lemma who_ok:
  assumes "ok s" "length (input s) < fuel"
  shows "case next_line (input s) of Inl e \<Rightarrow> who fuel junk sys s = Inl e
    | Inr (l, rest) \<Rightarrow> \<exists>s'. who fuel junk sys s = Inr s'
        \<and> ran s (ascii ''Who are you? '' @ l @ [10] @ ascii ''Hello, '' @ edit_line l [] @ ascii ''!'' @ [10]) rest s'"
proof -
  have l: "literal (ascii ''Who are you? '')" "literal (ascii ''Hello, '')" by (simp_all add: literal_def ascii_def of_char_def)
  from print_literal[OF assms(1) l(1), of junk] obtain n s1 where s1: "printf junk (s_write sys) (cstr ''Who are you? '') [] s = Inr (n, s1)"
    "ran s (ascii ''Who are you? '') (input s) s1" by auto
  then have ok1: "ok s1" "input s1 = input s" by (simp_all add: ran_def)
  note g = gets_ok[OF ok1(1), of fuel "line_buffer junk" "junk 0", unfolded ok1(2), OF assms(2)]
  have h: "cstr (''Hello, %s!'' @ [CHR 0x0A]) = ascii ''Hello, '' @ [37, 115] @ [33, 10] @ [0]" by (simp add: cstr_def ascii_def of_char_def)
  show ?thesis
  proof (cases "next_line (input s)")
    case (Inl e)
    then show ?thesis using g s1(1) by (simp add: who_def)
  next
    case (Inr x)
    obtain l rest where x: "x = (l, rest)" by (cases x)
    from g Inr x obtain ys p s2 where s2: "gets fuel (junk 0) (s_read1 sys) (line_buffer junk) s1 = Inr (edit_line l [] @ 0 # ys, p, s2)"
      "ran s1 (l @ [10]) rest s2" by auto
    note e = line_of_input[OF assms(1) Inr[unfolded x]]
    have "\<exists>n s3. printf junk (s_write sys) (cstr (''Hello, %s!'' @ [CHR 0x0A])) [VStr (edit_line l [] @ 0 # ys)] s2 = Inr (n, s3)
      \<and> ran s2 (ascii ''Hello, '' @ edit_line l [] @ [33, 10]) (input s2) s3"
      using printf_ok[of s2 "ascii ''Hello, ''" "[(DStr (edit_line l []) ys, [33, 10])]" junk] s2(2) l(2) e(1,2) h
      by (simp add: ran_def literal_def ascii_def)
    then obtain n s3 where s3: "printf junk (s_write sys) (cstr (''Hello, %s!'' @ [CHR 0x0A])) [VStr (edit_line l [] @ 0 # ys)] s2 = Inr (n, s3)"
      "ran s2 (ascii ''Hello, '' @ edit_line l [] @ [33, 10]) rest s3" using s2(2) by (auto simp: ran_def)
    have "ran s (ascii ''Who are you? '' @ (l @ [10]) @ ascii ''Hello, '' @ edit_line l [] @ [33, 10]) rest s3"
      using ran_trans[OF s1(2) ran_trans[OF s2(2) s3(2)]] .
    moreover have "ascii ''!'' = [33]" by (simp add: ascii_def of_char_def)
    ultimately show ?thesis using s1(1) s2(1) s3(1) Inr x by (simp add: who_def)
  qed
qed

lemma sleep_response:
  assumes "ok s" "0 \<notin> set a" "length a < 100"
  shows "case seconds a of Inl e \<Rightarrow> sleep g junk sys (a @ 0 # ys) s = Inl e
    | Inr r \<Rightarrow> \<exists>s'. sleep g junk sys (a @ 0 # ys) s = Inr s'
        \<and> ran s (case r of None \<Rightarrow> [] | Some n \<Rightarrow> ascii ''Sleeping for '' @ int_text n @ ascii '' seconds'' @ [10]) (input s) s'"
proof -
  have u: "unat (of_nat (length a) :: size_t) = length a" using assms(3) by (simp add: unsigned_of_nat take_bit_nat_eq_self)
  from of_len_ok[of "of_nat (length a)" "a @ 0 # ys" g] assms(2,3) u obtain str where
    str: "BasicString_of_cstr g (a @ 0 # ys) = Inr str" "take (unat (bs_size str)) (bs_data str) = a"
    by (auto simp: BasicString_of_cstr_def cstrlen_ok bs_chars_def)
  have sec: "secs_loop (rev a) 0 0 = seconds a" using secs_loop_ok[of 0 0 "rev a"] by (simp add: seconds_def digit_tail_def Let_def)
  show ?thesis
  proof (cases "seconds a")
    case (Inl e)
    then show ?thesis using str sec by (simp add: sleep_def)
  next
    case (Inr r)
    show ?thesis
    proof (cases r)
      case None
      then show ?thesis using str sec Inr assms(1) by (simp add: sleep_def ran_def)
    next
      case (Some n)
      have "list_all (\<lambda>c. isdigit (sint c)) (digit_tail a)" by (auto simp: digit_tail_def list_all_iff dest: set_takeWhileD)
      then have n: "0 \<le> n" "n < 2 ^ 31" using Inr Some dec_value_pos by (auto simp: seconds_def Let_def split: if_splits)
      have si: "sint (word_of_int n :: u32) = n" using n by (simp add: signed_of_int signed_take_bit_int_eq_self)
      then have neg: "negatable (word_of_int n :: u32)" using n(1) by (simp add: negatable_def word_sless_alt)
      have l: "literal (ascii ''Sleeping for '')" "literal (ascii '' seconds'' @ [10])" by (simp_all add: literal_def ascii_def of_char_def)
      have f: "cstr (''Sleeping for %d seconds'' @ [CHR 0x0A]) = ascii ''Sleeping for '' @ [37, 100] @ (ascii '' seconds'' @ [10]) @ [0]"
        by (simp add: cstr_def ascii_def of_char_def)
      have "length (int_text n) < 64" using int_text_short[of "word_of_int n :: u32"] si by simp
      then have "\<exists>m s1. printf junk (s_write sys) (cstr (''Sleeping for %d seconds'' @ [CHR 0x0A])) [VInt (word_of_int n)] s = Inr (m, s1)
        \<and> ran s (ascii ''Sleeping for '' @ int_text n @ ascii '' seconds'' @ [10]) (input s) s1"
        unfolding f using printf_ok[OF assms(1) l(1), of "[(DInt (word_of_int n), ascii '' seconds'' @ [10])]" junk] neg l(2) si
        by (simp add: ascii_def)
      then obtain m s1 where s1: "printf junk (s_write sys) (cstr (''Sleeping for %d seconds'' @ [CHR 0x0A])) [VInt (word_of_int n)] s = Inr (m, s1)"
        "ran s (ascii ''Sleeping for '' @ int_text n @ ascii '' seconds'' @ [10]) (input s) s1" by blast
      then obtain q where "s_sleep sys (word_of_int n) s1 = Inr (q, s1)" using sleep_ok by (auto simp: ran_def)
      then show ?thesis using s1 str sec Inr Some by (simp add: sleep_def)
    qed
  qed
qed

lemma run_ok:
  assumes "ok s" "length (input s) < fuel" "first_word line \<noteq> []" "0 \<notin> set line" "length line < 100"
  shows "case respond line (input s) of Inl e \<Rightarrow> run_command fuel g junk sys (command_of (first_word line)) (argument line @ 0 # zs) s = Inl e
    | Inr (c, out, rest) \<Rightarrow> c = command_of (first_word line)
        \<and> (\<exists>s'. run_command fuel g junk sys c (argument line @ 0 # zs) s = Inr s' \<and> ran s out rest s')"
proof -
  have a: "0 \<notin> set (argument line)" "length (argument line) < 100" using argument_of[of line] assms(4,5) by auto
  have l: "0 \<notin> set (ascii ''Unrecognized command. Try harder.'')" by (simp add: ascii_def of_char_def)
  show ?thesis
  proof (cases "command_of (first_word line)")
    case CmdWho
    then show ?thesis using who_ok[OF assms(1,2), of junk] assms(3) by (auto simp: respond_def run_command_def split: sum.splits)
  next
    case CmdUnknown
    then show ?thesis using puts_ok[OF assms(1) l, of junk "[]"] assms(3) by (auto simp: respond_def run_command_def unknown_def cstr_def ascii_def)
  next
    case CmdEcho
    then show ?thesis using puts_ok[OF assms(1) a(1), of junk zs] a(2) assms(3) by (auto simp: respond_def run_command_def echo_def)
  next
    case CmdSleep
    then show ?thesis using sleep_response[OF assms(1) a, of g junk zs] assms(3) by (auto simp: respond_def run_command_def split: sum.splits)
  next
    case CmdDie
    then show ?thesis using die_panics assms(3) by (simp add: respond_def run_command_def)
  next
    case CmdExit
    then show ?thesis using assms(1,3) by (simp add: respond_def run_command_def ran_def)
  qed
qed

lemma readCommand_ok:
  assumes "ok s" "length (input s) < fuel"
  shows "case shell_round (input s) of Inl e \<Rightarrow> readCommand fuel g junk sys s = Inl e
    | Inr (c, out, rest) \<Rightarrow> \<exists>s'. readCommand fuel g junk sys s = Inr (c, s') \<and> ran s out rest s'"
proof (cases "next_line (input s)")
  case (Inl e)
  then show ?thesis using gets_ok[OF assms, of "line_buffer junk" "junk 0"] by (simp add: shell_round_def readCommand_def)
next
  case (Inr x)
  obtain l inp1 where x: "x = (l, inp1)" by (cases x)
  let ?line = "edit_line l []"
  from gets_ok[OF assms, of "line_buffer junk" "junk 0"] Inr x obtain ys p s1 where
    s1: "gets fuel (junk 0) (s_read1 sys) (line_buffer junk) s = Inr (?line @ 0 # ys, p, s1)" "ran s (l @ [10]) inp1 s1"
    by auto
  note e = line_of_input[OF assms(1) Inr[unfolded x]]
  have ok1: "ok s1" "input s1 = inp1" "length (input s1) < fuel" using s1(2) e(3) assms(2) by (auto simp: ran_def)
  have len: "cstrlen (?line @ 0 # ys) = Inr (of_nat (length ?line))" by (rule cstrlen_ok[OF e(1)])
  have u: "unat (of_nat n :: size_t) = n" if "n \<le> length ?line" for n using that e(2) by (simp add: unsigned_of_nat take_bit_nat_eq_self)
  have z: "(of_nat (length ?line) :: size_t) = 0 \<longleftrightarrow> ?line = []" unfolding unat_0_iff[symmetric] u[OF order_refl] by simp
  show ?thesis
  proof (cases "first_word ?line = []")
    case True
    then have "shell_round (input s) = Inr (CmdUnknown, l @ [10], inp1)" using Inr x by (simp add: shell_round_def respond_def)
    moreover have "readCommand fuel g junk sys s = Inr (CmdUnknown, s1)"
      using s1(1) len z strtok_blank[OF e(1) True, of ys] by (auto simp: readCommand_def)
    ultimately show ?thesis using s1(2) by simp
  next
    case False
    let ?w = "first_word ?line" and ?b = "leading ?line"
    from strtok_word[OF e(1) False, of ys] obtain tail q where
      tok: "strtok (?line @ 0 # ys) (Some 0) [32, 0] None = Inr (Some (length ?b), ?b @ ?w @ 0 # tail, q)"
      "?b = [] \<longrightarrow> length ?w < length ?line \<longrightarrow> tail = drop (Suc (length ?w)) ?line @ 0 # ys" by blast
    obtain zs where zs: "(if length ?w < length ?line then drop (Suc (length ?w)) (?b @ ?w @ 0 # tail) else drop (length ?w) (?b @ ?w @ 0 # tail))
      = argument ?line @ 0 # zs" using argument_in_buffer[OF False tok(2)] by blast
    have w: "0 \<notin> set ?w" "length ?w \<le> length ?line" using word_of[of ?line] e(1) by auto
    have tl: "cstrlen (?w @ 0 # tail) = Inr (of_nat (length ?w))" by (rule cstrlen_ok[OF w(1)])
    have lt: "(of_nat (length ?w) :: size_t) < of_nat (length ?line) \<longleftrightarrow> length ?w < length ?line"
      using u w(2) by (simp add: word_less_nat_alt)
    have ne: "?line \<noteq> []" using False by (auto simp: first_word_def)
    have "readCommand fuel g junk sys s = rbind (run_command fuel g junk sys (command_of ?w) (argument ?line @ 0 # zs) s1) (\<lambda>s2. Inr (command_of ?w, s2))"
      unfolding readCommand_def s1(1) rbind_simps prod.case len z if_not_P[OF ne] tok(1) option.case drop_prefix
        tl lt Let_def u[OF w(2)] parseCommand_ok[OF w(1), of tail] Suc_eq_plus1[symmetric] zs ..
    note rd = this run_ok[OF ok1(1,3) False e(1,2), of g junk zs, unfolded ok1(2)]
    show ?thesis
    proof (cases "respond ?line inp1")
      case (Inl f)
      then show ?thesis using rd \<open>next_line _ = _\<close> x by (simp add: shell_round_def)
    next
      case (Inr y)
      obtain c out rest where y: "y = (c, out, rest)" by (cases y)
      then obtain s2 where "run_command fuel g junk sys c (argument ?line @ 0 # zs) s1 = Inr s2" "ran s1 out rest s2" "c = command_of ?w"
        using rd(2) Inr by auto
      then show ?thesis using rd(1) ran_trans[OF s1(2)] Inr y \<open>next_line _ = _\<close> x by (auto simp: shell_round_def)
    qed
  qed
qed

lemma shell_loop_ok:
  assumes "ok s" "length (input s) < fuel" "length (input s) < n"
  shows "case session (input s) of Inl e \<Rightarrow> shell_loop n fuel g junk sys s = Inl e
    | Inr (out, rest) \<Rightarrow> \<exists>s'. shell_loop n fuel g junk sys s = Inr s' \<and> ran s out rest s'"
  using assms
proof (induction n arbitrary: s)
  case (Suc n)
  let ?p = "ascii ''kvsh |#> ''"
  have l: "literal ?p" by (simp add: literal_def ascii_def of_char_def)
  from print_literal[OF Suc.prems(1) l, of junk] obtain q s1 where s1: "printf junk (s_write sys) (cstr ''kvsh |#> '') [] s = Inr (q, s1)"
    "ran s ?p (input s) s1" by auto
  then have ok1: "ok s1" "input s1 = input s" by (simp_all add: ran_def)
  note r = readCommand_ok[OF ok1(1), of fuel g junk, unfolded ok1(2), OF Suc.prems(2)]
  show ?case
  proof (cases "shell_round (input s)")
    case (Inl e)
    then show ?thesis using r s1(1) by (simp add: session.simps[of "input s"])
  next
    case (Inr x)
    obtain c out inp1 where x: "x = (c, out, inp1)" by (cases x)
    from r Inr x obtain s2 where s2: "readCommand fuel g junk sys s1 = Inr (c, s2)" "ran s1 out inp1 s2" by auto
    then have ok2: "ok s2" "input s2 = inp1" by (simp_all add: ran_def)
    have t: "ran s (?p @ out) inp1 s2" by (rule ran_trans[OF s1(2) s2(2)])
    show ?thesis
    proof (cases "c = CmdExit")
      case True
      then show ?thesis using s1(1) s2(1) t Inr x by (auto simp: session.simps[of "input s"])
    next
      case False
      then have e: "session (input s) = rbind (session inp1) (\<lambda>(mr, rest). Inr ((?p @ out) @ mr, rest))"
        "shell_loop (Suc n) fuel g junk sys s = shell_loop n fuel g junk sys s2"
        using s1(1) s2(1) Inr x by (simp_all add: session.simps[of "input s"])
      have "length (input s2) < fuel" "length (input s2) < n" using round_shrinks[OF Inr[unfolded x]] Suc.prems ok2(2) by simp_all
      from Suc.IH[OF ok2(1) this, unfolded ok2(2)] show ?thesis
        unfolding e using ran_trans[OF t] by (cases "session inp1") auto
    qed
  qed
qed simp

lemma shell_main_ok:
  assumes "ok s" "length (input s) < fuel" "length (input s) < n"
  shows "case session (input s) of Inl e \<Rightarrow> shell_main n fuel g junk sys s = Inl e
    | Inr (out, rest) \<Rightarrow> \<exists>s'. shell_main n fuel g junk sys s = Inr (0xDEADC0DE, s')
        \<and> ok s' \<and> input s' = rest \<and> view s' = fold disp out (view s)"
  using shell_loop_ok[OF assms, of g junk] by (auto simp: shell_main_def ran_def split: sum.splits)

end

text \<open>Behind leading spaces a command's argument is taken from the command itself.\<close>

theorem echo_behind_spaces: "respond (ascii ''  echo hi'') inp = Inr (CmdEcho, ascii ''o'' @ [10], inp)"
proof -
  have "first_word (ascii ''  echo hi'') = ascii ''echo''" "argument (ascii ''  echo hi'') = ascii ''o''" "command_of (ascii ''echo'') = CmdEcho"
    "ascii ''echo'' \<noteq> []" by code_simp+
  then show ?thesis by (simp add: respond_def)
qed

section \<open>The shell on the kernel\<close>

text \<open>
  The system calls of the shell, as far as its own memory is not concerned: \<open>write\<close> takes the bytes themselves, and \<open>read\<close>
  of one byte returns it, under the interrupt flag as the handler sets it.
\<close>

definition kernel_read1 :: "X86Kernel \<Rightarrow> (u8 option \<times> X86Kernel) res" where
  "kernel_read1 k = rbind (in_read (sti (cli k))) (\<lambda>(c, k1). Inr (c, (cli k1)\<lparr>k_if := k_if k\<rparr>))"

definition kernel_sys :: "RegisterTable \<Rightarrow> X86Kernel sys" where
  "kernel_sys r = \<lparr>s_write = libk_sys_write, s_read1 = kernel_read1, s_sleep = libk_sys_sleep r, s_die = libk_sys_die r\<rparr>"

lemma next_char_shrinks: "next_char held codes = Some (c, held1, rest) \<Longrightarrow> length rest < length codes"
proof (induction held codes rule: next_char.induct)
  case (2 ks sc codes)
  then show ?case by (cases "ke_type (decode_scancode sc) = kKeyEventPressed \<and> kKeyToChar ! keyCode (decode_scancode sc) \<noteq> NUL")
    (auto simp: Let_def less_SucI)
qed simp

text \<open>The characters of all keys that are typed and not yet read.\<close>

function typed_chars :: "bool list \<times> u32 list \<Rightarrow> string" where
  "typed_chars t = (case next_char (fst t) (snd t) of None \<Rightarrow> [] | Some (c, t1) \<Rightarrow> c # typed_chars t1)"
  by pat_completeness auto
termination
  by (relation "measure (\<lambda>t. length (snd t))") (auto dest: next_char_shrinks)

declare typed_chars.simps [simp del]

lemma key_tables: "i < kKeyCount \<Longrightarrow> kKeyToChar ! i \<noteq> NUL \<Longrightarrow> kKeyToCharShift ! i \<noteq> NUL"
proof -
  have "list_all (\<lambda>i. kKeyToChar ! i \<noteq> NUL \<longrightarrow> kKeyToCharShift ! i \<noteq> NUL) [0..<128]" by code_simp
  then show "i < kKeyCount \<Longrightarrow> kKeyToChar ! i \<noteq> NUL \<Longrightarrow> kKeyToCharShift ! i \<noteq> NUL" by (simp add: list_all_iff kKeyCount_def)
qed

lemma next_char_nonzero: "next_char held codes = Some (c, held1, rest) \<Longrightarrow> c \<noteq> NUL"
  by (induction held codes rule: next_char.induct) (use key_tables[OF decode_range] in \<open>auto simp: Let_def split: if_splits\<close>)

lemma typed_chars_nonzero: "NUL \<notin> set (typed_chars t)"
proof (induction t rule: typed_chars.induct)
  case (1 t)
  show ?case
  proof (cases "next_char (fst t) (snd t)")
    case (Some x)
    then show ?thesis using 1[OF Some] by (cases x) (auto simp: typed_chars.simps[of t] dest: next_char_nonzero)
  qed (simp add: typed_chars.simps[of t])
qed

definition shell_ok :: "AddressSpace \<Rightarrow> nat set \<Rightarrow> u8 \<Rightarrow> X86Kernel \<Rightarrow> bool" where
  "shell_ok as V col k \<longleftrightarrow> kernel_ok as V k \<and> vc_color (k_console k) = col"

abbreviation typed_bytes :: "X86Kernel \<Rightarrow> u8 list" where
  "typed_bytes k \<equiv> map of_char (typed_chars (typed k))"

lemma shell_ok_if [simp]: "shell_ok as V col (k\<lparr>k_if := b\<rparr>) \<longleftrightarrow> shell_ok as V col k" "typed (k\<lparr>k_if := b\<rparr>) = typed k"
    "screen (k\<lparr>k_if := b\<rparr>) = screen k"
  by (simp_all add: shell_ok_def kernel_ok_def typed_def screen_def split: option.splits)

interpretation sk: shell_env "kernel_sys r" "shell_ok as V col" typed_bytes screen "term_write col" for r as V col
proof
  fix k and t :: "u8 list"
  assume k: "shell_ok as V col k"
  then have "con_inv (k_console k)" by (simp add: shell_ok_def kernel_ok_def)
  from ks.write_all_ok[OF shows_more_refl[OF this], of t] obtain k' where k': "write_all out_write t k = Inr k'" "shows_more k k'"
    "screen k' = on_screen k t" by blast
  note f = shows_more_fields[OF k'(2)]
  have "shell_ok as V col k'" using k f by (simp add: shell_ok_def kernel_ok_def)
  moreover have "typed k' = typed k" unfolding typed_def f ..
  ultimately show "\<exists>n k'. s_write (kernel_sys r) 0 t k = Inr (n, k') \<and> shell_ok as V col k' \<and> typed_bytes k' = typed_bytes k
      \<and> screen k' = fold (term_write col) t (screen k)"
    using k' k by (simp add: kernel_sys_def libk_sys_write_def kStdOut_def shell_ok_def)
next
  fix k
  assume k: "shell_ok as V col k" "typed_bytes k = []"
  then have "next_char (fst (typed k)) (snd (typed k)) = None" by (simp add: typed_chars.simps[of "typed k"] split: option.splits prod.splits)
  moreover have "kernel_ok as V (sti (cli k))" "k_if (sti (cli k))" "typed (sti (cli k)) = typed k"
    using k(1) by (simp_all add: sti_def cli_def shell_ok_def kernel_ok_def)
  ultimately show "s_read1 (kernel_sys r) k = Inl Hang" using in_read_ok[of as V "sti (cli k)"] by (simp add: kernel_sys_def kernel_read1_def)
next
  fix k b w
  assume k: "shell_ok as V col k" "typed_bytes k = b # w"
  then obtain c t where n: "next_char (fst (typed k)) (snd (typed k)) = Some (c, t)" "b = of_char c" "w = map of_char (typed_chars t)"
    by (auto simp: typed_chars.simps[of "typed k"] split: option.splits prod.splits)
  have ok1: "kernel_ok as V (sti (cli k))" "k_if (sti (cli k))" "typed (sti (cli k)) = typed k"
    using k(1) by (simp_all add: sti_def cli_def shell_ok_def kernel_ok_def)
  from in_read_ok[OF ok1(1,2)] n(1) ok1(3) obtain k1 where k1: "in_read (sti (cli k)) = Inr (Some b, k1)" "after_read as V (sti (cli k)) [c] t k1"
    using n(2) by auto
  let ?k = "(cli k1)\<lparr>k_if := k_if k\<rparr>"
  have "s_read1 (kernel_sys r) k = Inr (Some b, ?k)" using k1(1) by (simp add: kernel_sys_def kernel_read1_def)
  moreover have "shell_ok as V col ?k" "typed ?k = t" "screen ?k = term_write col b (screen k)"
    using k1(2) k(1) n(2) by (simp_all add: after_read_def shell_ok_def kernel_ok_def cli_def sti_def)
  ultimately show "\<exists>k'. s_read1 (kernel_sys r) k = Inr (Some b, k') \<and> shell_ok as V col k' \<and> typed_bytes k' = w
      \<and> screen k' = term_write col b (screen k)"
    using n(3) by blast
next
  fix k
  show "0 \<notin> set (typed_bytes k)" using typed_chars_nonzero[of "typed k"] by (auto simp: of_char_zero)
qed (auto simp: kernel_sys_def libk_sys_sleep_def Syscall_sleep_def libk_sys_die_def Syscall_die_def kp.print_append)

section \<open>Properties\<close>

text \<open>
  C10. The shell runs its session on the kernel as specified. For everything that can be typed, \<open>main\<close> shows the prompt, the
  echoed line and the response of each command in turn, returns \<open>0xDEADC0DE\<close> after the first \<open>exit\<close> or \<open>quit\<close> and leaves
  the keys after it unread. It ends otherwise exactly as \<open>session\<close> says: it waits for ever when the keys run out, the buffer is
  overrun by a line of more than 99 characters, a number of seconds overflows, or the kernel panics at \<open>die\<close>.
\<close>

theorem shell_runs_session:
  assumes "kernel_ok as V k" "length (typed_bytes k) < fuel" "length (typed_bytes k) < n"
  shows "case session (typed_bytes k) of
      Inl e \<Rightarrow> shell_main n fuel g junk (kernel_sys r) k = Inl e
    | Inr (out, rest) \<Rightarrow> \<exists>k'. shell_main n fuel g junk (kernel_sys r) k = Inr (0xDEADC0DE, k')
        \<and> screen k' = on_screen k out \<and> typed_bytes k' = rest"
proof -
  have "shell_ok as V (vc_color (k_console k)) k" using assms(1) by (simp add: shell_ok_def)
  from sk.shell_main_ok[OF this assms(2,3), of g junk r] show ?thesis by (cases "session (typed_bytes k)") auto
qed

text \<open>The keys e, x, i, t and enter are pressed.\<close>

theorem shell_runs_session_witness:
  "\<exists>k'. shell_main 6 6 0 (\<lambda>_. 0) (kernel_sys (ex_registers 0 0 0 0)) (ex_kernel\<lparr>k_irqs := [0x12, 0x2D, 0x17, 0x14, 0x1C]\<rparr>) = Inr (0xDEADC0DE, k')
    \<and> screen k' = on_screen ex_kernel (ascii ''kvsh |#> exit'' @ [10])"
proof -
  let ?k = "ex_kernel\<lparr>k_irqs := [0x12, 0x2D, 0x17, 0x14, 0x1C]\<rparr>"
  have d: "decode_scancode 0x12 = \<lparr>ke_type = kKeyEventPressed, keyCode = kKeyE\<rparr>"
    "decode_scancode 0x2D = \<lparr>ke_type = kKeyEventPressed, keyCode = kKeyX\<rparr>"
    "decode_scancode 0x17 = \<lparr>ke_type = kKeyEventPressed, keyCode = kKeyI\<rparr>"
    "decode_scancode 0x14 = \<lparr>ke_type = kKeyEventPressed, keyCode = kKeyT\<rparr>"
    "decode_scancode 0x1C = \<lparr>ke_type = kKeyEventPressed, keyCode = kKeyEnter\<rparr>"
    by (simp_all add: decode_scancode_def scancodes_def kScanSet1_def)
  have t: "typed ?k = (kb_keysPressed PS2Keyboard_new, [0x12, 0x2D, 0x17, 0x14, 0x1C])"
    by (simp add: typed_def ex_kernel_def pending_def PS2Keyboard_new_def)
  have c: "typed_chars (typed ?k) = ''exit'' @ [CHR 0x0A]"
    unfolding t by (simp add: typed_chars.simps PS2Keyboard_new_def d kKeyToChar_def kKeyToCharShift_def Let_def)
  then have b: "typed_bytes ?k = ascii ''exit'' @ [10]" by (simp add: ascii_def of_char_def)
  have "next_line (ascii ''exit'' @ [10]) = Inr (ascii ''exit'', [])" "respond (edit_line (ascii ''exit'') []) [] = Inr (CmdExit, [], [])" by code_simp+
  then have s: "session (ascii ''exit'' @ [10]) = Inr (ascii ''kvsh |#> exit'' @ [10], [])"
    by (simp add: session.simps shell_round_def) (simp add: ascii_def)
  have "kernel_ok 0x200000 {0} ?k" using ex_kernel_ok by (simp add: kernel_ok_def)
  from shell_runs_session[OF this, of 6 6 0 "\<lambda>_. 0" "ex_registers 0 0 0 0", unfolded b s] show ?thesis
    by (auto simp: ascii_def screen_def)
qed

end
