(* ===== verification/Boot.thy ===== *)
theory Boot
  imports Kernel_Calls Elf_Load Cpu_Props
begin

text \<open>
  The boot sequence (\<open>kernel/src/arch/i386/main.cpp\<close>, \<open>kernel/src/arch/i386/X86Kernel.cpp\<close>): the
  kernel is constructed, reads what the boot loader reports, sets up the processor, its memory and the
  interrupts, lists the disks, shows the date and runs the programs it finds, with every step logged on the
  console.

  The state joins those of the components. What the sources leave to the hardware and the linker is
  a record of arguments. The call of a program's entry point is a function of it and the arguments.
\<close>

section \<open>The system\<close>

record 'd System =
  sy_kernel :: X86Kernel
  sy_as :: AddressSpace
  sy_cpu :: CPU
  sy_proc :: Processor
  sy_io :: 'd

record 'd Platform =
  pf_bus :: "'d bus"
  pf_fuel :: nat
  pf_g :: u8
  pf_junk :: "nat \<Rightarrow> u8"
  pf_junk16 :: "nat \<Rightarrow> u16"
  pf_mem :: byte_mem
  pf_isrs :: "uintptr list"
  pf_gdt :: uintptr
  pf_idt :: uintptr
  pf_tss :: uintptr
  pf_kernel_end :: u32
  pf_readonly_end :: u32
  pf_run :: "u32 \<Rightarrow> string list \<Rightarrow> 'd System \<Rightarrow> (int \<times> 'd System) res"

definition set_kernel :: "'d System \<Rightarrow> X86Kernel \<Rightarrow> 'd System" where
  "set_kernel s k = s\<lparr>sy_kernel := k\<rparr>"

definition in_kernel :: "(X86Kernel \<Rightarrow> X86Kernel res) \<Rightarrow> 'd System \<Rightarrow> 'd System res" where
  "in_kernel f s = rbind (f (sy_kernel s)) (\<lambda>k. Inr (set_kernel s k))"

abbreviation nl :: string where "nl \<equiv> [CHR 0x0A]"

abbreviation COLOR_GREEN :: u32 where "COLOR_GREEN \<equiv> 2"
abbreviation COLOR_RED :: u32 where "COLOR_RED \<equiv> 4"
abbreviation COLOR_LIGHT_GREY :: u32 where "COLOR_LIGHT_GREY \<equiv> 7"
abbreviation COLOR_LIGHT_RED :: u32 where "COLOR_LIGHT_RED \<equiv> 12"
abbreviation COLOR_WHITE :: u32 where "COLOR_WHITE \<equiv> 15"

abbreviation defaultTextColor :: u32 where "defaultTextColor \<equiv> COLOR_LIGHT_GREY"

definition console_do :: "(VGATextConsole \<Rightarrow> VGATextConsole) \<Rightarrow> X86Kernel \<Rightarrow> X86Kernel" where
  "console_do f k = k\<lparr>k_console := f (k_console k)\<rparr>"

definition console_write :: "string \<Rightarrow> X86Kernel \<Rightarrow> X86Kernel res" where
  "console_write s k = rbind (writeString (k_console k) (cstr s)) (\<lambda>con. Inr (k\<lparr>k_console := con\<rparr>))"

definition kprintf :: "(nat \<Rightarrow> u8) \<Rightarrow> string \<Rightarrow> va_value list \<Rightarrow> X86Kernel \<Rightarrow> X86Kernel res" where
  "kprintf junk fmt args k = rbind (printf junk libk_sys_write (cstr fmt) args k) (\<lambda>(_, k1). Inr k1)"

definition kputs :: "(nat \<Rightarrow> u8) \<Rightarrow> string \<Rightarrow> X86Kernel \<Rightarrow> X86Kernel res" where
  "kputs junk str k = rbind (puts junk libk_sys_write (cstr str) k) (\<lambda>(_, k1). Inr k1)"

definition k_debug_print :: "u8 \<Rightarrow> (nat \<Rightarrow> u8) \<Rightarrow> string \<Rightarrow> X86Kernel \<Rightarrow> X86Kernel res" where
  "k_debug_print g junk str k = rbind (debug_print g junk (cstr str) [] (k_debug k)) (\<lambda>d. Inr (k\<lparr>k_debug := d\<rparr>))"

definition Kernel_panic :: "string \<Rightarrow> X86Kernel \<Rightarrow> 'a res" where
  "Kernel_panic msg k = rbind (panic_screen (k_console k) (cstr msg)) (\<lambda>_. Inl (KernelPanic msg))"

section \<open>Logging\<close>

definition log_task_begin :: "u8 \<Rightarrow> (nat \<Rightarrow> u8) \<Rightarrow> string \<Rightarrow> X86Kernel \<Rightarrow> (size_t \<times> X86Kernel) res" where
  "log_task_begin g junk printstr k =
     rbind (k_debug_print g junk printstr k) (\<lambda>k0.
     rbind (put_all (moveTo (k_console k0) (vc_row (k_console k0)) 0) (replicate (unat VGA_WIDTH) 32)) (\<lambda>con1.
     let con2 = setForegroundColor (moveTo con1 (vc_row con1 - 1) 0) COLOR_WHITE in
     rbind (writeString con2 (cstr printstr)) (\<lambda>con3.
     rbind (if vc_column con3 > VGA_WIDTH - 6 then writeString con3 (cstr nl) else Inr con3) (\<lambda>con4.
     let con5 = setForegroundColor con4 defaultTextColor in
     Inr (vc_row con5, k0\<lparr>k_console := con5\<rparr>)))))"

definition log_text :: "string \<Rightarrow> u32 \<Rightarrow> VGATextConsole \<Rightarrow> VGATextConsole res" where
  "log_text str color con =
     rbind (cstrlen (cstr str)) (\<lambda>n.
     rbind (writeString (moveTo con (vc_row con) (VGA_WIDTH - (n + 3))) (cstr ''['')) (\<lambda>con1.
     writeString (setForegroundColor con1 color) (cstr str)))"

definition log_result :: "u8 \<Rightarrow> (nat \<Rightarrow> u8) \<Rightarrow> u32 \<Rightarrow> string \<Rightarrow> string \<Rightarrow> X86Kernel \<Rightarrow> (u32 \<times> X86Kernel) res" where
  "log_result g junk success ackstr nakstr k =
     (let str = (if success \<noteq> 0 then ackstr else nakstr) in
      rbind (k_debug_println g junk str [] k) (\<lambda>k0.
      rbind (log_text str (if success \<noteq> 0 then COLOR_GREEN else COLOR_RED) (k_console k0)) (\<lambda>con1.
      rbind (writeString (setForegroundColor con1 COLOR_WHITE) (cstr ('']'' @ nl))) (\<lambda>con2.
      Inr (success, k0\<lparr>k_console := setForegroundColor con2 defaultTextColor\<rparr>)))))"

text \<open>Every task of the boot sequence returns nothing.\<close>

definition log_task :: "u8 \<Rightarrow> (nat \<Rightarrow> u8) \<Rightarrow> string \<Rightarrow> ('d System \<Rightarrow> 'd System res) \<Rightarrow> 'd System \<Rightarrow> 'd System res" where
  "log_task g junk printstr c s =
     rbind (log_task_begin g junk printstr (sy_kernel s)) (\<lambda>(_, k).
     rbind (c (set_kernel s k)) (\<lambda>s1.
     rbind (log_result g junk 1 ''DONE'' ''FAIL'' (sy_kernel s1)) (\<lambda>(_, k1). Inr (set_kernel s1 k1))))"

section \<open>What the boot loader reports\<close>

text \<open>The members of the union are both four words.\<close>

record multiboot_info_t =
  mb_flags :: u32
  mb_mem_lower :: u32
  mb_mem_upper :: u32
  mb_boot_device :: u32
  mb_cmdline :: u32
  mb_mods_count :: u32
  mb_mods_addr :: u32
  mb_u :: "u32 list"
  mb_mmap_length :: u32
  mb_mmap_addr :: u32
  mb_drives_length :: u32
  mb_drives_addr :: u32
  mb_config_table :: u32
  mb_boot_loader_name :: u32
  mb_apm_table :: u32
  mb_vbe_control_info :: u32
  mb_vbe_mode_info :: u32
  mb_vbe_mode :: u16
  mb_vbe_interface_seg :: u16
  mb_vbe_interface_off :: u16
  mb_vbe_interface_len :: u16

definition check_flag :: "u8 \<Rightarrow> (nat \<Rightarrow> u8) \<Rightarrow> multiboot_info_t \<Rightarrow> string \<Rightarrow> u32 \<Rightarrow> X86Kernel \<Rightarrow> (u32 \<times> X86Kernel) res" where
  "check_flag g junk info printstr flag k =
     rbind (log_task_begin g junk printstr k) (\<lambda>(_, k1). log_result g junk (mb_flags info AND flag) ''FOUND'' ''FAIL'' k1)"

definition log_test :: "u8 \<Rightarrow> (nat \<Rightarrow> u8) \<Rightarrow> string \<Rightarrow> u32 \<Rightarrow> X86Kernel \<Rightarrow> (u32 \<times> X86Kernel) res" where
  "log_test g junk printstr success k =
     rbind (log_task_begin g junk printstr k) (\<lambda>(_, k1). log_result g junk success ''PASS'' ''FAIL'' k1)"

fun print_map :: "nat \<Rightarrow> (nat \<Rightarrow> u8) \<Rightarrow> byte_mem \<Rightarrow> u32 \<Rightarrow> u32 \<Rightarrow> X86Kernel \<Rightarrow> X86Kernel res" where
  "print_map 0 junk mem mmap mend k = Inl Hang"
| "print_map (Suc fuel) junk mem mmap mend k =
     (if mmap < mend
      then let e = read_mmap_entry mem mmap in
           rbind (kprintf junk (''block: [%x-%x) (len: %x) type: %x'' @ nl)
                    [VInt (ucast (mm_addr e)), VInt (ucast (mm_addr e + mm_len e)), VInt (ucast (mm_len e)), VInt (mm_type e)] k) (\<lambda>k1.
           print_map fuel junk mem (mmap_next mem mmap) mend k1)
      else Inr k)"

definition read_multiboot :: "nat \<Rightarrow> u8 \<Rightarrow> (nat \<Rightarrow> u8) \<Rightarrow> byte_mem \<Rightarrow> multiboot_info_t \<Rightarrow> X86Kernel \<Rightarrow> X86Kernel res" where
  "read_multiboot fuel g junk mem info k =
     rbind (check_flag g junk info ''Checking for reported memory size...'' 0x1 k) (\<lambda>(result, k1).
     rbind (if result \<noteq> 0
            then rbind (kprintf junk (''%dKiB lower memory.'' @ nl) [VInt (mb_mem_lower info)] k1) (\<lambda>k2.
                 kprintf junk (''%dKiB upper memory.'' @ nl) [VInt (mb_mem_upper info)] k2)
            else Inr k1) (\<lambda>k3.
     rbind (check_flag g junk info ''Checking for reported memory map...'' 0x40 k3) (\<lambda>(result, k4).
     if result = 0 then Kernel_panic ''Fatal ERROR: Cannot install paging due to missing memory map.'' k4
     else print_map fuel junk mem (mb_mmap_addr info) (mb_mmap_addr info + mb_mmap_length info) k4)))"

section \<open>The kernel's parts\<close>

definition X86Kernel_new :: "MMU \<Rightarrow> u16 list \<Rightarrow> u16 \<Rightarrow> u8 list \<Rightarrow> X86Kernel res" where
  "X86Kernel_new mmu vga cursor dbg =
     rbind (VGATextConsole_new vga cursor) (\<lambda>con.
     Inr \<lparr>k_mmu = mmu, k_console = con, k_in = None, k_irqs = [], k_if = False, k_debug = dbg\<rparr>)"

definition installMMU :: "'d Platform \<Rightarrow> u32 \<Rightarrow> u32 \<Rightarrow> 'd System \<Rightarrow> 'd System res" where
  "installMMU pf mmap_addr mmap_length s =
     rbind (MMU_new (pf_fuel pf) (pf_mem pf) mmap_addr mmap_length (pf_kernel_end pf)) (\<lambda>p.
     rbind (MMU_create ((k_mmu (sy_kernel s))\<lparr>pfa := p\<rparr>)) (\<lambda>(as, m).
     rbind (MMU_install (pf_readonly_end pf) m as) (\<lambda>m1.
     Inr (s\<lparr>sy_as := as, sy_kernel := (sy_kernel s)\<lparr>k_mmu := m1\<rparr>\<rparr>))))"

definition set_isr :: "u8 \<Rightarrow> InterruptServiceRoutine \<Rightarrow> 'd System \<Rightarrow> 'd System res" where
  "set_isr num isr s = rbind (setISR (cpu_idt (sy_cpu s)) num (Some isr)) (\<lambda>t. Inr (s\<lparr>sy_cpu := (sy_cpu s)\<lparr>cpu_idt := t\<rparr>\<rparr>))"

definition installSyscalls :: "'d System \<Rightarrow> 'd System res" where
  "installSyscalls s = set_isr 0x80 SyscallHandler s"

definition install_cpu :: "'d Platform \<Rightarrow> 'd System \<Rightarrow> 'd System res" where
  "install_cpu pf s =
     rbind (CPU_install (pf_isrs pf) (pf_gdt pf) (pf_idt pf) (sy_cpu s) (sy_proc s)) (\<lambda>(cpu, p). Inr (s\<lparr>sy_cpu := cpu, sy_proc := p\<rparr>))"

definition install_handlers :: "'d Platform \<Rightarrow> 'd System \<Rightarrow> 'd System res" where
  "install_handlers pf s =
     rbind (set_isr 14 PageFaultISR s) (\<lambda>s1.
     rbind (installSyscalls s1) (\<lambda>s2.
     rbind (enableInterrupts (pf_bus pf) (sy_cpu s2) (sy_proc s2) (sy_io s2)) (\<lambda>(cpu, p, d).
     Inr (s2\<lparr>sy_cpu := cpu, sy_proc := p, sy_io := d, sy_kernel := (sy_kernel s2)\<lparr>k_if := if_flag p\<rparr>\<rparr>))))"

section \<open>The date\<close>

fun print_two_digits :: "(nat \<Rightarrow> u8) \<Rightarrow> u8 list \<Rightarrow> X86Kernel \<Rightarrow> X86Kernel res" where
  "print_two_digits junk [] k = Inr k"
| "print_two_digits junk (t # minsec) k =
     rbind (kprintf junk '':'' [] k) (\<lambda>k1.
     rbind (if t < 10 then kprintf junk ''0'' [] k1 else Inr k1) (\<lambda>k2.
     rbind (kprintf junk ''%d'' [VInt (ucast t)] k2) (print_two_digits junk minsec)))"

definition print_date :: "(nat \<Rightarrow> u8) \<Rightarrow> DateTime \<Rightarrow> X86Kernel \<Rightarrow> X86Kernel res" where
  "print_date junk now k =
     rbind (kprintf junk ''The current date and time is %d/%d/%d''
              [VInt (ucast (dt_month now)), VInt (ucast (dt_monthday now)), VInt (ucast (dt_year now) + ucast (dt_century now) * 100)] k) (\<lambda>k1.
     rbind (kprintf junk '' %d'' [VInt (ucast (dt_hours now))] k1) (print_two_digits junk [dt_minutes now, dt_seconds now]))"

definition report_date :: "'d Platform \<Rightarrow> 'd System \<Rightarrow> 'd System res" where
  "report_date pf s =
     rbind (kputs (pf_junk pf) (nl @ ''* * *'') (console_do (\<lambda>con. setForegroundColor con COLOR_WHITE) (sy_kernel s))) (\<lambda>k1.
     rbind (currentTime (pf_fuel pf) (pf_bus pf) (sy_io s)) (\<lambda>(now, d).
     rbind (print_date (pf_junk pf) now k1) (\<lambda>k2.
     rbind (kputs (pf_junk pf) (nl @ ''* * *'') k2) (\<lambda>k3. Inr (s\<lparr>sy_kernel := k3, sy_io := d\<rparr>)))))"

section \<open>Programs\<close>

type_synonym cd_volume = "Volume \<times> X86AtaDevice"

abbreviation disk_ops :: "'d Platform \<Rightarrow> (X86AtaDevice \<times> 'd) AtaOps" where
  "disk_ops pf \<equiv> x86_ops (pf_fuel pf) (pf_bus pf) (pf_junk16 pf)"

definition volume_find :: "'d Platform \<Rightarrow> cd_volume \<Rightarrow> string \<Rightarrow> 'd System \<Rightarrow> (DirectoryEntry option \<times> cd_volume \<times> 'd System) res" where
  "volume_find pf cd path s =
     rbind (Volume_find (pf_fuel pf) (disk_ops pf) (pf_junk pf) (pf_g pf) (fst cd) (cstr path) (snd cd, sy_io s)) (\<lambda>(e, dev, d).
     Inr (e, (fst cd, dev), s\<lparr>sy_io := d\<rparr>))"

definition open_program :: "'d Platform \<Rightarrow> cd_volume \<Rightarrow> DirectoryEntry \<Rightarrow> 'd System \<Rightarrow> (IsoFileStream Executable \<times> cd_volume \<times> 'd System) res" where
  "open_program pf cd entry s =
     rbind (fileStream (disk_ops pf) (pf_junk pf) entry (snd cd, sy_io s)) (\<lambda>(stream, dev, d).
     rbind (Executable_new (pf_fuel pf) IsoFileStream_read (pf_g pf) (pf_g pf) (pf_junk pf) stream) (\<lambda>x.
     Inr (x, (fst cd, dev), s\<lparr>sy_io := d\<rparr>)))"

definition run_program :: "'d Platform \<Rightarrow> string list \<Rightarrow> IsoFileStream Executable \<Rightarrow> 'd System \<Rightarrow> (int \<times> IsoFileStream Executable \<times> 'd System) res" where
  "run_program pf argv x s =
     (let run = (\<lambda>entry m s. rbind (pf_run pf entry argv (s\<lparr>sy_kernel := (sy_kernel s)\<lparr>k_mmu := m\<rparr>\<rparr>)) (\<lambda>(r, s1).
                  Inr (r, k_mmu (sy_kernel s1), s1))) in
      rbind (exec run (sy_as s) x (k_mmu (sy_kernel s)) s) (\<lambda>(r, x1, m, s1).
      Inr (r, x1, s1\<lparr>sy_kernel := (sy_kernel s1)\<lparr>k_mmu := m\<rparr>\<rparr>)))"

definition close_program :: "IsoFileStream Executable \<Rightarrow> 'd System \<Rightarrow> 'd System res" where
  "close_program x s =
     rbind (Executable_destroy (sy_as s) x (k_mmu (sy_kernel s))) (\<lambda>m. Inr (s\<lparr>sy_kernel := (sy_kernel s)\<lparr>k_mmu := m\<rparr>\<rparr>))"

definition find_program :: "'d Platform \<Rightarrow> cd_volume option \<Rightarrow> string \<Rightarrow> 'd System \<Rightarrow> ((cd_volume \<times> DirectoryEntry) option \<times> cd_volume option \<times> 'd System) res" where
  "find_program pf cd path s = (case cd of
     None \<Rightarrow> Inr (None, None, s)
   | Some vol \<Rightarrow> rbind (volume_find pf vol path s) (\<lambda>(e, vol1, s1). Inr (map_option (Pair vol1) e, Some vol1, s1)))"

definition show_cursor :: "X86Kernel \<Rightarrow> X86Kernel" where
  "show_cursor = console_do (\<lambda>con. setCursorVisible con True)"

definition run_proc_test :: "'d Platform \<Rightarrow> cd_volume option \<Rightarrow> 'd System \<Rightarrow> (cd_volume option \<times> 'd System) res" where
  "run_proc_test pf cd s =
     rbind (in_kernel (\<lambda>k. k_debug_println (pf_g pf) (pf_junk pf) ''Finding /bin/proc-test...'' [] k) s) (\<lambda>s0.
     rbind (find_program pf cd ''/bin/proc-test'' s0) (\<lambda>(e, cd1, s1). case e of
       Some (vol, entry) \<Rightarrow>
         rbind (open_program pf vol entry s1) (\<lambda>(x, vol1, s2).
         rbind (in_kernel (kprintf (pf_junk pf) (''Running `proc-test A`...'' @ nl) []) s2) (\<lambda>s3.
         rbind (run_program pf [''A''] x (set_kernel s3 (show_cursor (sy_kernel s3)))) (\<lambda>(_, x1, s4).
         rbind (in_kernel (kprintf (pf_junk pf) (''Running `proc-test B`...'' @ nl) []) s4) (\<lambda>s5.
         rbind (run_program pf [''B''] x1 (set_kernel s5 (show_cursor (sy_kernel s5)))) (\<lambda>(_, x2, s6).
         rbind (close_program x2 s6) (\<lambda>s7. Inr (Some vol1, s7)))))))
     | None \<Rightarrow>
         rbind (in_kernel (kputs (pf_junk pf) ''Unable to find proc-test! You might want to look into that.'') s1) (\<lambda>s2. Inr (cd1, s2))))"

definition run_shell :: "'d Platform \<Rightarrow> cd_volume option \<Rightarrow> 'd System \<Rightarrow> 'd System res" where
  "run_shell pf cd s =
     rbind (in_kernel (\<lambda>k. kputs (pf_junk pf) [] (console_do (\<lambda>con. setForegroundColor con defaultTextColor) k)) s) (\<lambda>s0.
     rbind (find_program pf cd ''/bin/kvshell'' s0) (\<lambda>(e, _, s1). case e of
       Some (vol, entry) \<Rightarrow>
         rbind (open_program pf vol entry s1) (\<lambda>(x, _, s2).
         rbind (in_kernel (kprintf (pf_junk pf) (''Running kvshell...'' @ nl) []) s2) (\<lambda>s3.
         rbind (run_program pf [] x (set_kernel s3 (show_cursor (sy_kernel s3)))) (\<lambda>(_, x1, s4). close_program x1 s4)))
     | None \<Rightarrow> in_kernel (kputs (pf_junk pf) ''Unable to find kvshell! You might want to look into that.'') s1))"

section \<open>Disks\<close>

definition type_name :: "AtaType \<Rightarrow> string" where
  "type_name t = (case t of PATA \<Rightarrow> ''PATA'' | PATAPI \<Rightarrow> ''PATAPI'' | SATA \<Rightarrow> ''SATA'' | SATAPI \<Rightarrow> ''SATAPI'' | UnknownType \<Rightarrow> ''Unknown'')"

text \<open>The test program on a CD.\<close>

definition run_elf_test :: "'d Platform \<Rightarrow> cd_volume \<Rightarrow> DirectoryEntry \<Rightarrow> 'd System \<Rightarrow> (cd_volume \<times> 'd System) res" where
  "run_elf_test pf cd entry s =
     rbind (Elf.isElf (disk_ops pf) (pf_junk pf) (pf_g pf) entry (snd cd, sy_io s)) (\<lambda>(isElf, dev1, d1).
     rbind (in_kernel (kprintf (pf_junk pf) (''    Recognized ELF? %s'' @ nl) [VStr (cstr (if isElf then ''yes!'' else ''no''))])
             (s\<lparr>sy_io := d1\<rparr>)) (\<lambda>s1.
     rbind (in_kernel (kputs (pf_junk pf) ''    Executing entry point...'') s1) (\<lambda>s2.
     rbind (in_kernel (kputs (pf_junk pf) ''    ======'') s2) (\<lambda>s3.
     rbind (open_program pf (fst cd, dev1) entry s3) (\<lambda>(x, cd1, s4).
     rbind (run_program pf [] x s4) (\<lambda>(retval, x1, s5).
     rbind (close_program x1 s5) (\<lambda>s6.
     rbind (in_kernel (kputs (pf_junk pf) ''    ======'') s6) (\<lambda>s7.
     rbind (in_kernel (kprintf (pf_junk pf) (''    Returning from entry point... -> %x'' @ nl) [VInt (of_int retval)]) s7) (\<lambda>s8.
     Inr (cd1, s8))))))))))"

definition probe_volume :: "'d Platform \<Rightarrow> X86AtaDevice \<Rightarrow> 'd System \<Rightarrow> (cd_volume option \<times> 'd System) res" where
  "probe_volume pf heapDevice s =
     rbind (createVolume (pf_fuel pf) (disk_ops pf) (pf_junk pf) (pf_g pf) (heapDevice, sy_io s)) (\<lambda>(v, dev, d).
     case v of None \<Rightarrow> Inl NullPointer
     | Some vol \<Rightarrow>
         rbind (volume_find pf (vol, dev) ''/bin/elf-test'' (s\<lparr>sy_io := d\<rparr>)) (\<lambda>(e, cd, s1).
         rbind (in_kernel (kprintf (pf_junk pf) (''    Found '' @ [CHR 0x27] @ ''/bin/elf-test'' @ [CHR 0x27] @ ''? %s'' @ nl)
                  [VStr (cstr (if e \<noteq> None then ''yes!'' else ''no''))]) s1) (\<lambda>s2.
         case e of None \<Rightarrow> Inr (Some cd, s2)
         | Some entry \<Rightarrow> rbind (run_elf_test pf cd entry s2) (\<lambda>(cd1, s3). Inr (Some cd1, s3)))))"

definition probe_medium :: "'d Platform \<Rightarrow> X86AtaDevice \<Rightarrow> cd_volume option \<Rightarrow> 'd System \<Rightarrow> (cd_volume option \<times> 'd System) res" where
  "probe_medium pf dev cd s =
     rbind (AtaDevice_sectorSize (pf_fuel pf) (pf_bus pf) (pf_junk16 pf) dev (sy_io s)) (\<lambda>(n, dev1, d1).
     rbind (in_kernel (kprintf (pf_junk pf) (''    Sector size: %u bytes'' @ nl) [VInt n]) (s\<lparr>sy_io := d1\<rparr>)) (\<lambda>s1.
     rbind (in_kernel (kprintf (pf_junk pf) ''    Checking for ISO9660... '' []) s1) (\<lambda>s2.
     rbind (hasFileSystem (disk_ops pf) (pf_junk pf) (dev1, sy_io s2)) (\<lambda>(isIso9660, dev2, d2).
     rbind (in_kernel (kputs (pf_junk pf) (if isIso9660 then ''yes!'' else ''no'')) (s2\<lparr>sy_io := d2\<rparr>)) (\<lambda>s3.
     if isIso9660 then probe_volume pf dev2 s3 else Inr (cd, s3))))))"

text \<open>What is reported of a device that is attached.\<close>

definition report_device :: "'d Platform \<Rightarrow> X86AtaDevice \<Rightarrow> cd_volume option \<Rightarrow> 'd System \<Rightarrow> (cd_volume option \<times> 'd System) res" where
  "report_device pf dev cd s =
     rbind (AtaDevice_model (pf_fuel pf) (pf_bus pf) (pf_junk16 pf) dev (sy_io s)) (\<lambda>(model, dev1, d1).
     rbind (in_kernel (kprintf (pf_junk pf) (''    Name: %s'' @ nl) [VStr model]) (s\<lparr>sy_io := d1\<rparr>)) (\<lambda>s1.
     rbind (in_kernel (kprintf (pf_junk pf) ''    Type: '' []) s1) (\<lambda>s2.
     let (type, d2) = AtaDevice_type (pf_bus pf) dev1 (sy_io s2) in
     rbind (in_kernel (kputs (pf_junk pf) (type_name type)) (s2\<lparr>sy_io := d2\<rparr>)) (\<lambda>s3.
     rbind (AtaDevice_serial (pf_fuel pf) (pf_bus pf) (pf_junk16 pf) dev1 (sy_io s3)) (\<lambda>(serial, dev2, d3).
     rbind (in_kernel (kprintf (pf_junk pf) (''    Serial: %s'' @ nl) [VStr serial]) (s3\<lparr>sy_io := d3\<rparr>)) (\<lambda>s4.
     rbind (AtaDevice_firmware (pf_fuel pf) (pf_bus pf) (pf_junk16 pf) dev2 (sy_io s4)) (\<lambda>(firmware, dev3, d4).
     rbind (in_kernel (kprintf (pf_junk pf) (''    FW: %s'' @ nl) [VStr firmware]) (s4\<lparr>sy_io := d4\<rparr>)) (\<lambda>s5.
     let (type, d5) = AtaDevice_type (pf_bus pf) dev3 (sy_io s5) in
     if type = PATAPI \<or> type = SATAPI then probe_medium pf dev3 cd (s5\<lparr>sy_io := d5\<rparr>) else Inr (cd, s5\<lparr>sy_io := d5\<rparr>)))))))))"

definition probe_device :: "'d Platform \<Rightarrow> X86AtaDevice \<Rightarrow> cd_volume option \<Rightarrow> 'd System \<Rightarrow> (cd_volume option \<times> 'd System) res" where
  "probe_device pf dev cd s =
     rbind (in_kernel (kprintf (pf_junk pf) ('' * Device %s -- %s'' @ nl)
              [VStr (cstr (if isPrimary dev then ''Primary'' else ''Secondary'')), VStr (cstr (if isMaster dev then ''Master'' else ''Slave''))]) s) (\<lambda>s1.
     rbind (isAttached (pf_fuel pf) (pf_bus pf) dev (sy_io s1)) (\<lambda>(attached, d).
     if \<not> attached
     then rbind (in_kernel (kputs (pf_junk pf) ''    [Not attached]'') (s1\<lparr>sy_io := d\<rparr>)) (\<lambda>s2. Inr (cd, s2))
     else report_device pf dev cd (s1\<lparr>sy_io := d\<rparr>)))"

fun new_devices :: "(nat \<Rightarrow> u8) \<Rightarrow> (bool \<times> bool) list \<Rightarrow> X86AtaDevice list res" where
  "new_devices junk [] = Inr []"
| "new_devices junk ((primary, master) # places) =
     rbind (X86AtaDevice_new junk primary master) (\<lambda>dev. rbind (new_devices junk places) (\<lambda>devs. Inr (dev # devs)))"

fun probe_devices :: "'d Platform \<Rightarrow> X86AtaDevice list \<Rightarrow> cd_volume option \<Rightarrow> 'd System \<Rightarrow> (cd_volume option \<times> 'd System) res" where
  "probe_devices pf [] cd s = Inr (cd, s)"
| "probe_devices pf (dev # devs) cd s = rbind (probe_device pf dev cd s) (\<lambda>(cd1, s1). probe_devices pf devs cd1 s1)"

definition read_ata :: "'d Platform \<Rightarrow> 'd System \<Rightarrow> (cd_volume option \<times> 'd System) res" where
  "read_ata pf s =
     rbind (in_kernel (\<lambda>k. console_write (nl @ ''PATA Device Information'' @ nl) (console_do (\<lambda>con. setForegroundColor con COLOR_WHITE) k)) s) (\<lambda>s1.
     let s2 = set_kernel s1 (console_do (\<lambda>con. setForegroundColor con defaultTextColor) (sy_kernel s1)) in
     rbind (new_devices (pf_junk pf) [(True, True), (True, False), (False, True), (False, False)]) (\<lambda>devices.
     probe_devices pf devices None s2))"

section \<open>The boot sequence\<close>

definition init_keyboard :: "'d Platform \<Rightarrow> 'd System \<Rightarrow> 'd System res" where
  "init_keyboard pf s =
     rbind (PS2KeyboardISR_install (pf_bus pf) (sy_cpu s) (sy_io s)) (\<lambda>(cpu, d).
     rbind (PITIRQ_install (pf_bus pf) cpu d) (\<lambda>(cpu1, d1).
     Inr (s\<lparr>sy_cpu := cpu1, sy_io := d1, sy_kernel := (sy_kernel s)\<lparr>k_in := Some PS2Keyboard_new\<rparr>\<rparr>)))"

definition farewell :: "(nat \<Rightarrow> u8) \<Rightarrow> X86Kernel \<Rightarrow> X86Kernel res" where
  "farewell junk k =
     rbind (kprintf junk ''Kernel exited. Maybe you should write the rest of the operating system?'' []
              (console_do (\<lambda>con. setForegroundColor con COLOR_LIGHT_RED) k)) (\<lambda>k1.
     rbind (putchar libk_sys_write 10 (console_do (\<lambda>con. setForegroundColor con defaultTextColor) k1)) (\<lambda>(_, k2). Inr k2))"

text \<open>\<open>init_system\<close> up to the loop that ends it.\<close>

definition run_system :: "'d Platform \<Rightarrow> 'd System \<Rightarrow> 'd System res" where
  "run_system pf s =
     rbind (init_keyboard pf s) (\<lambda>s1.
     rbind (read_ata pf s1) (\<lambda>(cd, s2).
     rbind (if cd = None
            then rbind (in_kernel (\<lambda>k. k_debug_println (pf_g pf) (pf_junk pf) ''Unable to read ATA devices!'' [] k) s2)
                   (in_kernel (kputs (pf_junk pf) (nl @ ''Unable to read any ATA devices! You might want to look into that.'')))
            else Inr s2) (\<lambda>s3.
     rbind (report_date pf s3) (\<lambda>s4.
     rbind (run_proc_test pf cd s4) (\<lambda>(cd1, s5).
     rbind (run_shell pf cd1 s5) (in_kernel (farewell (pf_junk pf))))))))"

fun echo_forever :: "nat \<Rightarrow> X86Kernel \<Rightarrow> X86Kernel res" where
  "echo_forever 0 k = Inl Hang"
| "echo_forever (Suc fuel) k = rbind (in_read k) (\<lambda>(_, k1). echo_forever fuel k1)"

definition init_system :: "'d Platform \<Rightarrow> 'd System \<Rightarrow> 'd System res" where
  "init_system pf s = rbind (run_system pf s) (in_kernel (echo_forever (pf_fuel pf)))"

text \<open>The tasks of \<open>kernel_main\<close>; \<open>s\<close> is the system when the kernel has been constructed.\<close>

definition boot_tasks :: "'d Platform \<Rightarrow> multiboot_info_t \<Rightarrow> u32 \<Rightarrow> 'd System \<Rightarrow> 'd System res" where
  "boot_tasks pf info magic s =
     (let task = log_task (pf_g pf) (pf_junk pf) in
      rbind (task ''Reading multiboot info...''
               (in_kernel (\<lambda>k. if magic \<noteq> 0x2BADB002 then Kernel_panic ''Operating system not loaded by multiboot compliant bootloader.'' k
                              else read_multiboot (pf_fuel pf) (pf_g pf) (pf_junk pf) (pf_mem pf) info k)) s) (\<lambda>s1.
      rbind (task ''Installing CPU descriptor tables...'' (install_cpu pf) s1) (\<lambda>s2.
      rbind (task ''Setting up memory management unit...'' (installMMU pf (mb_mmap_addr info) (mb_mmap_length info)) s2) (\<lambda>s3.
      task ''Installing interrupt handlers...'' (install_handlers pf) s3))))"

definition kernel_main :: "'d Platform \<Rightarrow> MMU \<Rightarrow> u16 list \<Rightarrow> u16 \<Rightarrow> Processor \<Rightarrow> 'd \<Rightarrow> multiboot_info_t \<Rightarrow> u32 \<Rightarrow> 'd System res" where
  "kernel_main pf mmu vga cursor p d info magic =
     rbind (debug_print (pf_g pf) (pf_junk pf) (cstr ''Constructing kernel...'') [] []) (\<lambda>dbg.
     rbind (CPU_new (pf_tss pf)) (\<lambda>cpu.
     rbind (X86Kernel_new mmu vga cursor dbg) (\<lambda>k.
     rbind (k_debug_println (pf_g pf) (pf_junk pf) ''DONE.'' [] k) (\<lambda>k1.
     rbind (boot_tasks pf info magic \<lparr>sy_kernel = k1, sy_as = 0, sy_cpu = cpu, sy_proc = p, sy_io = d\<rparr>) (init_system pf)))))"

section \<open>Colours and rows\<close>

definition text_color :: "u8 \<Rightarrow> u32 \<Rightarrow> u8" where
  "text_color c fg = ucast ((ucast c AND 0xF0 :: u32) OR fg)"

lemma setForegroundColor_simps [simp]:
  "vc_color (setForegroundColor con x) = text_color (vc_color con) x"
  "con_inv (setForegroundColor con x) \<longleftrightarrow> con_inv con" "vc_buffer (setForegroundColor con x) = vc_buffer con"
  "vc_row (setForegroundColor con x) = vc_row con" "vc_column (setForegroundColor con x) = vc_column con"
  "con_pos (setForegroundColor con x) = con_pos con"
  "vc_cursorIsVisible (setForegroundColor con x) = vc_cursorIsVisible con"
  by (simp_all add: setForegroundColor_def text_color_def con_inv_def con_pos_def)

lemma high_bits: "(a :: u32) < 16 \<Longrightarrow> 4 \<le> n \<Longrightarrow> \<not> bit a n"
proof -
  assume "a < 16" "4 \<le> n"
  then have "a = take_bit 4 a" by (simp add: take_bit_eq_mod word_mod_less_divisor unat_mod word_less_nat_alt word32_eq_iff_unat)
  then show "\<not> bit a n" using \<open>4 \<le> n\<close> by (metis bit_take_bit_iff leD)
qed

lemma text_color_twice:
  assumes "a < 16"
  shows "text_color (text_color c a) b = text_color c b"
proof -
  have b: "bit (0xF0 :: int) n \<longleftrightarrow> 4 \<le> n \<and> n < 8" for n
  proof -
    have m: "(0xF0 :: int) = push_bit 4 (mask 4)" by (simp add: mask_eq_exp_minus_1 push_bit_eq_mult)
    show ?thesis unfolding m by (auto simp: bit_push_bit_iff bit_mask_iff)
  qed
  have "(ucast (ucast ((ucast c AND 0xF0 :: u32) OR a) :: u8) AND 0xF0 :: u32) = ucast c AND 0xF0"
  proof (rule bit_eqI)
    fix n
    show "bit (ucast (ucast ((ucast c AND 0xF0 :: u32) OR a) :: u8) AND 0xF0 :: u32) n \<longleftrightarrow> bit (ucast c AND 0xF0 :: u32) n"
      using high_bits[OF assms, of n] by (auto simp: bit_simps b)
  qed
  then show ?thesis by (simp add: text_color_def)
qed

text \<open>Cells from \<open>p\<close> on replaced.\<close>

definition overwrite :: "nat \<Rightarrow> 'a list \<Rightarrow> 'a list \<Rightarrow> 'a list" where
  "overwrite p ys xs = take p xs @ ys @ drop (p + length ys) xs"

lemma length_overwrite [simp]: "p + length ys \<le> length xs \<Longrightarrow> length (overwrite p ys xs) = length xs"
  by (simp add: overwrite_def)

lemma overwrite_nth:
  "p + length ys \<le> length xs \<Longrightarrow> i < length xs \<Longrightarrow> overwrite p ys xs ! i = (if p \<le> i \<and> i < p + length ys then ys ! (i - p) else xs ! i)"
  unfolding overwrite_def by (rule nth_splice)

lemma overwrite_inside:
  assumes "p + length ys \<le> length xs" "j + length zs \<le> length ys"
  shows "overwrite (p + j) zs (overwrite p ys xs) = overwrite p (overwrite j zs ys) xs"
  by (rule nth_equalityI) (use assms in \<open>auto simp: overwrite_nth\<close>)

lemma overwrite_over:
  assumes "p + length ys \<le> length xs" "length zs = length ys"
  shows "overwrite p zs (overwrite p ys xs) = overwrite p zs xs"
  by (rule nth_equalityI) (use assms in \<open>auto simp: overwrite_nth\<close>)

definition cells :: "u8 \<Rightarrow> u8 list \<Rightarrow> u16 list" where
  "cells color w = map (\<lambda>c. make_vgaentry c color) w"

lemma length_cells [simp]: "length (cells color w) = length w"
  by (simp add: cells_def)

text \<open>Writing text that ends before the end of the row.\<close>

lemma con_pos_parts:
  assumes "con_inv con" "con_pos con = r * 80 + c" "c < 80"
  shows "unat (vc_row con) = r" "unat (vc_column con) = c"
proof -
  have p: "unat (vc_row con) * 80 + unat (vc_column con) = r * 80 + c" "unat (vc_column con) < 80"
    using assms con_bounds[of con] by (simp_all add: con_pos_def)
  then have "(unat (vc_row con) * 80 + unat (vc_column con)) div 80 = (r * 80 + c) div 80" by simp
  then show "unat (vc_row con) = r" using p(2) assms(3) by simp
  then show "unat (vc_column con) = c" using p by simp
qed

lemma write_in_row:
  assumes inv: "con_inv con" and w: "0 \<notin> set w" "10 \<notin> set w" and pos: "con_pos con = r * 80 + c" "c + length w < 80"
  shows "\<exists>con'. writeString con (w @ [0]) = Inr con' \<and> con_inv con' \<and> same_look con con' \<and> con_pos con' = r * 80 + (c + length w)
    \<and> vc_buffer con' = overwrite (r * 80 + c) (cells (vc_color con) w) (vc_buffer con)"
proof -
  have rc: "unat (vc_row con) = r" using con_pos_parts(1)[OF inv pos(1)] pos(2) by simp
  then have r: "r < 25" using con_bounds[OF inv] by simp
  have len: "length (vc_buffer con) = 2000" using inv by (simp add: con_inv_def)
  have n: "unat (of_nat (length w) :: size_t) = length w" using pos(2) by (simp add: unsigned_of_nat take_bit_nat_eq_self)
  from writeString_n_ok[OF inv, of "of_nat (length w)" "w @ [0]"] n obtain con' where
    c': "writeString_n con (w @ [0]) (of_nat (length w)) = Inr con'" "con_inv con'" "same_look con con'"
    "(vc_buffer con', con_pos con') = fold (term_put (vc_color con)) w (vc_buffer con, con_pos con)" by auto
  have "writeString con (w @ [0]) = Inr con'" using c'(1) cstrlen_ok[OF w(1), of "[]"] by (simp add: writeString_def)
  moreover have "(vc_buffer con', con_pos con') = (overwrite (r * 80 + c) (cells (vc_color con) w) (vc_buffer con), r * 80 + (c + length w))"
    using c'(4) fold_put_plain[OF w(2) _ len, of "con_pos con" "vc_color con"] pos r by (simp add: overwrite_def cells_def)
  ultimately show ?thesis using c'(2,3) by auto
qed

text \<open>Blanking the row of the cursor; at the bottom of the screen this scrolls.\<close>

definition room_above :: "VGATextConsole \<Rightarrow> u16 list \<times> nat" where
  "room_above con = (if unat (vc_row con) = 24 then (term_scroll (vc_color con) (vc_buffer con), 23) else (vc_buffer con, unat (vc_row con)))"

lemma put_blanks:
  assumes inv: "con_inv con" and col: "vc_column con = 0" and b: "room_above con = (buf, r)"
  shows "\<exists>con'. put_all con (replicate 80 32) = Inr con' \<and> con_inv con' \<and> same_look con con'
    \<and> con_pos con' = (r + 1) * 80 \<and> vc_buffer con' = overwrite (r * 80) (replicate 80 (blank (vc_color con))) buf"
proof -
  let ?c = "vc_color con" and ?R = "unat (vc_row con)"
  have len: "length (vc_buffer con) = 2000" and R: "?R < 25" "con_pos con = ?R * 80"
    using inv con_bounds[OF inv] col by (simp_all add: con_inv_def con_pos_def)
  have b79: "fold (term_put ?c) (replicate 79 32) (vc_buffer con, ?R * 80)
      = (overwrite (?R * 80) (cells ?c (replicate 79 32)) (vc_buffer con), ?R * 80 + 79)"
    using fold_put_plain[of "replicate 79 32" "?R * 80" "vc_buffer con" ?c] len R by (simp add: overwrite_def cells_def)
  have r80: "replicate 80 (32 :: u8) = replicate 79 32 @ [32]" using replicate_add[of 79 1 "32 :: u8"] by simp
  have s80: "(overwrite (?R * 80) (replicate 79 x) (vc_buffer con))[?R * 80 + 79 := x] = overwrite (?R * 80) (replicate 80 x) (vc_buffer con)" for x
    by (rule nth_equalityI) (use len R in \<open>auto simp: overwrite_nth nth_list_update\<close>)
  have f: "fold (term_put ?c) (replicate 80 32) (vc_buffer con, ?R * 80)
      = (if ?R = 24 then (term_scroll ?c (overwrite (?R * 80) (replicate 80 (blank ?c)) (vc_buffer con)), 1920)
         else (overwrite (?R * 80) (replicate 80 (blank ?c)) (vc_buffer con), ?R * 80 + 80))"
    unfolding r80 fold_append o_apply b79 using s80 R by (simp add: term_put_def cells_def blank_def map_replicate)
  have e: "term_scroll ?c (overwrite 1920 (replicate 80 (blank ?c)) (vc_buffer con)) = overwrite 1840 (replicate 80 (blank ?c)) (term_scroll ?c (vc_buffer con))"
    using len by (simp add: term_scroll_def overwrite_def drop_take)
  from put_all_ok[OF inv, of "replicate 80 32"] show ?thesis
    unfolding R(2) f using b e by (auto simp: room_above_def split: if_splits)
qed

text \<open>Text that can be printed on a line: no terminator and no line feed in it.\<close>

definition one_line :: "string \<Rightarrow> bool" where
  "one_line s \<longleftrightarrow> 0 \<notin> set (ascii s) \<and> 10 \<notin> set (ascii s)"

lemma debug_print_ok: "0 \<notin> set (ascii s) \<Longrightarrow> k_debug_print g junk s k = Inr (k\<lparr>k_debug := k_debug k @ ascii s\<rparr>)"
  using dbg.print_ok[OF TrueI, of "[]" "ascii s" g junk "k_debug k"] by (auto simp: k_debug_print_def debug_print_def cstr_ascii call_text_def)

lemma debug_println_plain: "0 \<notin> set (ascii s) \<Longrightarrow> k_debug_println g junk s [] k = Inr (k\<lparr>k_debug := k_debug k @ ascii s @ [10]\<rparr>)"
  using debug_println_ok[of "[]" s g junk k] by (simp add: ascii_def call_text_def)

text \<open>A kernel that differs from another in what it shows only.\<close>

definition now_shows :: "X86Kernel \<Rightarrow> u8 list \<Rightarrow> u16 list \<Rightarrow> nat \<Rightarrow> u8 \<Rightarrow> X86Kernel \<Rightarrow> bool" where
  "now_shows k debug buf pos color k' \<longleftrightarrow> (\<exists>con. k' = k\<lparr>k_console := con, k_debug := k_debug k @ debug\<rparr> \<and> con_inv con
     \<and> vc_buffer con = buf \<and> con_pos con = pos \<and> vc_color con = color)"

lemma log_task_begin_ok:
  assumes inv: "con_inv (k_console k)" and t: "one_line t" "length t < 75"
    and b: "room_above (k_console k) = (buf, r)" and c: "vc_color (k_console k) = c"
  shows "\<exists>k'. log_task_begin g junk t k = Inr (of_nat r, k')
    \<and> now_shows k (ascii t) (overwrite (r * 80) (cells (text_color c 15) (ascii t) @ replicate (80 - length t) (blank c)) buf)
        (r * 80 + length t) (text_color c 7) k'"
proof -
  let ?con = "k_console k" and ?k = "k\<lparr>k_debug := k_debug k @ ascii t\<rparr>"
  have dbg: "k_debug_print g junk t k = Inr ?k" using debug_print_ok[of t g junk k] t(1) by (simp add: one_line_def)
  have inv0: "con_inv (moveTo ?con (vc_row ?con) 0)" using inv by (simp add: con_inv_def)
  have b0: "room_above (moveTo ?con (vc_row ?con) 0) = (buf, r)" using b by (simp add: room_above_def split: if_splits)
  have r: "r < 24" "length buf = 2000" using b con_bounds[OF inv] inv by (auto simp: room_above_def con_inv_def term_scroll_def split: if_splits)
  from put_blanks[OF inv0 _ b0] c obtain con1 where con1: "put_all (moveTo ?con (vc_row ?con) 0) (replicate 80 32) = Inr con1" "con_inv con1"
    "vc_color con1 = c" "con_pos con1 = (r + 1) * 80" "vc_buffer con1 = overwrite (r * 80) (replicate 80 (blank c)) buf"
    by (auto simp: same_look_def)
  have row1: "unat (vc_row con1) = r + 1" using con_pos_parts(1)[OF con1(2), of "r + 1" 0] con1(4) by simp
  then have "vc_row con1 \<noteq> 0" by auto
  then have row: "unat (vc_row con1 - 1) = r" using row1 by (simp add: unat_minus_one)
  let ?con2 = "setForegroundColor (moveTo con1 (vc_row con1 - 1) 0) 15"
  have con2: "con_inv ?con2" "con_pos ?con2 = r * 80 + 0" "vc_color ?con2 = text_color c 15" "vc_buffer ?con2 = vc_buffer con1"
    using con1(2,3) row r(1) by (simp_all add: con_inv_def con_pos_def word_less_nat_alt)
  from write_in_row[OF con2(1) _ _ con2(2), of "ascii t"] t obtain con3 where con3: "writeString ?con2 (ascii t @ [0]) = Inr con3" "con_inv con3"
    "vc_color con3 = text_color c 15" "con_pos con3 = r * 80 + length t"
    "vc_buffer con3 = overwrite (r * 80) (cells (text_color c 15) (ascii t)) (vc_buffer con1)"
    using con2(3,4) by (auto simp: one_line_def same_look_def)
  have col3: "unat (vc_column con3) = length t" "unat (vc_row con3) = r"
    using con_pos_parts[OF con3(2), of r "length t"] con3(4) t(2) by simp_all
  have short: "\<not> vc_column con3 > VGA_WIDTH - 6" using col3 t(2) by (simp add: VGA_WIDTH_def word_less_nat_alt)
  have rr: "vc_row con3 = of_nat r" using col3(2) r(1) by (simp add: word32_eq_iff_unat unsigned_of_nat take_bit_nat_eq_self)
  have w: "unat VGA_WIDTH = 80" by (simp add: VGA_WIDTH_def)
  have "log_task_begin g junk t k = Inr (of_nat r, ?k\<lparr>k_console := setForegroundColor con3 7\<rparr>)"
    using con3(1) short rr unfolding log_task_begin_def dbg w by (simp add: con1(1) cstr_ascii Let_def)
  moreover have "vc_buffer con3 = overwrite (r * 80) (cells (text_color c 15) (ascii t) @ replicate (80 - length t) (blank c)) buf"
    unfolding con3(5) con1(5) using t(2) r overwrite_inside[of "r * 80" "replicate 80 (blank c)" buf 0 "cells (text_color c 15) (ascii t)"]
    by (simp add: overwrite_def)
  ultimately show ?thesis using con3(2-4) unfolding now_shows_def
    by (intro exI[of _ "?k\<lparr>k_console := setForegroundColor con3 7\<rparr>"] conjI exI[of _ "setForegroundColor con3 7"]) (simp_all add: text_color_twice)
qed

text \<open>The end of a line that is logged; at the bottom of the screen it scrolls.\<close>

lemma moveTo_pos:
  assumes "con_inv con" "unat (vc_row con) = r" "unat col = c" "c < 80"
  shows "con_inv (moveTo con (vc_row con) col)" "con_pos (moveTo con (vc_row con) col) = r * 80 + c"
    "vc_color (moveTo con (vc_row con) col) = vc_color con" "vc_buffer (moveTo con (vc_row con) col) = vc_buffer con"
  using assms by (simp_all add: con_inv_def con_pos_def word_less_nat_alt)

lemma overwrite_append:
  assumes "p + length ys + length zs \<le> length xs"
  shows "overwrite (p + length ys) zs (overwrite p ys xs) = overwrite p (ys @ zs) xs"
  by (rule nth_equalityI) (use assms in \<open>auto simp: overwrite_nth nth_append\<close>)

lemma log_text_ok:
  assumes inv: "con_inv con" and s: "one_line s" "length s + 3 \<le> 80" and r: "unat (vc_row con) = r" and c: "vc_color con = c"
  shows "\<exists>con'. log_text s x con = Inr con' \<and> con_inv con' \<and> vc_color con' = text_color c x \<and> con_pos con' = r * 80 + 78
    \<and> vc_buffer con' = overwrite (r * 80 + (77 - length s)) (cells c [91] @ cells (text_color c x) (ascii s)) (vc_buffer con)"
proof -
  let ?n = "length s"
  have r25: "r < 25" using con_bounds[OF inv] r by simp
  have n: "cstrlen (cstr s) = Inr (of_nat ?n)" using cstrlen_ok[of "ascii s" "[]"] s(1) by (simp add: cstr_ascii one_line_def)
  have "unat (of_nat ?n + 3 :: size_t) = ?n + 3" using s(2) by (simp add: unat_word_ariths unsigned_of_nat take_bit_nat_eq_self)
  then have col: "unat (VGA_WIDTH - (of_nat ?n + 3)) = 77 - ?n" using s(2) by (simp add: VGA_WIDTH_def unat_sub word_le_nat_alt)
  have c77: "77 - ?n < 80" by simp
  note m = moveTo_pos[OF inv r col c77]
  have br: "(of_char (CHR ''['') :: u8) = 91" by (simp add: of_char_def)
  have "77 - ?n + length [91 :: u8] < 80" by simp
  from write_in_row[OF m(1) _ _ m(2) this] m(3,4) c obtain con1 where con1:
    "writeString (moveTo con (vc_row con) (VGA_WIDTH - (of_nat ?n + 3))) [91, 0] = Inr con1" "con_inv con1" "vc_color con1 = c"
    "con_pos con1 = r * 80 + (77 - ?n + 1)" "vc_buffer con1 = overwrite (r * 80 + (77 - ?n)) (cells c [91]) (vc_buffer con)"
    by (auto simp: same_look_def)
  let ?con1 = "setForegroundColor con1 x"
  have "con_inv ?con1" "con_pos ?con1 = r * 80 + (77 - ?n + 1)" using con1(2,4) by simp_all
  from write_in_row[OF this(1) _ _ this(2), of "ascii s"] s con1(3) obtain con2 where con2:
    "writeString ?con1 (ascii s @ [0]) = Inr con2" "con_inv con2" "vc_color con2 = text_color c x"
    "con_pos con2 = r * 80 + (77 - ?n + 1 + ?n)" "vc_buffer con2 = overwrite (r * 80 + (77 - ?n + 1)) (cells (text_color c x) (ascii s)) (vc_buffer con1)"
    by (auto simp: one_line_def same_look_def)
  have "length (vc_buffer con) = 2000" using inv by (simp add: con_inv_def)
  then have "vc_buffer con2 = overwrite (r * 80 + (77 - ?n)) (cells c [91] @ cells (text_color c x) (ascii s)) (vc_buffer con)"
    unfolding con2(5) con1(5)
    using overwrite_append[of "r * 80 + (77 - ?n)" "cells c [91]" "cells (text_color c x) (ascii s)" "vc_buffer con"] r25 s(2) by simp
  moreover have "log_text s x con = Inr con2"
    unfolding log_text_def n using con1(1) con2(1) br by (simp add: cstr_ascii ascii_def)
  ultimately show ?thesis using con2 s(2) by auto
qed

lemma log_result_ok:
  assumes inv: "con_inv (k_console k)" and s: "one_line (if success \<noteq> 0 then ack else nak)" "length (if success \<noteq> 0 then ack else nak) + 3 \<le> 80"
    and r: "unat (vc_row (k_console k)) = r" "r < 24" and c: "vc_color (k_console k) = text_color c 7"
  shows "let str = (if success \<noteq> 0 then ack else nak) in
    \<exists>k'. log_result g junk success ack nak k = Inr (success, k')
    \<and> now_shows k (ascii str @ [10]) (overwrite (r * 80 + (77 - length str)) (cells (text_color c 7) [91]
          @ cells (text_color c (if success \<noteq> 0 then COLOR_GREEN else COLOR_RED)) (ascii str) @ cells (text_color c 15) [93]) (vc_buffer (k_console k)))
        ((r + 1) * 80) (text_color c 7) k'"
proof -
  define str where "str = (if success \<noteq> 0 then ack else nak)"
  define x where "x = (if success \<noteq> 0 then COLOR_GREEN else COLOR_RED)"
  note s = s[folded str_def]
  let ?k = "k\<lparr>k_debug := k_debug k @ ascii str @ [10]\<rparr>"
  have dbg: "k_debug_println g junk str [] k = Inr ?k" using debug_println_plain[of str g junk k] s(1) by (simp add: one_line_def)
  have x: "x < 16" "text_color (text_color c 7) x = text_color c x" "text_color (text_color c x) 15 = text_color c 15"
    "text_color (text_color c 15) 7 = text_color c 7"
    by (simp_all add: x_def text_color_twice)
  from log_text_ok[OF inv s r(1) c, of x] x(2) obtain con1 where con1: "log_text str x (k_console k) = Inr con1" "con_inv con1"
    "vc_color con1 = text_color c x" "con_pos con1 = r * 80 + 78"
    "vc_buffer con1 = overwrite (r * 80 + (77 - length str)) (cells (text_color c 7) [91] @ cells (text_color c x) (ascii str)) (vc_buffer (k_console k))"
    by auto
  let ?con1 = "setForegroundColor con1 15" and ?w = "[93, 10] :: u8 list"
  have len: "length (vc_buffer con1) = 2000" "length (vc_buffer (k_console k)) = 2000" using con1(2) inv by (simp_all add: con_inv_def)
  have two: "unat (2 :: size_t) = length ?w" by simp
  then have "unat (2 :: size_t) \<le> length (?w @ [0])" by simp
  from writeString_n_ok[OF _ this, of ?con1, unfolded two] con1(2,3) x(3) obtain con2 where con2: "writeString_n ?con1 [93, 10, 0] 2 = Inr con2" "con_inv con2"
    "vc_color con2 = text_color c 15" "(vc_buffer con2, con_pos con2) = fold (term_put (text_color c 15)) ?w (vc_buffer con1, con_pos con1)"
    by (auto simp: same_look_def)
  have "fold (term_put (text_color c 15)) ?w (vc_buffer con1, con_pos con1)
      = ((vc_buffer con1)[r * 80 + 78 := make_vgaentry 93 (text_color c 15)], (r + 1) * 80)"
    using r(2) con1(4) by (simp add: term_put_def)
  also have "(vc_buffer con1)[r * 80 + 78 := make_vgaentry 93 (text_color c 15)] = overwrite (r * 80 + 78) (cells (text_color c 15) [93]) (vc_buffer con1)"
    using len(1) r(2) by (simp add: overwrite_def cells_def upd_conv_take_nth_drop)
  also have "\<dots> = overwrite (r * 80 + (77 - length str)) ((cells (text_color c 7) [91] @ cells (text_color c x) (ascii str)) @ cells (text_color c 15) [93]) (vc_buffer (k_console k))"
    unfolding con1(5) using overwrite_append[of "r * 80 + (77 - length str)" "cells (text_color c 7) [91] @ cells (text_color c x) (ascii str)"
      "cells (text_color c 15) [93]" "vc_buffer (k_console k)"] s(2) r(2) len(2) by (simp add: add.commute)
  finally have b: "vc_buffer con2 = overwrite (r * 80 + (77 - length str)) (cells (text_color c 7) [91] @ cells (text_color c x) (ascii str) @ cells (text_color c 15) [93]) (vc_buffer (k_console k))"
    "con_pos con2 = (r + 1) * 80" using con2(4) by simp_all
  have "writeString ?con1 (cstr ('']'' @ nl)) = Inr con2" using con2(1) by (simp add: writeString_def cstr_def of_char_def)
  then have "log_result g junk success ack nak k = Inr (success, ?k\<lparr>k_console := setForegroundColor con2 7\<rparr>)"
    unfolding log_result_def str_def[symmetric] x_def[symmetric] Let_def dbg using con1(1) by simp
  moreover have "now_shows k (ascii str @ [10]) (vc_buffer con2) ((r + 1) * 80) (text_color c 7) (?k\<lparr>k_console := setForegroundColor con2 7\<rparr>)"
    unfolding now_shows_def using con2(2,3) b(2) x(4) by (intro exI[of _ "setForegroundColor con2 7"]) simp
  ultimately show ?thesis unfolding b(1) str_def[symmetric] x_def[symmetric] Let_def by blast
qed

definition log_row :: "u8 \<Rightarrow> string \<Rightarrow> string \<Rightarrow> u32 \<Rightarrow> u16 list" where
  "log_row c t str x = cells (text_color c 15) (ascii t) @ replicate (77 - length str - length t) (blank c)
     @ cells (text_color c 7) [91] @ cells (text_color c x) (ascii str) @ cells (text_color c 15) [93] @ [blank c]"

lemma log_row_cells:
  assumes "length t + length str \<le> 77" "r < 24" "length buf = 2000"
  shows "overwrite (r * 80 + (77 - length str)) (cells (text_color c 7) [91] @ cells (text_color c x) (ascii str) @ cells (text_color c 15) [93])
      (overwrite (r * 80) (cells (text_color c 15) (ascii t) @ replicate (80 - length t) (blank c)) buf)
    = overwrite (r * 80) (log_row c t str x) buf"
proof -
  let ?a = "cells (text_color c 15) (ascii t)"
    and ?z = "cells (text_color c 7) [91] @ cells (text_color c x) (ascii str) @ cells (text_color c 15) [93]"
  have e: "80 - length t = (77 - length str - length t) + length ?z + 1" using assms(1) by simp
  have "overwrite (77 - length str) ?z (?a @ replicate (80 - length t) (blank c)) = log_row c t str x"
    unfolding e replicate_add using assms(1) by (simp add: overwrite_def log_row_def)
  then show ?thesis using assms overwrite_inside[of "r * 80" "?a @ replicate (80 - length t) (blank c)" buf "77 - length str" ?z] by simp
qed

text \<open>A line of the log, with nothing printed between its two parts.\<close>

lemma log_line_ok:
  assumes inv: "con_inv (k_console k)" and t: "one_line t" "length t < 75"
    and s: "one_line str" "length t + length str \<le> 77" and e: "str = (if success \<noteq> 0 then ack else nak)"
    and b: "room_above (k_console k) = (buf, r)" and c: "vc_color (k_console k) = c"
  obtains k1 where "log_task_begin g junk t k = Inr (of_nat r, k1)"
    "\<And>k2. k_console k2 = k_console k1 \<Longrightarrow>
      \<exists>k'. log_result g junk success ack nak k2 = Inr (success, k')
        \<and> now_shows k2 (ascii str @ [10]) (overwrite (r * 80) (log_row c t str (if success \<noteq> 0 then COLOR_GREEN else COLOR_RED)) buf)
            ((r + 1) * 80) (text_color c 7) k'"
proof -
  have r: "r < 24" "length buf = 2000" using b con_bounds[OF inv] inv by (auto simp: room_above_def con_inv_def term_scroll_def split: if_splits)
  from log_task_begin_ok[OF inv t b c, of g junk] obtain k1 con where k1: "log_task_begin g junk t k = Inr (of_nat r, k1)"
    "k_console k1 = con" "con_inv con" "con_pos con = r * 80 + length t" "vc_color con = text_color c 7"
    "vc_buffer con = overwrite (r * 80) (cells (text_color c 15) (ascii t) @ replicate (80 - length t) (blank c)) buf"
    by (auto simp: now_shows_def)
  have row: "unat (vc_row con) = r" using con_pos_parts(1)[OF k1(3,4)] t(2) by simp
  show thesis
  proof (rule that[OF k1(1)])
    fix k2 :: X86Kernel
    assume "k_console k2 = k_console k1"
    then have k2: "k_console k2 = con" using k1(2) by simp
    have "length str + 3 \<le> 80" using s(2) by simp
    then show "\<exists>k'. log_result g junk success ack nak k2 = Inr (success, k')
        \<and> now_shows k2 (ascii str @ [10]) (overwrite (r * 80) (log_row c t str (if success \<noteq> 0 then COLOR_GREEN else COLOR_RED)) buf)
            ((r + 1) * 80) (text_color c 7) k'"
      using log_result_ok[of k2 success ack nak r c g junk] k1(3,5) s(1) row r(1)
      unfolding k2 k1(6) Let_def e[symmetric] log_row_cells[OF s(2) r] by blast
  qed
qed

section \<open>What is printed\<close>

text \<open>Coloured text, and a kernel that differs from another in the text it has printed only.\<close>

definition paint :: "u8 \<Rightarrow> u8 list \<Rightarrow> (u8 \<times> u8) list" where
  "paint c t = map (Pair c) t"

definition says :: "X86Kernel \<Rightarrow> (u8 \<times> u8) list \<Rightarrow> u8 list \<Rightarrow> u8 \<Rightarrow> X86Kernel \<Rightarrow> bool" where
  "says k ws debug c k' \<longleftrightarrow> (\<exists>con. k' = k\<lparr>k_console := con, k_debug := k_debug k @ debug\<rparr> \<and> con_inv con
     \<and> terminal con = fold (\<lambda>(c, b). term_write c b) ws (screen k) \<and> vc_color con = c)"

lemma says_trans: "says k ws1 d1 c1 k1 \<Longrightarrow> says k1 ws2 d2 c2 k2 \<Longrightarrow> says k (ws1 @ ws2) (d1 @ d2) c2 k2"
  unfolding says_def screen_def by (elim exE conjE) (intro exI conjI, auto)

lemma says_con: "says k ws d c k' \<Longrightarrow> con_inv (k_console k')"
  and says_color: "says k ws d c k' \<Longrightarrow> vc_color (k_console k') = c"
  by (auto simp: says_def)

lemma fold_paint: "fold (\<lambda>(c, b). term_write c b) (paint c t) = fold (term_write c) t"
  by (simp add: paint_def fold_map o_def)

lemma shows_more_says:
  assumes "shows_more k k'" "screen k' = on_screen k t"
  shows "says k (paint (vc_color (k_console k)) t) [] (vc_color (k_console k)) k'"
proof -
  from assms(1) obtain con where "k' = k\<lparr>k_console := con\<rparr>" "con_inv con" "vc_color con = vc_color (k_console k)" by (auto simp: shows_more_def)
  then show ?thesis using assms(2) unfolding says_def fold_paint by (intro exI[of _ con]) (simp add: screen_def)
qed

lemma says_nothing: "con_inv (k_console k) \<Longrightarrow> says k [] [] (text_color (vc_color (k_console k)) x) (console_do (\<lambda>con. setForegroundColor con x) k)"
  unfolding says_def console_do_def by (intro exI[of _ "setForegroundColor (k_console k) x"]) (simp add: screen_def terminal_def)

lemma kprintf_says:
  assumes "con_inv (k_console k)" "cstr fmt = t @ fmt_string dirs @ [0]" "args = fmt_args dirs" "literal t" "fmt_ok dirs"
    and "length (t @ fmt_text dirs) < 2 ^ 31" "c = vc_color (k_console k)"
  shows "\<exists>k'. kprintf junk fmt args k = Inr k' \<and> says k (paint c (t @ fmt_text dirs)) [] c k'"
  using kernel_printf_ok[OF assms(1,4,5,6), of junk] shows_more_says[of k _ "t @ fmt_text dirs"] unfolding kprintf_def assms(2,3,7) by auto

lemma kputs_says:
  assumes "con_inv (k_console k)" "0 \<notin> set (ascii s)" "length s < 2 ^ 30" "c = vc_color (k_console k)"
  shows "\<exists>k'. kputs junk s k = Inr k' \<and> says k (paint c (ascii s @ [10])) [] c k'"
proof -
  have f: "[37, 115, 10, 0] = [] @ fmt_string [(DStr (ascii s) [], [10])] @ [0]" "[VStr (cstr s)] = fmt_args [(DStr (ascii s) [], [10])]"
    by (simp_all add: cstr_ascii)
  have o: "literal []" "fmt_ok [(DStr (ascii s) [], [10])]" "length ([] @ fmt_text [(DStr (ascii s) [], [10])]) < 2 ^ 31"
    using assms(2,3) by (simp_all add: literal_def)
  have "fmt_text [(DStr (ascii s) [], [10])] = ascii s @ [10]" by simp
  then show ?thesis using kernel_printf_ok[OF assms(1) o, of junk] shows_more_says[of k _ "ascii s @ [10]"]
    unfolding kputs_def puts_def f assms(4) append_Nil by auto
qed

lemma console_write_says:
  assumes "con_inv (k_console k)" "0 \<notin> set (ascii s)" "8 \<notin> set (ascii s)" "length s < 2 ^ 32" "c = vc_color (k_console k)"
  shows "\<exists>k'. console_write s k = Inr k' \<and> says k (paint c (ascii s)) [] c k'"
proof -
  have n: "unat (of_nat (length s) :: size_t) = length s" using assms(4) by (simp add: unsigned_of_nat take_bit_nat_eq_self)
  have e: "fold (term_put c) w st = fold (term_write c) w st" if "8 \<notin> set w" for w st
    using that by (induction w arbitrary: st) (simp_all add: term_write_def)
  from writeString_n_ok[OF assms(1), of "of_nat (length s)" "cstr s"] n obtain con where con: "writeString_n (k_console k) (cstr s) (of_nat (length s)) = Inr con"
    "con_inv con" "same_look (k_console k) con" "(vc_buffer con, con_pos con) = fold (term_put c) (ascii s) (vc_buffer (k_console k), con_pos (k_console k))"
    using assms(5) by (auto simp: cstr_ascii)
  have "console_write s k = Inr (k\<lparr>k_console := con\<rparr>)"
    using con(1) cstrlen_ok[OF assms(2), of "[]"] by (simp add: console_write_def writeString_def cstr_ascii)
  moreover have "says k (paint c (ascii s)) [] c (k\<lparr>k_console := con\<rparr>)"
    unfolding says_def fold_paint using con(2-4) assms(3,5) e by (intro exI[of _ con]) (simp add: same_look_def terminal_def screen_def)
  ultimately show ?thesis by blast
qed

lemma debug_says:
  assumes "con_inv (k_console k)" "0 \<notin> set (ascii s)" "c = vc_color (k_console k)"
  shows "\<exists>k'. k_debug_println g junk s [] k = Inr k' \<and> says k [] (ascii s @ [10]) c k'"
  unfolding debug_println_plain[OF assms(2)] says_def using assms(1,3) by (auto simp: screen_def intro: exI[of _ "k_console k"])

section \<open>Starting without disks\<close>

text \<open>A channel without devices, whose status register reads as zero.\<close>

definition diskless :: "'d Platform \<Rightarrow> bool" where
  "diskless pf \<longleftrightarrow> 0 < pf_fuel pf \<and> (\<forall>d. fst (bus_inb (pf_bus pf) 0x1F7 d) = 0 \<and> fst (bus_inb (pf_bus pf) 0x177 d) = 0)"

lemma isAttached_diskless:
  assumes "diskless pf" "X86AtaDevice_new junk p m = Inr dev"
  shows "\<exists>d'. isAttached (pf_fuel pf) (pf_bus pf) dev d = Inr (False, d')"
proof -
  have io: "ata_ioPort dev = ioPort p" using assms(2) by (auto simp: X86AtaDevice_new_def)
  have z: "fst (bus_inb (pf_bus pf) (ioPort p + kAtaRegisterStatus) d) = 0" for d
    using assms(1) by (cases p) (simp_all add: diskless_def ioPort_def kAtaRegisterStatus_def)
  obtain n where n: "pf_fuel pf = Suc n" using assms(1) by (cases "pf_fuel pf") (auto simp: diskless_def)
  have w: "\<exists>d'. wait_forever (pf_fuel pf) (pf_bus pf) (ioPort p + kAtaRegisterStatus) d = Inr (0, d')" for d
    using z[of d] by (cases "bus_inb (pf_bus pf) (ioPort p + kAtaRegisterStatus) d") (simp add: n)
  show ?thesis unfolding isAttached_def waitForStatus_def io Let_def
    using w by (auto simp: rbind_Inr_iff)
qed

definition place_text :: "bool \<Rightarrow> bool \<Rightarrow> u8 list" where
  "place_text primary master =
     ascii '' * Device '' @ ascii (if primary then ''Primary'' else ''Secondary'') @ ascii '' -- '' @ ascii (if master then ''Master'' else ''Slave'') @ [10]
     @ ascii ''    [Not attached]'' @ [10]"

lemmas text_simps = literal_def ascii_def of_char_def

lemma probe_device_diskless:
  assumes "diskless pf" "con_inv (k_console (sy_kernel s))" "vc_color (k_console (sy_kernel s)) = c"
    and dev: "X86AtaDevice_new junk p m = Inr dev"
  shows "\<exists>s'. probe_device pf dev cd s = Inr (cd, s') \<and> says (sy_kernel s) (paint c (place_text p m)) [] c (sy_kernel s') \<and> sy_cpu s' = sy_cpu s"
proof -
  let ?P = "if p then ''Primary'' else ''Secondary''" and ?M = "if m then ''Master'' else ''Slave''"
  have pm: "isPrimary dev = p" "isMaster dev = m"
    using dev by (auto simp: X86AtaDevice_new_def isPrimary_def isMaster_def slaveBit_def split: if_splits)
  let ?ds = "[(DStr (ascii ?P) [], ascii '' -- ''), (DStr (ascii ?M) [], [10])]"
  have f: "cstr ('' * Device %s -- %s'' @ nl) = ascii '' * Device '' @ fmt_string ?ds @ [0]" "[VStr (cstr ?P), VStr (cstr ?M)] = fmt_args ?ds"
    by (simp_all add: cstr_def ascii_def of_char_def)
  have ok: "literal (ascii '' * Device '')" "fmt_ok ?ds" "length (ascii '' * Device '' @ fmt_text ?ds) < 2 ^ 31"
    by (simp_all add: literal_def) (simp_all add: ascii_def of_char_def)
  from kprintf_says[OF assms(2) f ok assms(3)[symmetric], of "pf_junk pf"] obtain k1 where k1:
    "kprintf (pf_junk pf) ('' * Device %s -- %s'' @ nl) [VStr (cstr ?P), VStr (cstr ?M)] (sy_kernel s) = Inr k1"
    "says (sy_kernel s) (paint c (ascii '' * Device '' @ fmt_text ?ds)) [] c k1" by blast
  from isAttached_diskless[OF assms(1) dev, of "sy_io s"] obtain d where d: "isAttached (pf_fuel pf) (pf_bus pf) dev (sy_io s) = Inr (False, d)" ..
  have "0 \<notin> set (ascii ''    [Not attached]'')" by simp
  from kputs_says[OF says_con[OF k1(2)] this _ says_color[OF k1(2), symmetric], of "pf_junk pf"] obtain k2 where
    k2: "kputs (pf_junk pf) ''    [Not attached]'' k1 = Inr k2" "says k1 (paint c (ascii ''    [Not attached]'' @ [10])) [] c k2" by auto
  let ?s = "(set_kernel s k2)\<lparr>sy_io := d\<rparr>"
  have "probe_device pf dev cd s = Inr (cd, ?s)"
    unfolding probe_device_def in_kernel_def pm using k1(1) d k2(1) by (simp add: set_kernel_def)
  moreover have "says (sy_kernel s) (paint c (place_text p m)) [] c (sy_kernel ?s)"
    using says_trans[OF k1(2) k2(2)] by (simp add: place_text_def paint_def set_kernel_def)
  ultimately show ?thesis by (intro exI[of _ ?s]) (simp add: set_kernel_def)
qed

lemma probe_devices_diskless:
  assumes "diskless pf" "con_inv (k_console (sy_kernel s))" "vc_color (k_console (sy_kernel s)) = c" "new_devices junk places = Inr devs"
  shows "\<exists>s'. probe_devices pf devs cd s = Inr (cd, s')
    \<and> says (sy_kernel s) (paint c (concat (map (\<lambda>(p, m). place_text p m) places))) [] c (sy_kernel s') \<and> sy_cpu s' = sy_cpu s"
  using assms(2-)
proof (induction places arbitrary: devs s)
  case Nil
  then show ?case by (auto simp: says_def paint_def screen_def intro: exI[of _ "k_console (sy_kernel s)"])
next
  case (Cons x places)
  obtain p m where x: "x = (p, m)" by (cases x)
  from Cons.prems(3) x obtain dev devs' where devs: "devs = dev # devs'" "X86AtaDevice_new junk p m = Inr dev" "new_devices junk places = Inr devs'" by auto
  from probe_device_diskless[OF assms(1) Cons.prems(1,2) devs(2), of cd] obtain s1 where s1: "probe_device pf dev cd s = Inr (cd, s1)"
    "says (sy_kernel s) (paint c (place_text p m)) [] c (sy_kernel s1)" "sy_cpu s1 = sy_cpu s" by blast
  from Cons.IH[OF says_con[OF s1(2)] says_color[OF s1(2)] devs(3)] obtain s' where s': "probe_devices pf devs' cd s1 = Inr (cd, s')"
    "says (sy_kernel s1) (paint c (concat (map (\<lambda>(p, m). place_text p m) places))) [] c (sy_kernel s')" "sy_cpu s' = sy_cpu s1" by blast
  show ?case using says_trans[OF s1(2) s'(2)] s1(1,3) s'(1,3) devs(1) x by (auto simp: paint_def)
qed

text \<open>The date as it is printed.\<close>

definition number :: "u8 \<Rightarrow> u8 list" where
  "number v = digits_text 10 (unat v)"

definition two_digits :: "u8 \<Rightarrow> u8 list" where
  "two_digits v = (if v < 10 then [48] else []) @ number v"

definition date_text :: "DateTime \<Rightarrow> u8 list" where
  "date_text t = ascii ''The current date and time is '' @ number (dt_month t) @ [47] @ number (dt_monthday t) @ [47]
     @ digits_text 10 (unat (dt_year t) + 100 * unat (dt_century t)) @ [32] @ number (dt_hours t)
     @ [58] @ two_digits (dt_minutes t) @ [58] @ two_digits (dt_seconds t)"

lemma small_int:
  assumes "unat (v :: u32) < 2 ^ 31"
  shows "sint v = int (unat v)" "negatable v" "int_text (sint v) = digits_text 10 (unat v)"
proof -
  show s: "sint v = int (unat v)" using sint_small[OF assms] by simp
  then show "negatable v" by (simp add: negatable_def word_sless_alt)
  show "int_text (sint v) = digits_text 10 (unat v)" unfolding s by (simp add: int_text_def)
qed

lemma byte_int: "unat (ucast (v :: u8) :: u32) = unat v" "unat (ucast v :: u32) < 2 ^ 31"
proof -
  show u: "unat (ucast v :: u32) = unat v" by (simp add: unsigned_ucast_eq take_bit_nat_eq_self less_trans[OF unsigned_less])
  show "unat (ucast v :: u32) < 2 ^ 31" unfolding u using unsigned_less[of v, where ?'a = nat] by simp
qed

lemma year_int: "unat (ucast (y :: u8) + ucast (q :: u8) * 100 :: u32) = unat y + 100 * unat q"
  using unsigned_less[of y, where ?'a = nat] unsigned_less[of q, where ?'a = nat]
  by (simp add: unat_word_ariths byte_int(1))

lemma number_short: "length (digits_text 10 (unat (v :: u32))) \<le> 20"
  using digits_text_10[OF unat_64[of v]] by simp

lemma kprintf_number:
  assumes "con_inv (k_console k)" "c = vc_color (k_console k)" "unat v < 2 ^ 31" "literal (ascii pre)" "length pre < 100"
  shows "\<exists>k'. kprintf junk (pre @ ''%d'') [VInt v] k = Inr k' \<and> says k (paint c (ascii pre @ digits_text 10 (unat v))) [] c k'"
proof -
  have f: "cstr (pre @ ''%d'') = ascii pre @ fmt_string [(DInt v, [])] @ [0]" "[VInt v] = fmt_args [(DInt v, [])]"
    by (simp_all add: cstr_def ascii_def of_char_def)
  show ?thesis using kprintf_says[OF assms(1) f assms(4) _ _ assms(2), of junk] small_int[OF assms(3)] assms(5) number_short[of v]
    by (simp add: literal_def)
qed

lemma kprintf_text:
  assumes "con_inv (k_console k)" "c = vc_color (k_console k)" "literal (ascii t)" "length t < 2 ^ 30"
  shows "\<exists>k'. kprintf junk t [] k = Inr k' \<and> says k (paint c (ascii t)) [] c k'"
  using kprintf_says[OF assms(1) _ _ assms(3) _ _ assms(2), of t "[]" "[]" junk] assms(4) by (simp add: cstr_ascii)

lemma paint_append [simp]: "paint c (a @ b) = paint c a @ paint c b"
  by (simp add: paint_def)

lemma paint_Nil [simp]: "paint c [] = []"
  by (simp add: paint_def)

lemma says_refl: "con_inv (k_console k) \<Longrightarrow> c = vc_color (k_console k) \<Longrightarrow> says k [] [] c k"
  unfolding says_def by (intro exI[of _ "k_console k"]) (simp add: screen_def)

lemma print_two_digits_ok:
  assumes "con_inv (k_console k)" "c = vc_color (k_console k)"
  shows "\<exists>k'. print_two_digits junk ts k = Inr k' \<and> says k (paint c (concat (map (\<lambda>t. 58 # two_digits t) ts))) [] c k'"
  using assms
proof (induction ts arbitrary: k)
  case Nil
  then show ?case using says_refl by auto
next
  case (Cons t ts)
  have l: "literal (ascii '':'')" "literal (ascii ''0'')" by (simp_all add: text_simps)
  from kprintf_text[OF Cons.prems l(1), of junk] obtain k1 where k1: "kprintf junk '':'' [] k = Inr k1" "says k (paint c (ascii '':'')) [] c k1" by auto
  note i1 = says_con[OF k1(2)] says_color[OF k1(2), symmetric]
  have "\<exists>k2. (if t < 10 then kprintf junk ''0'' [] k1 else Inr k1) = Inr k2 \<and> says k1 (paint c (if t < 10 then [48] else [])) [] c k2"
    using kprintf_text[OF i1 l(2), of junk] says_refl[OF i1] by (simp add: text_simps)
  then obtain k2 where k2: "(if t < 10 then kprintf junk ''0'' [] k1 else Inr k1) = Inr k2" "says k1 (paint c (if t < 10 then [48] else [])) [] c k2" by blast
  note i2 = says_con[OF k2(2)] says_color[OF k2(2), symmetric]
  from kprintf_number[OF i2 byte_int(2), of "[]" junk t] obtain k3 where k3: "kprintf junk ''%d'' [VInt (ucast t)] k2 = Inr k3" "says k2 (paint c (number t)) [] c k3"
    by (auto simp: literal_def ascii_def number_def byte_int)
  from Cons.IH[OF says_con[OF k3(2)] says_color[OF k3(2), symmetric]] obtain k' where
    k': "print_two_digits junk ts k3 = Inr k'" "says k3 (paint c (concat (map (\<lambda>t. 58 # two_digits t) ts))) [] c k'" by blast
  have "ascii '':'' = [58]" by (simp add: text_simps)
  then show ?case using k1(1) k2(1) k3(1) k'(1) says_trans[OF k1(2) says_trans[OF k2(2) says_trans[OF k3(2) k'(2)]]]
    by (auto simp: two_digits_def paint_def)
qed

lemma print_date_ok:
  assumes "con_inv (k_console k)" "c = vc_color (k_console k)"
  shows "\<exists>k'. print_date junk t k = Inr k' \<and> says k (paint c (date_text t)) [] c k'"
proof -
  let ?pre = "ascii ''The current date and time is ''" and ?y = "ucast (dt_year t) + ucast (dt_century t) * 100 :: u32"
  let ?ds = "[(DInt (ucast (dt_month t)), [47]), (DInt (ucast (dt_monthday t)), [47]), (DInt ?y, [])]"
  let ?args = "[VInt (ucast (dt_month t)), VInt (ucast (dt_monthday t)), VInt ?y]"
  have f: "cstr ''The current date and time is %d/%d/%d'' = ?pre @ fmt_string ?ds @ [0]" "?args = fmt_args ?ds"
    by (simp_all add: cstr_def ascii_def of_char_def)
  have y: "unat ?y < 2 ^ 31" using year_int[of "dt_year t" "dt_century t"] unsigned_less[of "dt_year t", where ?'a = nat] unsigned_less[of "dt_century t", where ?'a = nat]
    by simp
  have l: "literal ?pre" "fmt_ok ?ds" using small_int(2)[OF byte_int(2)] small_int(2)[OF y] by (simp_all add: text_simps)
  have tx: "fmt_text ?ds = number (dt_month t) @ [47] @ number (dt_monthday t) @ [47] @ digits_text 10 (unat (dt_year t) + 100 * unat (dt_century t))"
    using small_int(3)[OF byte_int(2)] small_int(3)[OF y] by (simp add: number_def byte_int(1) year_int)
  have n: "length (number v) \<le> 20" for v using number_short[of "ucast v"] by (simp add: number_def byte_int)
  have "length (digits_text 10 (unat (dt_year t) + 100 * unat (dt_century t))) \<le> 20" using number_short[of ?y] by (simp add: year_int)
  then have len: "length (?pre @ fmt_text ?ds) < 2 ^ 31" unfolding tx using n[of "dt_month t"] n[of "dt_monthday t"] by simp
  from kprintf_says[OF assms(1) f l len assms(2), of junk] obtain k1 where k1: "kprintf junk ''The current date and time is %d/%d/%d'' ?args k = Inr k1"
    "says k (paint c (?pre @ fmt_text ?ds)) [] c k1" by blast
  have "literal (ascii '' '')" "ascii '' '' = [32]" by (simp_all add: text_simps)
  then obtain k2 where k2: "kprintf junk '' %d'' [VInt (ucast (dt_hours t))] k1 = Inr k2" "says k1 (paint c ([32] @ number (dt_hours t))) [] c k2"
    using kprintf_number[OF says_con[OF k1(2)] says_color[OF k1(2), symmetric] byte_int(2), of "'' ''" junk "dt_hours t"] by (auto simp: number_def byte_int)
  from print_two_digits_ok[OF says_con[OF k2(2)] says_color[OF k2(2), symmetric], of junk "[dt_minutes t, dt_seconds t]"] obtain k3 where
    k3: "print_two_digits junk [dt_minutes t, dt_seconds t] k2 = Inr k3"
    "says k2 (paint c (concat (map (\<lambda>t. 58 # two_digits t) [dt_minutes t, dt_seconds t]))) [] c k3" by blast
  show ?thesis using k1(1) k2(1) k3(1) says_trans[OF k1(2) says_trans[OF k2(2) k3(2)]] unfolding tx
    by (auto simp: print_date_def date_text_def paint_def)
qed

text \<open>Printing as a step of the whole system.\<close>

definition tells :: "'d System \<Rightarrow> (u8 \<times> u8) list \<Rightarrow> u8 list \<Rightarrow> u8 \<Rightarrow> 'd System \<Rightarrow> bool" where
  "tells s ws d c s' \<longleftrightarrow> says (sy_kernel s) ws d c (sy_kernel s')"

lemma tells_trans: "tells s ws1 d1 c1 s1 \<Longrightarrow> tells s1 ws2 d2 c2 s2 \<Longrightarrow> tells s (ws1 @ ws2) (d1 @ d2) c2 s2"
  unfolding tells_def by (rule says_trans)

definition ready :: "u8 \<Rightarrow> 'd System \<Rightarrow> bool" where
  "ready c s \<longleftrightarrow> con_inv (k_console (sy_kernel s)) \<and> vc_color (k_console (sy_kernel s)) = c"

lemma tells_ready: "tells s ws d c s' \<Longrightarrow> ready c s'"
  by (auto simp: tells_def ready_def says_def)

lemma in_kernel_tells:
  assumes "\<exists>k'. f (sy_kernel s) = Inr k' \<and> says (sy_kernel s) ws d c k'"
  shows "\<exists>s'. in_kernel f s = Inr s' \<and> tells s ws d c s'"
  using assms by (auto simp: in_kernel_def tells_def set_kernel_def)

text \<open>A line of text in a new colour.\<close>

lemma kputs_in:
  assumes "ready c s" "NUL \<notin> set t" "length t < 2 ^ 30"
  shows "\<exists>s'. in_kernel (kputs junk t) s = Inr s' \<and> tells s (paint c (ascii t @ [10])) [] c s'"
  by (rule in_kernel_tells) (use assms kputs_says[of "sy_kernel s" t c junk] in \<open>auto simp: ready_def\<close>)

lemma colour_tells:
  assumes "ready c s" "tells (set_kernel s (console_do (\<lambda>con. setForegroundColor con x) (sy_kernel s))) ws d c' s'"
  shows "tells s ws d c' s'"
  using says_trans[OF says_nothing[of "sy_kernel s" x]] assms by (simp add: ready_def tells_def set_kernel_def)

lemma coloured_ready:
  "ready c s \<Longrightarrow> ready (text_color c x) (set_kernel s (console_do (\<lambda>con. setForegroundColor con x) (sy_kernel s)))"
  by (simp add: ready_def set_kernel_def console_do_def)

lemma read_ata_diskless:
  assumes "diskless pf" "ready c s"
  shows "\<exists>s'. read_ata pf s = Inr (None, s') \<and> tells s (paint (text_color c 15) (ascii (nl @ ''PATA Device Information'' @ nl))
      @ paint (text_color c 7) (place_text True True @ place_text True False @ place_text False True @ place_text False False)) [] (text_color c 7) s'"
proof -
  let ?h = "nl @ ''PATA Device Information'' @ nl" and ?col = "\<lambda>x. console_do (\<lambda>con. setForegroundColor con x)"
  let ?s0 = "set_kernel s (?col 15 (sy_kernel s))"
  have r0: "ready (text_color c 15) ?s0" by (rule coloured_ready[OF assms(2)])
  have "8 \<notin> set (ascii ?h)" by (simp add: text_simps)
  then have "\<exists>s1. in_kernel (console_write ?h) ?s0 = Inr s1 \<and> tells ?s0 (paint (text_color c 15) (ascii ?h)) [] (text_color c 15) s1"
    using console_write_says[of "sy_kernel ?s0" ?h "text_color c 15"] r0 by (intro in_kernel_tells) (auto simp: ready_def)
  then obtain s1 where s1: "in_kernel (console_write ?h) ?s0 = Inr s1" "tells s (paint (text_color c 15) (ascii ?h)) [] (text_color c 15) s1"
    using colour_tells[OF assms(2)] by blast
  have e: "in_kernel (\<lambda>k. console_write ?h (?col 15 k)) s = Inr s1" using s1(1) by (auto simp: in_kernel_def set_kernel_def rbind_Inr_iff)
  let ?s2 = "set_kernel s1 (?col 7 (sy_kernel s1))"
  have r1: "ready (text_color c 15) s1" using tells_ready[OF s1(2)] .
  have r2: "ready (text_color c 7) ?s2" using coloured_ready[OF r1, of 7] by (simp add: text_color_twice)
  obtain desc x where "AtaDeviceDescriptor_new (pf_junk pf) True None = Inr (desc, x)" by (auto simp: AtaDeviceDescriptor_new_def readIdentity_def)
  then obtain devs where devs: "new_devices (pf_junk pf) [(True, True), (True, False), (False, True), (False, False)] = Inr devs"
    by (simp add: X86AtaDevice_new_def)
  from probe_devices_diskless[OF assms(1) _ _ devs, of ?s2 "text_color c 7" None] r2 obtain s' where s': "probe_devices pf devs None ?s2 = Inr (None, s')"
    "tells ?s2 (paint (text_color c 7) (place_text True True @ place_text True False @ place_text False True @ place_text False False)) [] (text_color c 7) s'"
    by (auto simp: ready_def tells_def)
  have "read_ata pf s = Inr (None, s')" unfolding read_ata_def e using devs s'(1) by simp
  moreover note tells_trans[OF s1(2) colour_tells[OF r1 s'(2)]]
  ultimately show ?thesis by auto
qed

lemma report_date_ok:
  assumes "ready c s" "\<exists>d. currentTime (pf_fuel pf) (pf_bus pf) (sy_io s) = Inr (t, d)"
  shows "\<exists>s'. report_date pf s = Inr s'
    \<and> tells s (paint (text_color c 15) (ascii (nl @ ''* * *'') @ [10] @ date_text t @ ascii (nl @ ''* * *'') @ [10])) [] (text_color c 15) s'"
proof -
  let ?k = "console_do (\<lambda>con. setForegroundColor con 15) (sy_kernel s)" and ?c = "text_color c 15" and ?stars = "nl @ ''* * *''"
  obtain d where d: "currentTime (pf_fuel pf) (pf_bus pf) (sy_io s) = Inr (t, d)" using assms(2) by blast
  have k: "con_inv (k_console ?k)" "?c = vc_color (k_console ?k)" using assms(1) by (simp_all add: ready_def console_do_def)
  have st: "0 \<notin> set (ascii ?stars)" "length ?stars < 2 ^ 30" by simp_all
  from kputs_says[OF k(1) st k(2), of "pf_junk pf"] obtain k1 where k1: "kputs (pf_junk pf) ?stars ?k = Inr k1" "says ?k (paint ?c (ascii ?stars @ [10])) [] ?c k1" by blast
  from print_date_ok[OF says_con[OF k1(2)] says_color[OF k1(2), symmetric], of "pf_junk pf" t] obtain k2 where
    k2: "print_date (pf_junk pf) t k1 = Inr k2" "says k1 (paint ?c (date_text t)) [] ?c k2" by blast
  from kputs_says[OF says_con[OF k2(2)] st says_color[OF k2(2), symmetric], of "pf_junk pf"] obtain k3 where
    k3: "kputs (pf_junk pf) ?stars k2 = Inr k3" "says k2 (paint ?c (ascii ?stars @ [10])) [] ?c k3" by blast
  have "says (sy_kernel s) [] [] ?c ?k" using says_nothing[of "sy_kernel s" 15] assms(1) by (simp add: ready_def)
  from says_trans[OF this says_trans[OF k1(2) says_trans[OF k2(2) k3(2)]]]
  show ?thesis using k1(1) k2(1) k3(1) d by (auto simp: report_date_def tells_def paint_def)
qed

lemma run_proc_test_diskless:
  assumes "ready c s"
  shows "\<exists>s'. run_proc_test pf None s = Inr (None, s')
    \<and> tells s (paint c (ascii ''Unable to find proc-test! You might want to look into that.'' @ [10])) (ascii ''Finding /bin/proc-test...'' @ [10]) c s'"
proof -
  have "\<exists>s1. in_kernel (\<lambda>k. k_debug_println (pf_g pf) (pf_junk pf) ''Finding /bin/proc-test...'' [] k) s = Inr s1
      \<and> tells s [] (ascii ''Finding /bin/proc-test...'' @ [10]) c s1"
    by (rule in_kernel_tells) (use assms debug_says[of "sy_kernel s"] in \<open>auto simp: ready_def\<close>)
  then obtain s1 where s1: "in_kernel (\<lambda>k. k_debug_println (pf_g pf) (pf_junk pf) ''Finding /bin/proc-test...'' [] k) s = Inr s1"
    "tells s [] (ascii ''Finding /bin/proc-test...'' @ [10]) c s1" by blast
  from kputs_in[OF tells_ready[OF s1(2)], of "''Unable to find proc-test! You might want to look into that.''" "pf_junk pf"] obtain s' where
    s': "in_kernel (kputs (pf_junk pf) ''Unable to find proc-test! You might want to look into that.'') s1 = Inr s'"
    "tells s1 (paint c (ascii ''Unable to find proc-test! You might want to look into that.'' @ [10])) [] c s'" by auto
  show ?thesis using s1(1) s'(1) tells_trans[OF s1(2) s'(2)] by (auto simp: run_proc_test_def find_program_def)
qed

lemma coloured_kputs:
  assumes "ready c s" "NUL \<notin> set t" "length t < 2 ^ 30"
  shows "\<exists>s'. in_kernel (\<lambda>k. kputs junk t (console_do (\<lambda>con. setForegroundColor con x) k)) s = Inr s'
    \<and> tells s (paint (text_color c x) (ascii t @ [10])) [] (text_color c x) s'"
  using kputs_in[OF coloured_ready[OF assms(1), where x = x] assms(2,3), where junk = junk] colour_tells[OF assms(1), of x]
  by (fastforce simp: in_kernel_def set_kernel_def rbind_Inr_iff)

lemma run_shell_diskless:
  assumes "ready c s"
  shows "\<exists>s'. run_shell pf None s = Inr s'
    \<and> tells s (paint (text_color c 7) ([10] @ ascii ''Unable to find kvshell! You might want to look into that.'' @ [10])) [] (text_color c 7) s'"
proof -
  from coloured_kputs[OF assms, of "[]" "pf_junk pf" 7] obtain s1 where
    s1: "in_kernel (\<lambda>k. kputs (pf_junk pf) [] (console_do (\<lambda>con. setForegroundColor con 7) k)) s = Inr s1"
    "tells s (paint (text_color c 7) [10]) [] (text_color c 7) s1" by (auto simp: ascii_def)
  from kputs_in[OF tells_ready[OF s1(2)], of "''Unable to find kvshell! You might want to look into that.''" "pf_junk pf"] obtain s' where
    s': "in_kernel (kputs (pf_junk pf) ''Unable to find kvshell! You might want to look into that.'') s1 = Inr s'"
    "tells s1 (paint (text_color c 7) (ascii ''Unable to find kvshell! You might want to look into that.'' @ [10])) [] (text_color c 7) s'" by auto
  show ?thesis using s1(1) s'(1) tells_trans[OF s1(2) s'(2)] by (auto simp: run_shell_def find_program_def paint_def)
qed

lemma farewell_ok:
  assumes "ready c s"
  shows "\<exists>s'. in_kernel (farewell junk) s = Inr s'
    \<and> tells s (paint (text_color c 12) (ascii ''Kernel exited. Maybe you should write the rest of the operating system?'')
        @ paint (text_color c 7) [10]) [] (text_color c 7) s'"
proof (rule in_kernel_tells)
  let ?col = "\<lambda>x. console_do (\<lambda>con. setForegroundColor con x)" and ?t = "''Kernel exited. Maybe you should write the rest of the operating system?''"
  let ?k = "?col 12 (sy_kernel s)"
  have k: "con_inv (k_console (sy_kernel s))" "vc_color (k_console (sy_kernel s)) = c" using assms by (simp_all add: ready_def)
  then have k0: "con_inv (k_console ?k)" "text_color c 12 = vc_color (k_console ?k)" by (simp_all add: console_do_def)
  have "literal (ascii ?t)" by (simp add: text_simps)
  from kprintf_text[OF k0 this, of junk] obtain k1 where k1: "kprintf junk ?t [] ?k = Inr k1" "says ?k (paint (text_color c 12) (ascii ?t)) [] (text_color c 12) k1"
    by auto
  let ?k1 = "?col 7 k1"
  have c1: "con_inv (k_console ?k1)" "vc_color (k_console ?k1) = text_color c 7"
    using says_con[OF k1(2)] says_color[OF k1(2)] by (simp_all add: console_do_def text_color_twice)
  from ks.write_all_ok[OF shows_more_refl[OF c1(1)], of "[10]"] obtain k2 where k2: "write_all out_write [10] ?k1 = Inr k2" "shows_more ?k1 k2"
    "screen k2 = on_screen ?k1 [10]" by blast
  have "says ?k1 (paint (text_color c 7) [10]) [] (text_color c 7) k2" using shows_more_says[OF k2(2,3)] c1(2) by simp
  then have "says k1 (paint (text_color c 7) [10]) [] (text_color c 7) k2"
    using says_trans[OF says_nothing[OF says_con[OF k1(2)], of 7]] by fastforce
  moreover have "says (sy_kernel s) (paint (text_color c 12) (ascii ?t)) [] (text_color c 12) k1"
    using says_trans[OF says_nothing[OF k(1), of 12] k1(2)] by simp
  ultimately have "says (sy_kernel s) (paint (text_color c 12) (ascii ?t) @ paint (text_color c 7) [10]) [] (text_color c 7) k2"
    using says_trans by fastforce
  moreover have "farewell junk (sy_kernel s) = Inr k2" unfolding farewell_def k1(1) using k2(1) by (simp add: putchar_def libk_sys_write_def kStdOut_def)
  ultimately show "\<exists>k'. farewell junk (sy_kernel s) = Inr k' \<and> says (sy_kernel s) (paint (text_color c 12) (ascii ?t)
        @ paint (text_color c 7) [10]) [] (text_color c 7) k'" by blast
qed

definition diskless_script :: "u8 \<Rightarrow> DateTime \<Rightarrow> (u8 \<times> u8) list" where
  "diskless_script c t =
     paint (text_color c 15) (ascii (nl @ ''PATA Device Information'' @ nl))
     @ paint (text_color c 7) (place_text True True @ place_text True False @ place_text False True @ place_text False False
         @ ascii (nl @ ''Unable to read any ATA devices! You might want to look into that.'' @ nl))
     @ paint (text_color c 15) (ascii (nl @ ''* * *'' @ nl) @ date_text t @ ascii (nl @ ''* * *'' @ nl)
         @ ascii (''Unable to find proc-test! You might want to look into that.'' @ nl))
     @ paint (text_color c 7) (ascii (nl @ ''Unable to find kvshell! You might want to look into that.'' @ nl))
     @ paint (text_color c 12) (ascii ''Kernel exited. Maybe you should write the rest of the operating system?'')
     @ paint (text_color c 7) (ascii nl)"

definition with_keyboard :: "X86Kernel \<Rightarrow> X86Kernel" where
  "with_keyboard k = k\<lparr>k_in := Some PS2Keyboard_new\<rparr>"

lemma init_keyboard_ok:
  assumes "length (idt_isr (cpu_idt (sy_cpu s))) = 256"
  shows "\<exists>s'. init_keyboard pf s = Inr s' \<and> sy_kernel s' = with_keyboard (sy_kernel s)"
proof -
  have u: "\<exists>d'. unmaskIRQ bus n d = Inr d'" if "n < 8" for bus :: "'d bus" and n d
  proof -
    have "n < 32" using that by (simp add: word_less_nat_alt)
    then show ?thesis using that by (simp add: unmaskIRQ_def shl1_def split_beta)
  qed
  obtain d1 where d1: "unmaskIRQ (pf_bus pf) 1 (sy_io s) = Inr d1" using u[of 1] by fastforce
  obtain d2 where d2: "unmaskIRQ (pf_bus pf) 0 d1 = Inr d2" using u[of 0] by fastforce
  show ?thesis using d1 d2 assms
    by (simp add: init_keyboard_def PS2KeyboardISR_install_def PITIRQ_install_def setISR_def with_keyboard_def)
qed

lemma run_system_diskless:
  assumes "diskless pf" "rtc (pf_bus pf) regs busy" "\<And>d. busy d < pf_fuel pf" "holds_time regs t"
    and "con_inv (k_console (sy_kernel s))" "vc_color (k_console (sy_kernel s)) = c" "length (idt_isr (cpu_idt (sy_cpu s))) = 256"
  shows "\<exists>s'. run_system pf s = Inr s' \<and> says (with_keyboard (sy_kernel s)) (diskless_script c t)
    (ascii (''Unable to read ATA devices!'' @ nl @ ''Finding /bin/proc-test...'' @ nl)) (text_color c 7) (sy_kernel s')"
proof -
  from init_keyboard_ok[OF assms(7), of pf] obtain s1 where s1: "init_keyboard pf s = Inr s1" "sy_kernel s1 = with_keyboard (sy_kernel s)" by blast
  have r1: "ready c s1" using assms(5,6) s1(2) by (simp add: ready_def with_keyboard_def)
  from read_ata_diskless[OF assms(1) r1] obtain s2 where s2: "read_ata pf s1 = Inr (None, s2)"
    "tells s1 (paint (text_color c 15) (ascii (nl @ ''PATA Device Information'' @ nl))
      @ paint (text_color c 7) (place_text True True @ place_text True False @ place_text False True @ place_text False False)) [] (text_color c 7) s2" by blast
  note r2 = tells_ready[OF s2(2)]
  let ?dbg = "''Unable to read ATA devices!''" and ?no = "nl @ ''Unable to read any ATA devices! You might want to look into that.''"
  have "\<exists>s3. in_kernel (\<lambda>k. k_debug_println (pf_g pf) (pf_junk pf) ?dbg [] k) s2 = Inr s3 \<and> tells s2 [] (ascii ?dbg @ [10]) (text_color c 7) s3"
    by (rule in_kernel_tells) (use r2 debug_says[of "sy_kernel s2"] in \<open>auto simp: ready_def\<close>)
  then obtain s3 where s3: "in_kernel (\<lambda>k. k_debug_println (pf_g pf) (pf_junk pf) ?dbg [] k) s2 = Inr s3" "tells s2 [] (ascii ?dbg @ [10]) (text_color c 7) s3" by blast
  from kputs_in[OF tells_ready[OF s3(2)], of ?no "pf_junk pf"] obtain s4 where s4: "in_kernel (kputs (pf_junk pf) ?no) s3 = Inr s4"
    "tells s3 (paint (text_color c 7) (ascii ?no @ [10])) [] (text_color c 7) s4" by auto
  have "\<exists>d. currentTime (pf_fuel pf) (pf_bus pf) (sy_io s4) = Inr (t, d)" using rtc.currentTime_ok[OF assms(2,3,4)] by blast
  from report_date_ok[OF tells_ready[OF s4(2)] this] obtain s5 where s5: "report_date pf s4 = Inr s5"
    "tells s4 (paint (text_color c 15) (ascii (nl @ ''* * *'') @ [10] @ date_text t @ ascii (nl @ ''* * *'') @ [10])) [] (text_color c 15) s5"
    by (auto simp: text_color_twice)
  from run_proc_test_diskless[OF tells_ready[OF s5(2)], of pf] obtain s6 where s6: "run_proc_test pf None s5 = Inr (None, s6)"
    "tells s5 (paint (text_color c 15) (ascii ''Unable to find proc-test! You might want to look into that.'' @ [10]))
       (ascii ''Finding /bin/proc-test...'' @ [10]) (text_color c 15) s6" by blast
  from run_shell_diskless[OF tells_ready[OF s6(2)], of pf] obtain s7 where s7: "run_shell pf None s6 = Inr s7"
    "tells s6 (paint (text_color c 7) ([10] @ ascii ''Unable to find kvshell! You might want to look into that.'' @ [10])) [] (text_color c 7) s7"
    by (auto simp: text_color_twice)
  from farewell_ok[OF tells_ready[OF s7(2)], of "pf_junk pf"] obtain s8 where s8: "in_kernel (farewell (pf_junk pf)) s7 = Inr s8"
    "tells s7 (paint (text_color c 12) (ascii ''Kernel exited. Maybe you should write the rest of the operating system?'')
        @ paint (text_color c 7) [10]) [] (text_color c 7) s8" by (auto simp: text_color_twice)
  have "run_system pf s = Inr s8"
    unfolding run_system_def s1(1) rbind_simps prod.case s2(1) if_P[OF refl] s3(1) s4(1) s5(1) s6(1) s7(1) by (rule s8(1))
  moreover have "ascii nl = [10]" by (simp add: text_simps)
  moreover note tells_trans[OF s2(2) tells_trans[OF s3(2) tells_trans[OF s4(2) tells_trans[OF s5(2) tells_trans[OF s6(2) tells_trans[OF s7(2) s8(2)]]]]]]
  ultimately show ?thesis
    unfolding tells_def s1(2) by (intro exI[of _ s8]) (simp add: diskless_script_def paint_def ascii_def of_char_def)
qed

section \<open>Examples\<close>

text \<open>A machine with a clock and nothing else; its state is the selected register of the clock.\<close>

definition clock_bus :: "(u8 \<Rightarrow> u8) \<Rightarrow> u8 bus" where
  "clock_bus regs = \<lparr>bus_inb = (\<lambda>port i. (if port = 0x71 then regs i else 0, i)),
     bus_outb = (\<lambda>port v i. if port = 0x70 then v else i), bus_inw = (\<lambda>port d. (0, d)), bus_outw = (\<lambda>port v d. d)\<rparr>"

definition example_platform :: "u8 Platform" where
  "example_platform = \<lparr>pf_bus = clock_bus example_regs, pf_fuel = 1, pf_g = 0, pf_junk = (\<lambda>_. 0), pf_junk16 = (\<lambda>_. 0), pf_mem = (\<lambda>_. 0),
     pf_isrs = [], pf_gdt = 0, pf_idt = 0, pf_tss = 0, pf_kernel_end = 0, pf_readonly_end = 0, pf_run = (\<lambda>_ _ s. Inr (0, s))\<rparr>"

definition example_system :: "u8 System" where
  "example_system = \<lparr>sy_kernel = ex_kernel, sy_as = 0,
     sy_cpu = \<lparr>cpu_gdt = [], cpu_idt = IDT_new, cpu_tss = \<lparr>tss_words = [], tss_trap = 0, tss_iomap_base = 0\<rparr>, pic_initialized = False\<rparr>,
     sy_proc = \<lparr>gdtr = None, idtr = None, tr = 0, if_flag = False\<rparr>, sy_io = 0\<rparr>"

lemma example_system_console: "k_console (sy_kernel example_system) = example_console"
  by (simp add: example_system_def ex_kernel_def)

section \<open>Properties\<close>



text \<open>A task that logs a task of its own erases its own message: the screen is as if it had never been shown.\<close>

theorem nested_log_erases:
  assumes "con_inv (k_console k)" "one_line t1" "length t1 < 75" "one_line t2" "length t2 < 75"
    and "room_above (k_console k) = (buf, r)"
  shows "\<exists>k1 k2. log_task_begin g junk t1 k = Inr (of_nat r, k1) \<and> log_task_begin g junk t2 k1 = Inr (of_nat r, k2)
    \<and> vc_buffer (k_console k2) = overwrite (r * 80) (cells (text_color (vc_color (k_console k)) 15) (ascii t2)
        @ replicate (80 - length t2) (blank (text_color (vc_color (k_console k)) 7))) buf"
proof -
  let ?c = "vc_color (k_console k)"
  have r: "r < 24" "length buf = 2000" using assms(6) con_bounds[OF assms(1)] assms(1)
    by (auto simp: room_above_def con_inv_def term_scroll_def split: if_splits)
  from log_task_begin_ok[OF assms(1-3,6) refl, of g junk] obtain k1 con where k1: "log_task_begin g junk t1 k = Inr (of_nat r, k1)"
    "k_console k1 = con" "con_inv con" "con_pos con = r * 80 + length t1" "vc_color con = text_color ?c 7"
    "vc_buffer con = overwrite (r * 80) (cells (text_color ?c 15) (ascii t1) @ replicate (80 - length t1) (blank ?c)) buf"
    by (auto simp: now_shows_def)
  have row: "unat (vc_row con) = r" using con_pos_parts(1)[OF k1(3,4)] assms(3) by simp
  then have b: "room_above (k_console k1) = (vc_buffer con, r)" using r(1) by (simp add: room_above_def k1(2))
  have i: "con_inv (k_console k1)" using k1(2,3) by simp
  have c: "vc_color (k_console k1) = text_color ?c 7" using k1(2,5) by simp
  from log_task_begin_ok[OF i assms(4,5) b c, of g junk] obtain k2 where k2: "log_task_begin g junk t2 k1 = Inr (of_nat r, k2)"
    "vc_buffer (k_console k2) = overwrite (r * 80) (cells (text_color (text_color ?c 7) 15) (ascii t2) @ replicate (80 - length t2) (blank (text_color ?c 7))) (vc_buffer con)"
    by (auto simp: now_shows_def)
  then show ?thesis using k1(1) unfolding k1(6)
    using overwrite_over[of "r * 80" "cells (text_color ?c 15) (ascii t1) @ replicate (80 - length t1) (blank ?c)" buf] r assms(3,5)
    by (simp add: text_color_twice)
qed




end
