(* ===== verification/Spec2Isabelle.thy ===== *)
theory Spec2Isabelle
  imports Mmu_Props Keyboard Console Paths Linked_List Hash_Map Scheduler Elf_Load Elf_Parse Cpu_Props Stdio_Props Kernel_Calls Ownership Shell Boot
begin

text \<open>
  Verification library for LambOS, a hobby operating system for i386 written in C++.

  \<^bold>\<open>The program.\<close> The boot loader enters \<open>kernel_main\<close> (\<open>kernel/src/arch/i386/main.cpp\<close>), which
  constructs the kernel, installs the descriptor tables of the processor (\<open>X86::CPU\<close>), hands the
  multiboot memory map to the memory management unit (\<open>MMU\<close>, \<open>PageFrameAllocator\<close>,
  \<open>PageTable\<close>), enables interrupts, installs the keyboard (\<open>PS2Keyboard\<close>) and the timer, looks for
  an ATAPI drive (\<open>X86AtaDevice\<close>) with an ISO 9660 volume (\<open>fs/iso9660\<close>), and loads and runs
  programs from it (\<open>elf::Executable\<close>). Output goes to the VGA text console. The library
  \<open>libsys\<close> under all of this provides bit sets, ring buffers, lists, strings, hash maps, paths and
  streams, and \<open>libc\<close> the memory and string routines.

  \<^bold>\<open>How the code is modelled.\<close> Every operation is a HOL function with the name of the C++ function
  it translates (prefixed with the class where several classes share a name). Integers are words of
  the width the i386 target gives them. State is passed explicitly: a class is a record, an enum a
  datatype. The result type is \<^typ>\<open>'a res\<close>: \<open>Inl\<close> of a fault where C++ leaves the behaviour
  undefined (an access outside an array, a null or dangling pointer, a double free, a division by
  zero, signed overflow, an invalid shift) or where the kernel panics, and \<open>Inr\<close> of the result
  otherwise, so that a theorem with an \<open>Inr\<close> conclusion also says that nothing undefined happens.
  A loop that could run for ever counts its rounds and returns the fault \<open>Hang\<close> when they run out;
  the theorems state how many rounds are enough. Uninitialised memory is an argument (\<open>junk\<close>,
  \<open>dflt\<close>). Hardware behind I/O ports is an argument of type \<open>'d bus\<close>; what the code relies on of it
  is a locale, interpreted on a simulated device.

  \<^bold>\<open>The theories.\<close>
  \<^item> \<open>Prelude\<close>: machine integers, faults and the error monad, arrays, the counted loop, shared lemmas
    on lists and words.
  \<^item> \<open>Bit_Set\<close> (\<open>util/BitSet.hpp\<close>), \<open>Frames\<close> (\<open>PageFrameAllocator\<close>): a frame is handed out only
    when it is usable and free; allocation and release are inverse; the memory map is loaded as the
    boot loader describes it.
  \<^item> \<open>Paging\<close> (\<open>PageTable.hpp\<close>, \<open>PageEntry\<close>), \<open>Mmu\<close> (\<open>MMU.cpp\<close>), \<open>Mmu_Correct\<close> (the invariant
    \<open>mmu_inv\<close> on machine memory, tables and frames) and \<open>Mmu_Props\<close>: allocating pages maps fresh
    frames at pages that were unmapped and changes nothing else, releasing undoes it, and the only
    failure is running out of memory.
  \<^item> \<open>Byte_Memory\<close> (\<open>memset\<close>, \<open>memmove\<close>, \<open>memcpy\<close> over any memory, locale \<open>byte_memory\<close>) and
    \<open>User_Memory\<close> (byte access through the page tables, which meets that contract on owned pages).
  \<^item> \<open>Ring_Buffer\<close>, \<open>Array_List\<close>, \<open>Strings\<close>, \<open>Linked_List\<close> (over a heap of nodes and reference
    counts), \<open>Hash_Map\<close>, \<open>Paths\<close>: the containers as abstract queues, lists, strings and maps, and the
    inputs on which they misbehave.
  \<^item> \<open>Keyboard\<close>: scan codes, the interrupt routine and the character stream, a refinement of a pure
    function from scan codes to characters. \<open>Console\<close>: the text memory as an abstract terminal, and
    the panic screen.
  \<^item> \<open>Scheduler\<close>: selection of the next process, and the validity of its pointers in every reachable
    state (inductive \<open>runs\<close>).
  \<^item> \<open>Ata\<close>, \<open>Ata_Props\<close>: command packets and the port-level driver on any device that follows the
    packet protocol. \<open>Streams\<close>: block reads and \<open>FileReader\<close> over any byte stream (locale
    \<open>byte_stream\<close>). \<open>Iso9660\<close>, \<open>Iso_Props\<close>: path lookup and file contents on top of the driver.
  \<^item> \<open>Elf\<close>, \<open>Elf_Parse\<close>, \<open>Elf_Load\<close>: parsing of executables and loading into the address space, the
    composition of streams, strings, lists, memory routines and the MMU.
  \<^item> \<open>Cpu\<close>, \<open>Cpu_Props\<close>: descriptor tables, interrupt dispatch, interrupt controllers (locale
    \<open>pics\<close>) and the clock (locale \<open>rtc\<close>).
  \<^item> \<open>Stdio\<close>, \<open>Stdio_Props\<close> (\<open>itoa.c\<close>, \<open>printf.c\<close>, \<open>gets.c\<close>): formatted output on any output that
    takes text piece by piece (locale \<open>text_output\<close>) and line input. \<open>Print\<close> (\<open>io/Print.hpp\<close>,
    \<open>Debug.hpp\<close>): the kernel's own printing on any stream (locale \<open>output_stream\<close>).
  \<^item> \<open>Kernel_Calls\<close> (\<open>Syscall.hpp\<close>, \<open>PageFaultPanicISR.hpp\<close>, \<open>sys/syscall.cpp\<close>): system calls and page
    faults, where the memory of a program, the console and the keyboard come together.
  \<^item> \<open>Ownership\<close> (\<open>UniquePtr.hpp\<close>, \<open>Maybe.hpp\<close>, \<open>StaticList.hpp\<close>): every object has one owner in every
    sequence of operations, and \<open>Maybe\<close> refines an option. \<open>Runtime\<close> (\<open>icxxabi.cpp\<close>): the table of
    exit functions. \<open>Ctype\<close> (\<open>ctype.c\<close>): the character classes.
  \<^item> \<open>Shell\<close> (\<open>kvshell/src/main.cpp\<close>, \<open>proc_test/main.cpp\<close>, \<open>start.c\<close>, \<open>strtok.c\<close>): the programs, on any
    system calls that read and write as they should (locale \<open>shell_env\<close>, interpreted on the
    kernel); the shell refines a pure function \<open>session\<close> from typed bytes to what is shown.
  \<^item> \<open>Boot\<close> (\<open>main.cpp\<close>, \<open>X86Kernel.cpp\<close>): the boot sequence on a state that joins those of the
    components, its log, and the whole start-up of a machine without disks.

  \<^bold>\<open>Fuel and bounds.\<close> \<open>readAll\<close> needs one round more than the file has bytes; a driver that polls a
  device needs as many rounds as the device takes plus a constant; the clock one round more than
  polls until its update is over. Files and blocks are shorter than 2 GiB where an \<open>int\<close> or a
  growing capacity would otherwise overflow; the theorems say so.

  The shell needs as many rounds as bytes are typed, and one more. A bus without devices answers the first poll.

  \<^bold>\<open>Not modelled.\<close> The vendored heap allocator (\<open>liballoc.c\<close>); \<open>libcpp\<close>, the re-implementation of
  standard headers, but for its exit functions, and the compile-time templates of \<open>libsys\<close>, which have
  no state of their own; assembly files and the switch between processes they do. The arguments of
  \<open>Boot\<close> stand for the linker's symbols and for the run of a program from its entry point. A program's own
  variables are values and not bytes of its memory, except where a system call reads or writes them. The
  establishment of \<open>mmu_inv\<close> by \<open>MMU::install\<close> is assumed by the theorems about the MMU and
  shown for a concrete machine by their witnesses.
\<close>

end
